(* ===== verification/Js_Prelude.thy ===== *)
theory Js_Prelude
  imports Main "HOL-Library.AList"
begin

text \<open>
  The part of JavaScript and of its standard library that the scripts under
  src/gui/web/assets/scripts use, shared by every other theory of the development.

  \<^item> A \<open>Map\<close> (and a \<open>WeakMap\<close>) is an association list with distinct keys in insertion
    order: \<open>set\<close> is \<open>AList.update\<close>, which overwrites in place and appends a new key at
    the end, \<open>delete\<close> is \<open>AList.delete\<close>, \<open>get\<close> is \<open>map_of\<close>.
  \<^item> A \<open>Set\<close> is a distinct list in insertion order (\<open>set_add\<close>, \<open>set_delete\<close>).
  \<^item> A string is a list of code units. The alphabet is the 256 characters of HOL's
    \<open>char\<close>, read as the code units 0 to 255; the whitespace and line terminator classes
    are those of ECMAScript restricted to that range.
\<close>

named_theorems js_simps \<open>equations of the JavaScript library model\<close>
named_theorems js_intros \<open>well-formedness facts of the JavaScript library model\<close>

section \<open>Sets in insertion order\<close>

definition set_add :: "'a \<Rightarrow> 'a list \<Rightarrow> 'a list" where
  "set_add x xs = (if x \<in> set xs then xs else xs @ [x])"

definition set_delete :: "'a \<Rightarrow> 'a list \<Rightarrow> 'a list" where
  "set_delete x xs = filter (\<lambda>y. y \<noteq> x) xs"

definition set_from :: "'a list \<Rightarrow> 'a list" where
  "set_from xs = fold set_add xs []"

lemma set_set_add [simp]: "set (set_add x xs) = insert x (set xs)"
  by (auto simp: set_add_def)

lemma distinct_set_add [simp, js_intros]: "distinct xs \<Longrightarrow> distinct (set_add x xs)"
  by (simp add: set_add_def)

lemma set_add_not_Nil [simp]: "set_add x xs \<noteq> []"
  by (auto simp: set_add_def)

lemma set_set_delete [simp]: "set (set_delete x xs) = set xs - {x}"
  by (auto simp: set_delete_def)

lemma distinct_set_delete [simp, js_intros]: "distinct xs \<Longrightarrow> distinct (set_delete x xs)"
  by (simp add: set_delete_def)

lemma set_delete_absent [simp]: "x \<notin> set xs \<Longrightarrow> set_delete x xs = xs"
  by (auto simp: set_delete_def filter_id_conv)

lemma set_add_present [simp]: "x \<in> set xs \<Longrightarrow> set_add x xs = xs"
  by (simp add: set_add_def)

lemma set_delete_set_add: "x \<notin> set xs \<Longrightarrow> set_delete x (set_add x xs) = xs"
  by (auto simp: set_add_def set_delete_def filter_id_conv)

lemma set_fold_set_add: "set (fold set_add xs acc) = set xs \<union> set acc"
  by (induction xs arbitrary: acc) auto

lemma distinct_fold_set_add: "distinct acc \<Longrightarrow> distinct (fold set_add xs acc)"
  by (induction xs arbitrary: acc) auto

lemma set_set_from [simp]: "set (set_from xs) = set xs"
  by (simp add: set_from_def set_fold_set_add)

lemma distinct_set_from [simp, js_intros]: "distinct (set_from xs)"
  by (simp add: set_from_def distinct_fold_set_add)

lemma set_from_id: "distinct xs \<Longrightarrow> set_from xs = xs"
proof (induction xs rule: rev_induct)
  case (snoc x xs)
  then show ?case by (simp add: set_from_def set_add_def)
qed (simp add: set_from_def)

section \<open>Maps in insertion order\<close>

type_synonym ('k, 'v) jsmap = "('k \<times> 'v) list"

definition map_wf :: "('k, 'v) jsmap \<Rightarrow> bool" where
  "map_wf m \<longleftrightarrow> distinct (map fst m)"

lemma map_wf_Nil [simp, js_intros]: "map_wf []"
  by (simp add: map_wf_def)

lemma map_wf_update [simp, js_intros]: "map_wf m \<Longrightarrow> map_wf (AList.update k v m)"
  by (simp add: map_wf_def distinct_update)

lemma map_wf_delete [simp, js_intros]: "map_wf m \<Longrightarrow> map_wf (AList.delete k m)"
  by (simp add: map_wf_def distinct_delete)

lemma map_of_update [simp]: "map_of (AList.update k v m) = (map_of m)(k \<mapsto> v)"
  by (rule update_conv')

lemma map_of_delete [simp]: "map_of (AList.delete k m) = (map_of m)(k := None)"
  by (rule delete_conv')

lemma map_wf_mem_iff: "map_wf m \<Longrightarrow> (k, v) \<in> set m \<longleftrightarrow> map_of m k = Some v"
  by (simp add: map_wf_def)

lemma map_of_mem: "map_of m k = Some v \<Longrightarrow> (k, v) \<in> set m"
  by (rule map_of_SomeD)

section \<open>Calls to a delegate\<close>

text \<open>
  An object that calls methods of a delegate is modelled by operations that return, beside
  the new state of the object, the calls in the order in which they are made. \<open>each\<close> runs
  an operation for every member of an array.
\<close>

fun each :: "('a \<Rightarrow> 's \<Rightarrow> 's \<times> 'c list) \<Rightarrow> 'a list \<Rightarrow> 's \<Rightarrow> 's \<times> 'c list" where
  "each f [] s = (s, [])"
| "each f (x # xs) s =
     (let (s1, cs1) = f x s; (s2, cs2) = each f xs s1 in (s2, cs1 @ cs2))"

lemma each_append:
  "each f (xs @ ys) s = (let (s1, cs1) = each f xs s; (s2, cs2) = each f ys s1 in (s2, cs1 @ cs2))"
  by (induction xs arbitrary: s) (auto simp: Let_def case_prod_unfold)

lemma each_invariant:
  assumes "\<And>x s. x \<in> set xs \<Longrightarrow> P s \<Longrightarrow> P (fst (f x s))" and "P s"
  shows "P (fst (each f xs s))"
  using assms by (induction xs arbitrary: s) (auto simp: Let_def case_prod_unfold)

end
