(* ===== verification/Multimap.thy ===== *)
theory Multimap
  imports Js_Prelude
begin

text \<open>
  The multimap of stimulus.js (lines 651 to 779): the functions \<open>add\<close>, \<open>del\<close>, \<open>fetch\<close>
  and \<open>prune\<close> on a map of sets, the class \<open>Multimap\<close> and its subclass
  \<open>IndexedMultimap\<close>, which also keeps the reverse index. The set that \<open>fetch\<close> returns
  is the one stored in the map, so adding to it or deleting from it is an update of the
  map at that key.
\<close>

section \<open>Maps of sets\<close>

type_synonym ('k, 'v) setmap = "('k, 'v list) jsmap"

definition fetch :: "('k, 'v) setmap \<Rightarrow> 'k \<Rightarrow> 'v list \<times> ('k, 'v) setmap" where
  "fetch m key = (case map_of m key of
     None \<Rightarrow> ([], AList.update key [] m)
   | Some vs \<Rightarrow> (vs, m))"

definition prune :: "('k, 'v) setmap \<Rightarrow> 'k \<Rightarrow> ('k, 'v) setmap" where
  "prune m key = (case map_of m key of
     None \<Rightarrow> m
   | Some vs \<Rightarrow> if length vs = 0 then AList.delete key m else m)"

definition add :: "('k, 'v) setmap \<Rightarrow> 'k \<Rightarrow> 'v \<Rightarrow> ('k, 'v) setmap" where
  "add m key v = (let (vs, m') = fetch m key in AList.update key (set_add v vs) m')"

definition del :: "('k, 'v) setmap \<Rightarrow> 'k \<Rightarrow> 'v \<Rightarrow> ('k, 'v) setmap" where
  "del m key v = (let (vs, m') = fetch m key
     in prune (AList.update key (set_delete v vs) m') key)"

text \<open>What a map of sets stands for: a relation between keys and members.\<close>

definition setmap_at :: "('k, 'v) setmap \<Rightarrow> 'k \<Rightarrow> 'v list" where
  "setmap_at m key = (case map_of m key of None \<Rightarrow> [] | Some vs \<Rightarrow> vs)"

definition setmap_rel :: "('k, 'v) setmap \<Rightarrow> ('k \<times> 'v) set" where
  "setmap_rel m = {(k, v). v \<in> set (setmap_at m k)}"

text \<open>
  The invariant: keys are distinct, every stored set has distinct members, and no stored
  set is empty (an emptied set is pruned).
\<close>

definition setmap_wf :: "('k, 'v) setmap \<Rightarrow> bool" where
  "setmap_wf m \<longleftrightarrow> map_wf m \<and> (\<forall>(k, vs) \<in> set m. distinct vs \<and> vs \<noteq> [])"

lemma setmap_wf_lookup:
  "setmap_wf m \<longleftrightarrow> map_wf m \<and> (\<forall>k vs. map_of m k = Some vs \<longrightarrow> distinct vs \<and> vs \<noteq> [])"
  unfolding setmap_wf_def using map_wf_mem_iff [of m] by fastforce

lemma map_of_add: "map_of (add m k v) = (map_of m)(k \<mapsto> set_add v (setmap_at m k))"
  by (auto simp: add_def fetch_def setmap_at_def split: option.splits)

lemma map_of_del:
  "map_of (del m k v) = (map_of m)(k :=
     (let vs = set_delete v (setmap_at m k) in if vs = [] then None else Some vs))"
  by (auto simp: del_def fetch_def prune_def setmap_at_def Let_def split: option.splits)

lemma setmap_at_add:
  "setmap_at (add m k v) k' = (if k' = k then set_add v (setmap_at m k) else setmap_at m k')"
  by (simp add: setmap_at_def map_of_add)

lemma setmap_at_del:
  "setmap_at (del m k v) k' = (if k' = k then set_delete v (setmap_at m k) else setmap_at m k')"
  by (auto simp: setmap_at_def map_of_del Let_def)

lemma setmap_rel_Nil [simp]: "setmap_rel [] = {}"
  by (simp add: setmap_rel_def setmap_at_def)

lemma setmap_rel_add [simp]: "setmap_rel (add m k v) = insert (k, v) (setmap_rel m)"
  by (auto simp: setmap_rel_def setmap_at_add split: if_splits)

lemma setmap_rel_del [simp]: "setmap_rel (del m k v) = setmap_rel m - {(k, v)}"
  by (auto simp: setmap_rel_def setmap_at_del split: if_splits)

lemma map_wf_add: "map_wf m \<Longrightarrow> map_wf (add m k v)"
  by (auto simp: add_def fetch_def split: option.splits)

lemma map_wf_del: "map_wf m \<Longrightarrow> map_wf (del m k v)"
  by (auto simp: del_def fetch_def prune_def split: option.splits)

lemma setmap_at_distinct: "setmap_wf m \<Longrightarrow> distinct (setmap_at m k)"
  by (auto simp: setmap_wf_lookup setmap_at_def split: option.splits)

lemma setmap_wf_add [js_intros]:
  assumes "setmap_wf m"
  shows "setmap_wf (add m k v)"
  using assms setmap_at_distinct [OF assms]
  by (auto simp: setmap_wf_lookup map_of_add map_wf_add split: if_splits)

lemma setmap_wf_del [js_intros]:
  assumes "setmap_wf m"
  shows "setmap_wf (del m k v)"
  using assms setmap_at_distinct [OF assms]
  by (auto simp: setmap_wf_lookup map_of_del map_wf_del Let_def split: if_splits)

lemma setmap_wf_at_Nil_iff: "setmap_wf m \<Longrightarrow> setmap_at m k = [] \<longleftrightarrow> map_of m k = None"
  by (auto simp: setmap_wf_lookup setmap_at_def split: option.splits)

section \<open>The contract of a multimap\<close>

text \<open>
  What a client of either class relies on: the operations act on a relation between keys
  and values. The invariant of the representation is part of the contract.
\<close>

locale multimap_contract =
  fixes empty :: "'m"
    and ins :: "'m \<Rightarrow> 'k \<Rightarrow> 'v \<Rightarrow> 'm"
    and rem :: "'m \<Rightarrow> 'k \<Rightarrow> 'v \<Rightarrow> 'm"
    and mem :: "'m \<Rightarrow> 'k \<Rightarrow> 'v \<Rightarrow> bool"
    and vals_at :: "'m \<Rightarrow> 'k \<Rightarrow> 'v list"
    and keys_at :: "'m \<Rightarrow> 'v \<Rightarrow> 'k list"
    and rel :: "'m \<Rightarrow> ('k \<times> 'v) set"
    and inv :: "'m \<Rightarrow> bool"
  assumes inv_empty: "inv empty"
    and inv_ins: "inv m \<Longrightarrow> inv (ins m k v)"
    and inv_rem: "inv m \<Longrightarrow> inv (rem m k v)"
    and rel_empty: "rel empty = {}"
    and rel_ins: "inv m \<Longrightarrow> rel (ins m k v) = insert (k, v) (rel m)"
    and rel_rem: "inv m \<Longrightarrow> rel (rem m k v) = rel m - {(k, v)}"
    and mem_rel: "inv m \<Longrightarrow> mem m k v \<longleftrightarrow> (k, v) \<in> rel m"
    and vals_at_rel: "inv m \<Longrightarrow> set (vals_at m k) = {v. (k, v) \<in> rel m}"
    and vals_at_distinct: "inv m \<Longrightarrow> distinct (vals_at m k)"
    and keys_at_rel: "inv m \<Longrightarrow> set (keys_at m v) = {k. (k, v) \<in> rel m}"
    and keys_at_distinct: "inv m \<Longrightarrow> distinct (keys_at m v)"
begin

lemma mem_ins: "inv m \<Longrightarrow> mem (ins m k v) k' v' \<longleftrightarrow> (k' = k \<and> v' = v) \<or> mem m k' v'"
  by (auto simp: mem_rel rel_ins inv_ins)

lemma mem_rem: "inv m \<Longrightarrow> mem (rem m k v) k' v' \<longleftrightarrow> mem m k' v' \<and> \<not> (k' = k \<and> v' = v)"
  by (auto simp: mem_rel rel_rem inv_rem)

lemma keys_vals_galois: "inv m \<Longrightarrow> k \<in> set (keys_at m v) \<longleftrightarrow> v \<in> set (vals_at m k)"
  by (simp add: keys_at_rel vals_at_rel)

definition run :: "('k \<times> 'v \<times> bool) list \<Rightarrow> 'm \<Rightarrow> 'm" where
  "run ops m = fold (\<lambda>(k, v, b) m. if b then ins m k v else rem m k v) ops m"

lemma inv_run: "inv m \<Longrightarrow> inv (run ops m)"
  unfolding run_def by (induction ops arbitrary: m) (auto simp: inv_ins inv_rem)

lemma rel_run:
  "inv m \<Longrightarrow> rel (run ops m) =
     fold (\<lambda>(k, v, b) R. if b then insert (k, v) R else R - {(k, v)}) ops (rel m)"
  unfolding run_def
  by (induction ops arbitrary: m) (auto simp: inv_ins inv_rem rel_ins rel_rem)

end

section \<open>The class Multimap\<close>

record ('k, 'v) multimap =
  valuesByKey :: "('k, 'v) setmap"

definition new_Multimap :: "('k, 'v) multimap" where
  "new_Multimap = \<lparr>valuesByKey = []\<rparr>"

definition Multimap_values :: "('k, 'v, 'z) multimap_scheme \<Rightarrow> 'v list" where
  "Multimap_values m = foldl (\<lambda>vs s. vs @ s) [] (map snd (valuesByKey m))"

definition Multimap_size :: "('k, 'v, 'z) multimap_scheme \<Rightarrow> nat" where
  "Multimap_size m = foldl (\<lambda>n s. n + length s) 0 (map snd (valuesByKey m))"

definition Multimap_add ::
  "('k, 'v, 'z) multimap_scheme \<Rightarrow> 'k \<Rightarrow> 'v \<Rightarrow> ('k, 'v, 'z) multimap_scheme" where
  "Multimap_add m key v = m\<lparr>valuesByKey := add (valuesByKey m) key v\<rparr>"

definition Multimap_delete ::
  "('k, 'v, 'z) multimap_scheme \<Rightarrow> 'k \<Rightarrow> 'v \<Rightarrow> ('k, 'v, 'z) multimap_scheme" where
  "Multimap_delete m key v = m\<lparr>valuesByKey := del (valuesByKey m) key v\<rparr>"

definition Multimap_has :: "('k, 'v, 'z) multimap_scheme \<Rightarrow> 'k \<Rightarrow> 'v \<Rightarrow> bool" where
  "Multimap_has m key v = (case map_of (valuesByKey m) key of
     None \<Rightarrow> False
   | Some vs \<Rightarrow> v \<in> set vs)"

definition Multimap_hasKey :: "('k, 'v, 'z) multimap_scheme \<Rightarrow> 'k \<Rightarrow> bool" where
  "Multimap_hasKey m key \<longleftrightarrow> map_of (valuesByKey m) key \<noteq> None"

definition Multimap_hasValue :: "('k, 'v, 'z) multimap_scheme \<Rightarrow> 'v \<Rightarrow> bool" where
  "Multimap_hasValue m v = list_ex (\<lambda>s. v \<in> set s) (map snd (valuesByKey m))"

definition getValuesForKey :: "('k, 'v, 'z) multimap_scheme \<Rightarrow> 'k \<Rightarrow> 'v list" where
  "getValuesForKey m key = (case map_of (valuesByKey m) key of None \<Rightarrow> [] | Some vs \<Rightarrow> vs)"

definition Multimap_getKeysForValue :: "('k, 'v, 'z) multimap_scheme \<Rightarrow> 'v \<Rightarrow> 'k list" where
  "Multimap_getKeysForValue m v =
     map (\<lambda>(key, vs). key) (filter (\<lambda>(key, vs). v \<in> set vs) (valuesByKey m))"

definition multimap_wf :: "('k, 'v, 'z) multimap_scheme \<Rightarrow> bool" where
  "multimap_wf m \<longleftrightarrow> setmap_wf (valuesByKey m)"

definition multimap_rel :: "('k, 'v, 'z) multimap_scheme \<Rightarrow> ('k \<times> 'v) set" where
  "multimap_rel m = setmap_rel (valuesByKey m)"

lemma getValuesForKey_at: "getValuesForKey m k = setmap_at (valuesByKey m) k"
  by (simp add: getValuesForKey_def setmap_at_def)

lemma Multimap_getKeysForValue_set:
  assumes "multimap_wf m"
  shows "set (Multimap_getKeysForValue m v) = {k. (k, v) \<in> multimap_rel m}"
proof -
  have "map_wf (valuesByKey m)"
    using assms by (simp add: multimap_wf_def setmap_wf_def)
  then show ?thesis
    by (force simp: Multimap_getKeysForValue_def multimap_rel_def setmap_rel_def setmap_at_def
        map_wf_mem_iff dest: map_of_mem split: option.splits)
qed

lemma Multimap_getKeysForValue_distinct:
  "multimap_wf m \<Longrightarrow> distinct (Multimap_getKeysForValue m v)"
  by (auto simp: Multimap_getKeysForValue_def multimap_wf_def setmap_wf_def map_wf_def
      case_prod_unfold intro: distinct_map_filter)

interpretation mm: multimap_contract
  "new_Multimap :: ('k, 'v) multimap" Multimap_add Multimap_delete Multimap_has
  getValuesForKey Multimap_getKeysForValue multimap_rel multimap_wf
proof unfold_locales
  fix m :: "('k, 'v) multimap" and k :: 'k and v :: 'v
  show "multimap_wf (new_Multimap :: ('k, 'v) multimap)"
    by (simp add: multimap_wf_def new_Multimap_def setmap_wf_def)
  show "multimap_rel (new_Multimap :: ('k, 'v) multimap) = {}"
    by (simp add: multimap_rel_def new_Multimap_def)
  assume wf: "multimap_wf m"
  show "multimap_wf (Multimap_add m k v)" and "multimap_wf (Multimap_delete m k v)"
    using wf
    by (simp_all add: multimap_wf_def Multimap_add_def Multimap_delete_def
        setmap_wf_add setmap_wf_del)
  show "multimap_rel (Multimap_add m k v) = insert (k, v) (multimap_rel m)"
    and "multimap_rel (Multimap_delete m k v) = multimap_rel m - {(k, v)}"
    by (simp_all add: multimap_rel_def Multimap_add_def Multimap_delete_def)
  show "Multimap_has m k v \<longleftrightarrow> (k, v) \<in> multimap_rel m"
    by (simp add: Multimap_has_def multimap_rel_def setmap_rel_def setmap_at_def
        split: option.split)
  show "set (getValuesForKey m k) = {v. (k, v) \<in> multimap_rel m}"
    by (simp add: getValuesForKey_at multimap_rel_def setmap_rel_def)
  show "distinct (getValuesForKey m k)"
    using wf by (simp add: getValuesForKey_at multimap_wf_def setmap_at_distinct)
  show "set (Multimap_getKeysForValue m v) = {k. (k, v) \<in> multimap_rel m}"
    using wf by (rule Multimap_getKeysForValue_set)
  show "distinct (Multimap_getKeysForValue m v)"
    using wf by (rule Multimap_getKeysForValue_distinct)
qed

section \<open>The class IndexedMultimap\<close>

record ('k, 'v) indexed_multimap = "('k, 'v) multimap" +
  keysByValue :: "('v, 'k) setmap"

definition new_IndexedMultimap :: "('k, 'v) indexed_multimap" where
  "new_IndexedMultimap = multimap.extend new_Multimap \<lparr>keysByValue = []\<rparr>"

definition IndexedMultimap_values :: "('k, 'v) indexed_multimap \<Rightarrow> 'v list" where
  "IndexedMultimap_values m = map fst (keysByValue m)"

definition IndexedMultimap_add ::
  "('k, 'v) indexed_multimap \<Rightarrow> 'k \<Rightarrow> 'v \<Rightarrow> ('k, 'v) indexed_multimap" where
  "IndexedMultimap_add m key v =
     (let m = Multimap_add m key v in m\<lparr>keysByValue := add (keysByValue m) v key\<rparr>)"

definition IndexedMultimap_delete ::
  "('k, 'v) indexed_multimap \<Rightarrow> 'k \<Rightarrow> 'v \<Rightarrow> ('k, 'v) indexed_multimap" where
  "IndexedMultimap_delete m key v =
     (let m = Multimap_delete m key v in m\<lparr>keysByValue := del (keysByValue m) v key\<rparr>)"

definition IndexedMultimap_hasValue :: "('k, 'v) indexed_multimap \<Rightarrow> 'v \<Rightarrow> bool" where
  "IndexedMultimap_hasValue m v \<longleftrightarrow> map_of (keysByValue m) v \<noteq> None"

definition IndexedMultimap_getKeysForValue :: "('k, 'v) indexed_multimap \<Rightarrow> 'v \<Rightarrow> 'k list" where
  "IndexedMultimap_getKeysForValue m v = (case map_of (keysByValue m) v of None \<Rightarrow> [] | Some ks \<Rightarrow> ks)"

text \<open>The reverse index holds exactly the converse of the relation of the base class.\<close>

definition indexed_wf :: "('k, 'v) indexed_multimap \<Rightarrow> bool" where
  "indexed_wf m \<longleftrightarrow> multimap_wf m \<and> setmap_wf (keysByValue m) \<and>
     setmap_rel (keysByValue m) = (multimap_rel m)\<inverse>"

lemma IndexedMultimap_getKeysForValue_at:
  "IndexedMultimap_getKeysForValue m v = setmap_at (keysByValue m) v"
  by (simp add: IndexedMultimap_getKeysForValue_def setmap_at_def)

lemmas indexed_defs = indexed_wf_def multimap_wf_def multimap_rel_def Let_def
  IndexedMultimap_add_def IndexedMultimap_delete_def Multimap_add_def Multimap_delete_def

interpretation im: multimap_contract
  "new_IndexedMultimap :: ('k, 'v) indexed_multimap" IndexedMultimap_add IndexedMultimap_delete
  Multimap_has getValuesForKey IndexedMultimap_getKeysForValue multimap_rel indexed_wf
proof unfold_locales
  fix m :: "('k, 'v) indexed_multimap" and k :: 'k and v :: 'v
  show "indexed_wf (new_IndexedMultimap :: ('k, 'v) indexed_multimap)"
    by (simp add: indexed_defs new_IndexedMultimap_def new_Multimap_def multimap.defs setmap_wf_def)
  show "multimap_rel (new_IndexedMultimap :: ('k, 'v) indexed_multimap) = {}"
    by (simp add: multimap_rel_def new_IndexedMultimap_def new_Multimap_def multimap.defs)
  assume wf: "indexed_wf m"
  show "indexed_wf (IndexedMultimap_add m k v)" and "indexed_wf (IndexedMultimap_delete m k v)"
    using wf by (auto simp: indexed_defs setmap_wf_add setmap_wf_del)
  show "multimap_rel (IndexedMultimap_add m k v) = insert (k, v) (multimap_rel m)"
    and "multimap_rel (IndexedMultimap_delete m k v) = multimap_rel m - {(k, v)}"
    by (simp_all add: indexed_defs)
  show "Multimap_has m k v \<longleftrightarrow> (k, v) \<in> multimap_rel m"
    by (simp add: Multimap_has_def multimap_rel_def setmap_rel_def setmap_at_def
        split: option.split)
  show "set (getValuesForKey m k) = {v. (k, v) \<in> multimap_rel m}"
    by (simp add: getValuesForKey_at multimap_rel_def setmap_rel_def)
  show "distinct (getValuesForKey m k)"
    using wf by (simp add: getValuesForKey_at indexed_defs setmap_at_distinct)
  show "set (IndexedMultimap_getKeysForValue m v) = {k. (k, v) \<in> multimap_rel m}"
  proof -
    have "set (IndexedMultimap_getKeysForValue m v) = {k. (v, k) \<in> setmap_rel (keysByValue m)}"
      by (simp add: IndexedMultimap_getKeysForValue_at setmap_rel_def)
    then show ?thesis using wf by (simp add: indexed_wf_def)
  qed
  show "distinct (IndexedMultimap_getKeysForValue m v)"
    using wf by (simp add: IndexedMultimap_getKeysForValue_at indexed_wf_def setmap_at_distinct)
qed

section \<open>Any sequence of operations\<close>

text \<open>
  \<open>Multimap_run\<close> and \<open>IndexedMultimap_run\<close> apply a sequence of calls to a fresh object;
  the flag of a call is \<open>True\<close> for \<open>add\<close> and \<open>False\<close> for \<open>delete\<close>.
\<close>

definition Multimap_run :: "('k \<times> 'v \<times> bool) list \<Rightarrow> ('k, 'v) multimap" where
  "Multimap_run calls = fold (\<lambda>(k, v, b) m. if b then Multimap_add m k v else Multimap_delete m k v)
     calls new_Multimap"

definition IndexedMultimap_run :: "('k \<times> 'v \<times> bool) list \<Rightarrow> ('k, 'v) indexed_multimap" where
  "IndexedMultimap_run calls =
     fold (\<lambda>(k, v, b) m. if b then IndexedMultimap_add m k v else IndexedMultimap_delete m k v)
     calls new_IndexedMultimap"

definition rel_replay :: "('k \<times> 'v \<times> bool) list \<Rightarrow> ('k \<times> 'v) set" where
  "rel_replay calls = fold (\<lambda>(k, v, b) R. if b then insert (k, v) R else R - {(k, v)}) calls {}"

lemma Multimap_run_wf [simp]: "multimap_wf (Multimap_run calls)"
  using mm.inv_run [OF mm.inv_empty, of calls] by (simp add: Multimap_run_def mm.run_def)

lemma Multimap_run_rel [simp]: "multimap_rel (Multimap_run calls) = rel_replay calls"
  using mm.rel_run [OF mm.inv_empty, of calls]
  by (simp add: Multimap_run_def mm.run_def mm.rel_empty rel_replay_def)

lemma IndexedMultimap_run_wf [simp]: "indexed_wf (IndexedMultimap_run calls)"
  using im.inv_run [OF im.inv_empty, of calls] by (simp add: IndexedMultimap_run_def im.run_def)

text \<open>The last call about a pair, if there was one.\<close>

definition last_call :: "('k \<times> 'v \<times> bool) list \<Rightarrow> 'k \<Rightarrow> 'v \<Rightarrow> bool option" where
  "last_call calls k v = map_of (map (\<lambda>(k, v, b). ((k, v), b)) (rev calls)) (k, v)"

lemma rel_replay_last: "(k, v) \<in> rel_replay calls \<longleftrightarrow> last_call calls k v = Some True"
  by (induction calls rule: rev_induct) (auto simp: rel_replay_def last_call_def split: if_splits)

lemma setmap_rel_iff: "(k, v) \<in> setmap_rel m \<longleftrightarrow> (\<exists>vs. map_of m k = Some vs \<and> v \<in> set vs)"
  by (cases "map_of m k") (simp_all add: setmap_rel_def setmap_at_def)

lemma setmap_values_set:
  assumes "map_wf m"
  shows "set (concat (map snd m)) = snd ` setmap_rel m"
proof -
  have "v \<in> snd ` setmap_rel m \<longleftrightarrow> (\<exists>k vs. (k, vs) \<in> set m \<and> v \<in> set vs)" for v
    by (auto simp: image_iff setmap_rel_iff Bex_def map_wf_mem_iff [OF assms])
  moreover have "v \<in> set (concat (map snd m)) \<longleftrightarrow> (\<exists>k vs. (k, vs) \<in> set m \<and> v \<in> set vs)" for v
    by (simp add: Bex_def split_paired_Ex)
  ultimately show ?thesis by (intro set_eqI) (simp only:)
qed

lemma foldl_append_concat: "foldl (\<lambda>vs s. vs @ s) acc xss = acc @ concat xss"
  by (induction xss arbitrary: acc) auto

lemma Multimap_values_set: "multimap_wf m \<Longrightarrow> set (Multimap_values m) = snd ` multimap_rel m"
  by (simp add: Multimap_values_def foldl_append_concat multimap_rel_def multimap_wf_def
      setmap_wf_def setmap_values_set del: set_concat)

lemma setmap_rel_Cons:
  "setmap_rel ((k, vs) # m) = ({k} \<times> set vs) \<union> {(k', v). (k', v) \<in> setmap_rel m \<and> k' \<noteq> k}"
  by (auto simp: setmap_rel_def setmap_at_def split: if_splits)

lemma setmap_size:
  "setmap_wf m \<Longrightarrow> finite (setmap_rel m) \<and> card (setmap_rel m) = sum_list (map (length \<circ> snd) m)"
proof (induction m)
  case Nil
  show ?case by simp
next
  case (Cons kv m)
  obtain k vs where kv: "kv = (k, vs)" by (cases kv)
  from Cons.prems have m: "setmap_wf m" "distinct vs" "map_of m k = None"
    by (auto simp: setmap_wf_def kv map_wf_def map_of_eq_None_iff)
  have "{(k', v). (k', v) \<in> setmap_rel m \<and> k' \<noteq> k} = setmap_rel m"
    using m(3) by (auto simp: setmap_rel_def setmap_at_def)
  then have "setmap_rel (kv # m) = ({k} \<times> set vs) \<union> setmap_rel m"
    by (simp add: kv setmap_rel_Cons)
  moreover have "({k} \<times> set vs) \<inter> setmap_rel m = {}"
    using m(3) by (auto simp: setmap_rel_def setmap_at_def)
  moreover have "card ({k} \<times> set vs) = length vs"
    using m(2) by (simp add: card_cartesian_product distinct_card)
  ultimately show ?case
    using Cons.IH [OF m(1)] by (simp add: kv card_Un_disjoint)
qed

lemma foldl_plus_length: "foldl (\<lambda>n s. n + length s) a xss = a + sum_list (map length xss)"
  by (induction xss arbitrary: a) auto

lemma Multimap_size_card: "multimap_wf m \<Longrightarrow> Multimap_size m = card (multimap_rel m)"
  using setmap_size [of "valuesByKey m"]
  by (simp add: Multimap_size_def foldl_plus_length multimap_wf_def multimap_rel_def o_def)

text \<open>
  C7: After any sequence of \<open>add\<close> and \<open>delete\<close> calls on a fresh \<open>Multimap\<close>, \<open>has\<close> answers
  true for a key and a value exactly when the last call about that pair was an \<open>add\<close>;
  \<open>getValuesForKey\<close> and \<open>getKeysForValue\<close> list, without repetition, the members of that
  relation; \<open>hasKey\<close> is true only for keys that still have a value (emptied sets are pruned);
  and \<open>size\<close> is the number of pairs.
\<close>

theorem Multimap_run_correct:
  "(Multimap_has (Multimap_run calls) k v \<longleftrightarrow>
      last_call calls k v = Some True)
   \<and> (v \<in> set (getValuesForKey (Multimap_run calls) k) \<longleftrightarrow> Multimap_has (Multimap_run calls) k v)
   \<and> (k \<in> set (Multimap_getKeysForValue (Multimap_run calls) v)
        \<longleftrightarrow> Multimap_has (Multimap_run calls) k v)
   \<and> distinct (getValuesForKey (Multimap_run calls) k)
   \<and> distinct (Multimap_getKeysForValue (Multimap_run calls) v)
   \<and> (Multimap_hasKey (Multimap_run calls) k \<longleftrightarrow> getValuesForKey (Multimap_run calls) k \<noteq> [])
   \<and> Multimap_size (Multimap_run calls) =
        card {(k', v'). Multimap_has (Multimap_run calls) k' v'}"
proof (intro conjI)
  let ?m = "Multimap_run calls"
  have wf: "multimap_wf ?m" by simp
  show "Multimap_has ?m k v \<longleftrightarrow> last_call calls k v = Some True"
    by (simp add: mm.mem_rel rel_replay_last)
  show "v \<in> set (getValuesForKey ?m k) \<longleftrightarrow> Multimap_has ?m k v"
    and "k \<in> set (Multimap_getKeysForValue ?m v) \<longleftrightarrow> Multimap_has ?m k v"
    by (simp_all add: mm.mem_rel mm.vals_at_rel mm.keys_at_rel)
  show "distinct (getValuesForKey ?m k)" and "distinct (Multimap_getKeysForValue ?m v)"
    using wf by (rule mm.vals_at_distinct, rule mm.keys_at_distinct)
  show "Multimap_hasKey ?m k \<longleftrightarrow> getValuesForKey ?m k \<noteq> []"
    using wf by (simp add: Multimap_hasKey_def getValuesForKey_at multimap_wf_def setmap_wf_at_Nil_iff)
  show "Multimap_size ?m = card {(k', v'). Multimap_has ?m k' v'}"
    using wf by (simp add: Multimap_size_card mm.mem_rel)
qed

text \<open>
  C25: The reverse index that \<open>IndexedMultimap\<close> maintains answers exactly what the base class
  would compute by scanning: after any sequence of calls, \<open>getKeysForValue\<close>, \<open>hasValue\<close>
  and \<open>values\<close> of the subclass agree, as sets, with the inherited definitions on the same
  object, and the subclass lists each value once.
\<close>

theorem IndexedMultimap_index_agrees:
  "set (IndexedMultimap_getKeysForValue (IndexedMultimap_run calls) v) =
     set (Multimap_getKeysForValue (IndexedMultimap_run calls) v)
   \<and> IndexedMultimap_hasValue (IndexedMultimap_run calls) v =
     Multimap_hasValue (IndexedMultimap_run calls) v
   \<and> set (IndexedMultimap_values (IndexedMultimap_run calls)) =
     set (Multimap_values (IndexedMultimap_run calls))
   \<and> distinct (IndexedMultimap_values (IndexedMultimap_run calls))"
proof -
  let ?m = "IndexedMultimap_run calls"
  have wf: "indexed_wf ?m" by simp
  then have base: "multimap_wf ?m" and idx: "setmap_wf (keysByValue ?m)"
    and conv: "setmap_rel (keysByValue ?m) = (multimap_rel ?m)\<inverse>"
    by (simp_all add: indexed_wf_def)
  have keys: "set (IndexedMultimap_getKeysForValue ?m v) = set (Multimap_getKeysForValue ?m v)"
    using wf base by (simp add: im.keys_at_rel Multimap_getKeysForValue_set)
  have dom: "set (map fst (keysByValue ?m)) = snd ` multimap_rel ?m"
  proof -
    have "w \<in> fst ` set (keysByValue ?m) \<longleftrightarrow> (\<exists>k. (w, k) \<in> setmap_rel (keysByValue ?m))" for w
      using setmap_wf_at_Nil_iff [OF idx, of w]
      by (auto simp: setmap_rel_def map_of_eq_None_iff) (metis list.set_intros(1) neq_Nil_conv)
    then show ?thesis by (force simp: conv image_iff)
  qed
  have hasV: "Multimap_hasValue ?m v \<longleftrightarrow> v \<in> snd ` multimap_rel ?m"
    using Multimap_values_set [OF base]
    by (force simp: Multimap_hasValue_def Multimap_values_def foldl_append_concat list_ex_iff)
  have "IndexedMultimap_hasValue ?m v \<longleftrightarrow> v \<in> snd ` multimap_rel ?m"
    using dom by (auto simp: IndexedMultimap_hasValue_def map_of_eq_None_iff)
  then show ?thesis
    using keys hasV dom Multimap_values_set [OF base] idx
    by (simp add: IndexedMultimap_values_def setmap_wf_def map_wf_def)
qed

end
