(* ===== verification/Js_String.thy ===== *)
theory Js_String
  imports Js_Prelude
begin

text \<open>
  The string operations of ECMAScript that the scripts call: \<open>trim\<close>, \<open>split\<close> on a
  character and on \<open>/\s+/\<close>, \<open>replace(/\s+/g, ' ')\<close>, \<open>join\<close>, the decimal rendering
  of integers and \<open>parseInt\<close>.
\<close>

section \<open>Whitespace\<close>

definition is_ws :: "char \<Rightarrow> bool" where
  "is_ws c \<longleftrightarrow> of_char c \<in> {9, 10, 11, 12, 13, 32, 160 :: nat}"

definition trim :: "string \<Rightarrow> string" where
  "trim s = rev (dropWhile is_ws (rev (dropWhile is_ws s)))"

text \<open>\<open>s.replace(/\s+/g, ' ')\<close>: every maximal run of whitespace becomes one space.\<close>

function collapse :: "string \<Rightarrow> string" where
  "collapse [] = []"
| "collapse (c # cs) =
     (if is_ws c then CHR '' '' # collapse (dropWhile is_ws cs) else c # collapse cs)"
  by pat_completeness auto
termination
  by (relation "measure length") (auto simp: less_Suc_eq_le length_dropWhile_le)

text \<open>\<open>s.split(/\s+/)\<close>: the pieces between maximal runs of whitespace.\<close>

function split_ws :: "string \<Rightarrow> string list" where
  "split_ws s = (case dropWhile (\<lambda>c. \<not> is_ws c) s of
     [] \<Rightarrow> [s]
   | c # rest \<Rightarrow> takeWhile (\<lambda>c. \<not> is_ws c) s # split_ws (dropWhile is_ws rest))"
  by pat_completeness auto
termination
proof (relation "measure length")
  fix s c rest
  assume "dropWhile (\<lambda>c. \<not> is_ws c) s = c # rest"
  then have "length (c # rest) \<le> length s"
    by (metis length_dropWhile_le)
  then show "(dropWhile is_ws rest, s) \<in> measure length"
    using length_dropWhile_le [of is_ws rest] by simp
qed simp

declare split_ws.simps [simp del]

text \<open>\<open>s.split(sep)\<close> for a separator of one character, and \<open>parts.join(sep)\<close>.\<close>

fun split_on :: "char \<Rightarrow> string \<Rightarrow> string list" where
  "split_on sep [] = [[]]"
| "split_on sep (c # cs) =
     (if c = sep then [] # split_on sep cs
      else (case split_on sep cs of [] \<Rightarrow> [[c]] | p # ps \<Rightarrow> (c # p) # ps))"

fun join :: "string \<Rightarrow> string list \<Rightarrow> string" where
  "join sep [] = []"
| "join sep [p] = p"
| "join sep (p # q # ps) = p @ sep @ join sep (q # ps)"

lemma split_on_not_Nil [simp]: "split_on sep s \<noteq> []"
  by (cases s) (auto split: list.splits)

lemma join_split_on [simp]: "join [sep] (split_on sep s) = s"
proof (induction s)
  case Nil
  show ?case by simp
next
  case (Cons c cs)
  obtain p ps where "split_on sep cs = p # ps"
    by (cases "split_on sep cs") auto
  with Cons.IH show ?case by (cases ps) auto
qed

lemma split_on_no_sep: "p \<in> set (split_on sep s) \<Longrightarrow> sep \<notin> set p"
  by (induction s arbitrary: p) (auto split: list.splits if_splits)

lemma split_on_absent: "sep \<notin> set s \<Longrightarrow> split_on sep s = [s]"
  by (induction s) auto

lemma split_on_append_sep: "sep \<notin> set p \<Longrightarrow> split_on sep (p @ sep # s) = p # split_on sep s"
  by (induction p) auto

lemma split_on_join:
  "ps \<noteq> [] \<Longrightarrow> \<forall>p \<in> set ps. sep \<notin> set p \<Longrightarrow> split_on sep (join [sep] ps) = ps"
  by (induction "[sep]" ps rule: join.induct) (auto simp: split_on_absent split_on_append_sep)

section \<open>Facts about whitespace\<close>

lemma dropWhile_ws_hd: "dropWhile is_ws s = c # cs \<Longrightarrow> \<not> is_ws c"
  by (metis hd_dropWhile list.distinct(1) list.sel(1))

definition no_ws_ends :: "string \<Rightarrow> bool" where
  "no_ws_ends s \<longleftrightarrow> s = [] \<or> (\<not> is_ws (hd s) \<and> \<not> is_ws (last s))"

lemma trim_Nil [simp]: "trim [] = []"
  by (simp add: trim_def)

lemma trim_ends: "no_ws_ends (trim s)"
proof (cases "trim s = []")
  case True
  then show ?thesis by (simp add: no_ws_ends_def)
next
  case False
  define t where "t = dropWhile is_ws s"
  define u where "u = dropWhile is_ws (rev t)"
  have tr: "trim s = rev u" by (simp add: trim_def t_def u_def)
  with False have u: "u \<noteq> []" by simp
  then have last: "\<not> is_ws (hd u)" unfolding u_def by (rule hd_dropWhile)
  have "rev t = takeWhile is_ws (rev t) @ u" by (simp add: u_def)
  then have t: "t = rev u @ rev (takeWhile is_ws (rev t))"
    by (metis rev_append rev_rev_ident)
  with u have "t \<noteq> []" and "hd t = hd (rev u)" by (metis Nil_is_append_conv rev_is_Nil_conv, metis hd_append2 rev_is_Nil_conv)
  moreover from \<open>t \<noteq> []\<close> have "\<not> is_ws (hd t)" unfolding t_def by (rule hd_dropWhile)
  ultimately show ?thesis using u last by (simp add: no_ws_ends_def tr last_rev)
qed

lemma trim_id:
  assumes "no_ws_ends s"
  shows "trim s = s"
proof (cases "s = []")
  case False
  then obtain c cs ys y where s: "s = c # cs" "s = ys @ [y]"
    by (metis list.exhaust rev_exhaust)
  have "\<not> is_ws (hd s)" "\<not> is_ws (last s)"
    using assms False by (auto simp: no_ws_ends_def)
  then have "\<not> is_ws c" "\<not> is_ws y"
    by (simp add: s(1)) (use \<open>\<not> is_ws (last s)\<close> s(2) in simp)
  then have "dropWhile is_ws s = s" and "dropWhile is_ws (rev s) = rev s"
    by (simp add: s(1)) (simp add: s(2) \<open>\<not> is_ws y\<close>)
  then show ?thesis by (simp add: trim_def)
qed simp

lemma trim_idem [simp]: "trim (trim s) = trim s"
  by (simp add: trim_id trim_ends)

lemma set_trim: "set (trim s) \<subseteq> set s"
  unfolding trim_def by (auto dest!: set_dropWhileD)

text \<open>No two adjacent whitespace characters, and every whitespace character is a space.\<close>

fun single_spaced :: "string \<Rightarrow> bool" where
  "single_spaced [] = True"
| "single_spaced [c] = (is_ws c \<longrightarrow> c = CHR '' '')"
| "single_spaced (c # d # cs) =
     ((is_ws c \<longrightarrow> c = CHR '' '' \<and> \<not> is_ws d) \<and> single_spaced (d # cs))"

lemma collapse_hd_ws:
  "collapse s \<noteq> [] \<Longrightarrow> is_ws (hd (collapse s)) \<longleftrightarrow> is_ws (hd s)"
  by (cases s) (auto simp: is_ws_def)

lemma single_spaced_Cons:
  "single_spaced (c # cs) \<longleftrightarrow>
     (is_ws c \<longrightarrow> c = CHR '' '' \<and> (cs = [] \<or> \<not> is_ws (hd cs))) \<and> single_spaced cs"
  by (cases cs) auto

lemma collapse_Nil_iff [simp]: "collapse s = [] \<longleftrightarrow> s = []"
  by (cases s) auto

lemma single_spaced_collapse: "single_spaced (collapse s)"
proof (induction s rule: collapse.induct)
  case (2 c cs)
  show ?case
  proof (cases "is_ws c")
    case True
    have "dropWhile is_ws cs = [] \<or> \<not> is_ws (hd (dropWhile is_ws cs))"
      using hd_dropWhile [of is_ws cs] by blast
    with True "2.IH"(1) show ?thesis
      using collapse_hd_ws [of "dropWhile is_ws cs"] by (auto simp: single_spaced_Cons)
  next
    case False
    with "2.IH"(2) show ?thesis by (simp add: single_spaced_Cons)
  qed
qed simp

lemma single_spaced_drop: "single_spaced (xs @ ys) \<Longrightarrow> single_spaced ys"
  by (induction xs) (auto simp: single_spaced_Cons)

lemma single_spaced_take: "single_spaced (xs @ ys) \<Longrightarrow> single_spaced xs"
proof (induction xs)
  case (Cons c cs)
  then show ?case by (cases cs) (auto simp: single_spaced_Cons)
qed simp

lemma trim_infix: "\<exists>us vs. s = us @ trim s @ vs"
proof -
  define t where "t = dropWhile is_ws s"
  have s: "s = takeWhile is_ws s @ t" by (simp add: t_def)
  have "rev t = takeWhile is_ws (rev t) @ dropWhile is_ws (rev t)" by simp
  then have "t = rev (dropWhile is_ws (rev t)) @ rev (takeWhile is_ws (rev t))"
    by (metis rev_append rev_rev_ident)
  moreover have "trim s = rev (dropWhile is_ws (rev t))" by (simp add: trim_def t_def)
  ultimately show ?thesis using s by metis
qed

lemma single_spaced_trim: "single_spaced s \<Longrightarrow> single_spaced (trim s)"
  using trim_infix [of s] by (metis single_spaced_drop single_spaced_take)

lemma collapse_single_spaced: "single_spaced s \<Longrightarrow> collapse s = s"
proof (induction s rule: collapse.induct)
  case (2 c cs)
  show ?case
  proof (cases "is_ws c")
    case True
    with "2.prems" have "dropWhile is_ws cs = cs" "single_spaced cs" "c = CHR '' ''"
      by (cases cs; simp add: single_spaced_Cons)+
    with True "2.IH"(1) show ?thesis by simp
  next
    case False
    with 2 show ?thesis by (simp add: single_spaced_Cons)
  qed
qed simp

lemma collapse_non_ws: "filter (\<lambda>c. \<not> is_ws c) (collapse s) = filter (\<lambda>c. \<not> is_ws c) s"
proof -
  have ws: "filter (\<lambda>c. \<not> is_ws c) (dropWhile is_ws cs) = filter (\<lambda>c. \<not> is_ws c) cs" for cs
    by (induction cs) auto
  have sp: "is_ws (CHR '' '')" by (simp add: is_ws_def)
  show ?thesis by (induction s rule: collapse.induct) (auto simp: ws sp)
qed

lemma trim_non_ws: "filter (\<lambda>c. \<not> is_ws c) (trim s) = filter (\<lambda>c. \<not> is_ws c) s"
proof -
  have ws: "filter (\<lambda>c. \<not> is_ws c) (dropWhile is_ws cs) = filter (\<lambda>c. \<not> is_ws c) cs" for cs
    by (induction cs) auto
  show ?thesis by (simp add: trim_def ws rev_filter [symmetric])
qed

section \<open>Pieces between whitespace\<close>

lemma split_ws_no_ws: "p \<in> set (split_ws s) \<Longrightarrow> c \<in> set p \<Longrightarrow> \<not> is_ws c"
proof (induction s rule: split_ws.induct)
  case (1 s)
  show ?case
  proof (cases "dropWhile (\<lambda>c. \<not> is_ws c) s")
    case Nil
    then have "\<forall>c \<in> set s. \<not> is_ws c" by simp
    with 1 Nil show ?thesis by (simp add: split_ws.simps [of s])
  next
    case (Cons d rest)
    with 1 show ?thesis
      by (auto simp: split_ws.simps [of s] dest: set_takeWhileD)
  qed
qed

lemma split_ws_concat: "concat (split_ws s) = filter (\<lambda>c. \<not> is_ws c) s"
proof (induction s rule: split_ws.induct)
  case (1 s)
  have ws: "filter (\<lambda>c. \<not> is_ws c) (dropWhile is_ws cs) = filter (\<lambda>c. \<not> is_ws c) cs" for cs
    by (induction cs) auto
  show ?case
  proof (cases "dropWhile (\<lambda>c. \<not> is_ws c) s")
    case Nil
    then have "filter (\<lambda>c. \<not> is_ws c) s = s" by (simp add: filter_id_conv)
    with Nil show ?thesis by (simp add: split_ws.simps [of s] del: dropWhile_eq_Nil_conv)
  next
    case (Cons d rest)
    have "s = takeWhile (\<lambda>c. \<not> is_ws c) s @ d # rest"
      using Cons by (metis takeWhile_dropWhile_id)
    moreover have "is_ws d"
      using Cons by (metis hd_dropWhile list.distinct(1) list.sel(1))
    moreover have "filter (\<lambda>c. \<not> is_ws c) (takeWhile (\<lambda>c. \<not> is_ws c) s) = takeWhile (\<lambda>c. \<not> is_ws c) s"
      by (auto simp: filter_id_conv dest: set_takeWhileD)
    ultimately have "filter (\<lambda>c. \<not> is_ws c) s =
        takeWhile (\<lambda>c. \<not> is_ws c) s @ filter (\<lambda>c. \<not> is_ws c) rest"
      by (metis (no_types, lifting) filter.simps(2) filter_append)
    with 1 [OF Cons] Cons show ?thesis by (simp add: split_ws.simps [of s] ws)
  qed
qed

section \<open>Numbers as text\<close>

definition digit_char :: "nat \<Rightarrow> char" where
  "digit_char d = char_of (48 + d)"

fun nat_str :: "nat \<Rightarrow> string" where
  "nat_str n = (if n < 10 then [digit_char n] else nat_str (n div 10) @ [digit_char (n mod 10)])"

declare nat_str.simps [simp del]

definition int_str :: "int \<Rightarrow> string" where
  "int_str i = (if i < 0 then ''-'' @ nat_str (nat (- i)) else nat_str (nat i))"

text \<open>
  \<open>parseInt(s)\<close> without a radix: leading whitespace is skipped, then an optional sign, then
  \<open>0x\<close> selects radix 16; the longest prefix of digits is read and \<open>None\<close> stands for
  \<open>NaN\<close> when there is none.
\<close>

definition digit_val :: "char \<Rightarrow> nat option" where
  "digit_val c = (let n = of_char c in
     if 48 \<le> n \<and> n \<le> 57 then Some (n - 48)
     else if 97 \<le> n \<and> n \<le> 122 then Some (n - 87)
     else if 65 \<le> n \<and> n \<le> 90 then Some (n - 55)
     else None)"

definition is_digit :: "nat \<Rightarrow> char \<Rightarrow> bool" where
  "is_digit radix c = (case digit_val c of None \<Rightarrow> False | Some d \<Rightarrow> d < radix)"

definition digits_val :: "nat \<Rightarrow> string \<Rightarrow> nat" where
  "digits_val radix ds = foldl (\<lambda>n c. n * radix + the (digit_val c)) 0 ds"

definition parseInt :: "string \<Rightarrow> int option" where
  "parseInt s = (
     let t = dropWhile is_ws s;
         neg = (t \<noteq> [] \<and> hd t = CHR ''-'');
         u = (if t \<noteq> [] \<and> (hd t = CHR ''-'' \<or> hd t = CHR ''+'') then tl t else t);
         hex = (take 2 u = ''0x'' \<or> take 2 u = ''0X'');
         radix = (if hex then 16 else 10);
         ds = takeWhile (is_digit radix) (if hex then drop 2 u else u)
     in if ds = [] then None
        else Some (if neg then - int (digits_val radix ds) else int (digits_val radix ds)))"

lemma digit_val_digit_char: "d < 10 \<Longrightarrow> digit_val (digit_char d) = Some d"
  by (simp add: digit_val_def digit_char_def of_char_of Let_def)

lemma nat_str_not_Nil [simp]: "nat_str n \<noteq> []"
  by (subst nat_str.simps) simp

lemma nat_str_digits: "c \<in> set (nat_str n) \<Longrightarrow> \<exists>d < 10. c = digit_char d"
proof (induction n rule: nat_str.induct)
  case (1 n)
  then show ?case
    by (subst (asm) (2) nat_str.simps) (auto split: if_splits intro: exI [of _ n] exI [of _ "n mod 10"])
qed

lemma nat_str_is_digit: "c \<in> set (nat_str n) \<Longrightarrow> is_digit 10 c"
  using nat_str_digits [of c n] by (auto simp: is_digit_def digit_val_digit_char)

lemma digits_val_snoc: "digits_val r (ds @ [c]) = digits_val r ds * r + the (digit_val c)"
  by (simp add: digits_val_def)

lemma digits_val_nat_str: "digits_val 10 (nat_str n) = n"
proof (induction n rule: nat_str.induct)
  case (1 n)
  show ?case
  proof (cases "n < 10")
    case True
    then show ?thesis
      by (subst nat_str.simps) (simp add: digits_val_def digit_val_digit_char)
  next
    case False
    with 1 show ?thesis
      by (subst nat_str.simps) (simp add: digits_val_snoc digit_val_digit_char)
  qed
qed

section \<open>decodeURIComponent\<close>

text \<open>
  Percent-decoding with UTF-8. \<open>OutsideAlphabet\<close> is the result for escapes that start a
  code point above 255 (well formed or not), which this model of strings cannot hold;
  \<open>URIError\<close> is the exception.
\<close>

datatype decoded = Decoded string | URIError | OutsideAlphabet

fun decoded_cons :: "char \<Rightarrow> decoded \<Rightarrow> decoded" where
  "decoded_cons c (Decoded s) = Decoded (c # s)"
| "decoded_cons c r = r"

definition hex_byte :: "char \<Rightarrow> char \<Rightarrow> nat option" where
  "hex_byte h l = (if is_digit 16 h \<and> is_digit 16 l
     then Some (16 * the (digit_val h) + the (digit_val l)) else None)"

fun continuation :: "string \<Rightarrow> nat option" where
  "continuation (p # h # l # _) = (if p = CHR ''%'' then (case hex_byte h l of
       None \<Rightarrow> None | Some b \<Rightarrow> if 128 \<le> b \<and> b < 192 then Some (b - 128) else None) else None)"
| "continuation _ = None"

fun decodeURIComponent :: "string \<Rightarrow> decoded" where
  "decodeURIComponent [] = Decoded []"
| "decodeURIComponent (c # cs) = (
     if c \<noteq> CHR ''%'' then decoded_cons c (decodeURIComponent cs)
     else (case cs of
       h # l # rest \<Rightarrow> (case hex_byte h l of
           None \<Rightarrow> URIError
         | Some b \<Rightarrow>
             if b < 128 then decoded_cons (char_of b) (decodeURIComponent rest)
             else if b = 194 \<or> b = 195 then (case continuation rest of
                 None \<Rightarrow> URIError
               | Some d \<Rightarrow> decoded_cons (char_of ((b - 192) * 64 + d)) (decodeURIComponent (drop 3 rest)))
             else if 195 < b \<and> b \<le> 244 then OutsideAlphabet
             else URIError)
     | _ \<Rightarrow> URIError))"

lemma decodeURIComponent_plain:
  "CHR ''%'' \<notin> set s \<Longrightarrow> decodeURIComponent s = Decoded s"
  by (induction s) auto

section \<open>Upper and lower case\<close>

text \<open>
  The case mapping of the letters of ASCII; it is what HTML uses for names, and what
  \<open>toUpperCase\<close> and \<open>toLowerCase\<close> do to the characters that the scripts apply them to.
\<close>

definition is_upper :: "char \<Rightarrow> bool" where
  "is_upper c \<longleftrightarrow> 65 \<le> (of_char c :: nat) \<and> (of_char c :: nat) \<le> 90"

definition is_lower :: "char \<Rightarrow> bool" where
  "is_lower c \<longleftrightarrow> 97 \<le> (of_char c :: nat) \<and> (of_char c :: nat) \<le> 122"

definition lower_char :: "char \<Rightarrow> char" where
  "lower_char c = (if is_upper c then char_of (of_char c + 32 :: nat) else c)"

definition upper_char :: "char \<Rightarrow> char" where
  "upper_char c = (if is_lower c then char_of (of_char c - 32 :: nat) else c)"

definition lower :: "string \<Rightarrow> string" where
  "lower s = map lower_char s"

lemma of_char_lower: "is_upper c \<Longrightarrow> (of_char (lower_char c) :: nat) = of_char c + 32"
  by (simp add: lower_char_def is_upper_def)

lemma of_char_upper: "is_lower c \<Longrightarrow> (of_char (upper_char c) :: nat) = of_char c - 32"
proof -
  assume "is_lower c"
  then have "of_char c - 32 < (256 :: nat)" by (auto simp: is_lower_def)
  with \<open>is_lower c\<close> show ?thesis by (simp add: upper_char_def)
qed

lemma is_lower_lower [simp]: "is_upper c \<Longrightarrow> is_lower (lower_char c)"
  using of_char_lower [of c] by (simp add: is_lower_def is_upper_def)

lemma is_upper_upper [simp]: "is_lower c \<Longrightarrow> is_upper (upper_char c)"
  using of_char_upper [of c] by (auto simp: is_lower_def is_upper_def)

lemma upper_lower [simp]: "is_upper c \<Longrightarrow> upper_char (lower_char c) = c"
proof -
  assume u: "is_upper c"
  then have "upper_char (lower_char c) = char_of (of_char (lower_char c) - 32 :: nat)"
    by (simp add: upper_char_def)
  then show ?thesis using of_char_lower [OF u] by simp
qed

lemma lower_upper [simp]: "is_lower c \<Longrightarrow> lower_char (upper_char c) = c"
proof -
  assume l: "is_lower c"
  then have "lower_char (upper_char c) = char_of (of_char (upper_char c) + 32 :: nat)"
    by (simp add: lower_char_def)
  then show ?thesis using of_char_upper [OF l] l by (simp add: is_lower_def)
qed

end
