(* ===== verification/Js_Number.thy ===== *)
theory Js_Number
  imports Js_String
begin

text \<open>
  The numbers of ECMAScript that the page meets are integers, held in the binary format with 53
  significant digits: an integer beyond \<open>2 ^ 53\<close> is rounded to the nearest number of the format (to
  the even one in the middle), and one that is too large becomes an infinity. Printing gives the
  fewest decimal digits that are read back as the same number.
\<close>

section \<open>Rounding\<close>

text \<open>The integer nearest to \<open>a / b\<close>.\<close>

definition round_half_even :: "int \<Rightarrow> int \<Rightarrow> int" where
  "round_half_even a b = (let q = a div b; r = a mod b
     in if 2 * r < b then q else if 2 * r > b then q + 1 else if even q then q else q + 1)"

function bits :: "int \<Rightarrow> nat" where
  "bits n = (if n \<le> 0 then 0 else Suc (bits (n div 2)))"
  by pat_completeness auto
termination
  by (relation "measure nat") auto

declare bits.simps [simp del]

text \<open>The number nearest to an integer that is not negative.\<close>

definition double_nat :: "int \<Rightarrow> int" where
  "double_nat n = (let k = bits n - 53 in round_half_even n (2 ^ k) * 2 ^ k)"

text \<open>The number nearest to an integer; \<open>None\<close> for an infinity.\<close>

definition double_of :: "int \<Rightarrow> int option" where
  "double_of i = (let m = double_nat \<bar>i\<bar> in if m < 2 ^ 1024 then Some (if i < 0 then - m else m) else None)"

text \<open>
  The integer part of the quotient of two positive numbers, which is itself rounded to 53 digits:
  the binary digits after the point are those that the digits before it leave.
\<close>

definition div_trunc :: "int \<Rightarrow> int \<Rightarrow> int" where
  "div_trunc a b = (let q = bits (a div b); k = 53 - q; k' = q - 53
     in round_half_even (a * 2 ^ k) (b * 2 ^ k') * 2 ^ k' div 2 ^ k)"

section \<open>Printing\<close>

text \<open>
  \<open>s\<close> followed by \<open>z\<close> zeros is read back as the number \<open>m\<close>; of the two candidates for a \<open>z\<close> the nearer
  one is taken.
\<close>

definition reads_as :: "int \<Rightarrow> nat \<Rightarrow> int \<Rightarrow> bool" where
  "reads_as m z s \<longleftrightarrow> double_nat (s * 10 ^ z) = m"

definition digits_at :: "int \<Rightarrow> nat \<Rightarrow> int option" where
  "digits_at m z = (let q = m div 10 ^ z; low = reads_as m z q; high = reads_as m z (q + 1)
     in if low \<and> (\<not> high \<or> 2 * (m mod 10 ^ z) \<le> 10 ^ z) then Some q else if high then Some (q + 1) else None)"

fun shortest :: "int \<Rightarrow> nat \<Rightarrow> int \<times> nat" where
  "shortest m 0 = (m, 0)"
| "shortest m (Suc z) = (case digits_at m (Suc z) of Some s \<Rightarrow> (s, Suc z) | None \<Rightarrow> shortest m z)"

definition exponent_form :: "string \<Rightarrow> nat \<Rightarrow> string" where
  "exponent_form ds n = take 1 ds @ (if length ds = 1 then [] else ''.'' @ drop 1 ds) @ ''e+'' @ nat_str (n - 1)"

text \<open>Up to \<open>2 ^ 53\<close> every integer is a number of its own and its digits are printed as they are.\<close>

definition double_str :: "int \<Rightarrow> string" where
  "double_str m =
     (if m \<le> 2 ^ 53 then int_str m
      else let (s, z) = shortest m (length (int_str m)); ds = int_str s; n = length ds + z
           in if n \<le> 21 then ds @ replicate z (CHR ''0'') else exponent_form ds n)"

definition number_str :: "int \<Rightarrow> string" where
  "number_str i = (case double_of i of
     None \<Rightarrow> if i < 0 then ''-Infinity'' else ''Infinity''
   | Some j \<Rightarrow> if j < 0 then ''-'' @ double_str (- j) else double_str j)"

text \<open>\<open>JSON.stringify\<close> has no infinities.\<close>

definition json_number_str :: "int \<Rightarrow> string" where
  "json_number_str i = (if double_of i = None then ''null'' else number_str i)"

section \<open>Exact integers\<close>

lemma bits_le: "n < 2 ^ k \<Longrightarrow> bits n \<le> k"
proof (induction k arbitrary: n)
  case 0
  then show ?case by (simp add: bits.simps)
next
  case (Suc k)
  then have "n div 2 < 2 ^ k" by simp
  with Suc.IH show ?case by (subst bits.simps) simp
qed

lemma bits_power: "bits (2 ^ k) = Suc k"
proof (induction k)
  case 0
  then show ?case by (simp add: bits.simps [of 1] bits.simps [of 0])
next
  case (Suc k)
  have "\<not> (2 :: int) ^ Suc k \<le> 0" "(2 :: int) ^ Suc k div 2 = 2 ^ k" by simp_all
  with Suc show ?case by (subst bits.simps) simp
qed

lemma double_nat_exact:
  assumes "0 \<le> n" and "n \<le> 2 ^ 53"
  shows "double_nat n = n"
proof (cases "n = 2 ^ 53")
  case True
  have "bits (2 ^ 53) = 54" using bits_power [of 53] by simp
  then show ?thesis unfolding True double_nat_def by (simp add: round_half_even_def)
next
  case False
  with assms have "bits n \<le> 53" by (intro bits_le) simp
  then show ?thesis by (simp add: double_nat_def round_half_even_def)
qed

lemma double_of_exact: "\<bar>i\<bar> \<le> 2 ^ 53 \<Longrightarrow> double_of i = Some i"
proof -
  assume i: "\<bar>i\<bar> \<le> 2 ^ 53"
  then have "double_nat \<bar>i\<bar> = \<bar>i\<bar>" by (intro double_nat_exact) simp_all
  moreover have "\<bar>i\<bar> < 2 ^ 1024" using i by (rule le_less_trans) (rule power_strict_increasing; simp)
  ultimately show ?thesis by (simp add: double_of_def Let_def)
qed

lemma number_str_exact: "\<bar>i\<bar> \<le> 2 ^ 53 \<Longrightarrow> number_str i = int_str i"
  by (auto simp: number_str_def double_of_exact double_str_def int_str_def)

lemma json_number_str_exact: "\<bar>i\<bar> \<le> 2 ^ 53 \<Longrightarrow> json_number_str i = int_str i"
  by (simp add: json_number_str_def double_of_exact number_str_exact)

text \<open>The digits that are printed are read back as the number.\<close>

lemma shortest_reads:
  assumes "double_nat m = m"
  shows "case shortest m z of (s, z') \<Rightarrow> double_nat (s * 10 ^ z') = m"
  using assms
  by (induction z) (auto simp: digits_at_def reads_as_def Let_def split: option.split if_splits)

end
