(* ===== verification/Json.thy ===== *)
theory Json
  imports Js_Number
begin

text \<open>
  The JSON values the page exchanges with its node and the parts of the language that the
  scripts apply to them: \<open>JSON.stringify\<close> (compact, and indented by two spaces),
  \<open>String(v)\<close> as used by template literals, \<open>Object.keys\<close>, \<open>Object.entries\<close>,
  \<open>for ... in\<close>, property access, and assignment to a property of an object literal.

  An object is the list of its own properties in enumeration order. Numbers are the
  integers, the node sends no others; \<open>JNum i\<close> is the number nearest to \<open>i\<close>, printed as the language
  prints it.
\<close>

datatype json =
    JNull
  | JBool bool
  | JNum int
  | JStr string
  | JArr "json list"
  | JObj "(string \<times> json) list"

section \<open>JSON.stringify\<close>

definition hex_digit :: "nat \<Rightarrow> char" where
  "hex_digit d = (if d < 10 then char_of (48 + d) else char_of (87 + d))"

definition quote_char :: "char \<Rightarrow> string" where
  "quote_char c = (let n = of_char c :: nat in
     if n = 34 then [CHR 0x5C, CHR 0x22]
     else if n = 92 then [CHR 0x5C, CHR 0x5C]
     else if n = 8 then [CHR 0x5C, CHR ''b'']
     else if n = 9 then [CHR 0x5C, CHR ''t'']
     else if n = 10 then [CHR 0x5C, CHR ''n'']
     else if n = 12 then [CHR 0x5C, CHR ''f'']
     else if n = 13 then [CHR 0x5C, CHR ''r'']
     else if n < 32 then [CHR 0x5C, CHR ''u'', CHR ''0'', CHR ''0'',
       hex_digit (n div 16), hex_digit (n mod 16)]
     else [c])"

definition quote_string :: "string \<Rightarrow> string" where
  "quote_string s = [CHR 0x22] @ concat (map quote_char s) @ [CHR 0x22]"

fun stringify :: "json \<Rightarrow> string" where
  "stringify JNull = ''null''"
| "stringify (JBool b) = (if b then ''true'' else ''false'')"
| "stringify (JNum i) = json_number_str i"
| "stringify (JStr s) = quote_string s"
| "stringify (JArr xs) = ''['' @ join '','' (map stringify xs) @ '']''"
| "stringify (JObj kvs) =
     ''{'' @ join '','' (map (\<lambda>(k, v). quote_string k @ '':'' @ stringify v) kvs) @ ''}''"

definition nl :: string where
  "nl = [CHR 0x0A]"

text \<open>\<open>JSON.stringify(v, null, 2)\<close>; \<open>ind\<close> is the current indentation.\<close>

fun stringify_indent :: "string \<Rightarrow> json \<Rightarrow> string" where
  "stringify_indent ind (JArr xs) = (if xs = [] then ''[]'' else
     ''['' @ nl @ join ('','' @ nl) (map (\<lambda>v. ind @ ''  '' @ stringify_indent (ind @ ''  '') v) xs)
     @ nl @ ind @ '']'')"
| "stringify_indent ind (JObj kvs) = (if kvs = [] then ''{}'' else
     ''{'' @ nl @ join ('','' @ nl)
       (map (\<lambda>(k, v). ind @ ''  '' @ quote_string k @ '': '' @ stringify_indent (ind @ ''  '') v) kvs)
     @ nl @ ind @ ''}'')"
| "stringify_indent ind v = stringify v"

section \<open>String(v), keys, entries and properties\<close>

fun js_string :: "json \<Rightarrow> string" where
  "js_string JNull = ''null''"
| "js_string (JBool b) = (if b then ''true'' else ''false'')"
| "js_string (JNum i) = number_str i"
| "js_string (JStr s) = s"
| "js_string (JArr xs) = join '','' (map (\<lambda>v. if v = JNull then [] else js_string v) xs)"
| "js_string (JObj kvs) = ''[object Object]''"

text \<open>\<open>undefined\<close> is \<open>None\<close>.\<close>

definition js_string_opt :: "json option \<Rightarrow> string" where
  "js_string_opt v = (case v of None \<Rightarrow> ''undefined'' | Some v \<Rightarrow> js_string v)"

text \<open>The own enumerable properties; \<open>None\<close> for \<open>null\<close>, on which both calls throw.\<close>

fun object_entries :: "json \<Rightarrow> (string \<times> json) list option" where
  "object_entries JNull = None"
| "object_entries (JObj kvs) = Some kvs"
| "object_entries (JArr xs) = Some (zip (map nat_str [0..<length xs]) xs)"
| "object_entries (JStr s) = Some (zip (map nat_str [0..<length s]) (map (\<lambda>c. JStr [c]) s))"
| "object_entries _ = Some []"

definition object_keys :: "json \<Rightarrow> string list option" where
  "object_keys v = map_option (map fst) (object_entries v)"

text \<open>\<open>for (k in v)\<close> visits the same keys, and none for \<open>null\<close>.\<close>

definition for_in_keys :: "json \<Rightarrow> string list" where
  "for_in_keys v = (case object_keys v of None \<Rightarrow> [] | Some ks \<Rightarrow> ks)"

text \<open>\<open>v.name\<close>: an exception on \<open>null\<close> and on \<open>undefined\<close>.\<close>

definition get_prop :: "json option \<Rightarrow> string \<Rightarrow> string + json option" where
  "get_prop v name = (case v of
     None \<Rightarrow> Inl (''TypeError: Cannot read properties of undefined (reading '' @ [CHR 0x27] @ name @ [CHR 0x27] @ '')'')
   | Some JNull \<Rightarrow> Inl (''TypeError: Cannot read properties of null (reading '' @ [CHR 0x27] @ name @ [CHR 0x27] @ '')'')
   | Some (JObj kvs) \<Rightarrow> Inr (map_of kvs name)
   | Some _ \<Rightarrow> Inr None)"

text \<open>
  \<open>o[k] = v\<close> on an object literal: \<open>__proto__\<close> is an accessor and adds no property;
  a key that is an array index comes before the other keys, in numeric order; any other
  new key goes to the end; an existing key keeps its place.
\<close>

definition is_index :: "string \<Rightarrow> bool" where
  "is_index k \<longleftrightarrow> k \<noteq> [] \<and> list_all (is_digit 10) k \<and> nat_str (digits_val 10 k) = k \<and>
     digits_val 10 k < 2 ^ 32 - 1"

fun insert_index :: "string \<Rightarrow> 'v \<Rightarrow> (string \<times> 'v) list \<Rightarrow> (string \<times> 'v) list" where
  "insert_index k v [] = [(k, v)]"
| "insert_index k v ((k', v') # kvs) =
     (if is_index k' \<and> digits_val 10 k' < digits_val 10 k
      then (k', v') # insert_index k v kvs else (k, v) # (k', v') # kvs)"

definition set_prop :: "string \<Rightarrow> 'v \<Rightarrow> (string \<times> 'v) list \<Rightarrow> (string \<times> 'v) list" where
  "set_prop k v kvs = (
     if k = ''__proto__'' then kvs
     else if k \<in> fst ` set kvs then AList.update k v kvs
     else if is_index k then insert_index k v kvs
     else kvs @ [(k, v)])"

lemma set_insert_index: "set (insert_index k v kvs) = insert (k, v) (set kvs)"
  by (induction k v kvs rule: insert_index.induct) auto

lemma map_of_insert_index:
  "k \<notin> fst ` set kvs \<Longrightarrow> map_of (insert_index k v kvs) = (map_of kvs)(k \<mapsto> v)"
  by (induction k v kvs rule: insert_index.induct) auto

lemma keys_insert_index: "fst ` set (insert_index k v kvs) = insert k (fst ` set kvs)"
  by (simp add: set_insert_index)

lemma distinct_insert_index:
  "k \<notin> fst ` set kvs \<Longrightarrow> distinct (map fst kvs) \<Longrightarrow> distinct (map fst (insert_index k v kvs))"
  by (induction k v kvs rule: insert_index.induct) (auto simp: keys_insert_index)

lemma map_of_set_prop:
  "map_of (set_prop k v kvs) = (if k = ''__proto__'' then map_of kvs else (map_of kvs)(k \<mapsto> v))"
proof -
  have "k \<notin> fst ` set kvs \<Longrightarrow> map_of (kvs @ [(k, v)]) = (map_of kvs)(k \<mapsto> v)"
    by (induction kvs) auto
  then show ?thesis by (auto simp: set_prop_def map_of_insert_index)
qed

lemma distinct_set_prop: "distinct (map fst kvs) \<Longrightarrow> distinct (map fst (set_prop k v kvs))"
  by (auto simp: set_prop_def distinct_insert_index distinct_update)

lemma keys_set_prop:
  "fst ` set (set_prop k v kvs) = (if k = ''__proto__'' then fst ` set kvs else insert k (fst ` set kvs))"
  using map_of_set_prop [of k v kvs] by (simp flip: dom_map_of_conv_image_fst)

end
