(* ===== verification/Gui_Flash.thy ===== *)
theory Gui_Flash
  imports Js_String
begin

text \<open>
  The flash messages of the page (class \<open>Flash\<close> of main.js). A message is
  a \<open>div\<close> appended to the wrapper target; it goes away when its close button is clicked
  or when the timer that \<open>createFlash\<close> starts has run for four seconds, whichever comes
  first. The identity of a \<open>div\<close> is the number of divs created before it.
\<close>

record flash_msg =
  flash_id :: nat
  flash_class :: string
  flash_text :: string

record flash =
  wrapper :: "flash_msg list"
  timers :: "nat list"
  created :: nat

definition new_flash :: flash where
  "new_flash = \<lparr>wrapper = [], timers = [], created = 0\<rparr>"

definition createFlash :: "string \<Rightarrow> string \<Rightarrow> flash \<Rightarrow> flash_msg \<times> flash" where
  "createFlash className content f =
     (let content = trim (collapse content);
          newDiv = \<lparr>flash_id = created f, flash_class = className, flash_text = content\<rparr>
      in (newDiv, f\<lparr>timers := timers f @ [created f], created := Suc (created f)\<rparr>))"

definition printError :: "string \<Rightarrow> flash \<Rightarrow> flash" where
  "printError e f = (let (d, f) = createFlash ''error'' e f in f\<lparr>wrapper := wrapper f @ [d]\<rparr>)"

definition printSuccess :: "string \<Rightarrow> flash \<Rightarrow> flash" where
  "printSuccess e f = (let (d, f) = createFlash ''success'' e f in f\<lparr>wrapper := wrapper f @ [d]\<rparr>)"

text \<open>The click listener of the close button, and the callback of \<open>setTimeout\<close>.\<close>

definition closeFlash :: "nat \<Rightarrow> flash \<Rightarrow> flash" where
  "closeFlash i f = f\<lparr>wrapper := filter (\<lambda>d. flash_id d \<noteq> i) (wrapper f)\<rparr>"

definition expireFlash :: "nat \<Rightarrow> flash \<Rightarrow> flash" where
  "expireFlash i f = f\<lparr>wrapper := filter (\<lambda>d. flash_id d \<noteq> i) (wrapper f),
     timers := remove1 i (timers f)\<rparr>"

lemmas flash_defs = createFlash_def printError_def printSuccess_def closeFlash_def
  expireFlash_def Let_def

section \<open>The life of a message\<close>

inductive flash_step :: "flash \<Rightarrow> flash \<Rightarrow> bool" where
  error: "flash_step f (printError e f)"
| success: "flash_step f (printSuccess e f)"
| close: "flash_step f (closeFlash i f)"
| expire: "i \<in> set (timers f) \<Longrightarrow> flash_step f (expireFlash i f)"

text \<open>
  Every message on show still has its timer running; identities are never reused; texts
  are normalised.
\<close>

definition flash_wf :: "flash \<Rightarrow> bool" where
  "flash_wf f \<longleftrightarrow> distinct (map flash_id (wrapper f)) \<and> distinct (timers f)
     \<and> set (map flash_id (wrapper f)) \<subseteq> set (timers f)
     \<and> (\<forall>i \<in> set (timers f). i < created f)
     \<and> (\<forall>d \<in> set (wrapper f). single_spaced (flash_text d) \<and> no_ws_ends (flash_text d))"

lemma flash_wf_new [simp]: "flash_wf new_flash"
  by (simp add: flash_wf_def new_flash_def)

lemma flash_text_normal:
  "single_spaced (trim (collapse s))" "no_ws_ends (trim (collapse s))"
  by (simp_all add: single_spaced_trim single_spaced_collapse trim_ends)

lemma flash_wf_print [simp]:
  assumes "flash_wf f"
  shows "flash_wf (printError e f)" "flash_wf (printSuccess e f)"
  using assms by (auto simp: flash_wf_def flash_defs flash_text_normal less_Suc_eq)

lemma flash_wf_close [simp]: "flash_wf f \<Longrightarrow> flash_wf (closeFlash i f)"
  by (auto simp: flash_wf_def flash_defs distinct_map_filter)

lemma flash_wf_expire [simp]: "flash_wf f \<Longrightarrow> flash_wf (expireFlash i f)"
  by (auto simp: flash_wf_def flash_defs distinct_map_filter)

lemma flash_step_wf: "flash_step f f' \<Longrightarrow> flash_wf f \<Longrightarrow> flash_wf f'"
  by (induction rule: flash_step.induct) simp_all

lemma expireFlash_all:
  "set (map flash_id (wrapper f)) \<subseteq> set ts \<Longrightarrow> wrapper (fold expireFlash ts f) = []"
proof (induction ts arbitrary: f)
  case (Cons i ts)
  have "set (map flash_id (wrapper (expireFlash i f))) \<subseteq> set ts"
    using Cons.prems by (auto simp: flash_defs)
  then show ?case by (simp add: Cons.IH)
qed (simp add: flash_wf_def)

lemma timers_fold_expire: "timers (fold expireFlash ts f) = fold remove1 ts (timers f)"
  by (induction ts arbitrary: f) (simp_all add: expireFlash_def)

lemma fold_remove1_self: "fold remove1 xs xs = []"
  by (induction xs) simp_all

text \<open>
  C20: Flash messages always go away. In every state that printing, closing and timer
  callbacks can reach from an empty page, in any order, each message on show has a running
  timer, identities are pairwise different, and firing the pending timers empties both the
  wrapper and the timer list.
\<close>

theorem flash_always_drains:
  assumes "flash_step\<^sup>*\<^sup>* new_flash f"
  shows "(\<forall>d \<in> set (wrapper f). flash_id d \<in> set (timers f))
    \<and> distinct (map flash_id (wrapper f))
    \<and> wrapper (fold expireFlash (timers f) f) = []
    \<and> timers (fold expireFlash (timers f) f) = []"
proof -
  have "flash_wf f"
    using assms by (induction rule: rtranclp_induct) (auto intro: flash_step_wf)
  then show ?thesis
    by (auto simp: flash_wf_def timers_fold_expire fold_remove1_self intro!: expireFlash_all)
qed

theorem flash_always_drains_witness:
  "flash_step\<^sup>*\<^sup>* new_flash (closeFlash 0 (printSuccess ''b'' (printError ''a'' new_flash)))
   \<and> wrapper (fold expireFlash
       (timers (closeFlash 0 (printSuccess ''b'' (printError ''a'' new_flash))))
       (closeFlash 0 (printSuccess ''b'' (printError ''a'' new_flash)))) = []"
proof -
  let ?f = "closeFlash 0 (printSuccess ''b'' (printError ''a'' new_flash))"
  have "flash_step\<^sup>*\<^sup>* new_flash ?f"
    by (meson flash_step.intros r_into_rtranclp rtranclp.rtrancl_into_rtrancl)
  then show ?thesis using flash_always_drains [of ?f] by blast
qed

text \<open>
  The text of a flash message is the given text with every run of whitespace reduced to
  one space and none at its ends: it keeps all other characters in order, and printing a
  text that was already printed once changes nothing.
\<close>

theorem createFlash_normalises:
  "let t = flash_text (fst (createFlash c s f)) in
     single_spaced t \<and> no_ws_ends t
     \<and> filter (\<lambda>x. \<not> is_ws x) t = filter (\<lambda>x. \<not> is_ws x) s
     \<and> flash_text (fst (createFlash c t f)) = t"
proof -
  have "collapse (trim (collapse s)) = trim (collapse s)"
    by (simp add: collapse_single_spaced flash_text_normal)
  then show ?thesis
    by (simp add: flash_defs flash_text_normal trim_non_ws collapse_non_ws)
qed

end
