(* ===== verification/Gui_Page.thy ===== *)
theory Gui_Page
  imports Json Gui_Flash
begin

text \<open>
  The state of the page that main.js drives and the operations its controllers share: the
  form check and the checked \<open>fetch\<close> of \<open>BaseElement\<close>, and \<open>Messaging.addMsg\<close>.

  A handler runs until it awaits something; what is left of it is then a value of type
  \<open>wait\<close> in the list \<open>pending\<close>, so that the handlers' interleavings are explicit:
  between two steps of one handler the browser may run any other. \<open>cont\<close> says which
  \<open>await this.fetch(...)\<close> of which handler it was, with the local variables that the code
  after it reads.
\<close>

section \<open>Requests, outcomes and suspended handlers\<close>

record request =
  req_url :: string
  req_method :: string
  req_headers :: "(string \<times> string) list"
  req_body :: "string option"

definition http_get :: "string \<Rightarrow> request" where
  "http_get url = \<lparr>req_url = url, req_method = ''GET'', req_headers = [], req_body = None\<rparr>"

definition http_post :: "string \<Rightarrow> string \<Rightarrow> string \<Rightarrow> request" where
  "http_post url ctype body = \<lparr>req_url = url, req_method = ''POST'',
     req_headers = [(''Content-Type'', ctype)], req_body = Some body\<rparr>"

datatype cont =
    AtUnicastSend string string \<comment> \<open>message, destination\<close>
  | AtRoutingUpdate string \<comment> \<open>addr\<close>
  | AtRoutingGraph
  | AtAddPeer
  | AtSetEntry string \<comment> \<open>relay\<close>
  | AtSendChat
  | AtSendPrivate
  | AtCatalogUpdate
  | AtCatalogAdd
  | AtUpload
  | AtDownload string \<comment> \<open>metahash\<close>
  | AtSearchAll
  | AtSearchFirst
  | AtResolve
  | AtTag

datatype wait =
    WFetch cont \<comment> \<open>\<open>await fetch(addr, opts)\<close> inside \<open>BaseElement.fetch\<close>\<close>
  | WErrText nat string cont \<comment> \<open>\<open>await resp.text()\<close> of a response that is not 200\<close>
  | WBody cont \<comment> \<open>\<open>await resp.json()\<close>, \<open>resp.text()\<close> or \<open>resp.blob()\<close> in the handler\<close>
  | WViz \<comment> \<open>\<open>await viz.renderSVGElement(data)\<close>\<close>
  | WFile string \<comment> \<open>the \<open>load\<close> event of the \<open>FileReader\<close>\<close>
  | WPeerFetch \<comment> \<open>\<open>await fetch(addr)\<close> in \<open>PeerInfo.initialize\<close>\<close>
  | WPeerText \<comment> \<open>\<open>await resp.text()\<close> in \<open>PeerInfo.initialize\<close>\<close>

text \<open>How the browser can settle what is awaited; \<open>Failed\<close> carries the printed exception.\<close>

datatype outcome =
    Responded nat string
  | GotText string
  | GotJson json
  | GotBlob string
  | GotSvg string
  | GotFile string
  | Failed string

section \<open>The page\<close>

record input_el =
  el_name :: string
  el_value :: string

record ui_msg =
  msg_class :: string
  msg_html :: string

datatype catalog_view =
    CatalogHtml string
  | CatalogEntries "(string \<times> string list) list"

record page =
  flash_st :: flash
  endpoint :: "string option"
  socketAddr :: "string option"
  peerAddrText :: string
  socketAddrText :: string
  inputs :: "string \<Rightarrow> input_el"
  files :: "string list"
  messages :: "ui_msg list"
  messages_scrollTop :: int
  routing_table :: "string list"
  graphviz :: "string list"
  catalog :: catalog_view
  uploadResult :: string
  searchAllResult :: string
  searchFirstResult :: string
  resolveResult :: string
  packets :: "string list"
  scroll_width :: string
  packets_scrollLeft :: int
  holder_scrollLeft :: int
  follow :: bool
  event_source :: "string option"
  downloads :: "(string \<times> string) list"
  anchors :: "(string \<times> string) list"
  clock :: int
  sent :: "request list"
  pending :: "(nat \<times> wait) list"
  next_wait :: nat
  uncaught :: "string list"

text \<open>
  What the browser alone decides: the layout metrics, the local time of a \<open>Date\<close> given in
  milliseconds, and the rounded percentage \<open>Math.round(loaded / total * 100)\<close> in the
  machine's floating point.
\<close>

record browser =
  scrollHeight :: "ui_msg list \<Rightarrow> int"
  packets_scrollWidth :: "string list \<Rightarrow> int"
  holder_scrollWidth :: "string list \<Rightarrow> int"
  local_time :: "int \<Rightarrow> nat \<times> nat \<times> nat"
  round_percent :: "nat \<Rightarrow> nat \<Rightarrow> int"

definition new_page :: "(string \<Rightarrow> input_el) \<Rightarrow> page" where
  "new_page ins = \<lparr>flash_st = new_flash, endpoint = None, socketAddr = None,
     peerAddrText = [], socketAddrText = [], inputs = ins, files = [], messages = [],
     messages_scrollTop = 0, routing_table = [], graphviz = [], catalog = CatalogEntries [],
     uploadResult = [], searchAllResult = [], searchFirstResult = [], resolveResult = [],
     packets = [], scroll_width = [], packets_scrollLeft = 0, holder_scrollLeft = 0,
     follow = True, event_source = None, downloads = [], anchors = [], clock = 0, sent = [],
     pending = [], next_wait = 0, uncaught = []\<rparr>"

section \<open>Shared operations\<close>

definition flash_error :: "string \<Rightarrow> page \<Rightarrow> page" where
  "flash_error e p = p\<lparr>flash_st := printError e (flash_st p)\<rparr>"

definition flash_success :: "string \<Rightarrow> page \<Rightarrow> page" where
  "flash_success e p = p\<lparr>flash_st := printSuccess e (flash_st p)\<rparr>"

definition dq :: string where
  "dq = [CHR 0x22]"

fun checkInputs :: "input_el list \<Rightarrow> page \<Rightarrow> bool \<times> page" where
  "checkInputs [] p = (True, p)"
| "checkInputs (e # es) p =
     (if el_value e = [] then
        (False, flash_error (''form validation failed: '' @ dq @ el_name e @ dq
           @ '' is empty or invalid'') p)
      else checkInputs es p)"

definition suspend :: "wait \<Rightarrow> page \<Rightarrow> page" where
  "suspend w p = p\<lparr>pending := pending p @ [(next_wait p, w)], next_wait := Suc (next_wait p)\<rparr>"

definition start_fetch :: "request \<Rightarrow> wait \<Rightarrow> page \<Rightarrow> page" where
  "start_fetch req w p = suspend w (p\<lparr>sent := sent p @ [req]\<rparr>)"

text \<open>
  \<open>BaseElement.fetch\<close>: the request goes out and the handler waits; when the response is
  there, a status other than 200 makes it wait for the text of the response and then throw.
\<close>

definition base_fetch :: "request \<Rightarrow> cont \<Rightarrow> page \<Rightarrow> page" where
  "base_fetch req c p = start_fetch req (WFetch c) p"

definition wrong_status :: "nat \<Rightarrow> string \<Rightarrow> string \<Rightarrow> string" where
  "wrong_status st stx txt =
     ''wrong status: '' @ nat_str st @ '' '' @ stx @ '' - '' @ txt"

definition api_base :: "string option \<Rightarrow> string" where
  "api_base e = (case e of None \<Rightarrow> ''undefined'' | Some e \<Rightarrow> e)"

definition getAPIURL :: "string \<Rightarrow> page \<Rightarrow> string" where
  "getAPIURL suffix p = api_base (endpoint p) @ suffix"

definition addMsg :: "browser \<Rightarrow> ui_msg \<Rightarrow> page \<Rightarrow> page" where
  "addMsg b el p = (let ms = messages p @ [el]
     in p\<lparr>messages := ms, messages_scrollTop := scrollHeight b ms\<rparr>)"

definition time_str :: "browser \<Rightarrow> int \<Rightarrow> string" where
  "time_str b ms = (case local_time b ms of (h, m, s) \<Rightarrow>
     nat_str h @ '':'' @ nat_str m @ '':'' @ nat_str s)"

text \<open>
  The value \<open>JSON.stringify\<close> writes for \<open>parseInt(s)\<close>: the digits give the number nearest to them;
  \<open>NaN\<close> and infinities become \<open>null\<close>.
\<close>

definition json_parseInt :: "string \<Rightarrow> json" where
  "json_parseInt s = (case parseInt s of None \<Rightarrow> JNull
     | Some i \<Rightarrow> (case double_of i of None \<Rightarrow> JNull | Some x \<Rightarrow> JNum x))"

definition entries_type_error :: string where
  "entries_type_error = ''TypeError: Cannot convert undefined or null to object''"

section \<open>Facts about the shared operations\<close>

lemma checkInputs_ok: "\<forall>e \<in> set es. el_value e \<noteq> [] \<Longrightarrow> checkInputs es p = (True, p)"
  by (induction es) auto

lemma checkInputs_fst: "fst (checkInputs es p) \<longleftrightarrow> (\<forall>e \<in> set es. el_value e \<noteq> [])"
  by (induction es) auto

lemma checkInputs_first_empty:
  "checkInputs (es1 @ e # es2) p = (False, flash_error (''form validation failed: '' @ dq
     @ el_name e @ dq @ '' is empty or invalid'') p)"
  if "\<forall>x \<in> set es1. el_value x \<noteq> []" "el_value e = []"
  using that by (induction es1) auto

lemma checkInputs_cases:
  "checkInputs es p = (True, p) \<or> (\<exists>msg. checkInputs es p = (False, flash_error msg p))"
  by (induction es) auto

end
