(* ===== verification/Gui_Handlers.thy ===== *)
theory Gui_Handlers
  imports Gui_Page
begin

text \<open>
  The handlers of the controllers of main.js, in the order of the file. A handler is split
  at its awaits: the definition with the method's name runs up to the first one, the
  definitions named after it run from one await to the next, and the one that ends in
  \<open>_failed\<close> is the \<open>catch\<close> clause. \<open>inputs p\<close> gives the form element of a target;
  targets are named \<open>controller.target\<close> as in node.html.
\<close>

section \<open>PeerInfo\<close>

definition getQueryArgs :: "string \<Rightarrow> (string \<times> string option) list" where
  "getQueryArgs search = fold (\<lambda>item queryDict.
       let parts = split_on (CHR ''='') item
       in set_prop (parts ! 0) (if 1 < length parts then Some (parts ! 1) else None) queryDict)
     (split_on (CHR ''&'') (drop 1 search)) []"

definition query_addr :: "string \<Rightarrow> string" where
  "query_addr search = (case map_of (getQueryArgs search) ''addr'' of
     Some (Some v) \<Rightarrow> v | _ \<Rightarrow> ''undefined'')"

text \<open>
  \<open>initialize\<close> is asynchronous: an exception of \<open>decodeURIComponent\<close> rejects its promise,
  which nothing handles. \<open>None\<close>: the address has characters outside the alphabet.
\<close>

definition PeerInfo_initialize :: "string \<Rightarrow> page \<Rightarrow> page option" where
  "PeerInfo_initialize search p = (case decodeURIComponent (query_addr search) of
     OutsideAlphabet \<Rightarrow> None
   | URIError \<Rightarrow> Some (p\<lparr>uncaught := uncaught p @ [''URIError: URI malformed'']\<rparr>)
   | Decoded a \<Rightarrow> (let e = ''http://'' @ a
       in Some (start_fetch (http_get (e @ ''/socket/address'')) WPeerFetch
            (p\<lparr>endpoint := Some e, peerAddrText := e\<rparr>))))"

definition PeerInfo_fetched :: "page \<Rightarrow> page" where
  "PeerInfo_fetched p = suspend WPeerText p"

definition PeerInfo_text :: "string \<Rightarrow> page \<Rightarrow> page" where
  "PeerInfo_text text p = p\<lparr>socketAddrText := ''tcp://'' @ text, socketAddr := Some text\<rparr>"

definition PeerInfo_failed :: "string \<Rightarrow> page \<Rightarrow> page" where
  "PeerInfo_failed e p = flash_error (''failed to fetch socket address: '' @ e) p"

section \<open>Unicast\<close>

definition unicast_pkt :: "string \<Rightarrow> string \<Rightarrow> json" where
  "unicast_pkt message destination = JObj [(''Dest'', JStr destination),
     (''Msg'', JObj [(''Type'', JStr ''chat''),
       (''payload'', JObj [(''Message'', JStr message)])])]"

definition Unicast_send :: "page \<Rightarrow> page" where
  "Unicast_send p = (
     let addr = getAPIURL ''/messaging/unicast'' p;
         (ok, p) = checkInputs [inputs p ''unicast.message'', inputs p ''unicast.destination''] p
     in if \<not> ok then p else
       let message = el_value (inputs p ''unicast.message'');
           destination = el_value (inputs p ''unicast.destination'');
           pkt = unicast_pkt message destination
       in base_fetch (http_post addr ''application/json'' (stringify pkt))
            (AtUnicastSend message destination) p)"

definition sent_html :: "string \<Rightarrow> string \<Rightarrow> string \<Rightarrow> string" where
  "sent_html message destination time =
     nl @ replicate 16 (CHR '' '') @ ''<div>'' @
     nl @ replicate 20 (CHR '' '') @ ''<p class='' @ dq @ ''msg'' @ dq @ ''>'' @ message @ ''</p>'' @
     nl @ replicate 20 (CHR '' '') @ ''<p class='' @ dq @ ''details'' @ dq @ ''>'' @
     nl @ replicate 24 (CHR '' '') @ ''to '' @ destination @ '' '' @
     nl @ replicate 24 (CHR '' '') @ ''at '' @ time @
     nl @ replicate 20 (CHR '' '') @ ''</p>'' @
     nl @ replicate 16 (CHR '' '') @ ''</div>''"

definition Unicast_send_fetched :: "browser \<Rightarrow> string \<Rightarrow> string \<Rightarrow> page \<Rightarrow> page" where
  "Unicast_send_fetched b message destination p =
     addMsg b \<lparr>msg_class = ''sent'',
       msg_html = sent_html message destination (time_str b (clock p))\<rparr> p"

definition Unicast_send_failed :: "string \<Rightarrow> page \<Rightarrow> page" where
  "Unicast_send_failed e p = flash_error (''failed to send message: '' @ e) p"

section \<open>Routing\<close>

definition Routing_update :: "page \<Rightarrow> page" where
  "Routing_update p = (let addr = getAPIURL ''/messaging/routing'' p
     in base_fetch (http_get addr) (AtRoutingUpdate addr) p)"

definition Routing_graph :: "string \<Rightarrow> page \<Rightarrow> page" where
  "Routing_graph addr p = base_fetch (http_get (addr @ ''?graphviz=on'')) AtRoutingGraph p"

definition Routing_update_failed :: "string \<Rightarrow> string \<Rightarrow> page \<Rightarrow> page" where
  "Routing_update_failed addr e p =
     Routing_graph addr (flash_error (''Failed to fetch routing: '' @ e) p)"

definition routing_row :: "string \<times> json \<Rightarrow> string" where
  "routing_row = (\<lambda>(origin, relay). ''<td>'' @ origin @ ''</td><td>'' @ js_string relay @ ''</td>'')"

definition Routing_update_json :: "string \<Rightarrow> json \<Rightarrow> page \<Rightarrow> page" where
  "Routing_update_json addr data p = (let p = p\<lparr>routing_table := []\<rparr> in
     case object_entries data of
       None \<Rightarrow> Routing_update_failed addr entries_type_error p
     | Some kvs \<Rightarrow> Routing_graph addr (flash_success ''Routing table updated''
         (p\<lparr>routing_table := routing_table p @ map routing_row kvs\<rparr>)))"

definition Routing_graph_text :: "page \<Rightarrow> page" where
  "Routing_graph_text p = suspend WViz p"

definition Routing_graph_svg :: "string \<Rightarrow> page \<Rightarrow> page" where
  "Routing_graph_svg element p = p\<lparr>graphviz := [element]\<rparr>"

definition Routing_graph_failed :: "string \<Rightarrow> page \<Rightarrow> page" where
  "Routing_graph_failed e p = flash_error (''Failed to display routing: '' @ e) p"

definition Routing_addPeer :: "page \<Rightarrow> page" where
  "Routing_addPeer p = (
     let (ok, p) = checkInputs [inputs p ''routing.peer''] p
     in if \<not> ok then p else
       let addr = getAPIURL ''/messaging/peers'' p;
           peer = el_value (inputs p ''routing.peer'')
       in base_fetch (http_post addr ''application/json'' (stringify (JArr [JStr peer]))) AtAddPeer p)"

definition Routing_addPeer_fetched :: "page \<Rightarrow> page" where
  "Routing_addPeer_fetched p = Routing_update (flash_success ''peer added'' p)"

definition Routing_addPeer_failed :: "string \<Rightarrow> page \<Rightarrow> page" where
  "Routing_addPeer_failed e p = flash_error (''failed to add peer: '' @ e) p"

definition Routing_setEntry :: "page \<Rightarrow> page" where
  "Routing_setEntry p = (
     let addr = getAPIURL ''/messaging/routing'' p;
         (ok, p) = checkInputs [inputs p ''routing.origin''] p
     in if \<not> ok then p else
       let origin = el_value (inputs p ''routing.origin'');
           relay = el_value (inputs p ''routing.relay'');
           message = JObj [(''Origin'', JStr origin), (''RelayAddr'', JStr relay)]
       in base_fetch (http_post addr ''application/json'' (stringify message)) (AtSetEntry relay) p)"

definition Routing_setEntry_fetched :: "string \<Rightarrow> page \<Rightarrow> page" where
  "Routing_setEntry_fetched relay p = Routing_update
     (if relay = [] then flash_success ''Entry deleted'' p else flash_success ''Entry set'' p)"

definition Routing_setEntry_failed :: "string \<Rightarrow> page \<Rightarrow> page" where
  "Routing_setEntry_failed e p = flash_error (''failed to set entry: '' @ e) p"

section \<open>Packets\<close>

text \<open>A new \<open>EventSource\<close> makes a request of its own.\<close>

definition Packets_initialize :: "page \<Rightarrow> page" where
  "Packets_initialize p = (let addr = getAPIURL ''/registry/pktnotify'' p
     in p\<lparr>event_source := Some addr, sent := sent p @ [http_get addr]\<rparr>)"

text \<open>\<open>v == 'chat'\<close>: objects and arrays are compared through their string.\<close>

definition is_chat :: "json option \<Rightarrow> bool" where
  "is_chat v = (case v of
     Some (JStr s) \<Rightarrow> s = ''chat''
   | Some (JArr xs) \<Rightarrow> js_string (JArr xs) = ''chat''
   | _ \<Rightarrow> False)"

definition received_html :: "string \<Rightarrow> string \<Rightarrow> string \<Rightarrow> string" where
  "received_html message source time =
     ''<div><p class='' @ dq @ ''msg'' @ dq @ ''>'' @ message @ ''</p><p class='' @ dq @ ''details'' @ dq
     @ ''>from '' @ source @ '' at '' @ time @ ''</p></div>''"

text \<open>The milliseconds of \<open>new Date(ts / 1000000)\<close>: the rounded quotient without its fraction.\<close>

definition date_ms :: "int \<Rightarrow> int" where
  "date_ms ts = (let q = div_trunc (double_nat \<bar>ts\<bar>) 1000000 in if ts < 0 then - q else q)"

text \<open>
  The part for chat packets: an exception, or the element to show. The outer \<open>None\<close> stands
  for a packet whose timestamp is not a number or whose source is not a string; the node
  sends no such packet and the conversions of the language on it are not modelled.
\<close>

definition chat_element :: "browser \<Rightarrow> string option \<Rightarrow> json \<Rightarrow> (string + ui_msg) option" where
  "chat_element b self pkt = (
     case get_prop (Some pkt) ''Header'' of
       Inl e \<Rightarrow> Some (Inl e)
     | Inr hdr \<Rightarrow> (case get_prop hdr ''Timestamp'' of
         Inl e \<Rightarrow> Some (Inl e)
       | Inr (Some (JNum ts)) \<Rightarrow> (case get_prop hdr ''Source'' of
           Inr (Some (JStr src)) \<Rightarrow> (case get_prop (Some pkt) ''Msg'' of
             Inl e \<Rightarrow> Some (Inl e)
           | Inr msg \<Rightarrow> (case get_prop msg ''Payload'' of
               Inl e \<Rightarrow> Some (Inl e)
             | Inr payload \<Rightarrow> (case get_prop payload ''Message'' of
                 Inl e \<Rightarrow> Some (Inl e)
               | Inr m \<Rightarrow> Some (Inr
                   \<lparr>msg_class = (if Some src = self then ''sent'' else ''received''),
                    msg_html = received_html (js_string_opt m) src
                      (time_str b (date_ms ts))\<rparr>))))
         | _ \<Rightarrow> None)
       | _ \<Rightarrow> None))"

definition show_packet :: "browser \<Rightarrow> json \<Rightarrow> page \<Rightarrow> page" where
  "show_packet b pkt p = (
     let html = ''<pre>'' @ stringify_indent [] pkt @ ''</pre>'';
         ps = packets p @ [html];
         p = p\<lparr>packets := ps, scroll_width := int_str (packets_scrollWidth b ps) @ ''px''\<rparr>
     in if follow p then p\<lparr>packets_scrollLeft := packets_scrollWidth b ps,
          holder_scrollLeft := holder_scrollWidth b ps\<rparr> else p)"

definition throw_uncaught :: "string \<Rightarrow> page \<Rightarrow> page" where
  "throw_uncaught e p = p\<lparr>uncaught := uncaught p @ [e]\<rparr>"

text \<open>\<open>packetMessage\<close>; the argument is what \<open>JSON.parse(e.data)\<close> throws or returns.\<close>

definition packetMessage :: "browser \<Rightarrow> string + json \<Rightarrow> page \<Rightarrow> page option" where
  "packetMessage b parsed p = (case parsed of
     Inl e \<Rightarrow> Some (throw_uncaught e p)
   | Inr pkt \<Rightarrow> (case get_prop (Some pkt) ''Msg'' of
       Inl e \<Rightarrow> Some (throw_uncaught e p)
     | Inr msg \<Rightarrow> (case get_prop msg ''Type'' of
         Inl e \<Rightarrow> Some (throw_uncaught e p)
       | Inr ty \<Rightarrow>
           if is_chat ty then (case chat_element b (socketAddr p) pkt of
               None \<Rightarrow> None
             | Some (Inl e) \<Rightarrow> Some (throw_uncaught e p)
             | Some (Inr el) \<Rightarrow> Some (show_packet b pkt (addMsg b el p)))
           else Some (show_packet b pkt p))))"

definition packetError :: "page \<Rightarrow> page" where
  "packetError p = flash_error ''failed to listen pkt: stopped listening'' p"

definition packetsScroll :: "page \<Rightarrow> page" where
  "packetsScroll p = p\<lparr>packets_scrollLeft := holder_scrollLeft p\<rparr>"

section \<open>Broadcast\<close>

definition Broadcast_sendChat :: "page \<Rightarrow> page" where
  "Broadcast_sendChat p = (
     let addr = getAPIURL ''/messaging/broadcast'' p;
         (ok, p) = checkInputs [inputs p ''broadcast.chatMessage''] p
     in if \<not> ok then p else
       let message = el_value (inputs p ''broadcast.chatMessage'');
           msg = JObj [(''Type'', JStr ''chat''), (''payload'', JObj [(''Message'', JStr message)])]
       in base_fetch (http_post addr ''application/json'' (stringify msg)) AtSendChat p)"

definition Broadcast_sendChat_fetched :: "page \<Rightarrow> page" where
  "Broadcast_sendChat_fetched p = flash_success ''chat message broadcasted'' p"

definition Broadcast_sendChat_failed :: "string \<Rightarrow> page \<Rightarrow> page" where
  "Broadcast_sendChat_failed e p = flash_error (''failed to send message: '' @ e) p"

definition recipients_of :: "string \<Rightarrow> (string \<times> json) list" where
  "recipients_of destination =
     fold (\<lambda>e recipients. set_prop (trim e) (JObj []) recipients) (split_on (CHR '','') destination) []"

definition Broadcast_sendPrivate :: "page \<Rightarrow> page" where
  "Broadcast_sendPrivate p = (
     let addr = getAPIURL ''/messaging/broadcast'' p;
         (ok, p) = checkInputs [inputs p ''broadcast.privateMessage'',
           inputs p ''broadcast.privateRecipients''] p
     in if \<not> ok then p else
       let destination = el_value (inputs p ''broadcast.privateRecipients'');
           message = el_value (inputs p ''broadcast.privateMessage'');
           recipients = recipients_of destination;
           msg = JObj [(''Type'', JStr ''private''),
             (''payload'', JObj [(''Recipients'', JObj recipients),
               (''Msg'', JObj [(''Type'', JStr ''chat''),
                 (''payload'', JObj [(''Message'', JStr message)])])])]
       in base_fetch (http_post addr ''application/json'' (stringify msg)) AtSendPrivate p)"

definition Broadcast_sendPrivate_fetched :: "page \<Rightarrow> page" where
  "Broadcast_sendPrivate_fetched p = flash_success ''private message sent'' p"

definition Broadcast_sendPrivate_failed :: "string \<Rightarrow> page \<Rightarrow> page" where
  "Broadcast_sendPrivate_failed e p = flash_error (''failed to send message: '' @ e) p"

section \<open>Catalog\<close>

definition Catalog_update :: "page \<Rightarrow> page" where
  "Catalog_update p = base_fetch (http_get (getAPIURL ''/datasharing/catalog'' p)) AtCatalogUpdate p"

definition Catalog_update_failed :: "string \<Rightarrow> page \<Rightarrow> page" where
  "Catalog_update_failed e p = flash_error (''Failed to fetch catalog: '' @ e) p"

definition Catalog_update_json :: "json \<Rightarrow> page \<Rightarrow> page" where
  "Catalog_update_json data p = (let p = p\<lparr>catalog := CatalogEntries []\<rparr> in
     case object_entries data of
       None \<Rightarrow> Catalog_update_failed entries_type_error p
     | Some kvs \<Rightarrow>
         if kvs = [] then flash_success ''Catalog updated, nothing found''
           (p\<lparr>catalog := CatalogHtml ''<i>no elements</i>''\<rparr>)
         else flash_success ''Catalog updated''
           (p\<lparr>catalog := CatalogEntries
             (map (\<lambda>(chunk, peersBag). (chunk, for_in_keys peersBag)) kvs)\<rparr>))"

definition Catalog_add :: "page \<Rightarrow> page" where
  "Catalog_add p = (
     let addr = getAPIURL ''/datasharing/catalog'' p;
         (ok, p) = checkInputs [inputs p ''catalog.key'', inputs p ''catalog.value''] p
     in if \<not> ok then p else
       let key = el_value (inputs p ''catalog.key'');
           v = el_value (inputs p ''catalog.value'')
       in base_fetch (http_post addr ''application/json'' (stringify (JArr [JStr key, JStr v])))
            AtCatalogAdd p)"

definition Catalog_add_fetched :: "page \<Rightarrow> page" where
  "Catalog_add_fetched p = Catalog_update p"

definition Catalog_add_failed :: "string \<Rightarrow> page \<Rightarrow> page" where
  "Catalog_add_failed e p = flash_error (''failed to add catalog entry: '' @ e) p"

section \<open>DataSharing\<close>

definition DataSharing_upload :: "page \<Rightarrow> page" where
  "DataSharing_upload p = (
     let addr = getAPIURL ''/datasharing/upload'' p
     in if files p = [] then flash_error ''No file found'' p else suspend (WFile addr) p)"

definition DataSharing_upload_load :: "string \<Rightarrow> string \<Rightarrow> page \<Rightarrow> page" where
  "DataSharing_upload_load addr result p =
     base_fetch (http_post addr ''multipart/form-data'' result) AtUpload p"

definition DataSharing_upload_progress :: "browser \<Rightarrow> nat \<Rightarrow> nat \<Rightarrow> page \<Rightarrow> page" where
  "DataSharing_upload_progress b loaded tot p =
     (if loaded \<noteq> 0 \<and> tot \<noteq> 0
      then flash_success (''File upload progress: '' @ int_str (round_percent b loaded tot)) p
      else p)"

definition DataSharing_upload_text :: "string \<Rightarrow> page \<Rightarrow> page" where
  "DataSharing_upload_text text p =
     (flash_success (''data uploaded, metahash: '' @ text) p)\<lparr>uploadResult := ''Metahash: '' @ text\<rparr>"

definition DataSharing_upload_failed :: "string \<Rightarrow> page \<Rightarrow> page" where
  "DataSharing_upload_failed e p = flash_error (''failed to upload data: '' @ e) p"

definition DataSharing_download :: "page \<Rightarrow> page" where
  "DataSharing_download p = (
     let (ok, p) = checkInputs [inputs p ''dataSharing.downloadMetahash''] p
     in if \<not> ok then p else
       let metahash = el_value (inputs p ''dataSharing.downloadMetahash'')
       in base_fetch (http_get (getAPIURL (''/datasharing/download?key='' @ metahash) p))
            (AtDownload metahash) p)"

text \<open>
  \<open>triggerDownload\<close>: the click on the anchor saves the blob under its name; the anchor stays
  in the document's body.
\<close>

definition triggerDownload :: "string \<Rightarrow> string \<Rightarrow> page \<Rightarrow> page" where
  "triggerDownload metahash blob p = p\<lparr>anchors := anchors p @ [(metahash, blob)],
     downloads := downloads p @ [(metahash, blob)]\<rparr>"

definition DataSharing_download_blob :: "string \<Rightarrow> string \<Rightarrow> page \<Rightarrow> page" where
  "DataSharing_download_blob metahash blob p =
     flash_success ''Data downloaded!'' (triggerDownload metahash blob p)"

definition DataSharing_download_failed :: "string \<Rightarrow> page \<Rightarrow> page" where
  "DataSharing_download_failed e p = flash_error (''Failed to download data: '' @ e) p"

section \<open>Search\<close>

definition Search_searchAll :: "page \<Rightarrow> page" where
  "Search_searchAll p = (
     let addr = getAPIURL ''/datasharing/searchAll'' p;
         (ok, p) = checkInputs [inputs p ''search.searchAllPattern'',
           inputs p ''search.searchAllBudget'', inputs p ''search.searchAllTimeout''] p
     in if \<not> ok then p else
       let pattern = el_value (inputs p ''search.searchAllPattern'');
           budget = el_value (inputs p ''search.searchAllBudget'');
           timeout = el_value (inputs p ''search.searchAllTimeout'');
           pkt = JObj [(''Pattern'', JStr pattern), (''Budget'', json_parseInt budget),
             (''Timeout'', JStr timeout)]
       in base_fetch (http_post addr ''multipart/form-data'' (stringify pkt)) AtSearchAll
            (p\<lparr>searchAllResult := ''<i>searching all...</i>''\<rparr>))"

definition Search_searchAll_text :: "string \<Rightarrow> page \<Rightarrow> page" where
  "Search_searchAll_text text p =
     (flash_success (''SearchAll done, result: '' @ text) p)\<lparr>searchAllResult := ''Names: '' @ text\<rparr>"

definition Search_searchAll_failed :: "string \<Rightarrow> page \<Rightarrow> page" where
  "Search_searchAll_failed e p = flash_error (''failed to searchAll: '' @ e) p"

definition Search_searchFirst :: "page \<Rightarrow> page" where
  "Search_searchFirst p = (
     let addr = getAPIURL ''/datasharing/searchFirst'' p;
         (ok, p) = checkInputs [inputs p ''search.searchFirstPattern'',
           inputs p ''search.searchFirstInitialBudget'', inputs p ''search.searchFirstFactor'',
           inputs p ''search.searchFirstRetry'', inputs p ''search.searchFirstTimeout''] p
     in if \<not> ok then p else
       let pattern = el_value (inputs p ''search.searchFirstPattern'');
           initial = el_value (inputs p ''search.searchFirstInitialBudget'');
           factor = el_value (inputs p ''search.searchFirstFactor'');
           retry = el_value (inputs p ''search.searchFirstRetry'');
           timeout = el_value (inputs p ''search.searchFirstTimeout'');
           pkt = JObj [(''Pattern'', JStr pattern), (''Initial'', json_parseInt initial),
             (''Factor'', json_parseInt factor), (''Retry'', json_parseInt retry),
             (''Timeout'', JStr timeout)]
       in base_fetch (http_post addr ''multipart/form-data'' (stringify pkt)) AtSearchFirst
            (p\<lparr>searchFirstResult := ''<i>searching first...</i>''\<rparr>))"

definition Search_searchFirst_text :: "string \<Rightarrow> page \<Rightarrow> page" where
  "Search_searchFirst_text text p = (
     let p = flash_success (''Search done, result: '' @ text) p;
         p = p\<lparr>searchFirstResult :=
           (if text = [] then ''<i>Nothing found</i>'' else ''Names: '' @ text)\<rparr>
     in flash_success (''search first done, result: '' @ text) p)"

definition Search_searchFirst_failed :: "string \<Rightarrow> page \<Rightarrow> page" where
  "Search_searchFirst_failed e p = flash_error (''failed to Search first: '' @ e) p"

section \<open>Naming\<close>

text \<open>\<open>resolve\<close> calls \<open>checkInputs\<close> and goes on whatever it returns.\<close>

definition Naming_resolve :: "page \<Rightarrow> page" where
  "Naming_resolve p = (
     let (_, p) = checkInputs [inputs p ''naming.resolveFilename''] p;
         filename = el_value (inputs p ''naming.resolveFilename'')
     in base_fetch (http_get (getAPIURL (''/datasharing/naming?name='' @ filename) p)) AtResolve p)"

definition Naming_resolve_text :: "string \<Rightarrow> page \<Rightarrow> page" where
  "Naming_resolve_text text p = flash_success ''filename resolved''
     (p\<lparr>resolveResult := (if text = [] then ''<i>nothing found</i>'' else text)\<rparr>)"

definition Naming_resolve_failed :: "string \<Rightarrow> page \<Rightarrow> page" where
  "Naming_resolve_failed e p = flash_error (''Failed to resolve filename: '' @ e) p"

definition Naming_tag :: "page \<Rightarrow> page" where
  "Naming_tag p = (
     let addr = getAPIURL ''/datasharing/naming'' p;
         (ok, p) = checkInputs [inputs p ''naming.tagFilename'', inputs p ''naming.tagMetahash''] p
     in if \<not> ok then p else
       let filename = el_value (inputs p ''naming.tagFilename'');
           metahash = el_value (inputs p ''naming.tagMetahash'')
       in base_fetch (http_post addr ''application/json''
            (stringify (JArr [JStr filename, JStr metahash]))) AtTag p)"

definition Naming_tag_fetched :: "page \<Rightarrow> page" where
  "Naming_tag_fetched p = flash_success ''tagging done'' p"

definition Naming_tag_failed :: "string \<Rightarrow> page \<Rightarrow> page" where
  "Naming_tag_failed e p = flash_error (''failed to tag filename: '' @ e) p"

end
