(* ===== verification/Gui_Run.thy ===== *)
theory Gui_Run
  imports Gui_Handlers
begin

text \<open>
  Running the page: what happens when the browser settles something a handler awaits
  (\<open>resume\<close>), the events that start a handler (\<open>event\<close>), and the steps of the whole page
  as a relation (\<open>gui_step\<close>), in which settlements, events, timers and edits of the form
  come in any order and the node may answer anything.
\<close>

section \<open>Resuming a suspended handler\<close>

text \<open>After \<open>await this.fetch(...)\<close> returned a response with status 200.\<close>

fun fetched :: "browser \<Rightarrow> cont \<Rightarrow> page \<Rightarrow> page" where
  "fetched b (AtUnicastSend message destination) = Unicast_send_fetched b message destination"
| "fetched b AtAddPeer = Routing_addPeer_fetched"
| "fetched b (AtSetEntry relay) = Routing_setEntry_fetched relay"
| "fetched b AtSendChat = Broadcast_sendChat_fetched"
| "fetched b AtSendPrivate = Broadcast_sendPrivate_fetched"
| "fetched b AtCatalogAdd = Catalog_add_fetched"
| "fetched b AtTag = Naming_tag_fetched"
| "fetched b c = suspend (WBody c)"

text \<open>The \<open>catch\<close> clause around it.\<close>

fun failed :: "cont \<Rightarrow> string \<Rightarrow> page \<Rightarrow> page" where
  "failed (AtUnicastSend message destination) = Unicast_send_failed"
| "failed (AtRoutingUpdate addr) = Routing_update_failed addr"
| "failed AtRoutingGraph = Routing_graph_failed"
| "failed AtAddPeer = Routing_addPeer_failed"
| "failed (AtSetEntry relay) = Routing_setEntry_failed"
| "failed AtSendChat = Broadcast_sendChat_failed"
| "failed AtSendPrivate = Broadcast_sendPrivate_failed"
| "failed AtCatalogUpdate = Catalog_update_failed"
| "failed AtCatalogAdd = Catalog_add_failed"
| "failed AtUpload = DataSharing_upload_failed"
| "failed (AtDownload metahash) = DataSharing_download_failed"
| "failed AtSearchAll = Search_searchAll_failed"
| "failed AtSearchFirst = Search_searchFirst_failed"
| "failed AtResolve = Naming_resolve_failed"
| "failed AtTag = Naming_tag_failed"

text \<open>After the body was read; \<open>None\<close> when the outcome is of another kind than awaited.\<close>

fun body_read :: "cont \<Rightarrow> outcome \<Rightarrow> page \<Rightarrow> page option" where
  "body_read (AtRoutingUpdate addr) (GotJson data) p = Some (Routing_update_json addr data p)"
| "body_read AtRoutingGraph (GotText data) p = Some (Routing_graph_text p)"
| "body_read AtCatalogUpdate (GotJson data) p = Some (Catalog_update_json data p)"
| "body_read AtUpload (GotText text) p = Some (DataSharing_upload_text text p)"
| "body_read (AtDownload metahash) (GotBlob blob) p = Some (DataSharing_download_blob metahash blob p)"
| "body_read AtSearchAll (GotText text) p = Some (Search_searchAll_text text p)"
| "body_read AtSearchFirst (GotText text) p = Some (Search_searchFirst_text text p)"
| "body_read AtResolve (GotText text) p = Some (Naming_resolve_text text p)"
| "body_read c (Failed e) p = Some (failed c e p)"
| "body_read c r p = None"

fun resume :: "browser \<Rightarrow> wait \<Rightarrow> outcome \<Rightarrow> page \<Rightarrow> page option" where
  "resume b (WFetch c) (Responded st stx) p =
     Some (if st \<noteq> 200 then suspend (WErrText st stx c) p else fetched b c p)"
| "resume b (WFetch c) (Failed e) p = Some (failed c e p)"
| "resume b (WErrText st stx c) (GotText txt) p = Some (failed c (wrong_status st stx txt) p)"
| "resume b (WErrText st stx c) (Failed e) p = Some (failed c e p)"
| "resume b (WBody c) r p = body_read c r p"
| "resume b WViz (GotSvg el) p = Some (Routing_graph_svg el p)"
| "resume b WViz (Failed e) p = Some (Routing_graph_failed e p)"
| "resume b (WFile addr) (GotFile result) p = Some (DataSharing_upload_load addr result p)"
| "resume b WPeerFetch (Responded st stx) p = Some (PeerInfo_fetched p)"
| "resume b WPeerFetch (Failed e) p = Some (PeerInfo_failed e p)"
| "resume b WPeerText (GotText text) p = Some (PeerInfo_text text p)"
| "resume b WPeerText (Failed e) p = Some (PeerInfo_failed e p)"
| "resume b w r p = None"

text \<open>Settling the suspended handler with number \<open>i\<close>.\<close>

definition settle :: "browser \<Rightarrow> nat \<Rightarrow> outcome \<Rightarrow> page \<Rightarrow> page option" where
  "settle b i r p = (case map_of (pending p) i of
     None \<Rightarrow> None
   | Some w \<Rightarrow> resume b w r (p\<lparr>pending := AList.delete i (pending p)\<rparr>))"

section \<open>Events\<close>

text \<open>The actions that node.html binds to its buttons.\<close>

datatype action =
    ActUnicastSend | ActSendChat | ActSendPrivate | ActRoutingUpdate | ActAddPeer | ActSetEntry
  | ActCatalogUpdate | ActCatalogAdd | ActUpload | ActDownload | ActSearchAll | ActSearchFirst
  | ActResolve | ActTag

fun perform :: "action \<Rightarrow> page \<Rightarrow> page" where
  "perform ActUnicastSend = Unicast_send"
| "perform ActSendChat = Broadcast_sendChat"
| "perform ActSendPrivate = Broadcast_sendPrivate"
| "perform ActRoutingUpdate = Routing_update"
| "perform ActAddPeer = Routing_addPeer"
| "perform ActSetEntry = Routing_setEntry"
| "perform ActCatalogUpdate = Catalog_update"
| "perform ActCatalogAdd = Catalog_add"
| "perform ActUpload = DataSharing_upload"
| "perform ActDownload = DataSharing_download"
| "perform ActSearchAll = Search_searchAll"
| "perform ActSearchFirst = Search_searchFirst"
| "perform ActResolve = Naming_resolve"
| "perform ActTag = Naming_tag"

datatype event =
    Click action
  | Settle nat outcome
  | Packet "string + json"
  | PacketFailure
  | Scroll
  | Progress nat nat
  | FlashClose nat
  | FlashTimeout nat
  | Edit "string \<Rightarrow> input_el"
  | Choose "string list"
  | Follow bool
  | Tick int

fun handle :: "browser \<Rightarrow> event \<Rightarrow> page \<Rightarrow> page option" where
  "handle b (Click a) p = Some (perform a p)"
| "handle b (Settle i r) p = settle b i r p"
| "handle b (Packet parsed) p = packetMessage b parsed p"
| "handle b PacketFailure p = Some (packetError p)"
| "handle b Scroll p = Some (packetsScroll p)"
| "handle b (Progress loaded tot) p = Some (DataSharing_upload_progress b loaded tot p)"
| "handle b (FlashClose i) p = Some (p\<lparr>flash_st := closeFlash i (flash_st p)\<rparr>)"
| "handle b (FlashTimeout i) p = (if i \<in> set (timers (flash_st p))
     then Some (p\<lparr>flash_st := expireFlash i (flash_st p)\<rparr>) else None)"
| "handle b (Edit ins) p = Some (p\<lparr>inputs := ins\<rparr>)"
| "handle b (Choose fs) p = Some (p\<lparr>files := fs\<rparr>)"
| "handle b (Follow on) p = Some (p\<lparr>follow := on\<rparr>)"
| "handle b (Tick t) p = Some (p\<lparr>clock := t\<rparr>)"

text \<open>
  Start-up: the controllers whose \<open>initialize\<close> does something, in the order of their
  elements in node.html.
\<close>

definition boot :: "string \<Rightarrow> (string \<Rightarrow> input_el) \<Rightarrow> page option" where
  "boot search ins = map_option (\<lambda>p. Packets_initialize (Catalog_update (Routing_update p)))
     (PeerInfo_initialize search (new_page ins))"

inductive gui_step :: "browser \<Rightarrow> page \<Rightarrow> page \<Rightarrow> bool" for b :: browser where
  "handle b e p = Some p' \<Longrightarrow> gui_step b p p'"

inductive reachable :: "browser \<Rightarrow> page \<Rightarrow> bool" for b :: browser where
  boot: "boot search ins = Some p \<Longrightarrow> reachable b p"
| step: "reachable b p \<Longrightarrow> gui_step b p p' \<Longrightarrow> reachable b p'"

inductive_cases gui_stepE: "gui_step b p p'"

end
