(* ===== verification/Gui_Forms.thy ===== *)
theory Gui_Forms
  imports Gui_Run
begin

text \<open>
  The contract shared by the handlers that read a form: an empty required field is reported
  and nothing else happens; a complete form makes exactly one request and leaves exactly one
  suspended handler. The contract is a locale, each form handler an interpretation of it.
\<close>

section \<open>A handler behind a form check\<close>

definition empty_msg :: "input_el list \<Rightarrow> string" where
  "empty_msg es = ''form validation failed: '' @ dq
     @ el_name (hd (dropWhile (\<lambda>e. el_value e \<noteq> []) es)) @ dq @ '' is empty or invalid''"

definition complete :: "page \<Rightarrow> string list \<Rightarrow> bool" where
  "complete p ts \<longleftrightarrow> list_all (\<lambda>t. el_value (inputs p t) \<noteq> []) ts"

lemma checkInputs_eq:
  "checkInputs (map (inputs q) ts) p =
     (if complete q ts then (True, p) else (False, flash_error (empty_msg (map (inputs q) ts)) p))"
  by (induction ts) (auto simp: complete_def empty_msg_def)

lemmas checkInputs_eq1 = checkInputs_eq [where ts = "[a]" for a, simplified]
  and checkInputs_eq2 = checkInputs_eq [where ts = "[a, b]" for a b, simplified]
  and checkInputs_eq3 = checkInputs_eq [where ts = "[a, b, c]" for a b c, simplified]
  and checkInputs_eq5 = checkInputs_eq [where ts = "[a, b, c, d, e]" for a b c d e, simplified]

locale form_handler =
  fixes handler :: "page \<Rightarrow> page"
    and fields :: "string list"
    and req :: "page \<Rightarrow> request"
    and cont :: "page \<Rightarrow> cont"
    and prep :: "page \<Rightarrow> page"
  assumes handler_form: "handler p =
      (if complete p fields then base_fetch (req p) (cont p) (prep p)
       else flash_error (empty_msg (map (inputs p) fields)) p)"
    and prep_frame: "sent (prep p) = sent p" "pending (prep p) = pending p"
      "next_wait (prep p) = next_wait p" "flash_st (prep p) = flash_st p"
      "messages (prep p) = messages p" "uncaught (prep p) = uncaught p" "endpoint (prep p) = endpoint p"
begin

lemma rejected:
  "\<not> complete p fields \<Longrightarrow> handler p = flash_error (empty_msg (map (inputs p) fields)) p"
  by (simp add: handler_form)

lemma accepted:
  assumes "complete p fields"
  shows "sent (handler p) = sent p @ [req p]"
    and "pending (handler p) = pending p @ [(next_wait p, WFetch (cont p))]"
    and "flash_st (handler p) = flash_st p"
  using assms
  by (simp_all add: handler_form base_fetch_def start_fetch_def suspend_def prep_frame)

end

section \<open>The form handlers of the page\<close>

text \<open>
  The fields each action checks; \<open>None\<close> for the actions without a form. The request each of them
  makes when the form is complete.
\<close>

fun form_fields :: "action \<Rightarrow> string list option" where
  "form_fields ActUnicastSend = Some [''unicast.message'', ''unicast.destination'']"
| "form_fields ActSendChat = Some [''broadcast.chatMessage'']"
| "form_fields ActSendPrivate = Some [''broadcast.privateMessage'', ''broadcast.privateRecipients'']"
| "form_fields ActAddPeer = Some [''routing.peer'']"
| "form_fields ActSetEntry = Some [''routing.origin'']"
| "form_fields ActCatalogAdd = Some [''catalog.key'', ''catalog.value'']"
| "form_fields ActDownload = Some [''dataSharing.downloadMetahash'']"
| "form_fields ActSearchAll = Some [''search.searchAllPattern'', ''search.searchAllBudget'',
     ''search.searchAllTimeout'']"
| "form_fields ActSearchFirst = Some [''search.searchFirstPattern'',
     ''search.searchFirstInitialBudget'', ''search.searchFirstFactor'', ''search.searchFirstRetry'',
     ''search.searchFirstTimeout'']"
| "form_fields ActTag = Some [''naming.tagFilename'', ''naming.tagMetahash'']"
| "form_fields ActResolve = Some [''naming.resolveFilename'']"
| "form_fields _ = None"

definition field :: "page \<Rightarrow> string \<Rightarrow> string" where
  "field p t = el_value (inputs p t)"

definition post_json :: "page \<Rightarrow> string \<Rightarrow> json \<Rightarrow> request" where
  "post_json p path v = http_post (getAPIURL path p) ''application/json'' (stringify v)"

definition chat_json :: "string \<Rightarrow> json" where
  "chat_json m = JObj [(''Type'', JStr ''chat''), (''payload'', JObj [(''Message'', JStr m)])]"

fun form_request :: "action \<Rightarrow> page \<Rightarrow> request" where
  "form_request ActUnicastSend p = post_json p ''/messaging/unicast''
     (JObj [(''Dest'', JStr (field p ''unicast.destination'')),
            (''Msg'', chat_json (field p ''unicast.message''))])"
| "form_request ActSendChat p = post_json p ''/messaging/broadcast''
     (chat_json (field p ''broadcast.chatMessage''))"
| "form_request ActSendPrivate p = post_json p ''/messaging/broadcast''
     (JObj [(''Type'', JStr ''private''), (''payload'', JObj
        [(''Recipients'', JObj (recipients_of (field p ''broadcast.privateRecipients''))),
         (''Msg'', chat_json (field p ''broadcast.privateMessage''))])])"
| "form_request ActAddPeer p = post_json p ''/messaging/peers'' (JArr [JStr (field p ''routing.peer'')])"
| "form_request ActSetEntry p = post_json p ''/messaging/routing''
     (JObj [(''Origin'', JStr (field p ''routing.origin'')),
            (''RelayAddr'', JStr (field p ''routing.relay''))])"
| "form_request ActCatalogAdd p = post_json p ''/datasharing/catalog''
     (JArr [JStr (field p ''catalog.key''), JStr (field p ''catalog.value'')])"
| "form_request ActDownload p =
     http_get (getAPIURL (''/datasharing/download?key='' @ field p ''dataSharing.downloadMetahash'') p)"
| "form_request ActSearchAll p = http_post (getAPIURL ''/datasharing/searchAll'' p)
     ''multipart/form-data'' (stringify (JObj
       [(''Pattern'', JStr (field p ''search.searchAllPattern'')),
        (''Budget'', json_parseInt (field p ''search.searchAllBudget'')),
        (''Timeout'', JStr (field p ''search.searchAllTimeout''))]))"
| "form_request ActSearchFirst p = http_post (getAPIURL ''/datasharing/searchFirst'' p)
     ''multipart/form-data'' (stringify (JObj
       [(''Pattern'', JStr (field p ''search.searchFirstPattern'')),
        (''Initial'', json_parseInt (field p ''search.searchFirstInitialBudget'')),
        (''Factor'', json_parseInt (field p ''search.searchFirstFactor'')),
        (''Retry'', json_parseInt (field p ''search.searchFirstRetry'')),
        (''Timeout'', JStr (field p ''search.searchFirstTimeout''))]))"
| "form_request ActTag p = post_json p ''/datasharing/naming''
     (JArr [JStr (field p ''naming.tagFilename''), JStr (field p ''naming.tagMetahash'')])"
| "form_request ActRoutingUpdate p = http_get (getAPIURL ''/messaging/routing'' p)"
| "form_request ActCatalogUpdate p = http_get (getAPIURL ''/datasharing/catalog'' p)"
| "form_request ActUpload p = http_post (getAPIURL ''/datasharing/upload'' p) ''multipart/form-data''
     (hd (files p))"
| "form_request ActResolve p =
     http_get (getAPIURL (''/datasharing/naming?name='' @ field p ''naming.resolveFilename'') p)"

lemmas request_defs = post_json_def chat_json_def field_def unicast_pkt_def

interpretation unicast: form_handler Unicast_send "[''unicast.message'', ''unicast.destination'']"
  "form_request ActUnicastSend"
  "\<lambda>p. AtUnicastSend (field p ''unicast.message'') (field p ''unicast.destination'')" "\<lambda>p. p"
  by unfold_locales (simp_all add: Unicast_send_def checkInputs_eq2 request_defs Let_def)

interpretation sendChat: form_handler Broadcast_sendChat "[''broadcast.chatMessage'']"
  "form_request ActSendChat" "\<lambda>p. AtSendChat" "\<lambda>p. p"
  by unfold_locales (simp_all add: Broadcast_sendChat_def checkInputs_eq1 request_defs Let_def)

interpretation sendPrivate: form_handler Broadcast_sendPrivate
  "[''broadcast.privateMessage'', ''broadcast.privateRecipients'']"
  "form_request ActSendPrivate" "\<lambda>p. AtSendPrivate" "\<lambda>p. p"
  by unfold_locales (simp_all add: Broadcast_sendPrivate_def checkInputs_eq2 request_defs Let_def)

interpretation addPeer: form_handler Routing_addPeer "[''routing.peer'']"
  "form_request ActAddPeer" "\<lambda>p. AtAddPeer" "\<lambda>p. p"
  by unfold_locales (simp_all add: Routing_addPeer_def checkInputs_eq1 request_defs Let_def)

interpretation setEntry: form_handler Routing_setEntry "[''routing.origin'']"
  "form_request ActSetEntry" "\<lambda>p. AtSetEntry (field p ''routing.relay'')" "\<lambda>p. p"
  by unfold_locales (simp_all add: Routing_setEntry_def checkInputs_eq1 request_defs Let_def)

interpretation catalogAdd: form_handler Catalog_add "[''catalog.key'', ''catalog.value'']"
  "form_request ActCatalogAdd" "\<lambda>p. AtCatalogAdd" "\<lambda>p. p"
  by unfold_locales (simp_all add: Catalog_add_def checkInputs_eq2 request_defs Let_def)

interpretation dl: form_handler DataSharing_download "[''dataSharing.downloadMetahash'']"
  "form_request ActDownload" "\<lambda>p. AtDownload (field p ''dataSharing.downloadMetahash'')" "\<lambda>p. p"
  by unfold_locales (simp_all add: DataSharing_download_def checkInputs_eq1 request_defs Let_def)

interpretation searchAll: form_handler Search_searchAll
  "[''search.searchAllPattern'', ''search.searchAllBudget'', ''search.searchAllTimeout'']"
  "form_request ActSearchAll" "\<lambda>p. AtSearchAll"
  "\<lambda>p. p\<lparr>searchAllResult := ''<i>searching all...</i>''\<rparr>"
  by unfold_locales (simp_all add: Search_searchAll_def checkInputs_eq3 request_defs Let_def)

interpretation searchFirst: form_handler Search_searchFirst
  "[''search.searchFirstPattern'', ''search.searchFirstInitialBudget'',
    ''search.searchFirstFactor'', ''search.searchFirstRetry'', ''search.searchFirstTimeout'']"
  "form_request ActSearchFirst" "\<lambda>p. AtSearchFirst"
  "\<lambda>p. p\<lparr>searchFirstResult := ''<i>searching first...</i>''\<rparr>"
  by unfold_locales (simp_all add: Search_searchFirst_def checkInputs_eq5 request_defs Let_def)

interpretation tag: form_handler Naming_tag "[''naming.tagFilename'', ''naming.tagMetahash'']"
  "form_request ActTag" "\<lambda>p. AtTag" "\<lambda>p. p"
  by unfold_locales (simp_all add: Naming_tag_def checkInputs_eq2 request_defs Let_def)

text \<open>\<open>Naming.resolve\<close> sends its request in any case.\<close>

lemma resolve_form:
  "Naming_resolve p = base_fetch (form_request ActResolve p) AtResolve
     (if complete p [''naming.resolveFilename''] then p
      else flash_error (empty_msg (map (inputs p) [''naming.resolveFilename''])) p)"
  by (simp add: Naming_resolve_def checkInputs_eq1 request_defs getAPIURL_def flash_error_def Let_def)

lemma resolve_accepted:
  assumes "complete p [''naming.resolveFilename'']"
  shows "sent (Naming_resolve p) = sent p @ [form_request ActResolve p]"
    "pending (Naming_resolve p) = pending p @ [(next_wait p, WFetch AtResolve)]"
    "flash_st (Naming_resolve p) = flash_st p"
  using assms unfolding resolve_form by (simp_all add: base_fetch_def start_fetch_def suspend_def)

lemmas form_rejected = unicast.rejected sendChat.rejected sendPrivate.rejected addPeer.rejected
  setEntry.rejected catalogAdd.rejected dl.rejected searchAll.rejected searchFirst.rejected
  tag.rejected

lemmas form_accepted = unicast.accepted sendChat.accepted sendPrivate.accepted addPeer.accepted
  setEntry.accepted catalogAdd.accepted dl.accepted searchAll.accepted searchFirst.accepted
  tag.accepted resolve_accepted

end
