(* ===== verification/Node_Api.thy ===== *)
theory Node_Api
  imports Main
begin

text \<open>
  The endpoints of the node's HTTP proxy that the page talks to: the paths that
  gui/httpnode/mod.go registers on its mux and the methods that the handler of each path
  lets through, from the controllers under gui/httpnode/controller. A path that is not
  registered is answered by the catch-all handler with status 502, a method that is not
  let through with status 405.
\<close>

definition mux :: "(string \<times> string list) list" where
  "mux = [
     (''/messaging/peers'', [''POST'', ''OPTIONS'']),
     (''/messaging/routing'', [''GET'', ''POST'', ''OPTIONS'']),
     (''/messaging/unicast'', [''POST'', ''OPTIONS'']),
     (''/messaging/broadcast'', [''POST'', ''OPTIONS'']),
     (''/socket/ins'', [''GET'']),
     (''/socket/outs'', [''GET'']),
     (''/socket/address'', [''GET'']),
     (''/registry/messages'', [''GET'']),
     (''/registry/pktnotify'', [''GET'', ''OPTIONS'']),
     (''/service/stop'', [''POST'', ''OPTIONS'']),
     (''/datasharing/upload'', [''POST'', ''OPTIONS'']),
     (''/datasharing/download'', [''GET'', ''OPTIONS'']),
     (''/datasharing/naming'', [''POST'', ''OPTIONS'', ''GET'']),
     (''/datasharing/catalog'', [''POST'', ''OPTIONS'', ''GET'']),
     (''/datasharing/searchAll'', [''POST'', ''OPTIONS'']),
     (''/datasharing/searchFirst'', [''POST'', ''OPTIONS'']),
     (''/blockchain'', [''GET''])]"

text \<open>The status the mux itself answers with; \<open>None\<close> when the path's handler runs.\<close>

definition mux_reply :: "string \<Rightarrow> string \<Rightarrow> nat option" where
  "mux_reply path meth = (case map_of mux path of
     None \<Rightarrow> Some 502
   | Some meths \<Rightarrow> if meth \<in> set meths then None else Some 405)"

end
