(* ===== verification/Gui_Safety.thy ===== *)
theory Gui_Safety
  imports Gui_Forms Node_Api
begin

text \<open>
  What holds of the page in every reachable state, whatever the node answers and in whatever
  order the browser runs things: an invariant, its preservation by every event, and the
  properties that follow.
\<close>

section \<open>The invariant\<close>

text \<open>
  A request that the node's mux passes on to a handler; \<open>e\<close> is the endpoint of the page.
\<close>

definition routed :: "string option \<Rightarrow> request \<Rightarrow> bool" where
  "routed e r \<longleftrightarrow> (\<exists>path q. req_url r = api_base e @ path @ q \<and> (q = [] \<or> hd q = CHR ''?'')
     \<and> mux_reply path (req_method r) = None)"

fun cont_of :: "wait \<Rightarrow> cont option" where
  "cont_of (WFetch c) = Some c"
| "cont_of (WErrText st stx c) = Some c"
| "cont_of (WBody c) = Some c"
| "cont_of _ = None"

definition unicast_request :: "string option \<Rightarrow> string \<Rightarrow> string \<Rightarrow> request" where
  "unicast_request e m d = http_post (api_base e @ ''/messaging/unicast'') ''application/json''
     (stringify (unicast_pkt m d))"

definition wait_ok :: "string option \<Rightarrow> request list \<Rightarrow> wait \<Rightarrow> bool" where
  "wait_ok e rs w \<longleftrightarrow>
     (\<forall>m d. cont_of w = Some (AtUnicastSend m d) \<longrightarrow>
        m \<noteq> [] \<and> d \<noteq> [] \<and> unicast_request e m d \<in> set rs)
     \<and> (\<forall>addr. cont_of w = Some (AtRoutingUpdate addr) \<longrightarrow> addr = api_base e @ ''/messaging/routing'')
     \<and> (\<forall>addr. w = WFile addr \<longrightarrow> addr = api_base e @ ''/datasharing/upload'')"

definition page_inv :: "page \<Rightarrow> bool" where
  "page_inv p \<longleftrightarrow> flash_wf (flash_st p)
     \<and> map_wf (pending p)
     \<and> (\<forall>(i, w) \<in> set (pending p). i < next_wait p \<and> wait_ok (endpoint p) (sent p) w)
     \<and> (\<forall>r \<in> set (sent p). routed (endpoint p) r)"

lemma wait_ok_mono: "wait_ok e rs w \<Longrightarrow> set rs \<subseteq> set rs' \<Longrightarrow> wait_ok e rs' w"
  by (auto simp: wait_ok_def)

text \<open>The invariant reads five fields of the page only.\<close>

lemma page_inv_cong:
  assumes "flash_st q = flash_st p" "pending q = pending p" "next_wait q = next_wait p"
    "sent q = sent p" "endpoint q = endpoint p"
  shows "page_inv q = page_inv p"
  using assms by (simp add: page_inv_def)

lemma page_inv_frame [simp]:
  "page_inv (p\<lparr>inputs := v1\<rparr>) = page_inv p"
  "page_inv (p\<lparr>files := v2\<rparr>) = page_inv p"
  "page_inv (p\<lparr>messages := v3, messages_scrollTop := v4\<rparr>) = page_inv p"
  "page_inv (p\<lparr>routing_table := v5\<rparr>) = page_inv p"
  "page_inv (p\<lparr>graphviz := v6\<rparr>) = page_inv p"
  "page_inv (p\<lparr>catalog := v7\<rparr>) = page_inv p"
  "page_inv (p\<lparr>uploadResult := v8\<rparr>) = page_inv p"
  "page_inv (p\<lparr>searchAllResult := v8\<rparr>) = page_inv p"
  "page_inv (p\<lparr>searchFirstResult := v8\<rparr>) = page_inv p"
  "page_inv (p\<lparr>resolveResult := v8\<rparr>) = page_inv p"
  "page_inv (p\<lparr>packets := v9, scroll_width := v10\<rparr>) = page_inv p"
  "page_inv (p\<lparr>packets_scrollLeft := v4\<rparr>) = page_inv p"
  "page_inv (p\<lparr>packets_scrollLeft := v4, holder_scrollLeft := v11\<rparr>) = page_inv p"
  "page_inv (p\<lparr>follow := v12\<rparr>) = page_inv p"
  "page_inv (p\<lparr>event_source := v13\<rparr>) = page_inv p"
  "page_inv (p\<lparr>anchors := v14, downloads := v15\<rparr>) = page_inv p"
  "page_inv (p\<lparr>clock := v16\<rparr>) = page_inv p"
  "page_inv (p\<lparr>uncaught := v17\<rparr>) = page_inv p"
  "page_inv (p\<lparr>socketAddrText := v18, socketAddr := v19\<rparr>) = page_inv p"
  by (simp_all add: page_inv_def)

lemma page_inv_flash_st: "page_inv p \<Longrightarrow> flash_wf f \<Longrightarrow> page_inv (p\<lparr>flash_st := f\<rparr>)"
  by (simp add: page_inv_def)

lemma page_inv_flash_wf: "page_inv p \<Longrightarrow> flash_wf (flash_st p)"
  by (simp add: page_inv_def)

lemma page_inv_flash [simp]:
  assumes "page_inv p"
  shows "page_inv (flash_error e p)" "page_inv (flash_success e p)"
  using assms by (simp_all add: flash_error_def flash_success_def page_inv_flash_st page_inv_flash_wf)

lemma page_inv_suspend:
  assumes "page_inv p" and "wait_ok (endpoint p) (sent p) w"
  shows "page_inv (suspend w p)"
proof -
  have "next_wait p \<notin> fst ` set (pending p)"
    using assms(1) by (force simp: page_inv_def)
  with assms show ?thesis
    by (auto simp: page_inv_def suspend_def map_wf_def less_Suc_eq)
qed

lemma page_inv_start_fetch:
  assumes "page_inv p" and "routed (endpoint p) r" and "wait_ok (endpoint p) (sent p @ [r]) w"
  shows "page_inv (start_fetch r w p)"
  unfolding start_fetch_def
proof (rule page_inv_suspend)
  have "wait_ok (endpoint p) (sent p) w' \<Longrightarrow> wait_ok (endpoint p) (sent p @ [r]) w'" for w'
    by (rule wait_ok_mono) auto
  with assms(1,2) show "page_inv (p\<lparr>sent := sent p @ [r]\<rparr>)"
    by (auto simp: page_inv_def)
qed (use assms(3) in simp)

lemma page_inv_delete:
  "page_inv p \<Longrightarrow> page_inv (p\<lparr>pending := AList.delete i (pending p)\<rparr>)"
  by (auto simp: page_inv_def AList.delete_eq map_wf_def distinct_map_filter)

section \<open>Requests\<close>

lemma routedI:
  "req_url r = api_base e @ path @ q \<Longrightarrow> q = [] \<or> hd q = CHR ''?'' \<Longrightarrow>
   mux_reply path (req_method r) = None \<Longrightarrow> routed e r"
  by (auto simp: routed_def)

fun api_path :: "action \<Rightarrow> string" where
  "api_path ActUnicastSend = ''/messaging/unicast''"
| "api_path ActSendChat = ''/messaging/broadcast''"
| "api_path ActSendPrivate = ''/messaging/broadcast''"
| "api_path ActRoutingUpdate = ''/messaging/routing''"
| "api_path ActAddPeer = ''/messaging/peers''"
| "api_path ActSetEntry = ''/messaging/routing''"
| "api_path ActCatalogUpdate = ''/datasharing/catalog''"
| "api_path ActCatalogAdd = ''/datasharing/catalog''"
| "api_path ActUpload = ''/datasharing/upload''"
| "api_path ActDownload = ''/datasharing/download''"
| "api_path ActSearchAll = ''/datasharing/searchAll''"
| "api_path ActSearchFirst = ''/datasharing/searchFirst''"
| "api_path ActResolve = ''/datasharing/naming''"
| "api_path ActTag = ''/datasharing/naming''"

fun api_query :: "action \<Rightarrow> page \<Rightarrow> string" where
  "api_query ActDownload p = ''?key='' @ field p ''dataSharing.downloadMetahash''"
| "api_query ActResolve p = ''?name='' @ field p ''naming.resolveFilename''"
| "api_query _ p = []"

lemmas http_defs = http_get_def http_post_def post_json_def getAPIURL_def

lemma form_request_url:
  "req_url (form_request a p) = api_base (endpoint p) @ api_path a @ api_query a p"
  by (cases a) (simp_all add: http_defs)

lemma form_request_method: "mux_reply (api_path a) (req_method (form_request a p)) = None"
  by (cases a) (simp_all add: http_defs mux_reply_def mux_def)

lemma form_request_routed: "routed (endpoint p) (form_request a p)"
  by (rule routedI [OF form_request_url _ form_request_method]) (cases a; simp)

lemma graph_request_routed:
  "routed e (http_get (api_base e @ ''/messaging/routing'' @ ''?graphviz=on''))"
  by (rule routedI [where path = "''/messaging/routing''" and q = "''?graphviz=on''"])
    (simp_all add: http_defs mux_reply_def mux_def)

section \<open>Every step keeps the invariant\<close>

lemma wait_ok_cont:
  "wait_ok e rs w \<Longrightarrow> cont_of w = Some c \<Longrightarrow> cont_of w' = Some c \<Longrightarrow> wait_ok e rs w'"
  by (auto simp: wait_ok_def)

lemma wait_ok_trivial:
  "(\<And>m d. cont_of w \<noteq> Some (AtUnicastSend m d)) \<Longrightarrow> (\<And>a. cont_of w \<noteq> Some (AtRoutingUpdate a)) \<Longrightarrow>
   (\<And>a. w \<noteq> WFile a) \<Longrightarrow> wait_ok e rs w"
  by (simp add: wait_ok_def)

lemma base_fetch_inv:
  assumes "page_inv q" "endpoint q = endpoint p" "wait_ok (endpoint p) (sent q @ [form_request a p]) (WFetch c)"
  shows "page_inv (base_fetch (form_request a p) c q)"
  unfolding base_fetch_def
  by (rule page_inv_start_fetch) (use assms form_request_routed [of p a] in simp_all)

lemma Routing_update_inv [simp]: "page_inv p \<Longrightarrow> page_inv (Routing_update p)"
  using base_fetch_inv [of p p ActRoutingUpdate "AtRoutingUpdate (getAPIURL ''/messaging/routing'' p)"]
  by (simp add: Routing_update_def wait_ok_def getAPIURL_def Let_def)

lemma Catalog_update_inv [simp]: "page_inv p \<Longrightarrow> page_inv (Catalog_update p)"
  using base_fetch_inv [of p p ActCatalogUpdate AtCatalogUpdate]
  by (simp add: Catalog_update_def wait_ok_trivial)

lemma Routing_graph_inv:
  assumes "page_inv p" "addr = api_base (endpoint p) @ ''/messaging/routing''"
  shows "page_inv (Routing_graph addr p)"
  unfolding Routing_graph_def base_fetch_def
  by (rule page_inv_start_fetch)
    (use assms graph_request_routed [of "endpoint p"] in \<open>simp_all add: wait_ok_trivial\<close>)

lemma Naming_resolve_inv: "page_inv p \<Longrightarrow> page_inv (Naming_resolve p)"
proof -
  assume p: "page_inv p"
  define q where "q = snd (checkInputs [inputs p ''naming.resolveFilename''] p)"
  have q: "page_inv q" "endpoint q = endpoint p" "inputs q = inputs p"
    using p by (auto simp: q_def flash_error_def page_inv_flash_st page_inv_flash_wf)
  have "Naming_resolve p = base_fetch (form_request ActResolve q) AtResolve q"
    by (simp add: Naming_resolve_def q_def case_prod_unfold field_def Let_def)
  then show ?thesis
    using base_fetch_inv [OF q(1) refl, of ActResolve AtResolve]
    by (simp del: form_request.simps add: wait_ok_trivial)
qed

lemma DataSharing_upload_inv: "page_inv p \<Longrightarrow> page_inv (DataSharing_upload p)"
  by (simp add: DataSharing_upload_def page_inv_suspend wait_ok_def getAPIURL_def)

lemma Unicast_send_inv: "page_inv p \<Longrightarrow> page_inv (Unicast_send p)"
  using base_fetch_inv [of p p ActUnicastSend]
  by (auto simp: unicast.handler_form wait_ok_def unicast_request_def complete_def field_def
      post_json_def getAPIURL_def chat_json_def unicast_pkt_def)

lemma form_handler_inv:
  "page_inv p \<Longrightarrow> page_inv (Broadcast_sendChat p)"
  "page_inv p \<Longrightarrow> page_inv (Broadcast_sendPrivate p)"
  "page_inv p \<Longrightarrow> page_inv (Routing_addPeer p)"
  "page_inv p \<Longrightarrow> page_inv (Routing_setEntry p)"
  "page_inv p \<Longrightarrow> page_inv (Catalog_add p)"
  "page_inv p \<Longrightarrow> page_inv (DataSharing_download p)"
  "page_inv p \<Longrightarrow> page_inv (Search_searchAll p)"
  "page_inv p \<Longrightarrow> page_inv (Search_searchFirst p)"
  "page_inv p \<Longrightarrow> page_inv (Naming_tag p)"
  by (simp_all del: form_request.simps add: sendChat.handler_form sendPrivate.handler_form
      addPeer.handler_form setEntry.handler_form catalogAdd.handler_form dl.handler_form
      searchAll.handler_form searchFirst.handler_form tag.handler_form base_fetch_inv wait_ok_trivial)

lemma perform_inv: "page_inv p \<Longrightarrow> page_inv (perform a p)"
  by (cases a)
    (simp_all add: Unicast_send_inv form_handler_inv Naming_resolve_inv DataSharing_upload_inv)

lemma fetched_inv:
  assumes "page_inv p" "wait_ok (endpoint p) (sent p) (WFetch c)"
  shows "page_inv (fetched b c p)"
proof -
  have "wait_ok (endpoint p) (sent p) (WBody c)"
    using assms(2) by (rule wait_ok_cont) simp_all
  with assms(1) show ?thesis
    by (cases c) (simp_all add: page_inv_suspend Unicast_send_fetched_def addMsg_def Let_def
        Routing_addPeer_fetched_def Routing_setEntry_fetched_def Broadcast_sendChat_fetched_def
        Broadcast_sendPrivate_fetched_def Catalog_add_fetched_def Naming_tag_fetched_def)
qed

lemmas failed_defs = Unicast_send_failed_def Routing_graph_failed_def Routing_addPeer_failed_def
  Routing_setEntry_failed_def Broadcast_sendChat_failed_def Broadcast_sendPrivate_failed_def
  Catalog_update_failed_def Catalog_add_failed_def DataSharing_upload_failed_def
  DataSharing_download_failed_def Search_searchAll_failed_def Search_searchFirst_failed_def
  Naming_resolve_failed_def Naming_tag_failed_def PeerInfo_failed_def

lemma endpoint_flash [simp]:
  "endpoint (flash_error e p) = endpoint p" "endpoint (flash_success e p) = endpoint p"
  by (simp_all add: flash_error_def flash_success_def)

lemma Routing_update_failed_inv:
  "page_inv p \<Longrightarrow> addr = api_base (endpoint p) @ ''/messaging/routing'' \<Longrightarrow>
   page_inv (Routing_update_failed addr e p)"
  by (simp add: Routing_update_failed_def Routing_graph_inv)

lemma failed_inv:
  assumes "page_inv p" "cont_of w = Some c" "wait_ok (endpoint p) (sent p) w"
  shows "page_inv (failed c e p)"
  using assms by (cases c) (simp_all add: failed_defs Routing_update_failed_inv wait_ok_def)

lemma body_read_inv:
  assumes "page_inv p" "wait_ok (endpoint p) (sent p) (WBody c)" "body_read c r p = Some p'"
  shows "page_inv p'"
proof (cases "\<exists>e. r = Failed e")
  case True
  then obtain e where "p' = failed c e p" using assms(3) by (cases c) auto
  with assms(1,2) show ?thesis using failed_inv [of p "WBody c" c e] by simp
next
  case False
  with assms show ?thesis
    by (cases c; cases r)
      (auto simp: Routing_update_json_def Routing_graph_text_def Catalog_update_json_def
        Catalog_update_failed_def DataSharing_upload_text_def DataSharing_download_blob_def
        triggerDownload_def Search_searchAll_text_def Search_searchFirst_text_def
        Naming_resolve_text_def Let_def wait_ok_def page_inv_suspend wait_ok_trivial
        Routing_update_failed_inv Routing_graph_inv split: option.splits if_splits)
qed

lemma resume_inv:
  assumes "page_inv p" "wait_ok (endpoint p) (sent p) w" "resume b w r p = Some p'"
  shows "page_inv p'"
proof (cases w)
  case (WFetch c)
  have "wait_ok (endpoint p) (sent p) (WErrText st stx c)" for st stx
    using assms(2) by (rule wait_ok_cont) (simp_all add: WFetch)
  with assms show ?thesis
    using failed_inv [of p w c]
    by (cases r) (auto simp: WFetch fetched_inv page_inv_suspend split: if_splits)
next
  case (WErrText st stx c)
  with assms show ?thesis using failed_inv [of p w c] by (cases r) auto
next
  case (WBody c)
  with assms show ?thesis by (auto intro: body_read_inv)
next
  case (WFile addr)
  have "addr = api_base (endpoint p) @ ''/datasharing/upload''"
    using assms(2) by (simp add: wait_ok_def WFile)
  then have "routed (endpoint p) (http_post addr ''multipart/form-data'' s)" for s
    by (intro routedI [where path = "''/datasharing/upload''" and q = "[]"])
      (simp_all add: http_defs mux_reply_def mux_def)
  with assms(1,3) show ?thesis
    by (cases r) (auto simp: WFile DataSharing_upload_load_def base_fetch_def wait_ok_trivial
        intro!: page_inv_start_fetch)
qed (use assms in \<open>cases r; auto simp: Routing_graph_svg_def failed_defs PeerInfo_fetched_def
      PeerInfo_text_def page_inv_suspend wait_ok_trivial\<close>)+

lemma settle_inv:
  assumes "page_inv p" "settle b i r p = Some p'"
  shows "page_inv p'"
proof -
  from assms(2) obtain w where w: "map_of (pending p) i = Some w"
    and res: "resume b w r (p\<lparr>pending := AList.delete i (pending p)\<rparr>) = Some p'"
    by (auto simp: settle_def split: option.splits)
  from w assms(1) have "wait_ok (endpoint p) (sent p) w"
    by (auto simp: page_inv_def dest: map_of_mem)
  then show ?thesis
    using resume_inv [OF page_inv_delete [OF assms(1)] _ res] by simp
qed

lemma packetMessage_inv:
  "page_inv p \<Longrightarrow> packetMessage b parsed p = Some p' \<Longrightarrow> page_inv p'"
  by (auto simp: packetMessage_def throw_uncaught_def show_packet_def addMsg_def Let_def
      split: sum.splits option.splits if_splits)

lemma handle_inv:
  assumes "page_inv p" "handle b e p = Some p'"
  shows "page_inv p'"
  using assms page_inv_flash_wf [OF assms(1)]
  by (cases e) (auto simp: perform_inv packetError_def packetsScroll_def
      DataSharing_upload_progress_def page_inv_flash_st intro: settle_inv packetMessage_inv
      split: if_splits)

lemma boot_inv:
  assumes "boot search ins = Some p"
  shows "page_inv p"
proof -
  have new: "page_inv ((new_page ins)\<lparr>endpoint := e, peerAddrText := t, uncaught := u\<rparr>)" for e t u
    by (simp add: page_inv_def new_page_def)
  have sock: "routed (Some e) (http_get (e @ ''/socket/address''))" for e
    by (rule routedI [where path = "''/socket/address''" and q = "[]"])
      (simp_all add: http_defs api_base_def mux_reply_def mux_def)
  have "page_inv q" if "PeerInfo_initialize search (new_page ins) = Some q" for q
  proof (cases "decodeURIComponent (query_addr search)")
    case (Decoded a)
    let ?e = "''http://'' @ a"
    have "q = start_fetch (http_get (?e @ ''/socket/address'')) WPeerFetch
        ((new_page ins)\<lparr>endpoint := Some ?e, peerAddrText := ?e\<rparr>)"
      using that by (simp add: PeerInfo_initialize_def Decoded Let_def)
    moreover have "page_inv ((new_page ins)\<lparr>endpoint := Some ?e, peerAddrText := ?e\<rparr>)"
      using new [where e = "Some ?e" and t = ?e and u = "[]"] by (simp add: new_page_def)
    ultimately show ?thesis
      using sock [of ?e] by (simp only:) (rule page_inv_start_fetch; simp add: wait_ok_trivial)
  next
    case URIError
    with that new [where e = None and t = "[]"] show ?thesis
      by (auto simp: PeerInfo_initialize_def new_page_def)
  qed (use that in \<open>simp add: PeerInfo_initialize_def\<close>)
  moreover have "page_inv (Packets_initialize q)" if "page_inv q" for q
  proof -
    have "routed (endpoint q) (http_get (getAPIURL ''/registry/pktnotify'' q))"
      by (rule routedI [where path = "''/registry/pktnotify''" and q = "[]"]) (simp_all add: http_defs mux_reply_def mux_def)
    then show ?thesis
      using that by (auto simp: Packets_initialize_def page_inv_def Let_def intro: wait_ok_mono)
  qed
  ultimately show ?thesis using assms by (auto simp: boot_def)
qed

lemma reachable_inv: "reachable b p \<Longrightarrow> page_inv p"
proof (induction rule: reachable.induct)
  case (boot search ins p)
  then show ?case by (rule boot_inv)
next
  case (step p p')
  then show ?case by (auto elim!: gui_stepE intro: handle_inv)
qed

end
