(* ===== verification/Gui_Props.thy ===== *)
theory Gui_Props
  imports Gui_Safety
begin

text \<open>
  The properties of the page: what its handlers promise for every interleaving and every
  answer of the node, and how they behave on the error paths.
\<close>

section \<open>A page to instantiate the properties with\<close>

definition demo_browser :: browser where
  "demo_browser = \<lparr>scrollHeight = (\<lambda>ms. int (length ms)), packets_scrollWidth = (\<lambda>ps. int (length ps)),
     holder_scrollWidth = (\<lambda>ps. int (length ps)), local_time = (\<lambda>t. (1, 2, 3)),
     round_percent = (\<lambda>l t. (100 * int l) div int t)\<rparr>"

definition demo_inputs :: "string \<Rightarrow> input_el" where
  "demo_inputs = (\<lambda>t. \<lparr>el_name = t, el_value = ''x''\<rparr>)"

definition demo_page :: page where
  "demo_page = Packets_initialize (Catalog_update (Routing_update
     (start_fetch (http_get ''http://a/socket/address'') WPeerFetch
       ((new_page demo_inputs)\<lparr>endpoint := Some ''http://a'', peerAddrText := ''http://a''\<rparr>))))"

lemma query_addr_demo: "query_addr ''?addr=a'' = ''a''"
  by (simp add: query_addr_def getQueryArgs_def set_prop_def is_index_def is_digit_def digit_val_def
      Let_def)

lemma boot_demo: "boot ''?addr=a'' demo_inputs = Some demo_page"
  by (simp add: boot_def PeerInfo_initialize_def query_addr_demo demo_page_def Let_def)

lemma reachable_demo: "reachable b demo_page"
  by (rule reachable.boot [OF boot_demo])

lemma reachable_handle: "reachable b p \<Longrightarrow> handle b e p = Some p' \<Longrightarrow> reachable b p'"
  by (rule reachable.step) (auto intro: gui_step.intros)

section \<open>Requests\<close>

text \<open>
  C8: Every request the page ever makes, with \<open>fetch\<close> or by the \<open>EventSource\<close> of its packets, reaches a
  handler of the node: in any reachable state in which the page has the address of its node, whatever
  was clicked and whatever the node answered before, each request that was made goes to that address
  and to a path that gui/httpnode/mod.go registers, with a method that the path's controller lets
  through, so it is never answered with 502 or 405 by the mux. The page has the address unless its
  \<open>addr\<close> argument cannot be decoded (\<open>endpoint_known\<close>).
\<close>

theorem requests_reach_a_handler:
  assumes "reachable b p" and "endpoint p = Some e" and "r \<in> set (sent p)"
  shows "\<exists>path query. req_url r = e @ path @ query \<and> (query = [] \<or> hd query = CHR ''?'')
    \<and> mux_reply path (req_method r) = None"
  using reachable_inv [OF assms(1)] assms(2,3)
  by (auto simp: page_inv_def routed_def api_base_def)

lemma endpoint_known:
  assumes "boot search ins = Some p"
  shows "endpoint p = None \<longleftrightarrow> decodeURIComponent (query_addr search) = URIError"
  using assms
  by (auto simp: boot_def PeerInfo_initialize_def Packets_initialize_def Catalog_update_def Routing_update_def base_fetch_def
      start_fetch_def suspend_def new_page_def Let_def split: decoded.splits)

theorem requests_reach_a_handler_witness:
  "reachable demo_browser demo_page \<and> endpoint demo_page = Some ''http://a''
   \<and> map req_url (sent demo_page) = [''http://a/socket/address'', ''http://a/messaging/routing'', ''http://a/datasharing/catalog'',
        ''http://a/registry/pktnotify'']
   \<and> (\<exists>path query. ''http://a/registry/pktnotify'' = ''http://a'' @ path @ query
        \<and> (query = [] \<or> hd query = CHR ''?'') \<and> mux_reply path ''GET'' = None)"
proof -
  have e: "endpoint demo_page = Some ''http://a''"
    and s: "sent demo_page = map http_get [''http://a/socket/address'', ''http://a/messaging/routing'', ''http://a/datasharing/catalog'',
        ''http://a/registry/pktnotify'']"
    by (simp_all add: demo_page_def Packets_initialize_def Catalog_update_def Routing_update_def
        base_fetch_def start_fetch_def suspend_def getAPIURL_def api_base_def new_page_def Let_def)
  have "http_get ''http://a/registry/pktnotify'' \<in> set (sent demo_page)" by (simp add: s)
  from requests_reach_a_handler [OF reachable_demo [of demo_browser] e this] e s show ?thesis
    by (simp add: reachable_demo http_get_def)
qed

section \<open>Forms\<close>

text \<open>
  C27: Every action behind a form, except \<open>Naming.resolve\<close>, does nothing but report an empty required
  field: one error flash that names the first empty field, no request, no suspended handler. The
  exception is \<open>resolve_ignores_the_form_check\<close> below.
\<close>

theorem incomplete_form_is_rejected:
  assumes "form_fields a = Some ts" and "\<not> complete p ts" and "a \<noteq> ActResolve"
  shows "perform a p = flash_error (empty_msg (map (inputs p) ts)) p
    \<and> sent (perform a p) = sent p \<and> pending (perform a p) = pending p
    \<and> (\<exists>pre t post. ts = pre @ t # post \<and> complete p pre \<and> el_value (inputs p t) = []
        \<and> empty_msg (map (inputs p) ts) = ''form validation failed: '' @ dq
            @ el_name (inputs p t) @ dq @ '' is empty or invalid'')"
proof -
  have rej: "perform a p = flash_error (empty_msg (map (inputs p) ts)) p"
    using assms by (cases a) (auto simp: form_rejected)
  have "\<exists>pre t post. ts = pre @ t # post \<and> complete p pre \<and> el_value (inputs p t) = []
        \<and> empty_msg (map (inputs p) ts) = ''form validation failed: '' @ dq
            @ el_name (inputs p t) @ dq @ '' is empty or invalid''"
    using assms(2)
  proof (induction ts)
    case Nil
    then show ?case by (simp add: complete_def)
  next
    case (Cons t ts)
    show ?case
    proof (cases "el_value (inputs p t) = []")
      case True
      then show ?thesis
        by (intro exI [of _ "[]"] exI [of _ t] exI [of _ ts]) (simp add: complete_def empty_msg_def)
    next
      case False
      with Cons.prems have "\<not> complete p ts" by (simp add: complete_def)
      from Cons.IH [OF this] obtain pre u post where "ts = pre @ u # post" "complete p pre"
        "el_value (inputs p u) = []" "empty_msg (map (inputs p) ts) = ''form validation failed: ''
            @ dq @ el_name (inputs p u) @ dq @ '' is empty or invalid''" by blast
      with False show ?thesis
        by (intro exI [of _ "t # pre"] exI [of _ u] exI [of _ post])
          (simp add: complete_def empty_msg_def)
    qed
  qed
  with rej show ?thesis by (simp add: flash_error_def)
qed

theorem incomplete_form_is_rejected_witness:
  "form_fields ActTag = Some [''naming.tagFilename'', ''naming.tagMetahash''] \<and> ActTag \<noteq> ActResolve
   \<and> \<not> complete (demo_page\<lparr>inputs := (\<lambda>t. \<lparr>el_name = t, el_value = []\<rparr>)\<rparr>)
        [''naming.tagFilename'', ''naming.tagMetahash'']
   \<and> sent (perform ActTag (demo_page\<lparr>inputs := (\<lambda>t. \<lparr>el_name = t, el_value = []\<rparr>)\<rparr>)) = sent demo_page"
proof -
  let ?p = "demo_page\<lparr>inputs := (\<lambda>t. \<lparr>el_name = t, el_value = []\<rparr>)\<rparr>"
  have h: "form_fields ActTag = Some [''naming.tagFilename'', ''naming.tagMetahash'']"
    "\<not> complete ?p [''naming.tagFilename'', ''naming.tagMetahash'']" "ActTag \<noteq> ActResolve"
    by (simp_all add: complete_def)
  show ?thesis using h incomplete_form_is_rejected [OF h] by (simp add: flash_error_def)
qed

text \<open>
  C28: Each of the eleven actions behind a form, when the required fields are filled, sends exactly one request,
  the one its form describes (path, method, content type and body), waits for exactly that
  answer, and prints nothing yet.
\<close>

theorem complete_form_is_sent:
  assumes "form_fields a = Some ts" and "complete p ts"
  shows "sent (perform a p) = sent p @ [form_request a p]
    \<and> (\<exists>c. pending (perform a p) = pending p @ [(next_wait p, WFetch c)])
    \<and> flash_st (perform a p) = flash_st p"
  using assms by (cases a) (auto simp del: form_request.simps simp: form_accepted)

theorem complete_form_is_sent_witness:
  "form_fields ActAddPeer = Some [''routing.peer''] \<and> complete demo_page [''routing.peer'']
   \<and> sent (perform ActAddPeer demo_page) = sent demo_page @
      [http_post ''http://a/messaging/peers'' ''application/json'' (stringify (JArr [JStr ''x'']))]"
proof -
  have h: "form_fields ActAddPeer = Some [''routing.peer'']" "complete demo_page [''routing.peer'']"
    by (simp_all add: complete_def demo_page_def Packets_initialize_def Catalog_update_def
        Routing_update_def base_fetch_def start_fetch_def suspend_def demo_inputs_def new_page_def
        Let_def)
  have "form_request ActAddPeer demo_page =
      http_post ''http://a/messaging/peers'' ''application/json'' (stringify (JArr [JStr ''x'']))"
    by (simp add: demo_page_def Packets_initialize_def Catalog_update_def Routing_update_def
        base_fetch_def start_fetch_def suspend_def demo_inputs_def new_page_def post_json_def
        field_def getAPIURL_def api_base_def Let_def)
  then show ?thesis using h complete_form_is_sent [OF h] by simp
qed

text \<open>
  C40: \<open>Naming.resolve\<close> is the exception: with an empty file name it prints the validation
  error and still sends the request, with an empty name, although \<open>checkInputs\<close> asks its
  caller to stop.
\<close>

theorem resolve_ignores_the_form_check:
  assumes "field p ''naming.resolveFilename'' = []"
  shows "sent (Naming_resolve p) =
      sent p @ [http_get (getAPIURL ''/datasharing/naming?name='' p)]
    \<and> flash_st (Naming_resolve p) = printError (''form validation failed: '' @ dq
        @ el_name (inputs p ''naming.resolveFilename'') @ dq @ '' is empty or invalid'') (flash_st p)"
  using assms
  by (simp add: Naming_resolve_def field_def base_fetch_def start_fetch_def suspend_def
      flash_error_def getAPIURL_def)

theorem resolve_ignores_the_form_check_witness:
  "field (new_page (\<lambda>t. \<lparr>el_name = t, el_value = []\<rparr>)) ''naming.resolveFilename'' = []
   \<and> length (sent (Naming_resolve (new_page (\<lambda>t. \<lparr>el_name = t, el_value = []\<rparr>)))) = 1"
proof -
  let ?p = "new_page (\<lambda>t. \<lparr>el_name = t, el_value = []\<rparr>)"
  have h: "field ?p ''naming.resolveFilename'' = []" by (simp add: field_def new_page_def)
  show ?thesis using h resolve_ignores_the_form_check [OF h] by (simp add: new_page_def)
qed

section \<open>What a settlement changes\<close>

lemmas run_defs = base_fetch_def start_fetch_def suspend_def flash_error_def flash_success_def
  Routing_update_def Routing_graph_def Catalog_update_def Let_def

lemmas after_defs = Unicast_send_fetched_def addMsg_def Routing_addPeer_fetched_def
  Routing_setEntry_fetched_def Broadcast_sendChat_fetched_def Broadcast_sendPrivate_fetched_def
  Catalog_add_fetched_def Naming_tag_fetched_def Routing_update_failed_def
  Routing_graph_text_def Routing_graph_svg_def DataSharing_upload_text_def
  DataSharing_download_blob_def triggerDownload_def Search_searchAll_text_def
  Search_searchFirst_text_def Naming_resolve_text_def DataSharing_upload_load_def
  PeerInfo_fetched_def PeerInfo_text_def

lemma failed_frame [simp]:
  "messages (failed c e p) = messages p" "uncaught (failed c e p) = uncaught p"
  "routing_table (failed c e p) = routing_table p" "catalog (failed c e p) = catalog p"
  by (cases c; simp add: failed_defs after_defs run_defs)+

lemma fetched_frame:
  "uncaught (fetched b c p) = uncaught p" "routing_table (fetched b c p) = routing_table p"
  "catalog (fetched b c p) = catalog p"
  by (cases c; simp add: after_defs run_defs)+

lemma fetched_messages:
  "messages (fetched b c p) = messages p \<or> (\<exists>m d. c = AtUnicastSend m d)"
  by (cases c) (simp_all add: after_defs run_defs)

fun_cases body_readE: "body_read c r p = Some p'"

lemma json_frame:
  "messages (Routing_update_json addr data p) = messages p"
  "uncaught (Routing_update_json addr data p) = uncaught p"
  "messages (Catalog_update_json data p) = messages p"
  "uncaught (Catalog_update_json data p) = uncaught p"
  by (simp_all add: Routing_update_json_def Catalog_update_json_def Routing_update_failed_def
      Catalog_update_failed_def run_defs split: option.split)

lemma body_read_frame:
  assumes "body_read c r p = Some p'"
  shows "messages p' = messages p \<and> uncaught p' = uncaught p"
  using assms by (rule body_readE) (simp_all add: json_frame after_defs run_defs)

lemma resume_messages:
  assumes "resume b w r p = Some p'" and "messages p' \<noteq> messages p"
  shows "\<exists>m d stx. w = WFetch (AtUnicastSend m d) \<and> r = Responded 200 stx \<and>
    p' = Unicast_send_fetched b m d p"
proof (cases w)
  case (WFetch c)
  show ?thesis
  proof (cases r)
    case (Responded st stx)
    with WFetch assms have st: "st = 200" and p': "p' = fetched b c p"
      by (auto simp: suspend_def split: if_splits)
    with assms(2) fetched_messages [of b c p] obtain m d where "c = AtUnicastSend m d" by metis
    with p' st WFetch Responded show ?thesis by simp
  qed (use WFetch assms in auto)
next
  case (WErrText st stx c)
  with assms show ?thesis by (cases r) auto
next
  case (WBody c)
  with assms show ?thesis using body_read_frame [of c r p p'] by simp
qed (use assms in \<open>cases r; auto simp: after_defs failed_defs run_defs\<close>)+

lemma resume_uncaught:
  assumes "resume b w r p = Some p'"
  shows "uncaught p' = uncaught p"
proof (cases w)
  case (WFetch c)
  with assms show ?thesis
    by (cases r) (auto simp: fetched_frame suspend_def split: if_splits)
next
  case (WErrText st stx c)
  with assms show ?thesis by (cases r) auto
next
  case (WBody c)
  with assms show ?thesis using body_read_frame [of c r p p'] by simp
qed (use assms in \<open>cases r; auto simp: after_defs failed_defs run_defs\<close>)+

lemma perform_frame: "uncaught (perform a p) = uncaught p" "messages (perform a p) = messages p"
  by (cases a; simp add: unicast.handler_form sendChat.handler_form sendPrivate.handler_form
      addPeer.handler_form setEntry.handler_form catalogAdd.handler_form dl.handler_form
      searchAll.handler_form searchFirst.handler_form tag.handler_form run_defs
      DataSharing_upload_def Naming_resolve_def del: form_request.simps)+

text \<open>\<open>v.n1.n2...\<close>, or the exception.\<close>

primrec prop_path :: "string list \<Rightarrow> json option \<Rightarrow> string + json option" where
  "prop_path [] v = Inr v"
| "prop_path (n # ns) v = (case get_prop v n of Inl e \<Rightarrow> Inl e | Inr w \<Rightarrow> prop_path ns w)"

text \<open>What a chat packet shows: its source, and the text and the time in the entry.\<close>

definition chat_of :: "browser \<Rightarrow> json \<Rightarrow> string \<Rightarrow> string \<Rightarrow> bool" where
  "chat_of b pkt src html \<longleftrightarrow> (\<exists>ty m ts. prop_path [''Msg'', ''Type''] (Some pkt) = Inr ty \<and> is_chat ty
     \<and> prop_path [''Header'', ''Source''] (Some pkt) = Inr (Some (JStr src))
     \<and> prop_path [''Header'', ''Timestamp''] (Some pkt) = Inr (Some (JNum ts))
     \<and> prop_path [''Msg'', ''Payload'', ''Message''] (Some pkt) = Inr m
     \<and> html = received_html (js_string_opt m) src (time_str b (date_ms ts)))"

lemma chat_element_source:
  assumes "chat_element b self pkt = Some (Inr el)" "prop_path [''Msg'', ''Type''] (Some pkt) = Inr ty" "is_chat ty"
  shows "\<exists>src html. chat_of b pkt src html
     \<and> el = \<lparr>msg_class = (if Some src = self then ''sent'' else ''received''), msg_html = html\<rparr>"
proof -
  from assms(1) obtain hdr ts src msg payload m where
    "get_prop (Some pkt) ''Header'' = Inr hdr" "get_prop hdr ''Timestamp'' = Inr (Some (JNum ts))"
    "get_prop hdr ''Source'' = Inr (Some (JStr src))" "get_prop (Some pkt) ''Msg'' = Inr msg"
    "get_prop msg ''Payload'' = Inr payload" "get_prop payload ''Message'' = Inr m"
    "el = \<lparr>msg_class = (if Some src = self then ''sent'' else ''received''),
       msg_html = received_html (js_string_opt m) src (time_str b (date_ms ts))\<rparr>"
    by (auto simp: chat_element_def split: sum.splits option.splits json.splits)
  with assms(2,3) show ?thesis by (intro exI conjI) (auto simp: chat_of_def)
qed

lemma packetMessage_messages:
  assumes "packetMessage b parsed p = Some p'" and "messages p' \<noteq> messages p"
  shows "\<exists>pkt src html. parsed = Inr pkt \<and> chat_of b pkt src html \<and> messages p' = messages p @
    [\<lparr>msg_class = (if Some src = socketAddr p then ''sent'' else ''received''), msg_html = html\<rparr>]"
proof -
  have shown: "messages (show_packet b pkt q) = messages q" for pkt q by (simp add: show_packet_def Let_def)
  from assms obtain pkt el msg ty where "parsed = Inr pkt" "chat_element b (socketAddr p) pkt = Some (Inr el)"
    "messages p' = messages p @ [el]" "prop_path [''Msg'', ''Type''] (Some pkt) = Inr ty" "is_chat ty"
    by (auto simp: packetMessage_def throw_uncaught_def shown addMsg_def Let_def split: sum.splits option.splits if_splits)
  with chat_element_source show ?thesis by blast
qed

text \<open>
  C5: A message is shown as sent only if the node acknowledged it or is its source. Whenever an event
  adds to the list of messages, it adds one entry, and it is one of two. Either the event settles the
  request of \<open>Unicast.send\<close> with status 200; that request is one the page really sent, for exactly the
  shown text and destination, neither of them empty. Or the node notifies the page of a chat packet,
  which is shown as sent when its source is the socket address of the node and as received otherwise.
  This holds in every reachable state, so for any number of overlapping sends and any order of the
  answers.
\<close>

theorem shown_as_sent_was_acknowledged:
  assumes "reachable b p" and "handle b e p = Some p'" and "messages p' \<noteq> messages p"
  shows "(\<exists>i m d stx. e = Settle i (Responded 200 stx) \<and> map_of (pending p) i = Some (WFetch (AtUnicastSend m d))
      \<and> m \<noteq> [] \<and> d \<noteq> []
      \<and> http_post (getAPIURL ''/messaging/unicast'' p) ''application/json'' (stringify (unicast_pkt m d)) \<in> set (sent p)
      \<and> messages p' = messages p @
          [\<lparr>msg_class = ''sent'', msg_html = sent_html m d (time_str b (clock p))\<rparr>])
    \<or> (\<exists>pkt src html. e = Packet (Inr pkt) \<and> chat_of b pkt src html \<and> messages p' = messages p @
          [\<lparr>msg_class = (if Some src = socketAddr p then ''sent'' else ''received''), msg_html = html\<rparr>])"
proof (cases e)
  case (Settle i r)
  let ?q = "p\<lparr>pending := AList.delete i (pending p)\<rparr>"
  from assms(2) Settle obtain w where w: "map_of (pending p) i = Some w" and res: "resume b w r ?q = Some p'"
    by (auto simp: settle_def split: option.splits)
  from resume_messages [OF res] assms(3) obtain m d stx where
    wm: "w = WFetch (AtUnicastSend m d)" "r = Responded 200 stx" "p' = Unicast_send_fetched b m d ?q"
    by auto
  have "wait_ok (endpoint p) (sent p) w"
    using reachable_inv [OF assms(1)] map_of_mem [OF w] by (auto simp: page_inv_def)
  with w wm Settle show ?thesis
    by (auto simp: wait_ok_def unicast_request_def getAPIURL_def Unicast_send_fetched_def addMsg_def
        Let_def)
next
  case (Packet parsed)
  with assms(2) packetMessage_messages [OF _ assms(3)] show ?thesis by auto
qed (use assms(2,3) in \<open>auto simp: perform_frame packetError_def packetsScroll_def DataSharing_upload_progress_def
      run_defs split: if_splits\<close>)

theorem shown_as_sent_was_acknowledged_witness:
  "let p = perform ActUnicastSend demo_page in
     reachable demo_browser p
     \<and> (\<exists>p'. handle demo_browser (Settle 3 (Responded 200 ''OK'')) p = Some p' \<and> messages p' \<noteq> messages p
         \<and> (\<exists>m d. messages p' = messages p @
              [\<lparr>msg_class = ''sent'', msg_html = sent_html m d (time_str demo_browser (clock p))\<rparr>]))"
proof -
  define p where "p = perform ActUnicastSend demo_page"
  have r: "reachable demo_browser p"
    unfolding p_def by (rule reachable_handle [OF reachable_demo, where e = "Click ActUnicastSend"]) simp
  have pend: "map_of (pending p) 3 = Some (WFetch (AtUnicastSend ''x'' ''x''))"
    by (simp add: p_def demo_page_def Packets_initialize_def demo_inputs_def new_page_def
        Unicast_send_def run_defs)
  then obtain p' where s: "handle demo_browser (Settle 3 (Responded 200 ''OK'')) p = Some p'"
    and m: "messages p' \<noteq> messages p"
    by (simp add: settle_def Unicast_send_fetched_def addMsg_def Let_def)
  from shown_as_sent_was_acknowledged [OF r s m] r s m show ?thesis
    unfolding p_def [symmetric] Let_def by blast
qed

text \<open>
  C29: Apart from two places nothing leaves an unhandled exception, no click, no edit and no answer of
  the node, good or bad. One place is the start of the page, when the \<open>addr\<close> argument of its address
  cannot be decoded; the other is a packet notification, and then nothing else of the page changes.
\<close>

theorem only_packets_throw:
  "(boot search ins = Some p0 \<longrightarrow> uncaught p0 =
      (if decodeURIComponent (query_addr search) = URIError then [''URIError: URI malformed''] else []))
   \<and> (handle b e p = Some p' \<longrightarrow> uncaught p' = uncaught p
      \<or> (\<exists>parsed x. e = Packet parsed \<and> p' = p\<lparr>uncaught := uncaught p @ [x]\<rparr>))"
proof -
  have "uncaught p0 = (if decodeURIComponent (query_addr search) = URIError then [''URIError: URI malformed''] else [])"
    if "boot search ins = Some p0"
    using that by (auto simp: boot_def PeerInfo_initialize_def Packets_initialize_def new_page_def run_defs split: decoded.splits)
  moreover have "uncaught p' = uncaught p \<or> (\<exists>parsed x. e = Packet parsed \<and> p' = p\<lparr>uncaught := uncaught p @ [x]\<rparr>)"
    if h: "handle b e p = Some p'"
  proof (cases e)
    case (Settle i r)
    with h show ?thesis by (auto simp: settle_def split: option.splits dest!: resume_uncaught)
  next
    case (Packet parsed)
    with h show ?thesis
      by (auto simp: packetMessage_def throw_uncaught_def show_packet_def addMsg_def Let_def
          split: sum.splits option.splits if_splits)
  qed (use h in \<open>auto simp: perform_frame packetError_def packetsScroll_def DataSharing_upload_progress_def
        run_defs split: if_splits\<close>)
  ultimately show ?thesis by blast
qed

theorem only_packets_throw_witness:
  "boot ''?addr=a'' demo_inputs = Some demo_page \<and> uncaught demo_page = []
   \<and> handle demo_browser (Packet (Inl ''SyntaxError'')) demo_page =
     Some (throw_uncaught ''SyntaxError'' demo_page)
   \<and> uncaught (throw_uncaught ''SyntaxError'' demo_page) \<noteq> uncaught demo_page
   \<and> (\<exists>parsed x. Packet (Inl ''SyntaxError'') = Packet parsed
        \<and> throw_uncaught ''SyntaxError'' demo_page = demo_page\<lparr>uncaught := uncaught demo_page @ [x]\<rparr>)"
proof -
  have h: "handle demo_browser (Packet (Inl ''SyntaxError'')) demo_page =
      Some (throw_uncaught ''SyntaxError'' demo_page)"
    by (simp add: packetMessage_def)
  have n: "uncaught (throw_uncaught ''SyntaxError'' demo_page) \<noteq> uncaught demo_page"
    by (simp add: throw_uncaught_def)
  have d: "decodeURIComponent (query_addr ''?addr=a'') \<noteq> URIError" by (simp add: query_addr_demo)
  note t = only_packets_throw [of "''?addr=a''" demo_inputs demo_page demo_browser "Packet (Inl ''SyntaxError'')" demo_page
      "throw_uncaught ''SyntaxError'' demo_page"]
  have "uncaught demo_page = []" using t boot_demo d by simp
  with boot_demo h n conjunct2 [OF t] show ?thesis by blast
qed

end
