(* ===== verification/Gui_Liveness.thy ===== *)
theory Gui_Liveness
  imports Gui_Safety
begin

text \<open>
  Handlers of the page end: every handler has a cost, the largest number of settlements it can
  still wait for, and each settlement lowers the sum of the costs of the suspended handlers,
  although some handlers start others (\<open>addPeer\<close> updates the routing table, which draws the graph).
\<close>

section \<open>Costs\<close>

text \<open>After the body was read, after the status was wrong, and after a response with status 200.\<close>

fun body_cost :: "cont \<Rightarrow> nat" where
  "body_cost (AtRoutingUpdate addr) = 4"
| "body_cost AtRoutingGraph = 2"
| "body_cost _ = 1"

fun err_cost :: "cont \<Rightarrow> nat" where
  "err_cost (AtRoutingUpdate addr) = 4"
| "err_cost _ = 1"

fun fetched_cost :: "cont \<Rightarrow> nat" where
  "fetched_cost AtAddPeer = 5"
| "fetched_cost (AtSetEntry relay) = 5"
| "fetched_cost AtCatalogAdd = 2"
| "fetched_cost c = body_cost c"

fun wait_cost :: "wait \<Rightarrow> nat" where
  "wait_cost (WFetch c) = Suc (max (fetched_cost c) (err_cost c))"
| "wait_cost (WErrText st stx c) = err_cost c"
| "wait_cost (WBody c) = body_cost c"
| "wait_cost WViz = 1"
| "wait_cost (WFile addr) = 3"
| "wait_cost WPeerFetch = 2"
| "wait_cost WPeerText = 1"

definition total_cost :: "page \<Rightarrow> nat" where
  "total_cost p = sum_list (map (wait_cost \<circ> snd) (pending p))"

named_theorems cost_simps \<open>the cost of the page after an operation\<close>

lemma total_cost_cong: "pending q = pending p \<Longrightarrow> total_cost q = total_cost p"
  by (simp add: total_cost_def)

lemma total_cost_ops [cost_simps]:
  "total_cost (flash_error e p) = total_cost p" "total_cost (flash_success e p) = total_cost p"
  "total_cost (addMsg b el p) = total_cost p" "total_cost (triggerDownload mh blob p) = total_cost p"
  "total_cost (suspend w p) = total_cost p + wait_cost w"
  "total_cost (start_fetch rq w p) = total_cost p + wait_cost w"
  "total_cost (base_fetch rq c p) = total_cost p + wait_cost (WFetch c)"
  by (simp_all add: total_cost_def flash_error_def flash_success_def addMsg_def triggerDownload_def suspend_def start_fetch_def
      base_fetch_def Let_def)

lemma total_cost_frame [cost_simps]:
  "total_cost (p\<lparr>routing_table := v1\<rparr>) = total_cost p" "total_cost (p\<lparr>graphviz := v1\<rparr>) = total_cost p"
  "total_cost (p\<lparr>catalog := v2\<rparr>) = total_cost p" "total_cost (p\<lparr>uploadResult := v3\<rparr>) = total_cost p"
  "total_cost (p\<lparr>searchAllResult := v3\<rparr>) = total_cost p" "total_cost (p\<lparr>searchFirstResult := v3\<rparr>) = total_cost p"
  "total_cost (p\<lparr>resolveResult := v3\<rparr>) = total_cost p"
  "total_cost (p\<lparr>socketAddrText := v3, socketAddr := v4\<rparr>) = total_cost p"
  by (simp_all add: total_cost_def)

lemma checkInputs_cost [cost_simps]: "total_cost (snd (checkInputs es p)) = total_cost p"
  by (induction es) (simp_all add: cost_simps)

lemmas handler_defs =
  Unicast_send_fetched_def Unicast_send_failed_def Routing_update_def Routing_update_failed_def Routing_graph_def
  Routing_graph_failed_def Routing_graph_text_def Routing_graph_svg_def Routing_update_json_def
  Routing_addPeer_fetched_def Routing_addPeer_failed_def Routing_setEntry_fetched_def Routing_setEntry_failed_def
  Broadcast_sendChat_fetched_def Broadcast_sendChat_failed_def Broadcast_sendPrivate_fetched_def
  Broadcast_sendPrivate_failed_def Catalog_update_def Catalog_update_failed_def Catalog_update_json_def
  Catalog_add_fetched_def Catalog_add_failed_def DataSharing_upload_load_def DataSharing_upload_text_def
  DataSharing_upload_failed_def DataSharing_download_blob_def DataSharing_download_failed_def
  Search_searchAll_text_def Search_searchAll_failed_def Search_searchFirst_text_def Search_searchFirst_failed_def
  Naming_resolve_text_def Naming_resolve_failed_def Naming_tag_fetched_def Naming_tag_failed_def
  PeerInfo_fetched_def PeerInfo_text_def PeerInfo_failed_def

lemma fetched_total: "total_cost (fetched b c p) \<le> total_cost p + fetched_cost c"
  by (cases c) (auto simp: cost_simps handler_defs Let_def split: if_splits)

lemma failed_total: "total_cost (failed c e p) < total_cost p + err_cost c"
  by (cases c) (auto simp: cost_simps handler_defs)

lemma err_body_cost: "err_cost c \<le> body_cost c"
  by (cases c) auto

lemma body_read_total: "body_read c r p = Some p' \<Longrightarrow> total_cost p' < total_cost p + body_cost c"
proof (cases r)
  case (Failed e)
  assume "body_read c r p = Some p'"
  with Failed have "p' = failed c e p" by (cases c) auto
  with failed_total [of c e p] err_body_cost [of c] show ?thesis by simp
qed (cases c; auto simp: cost_simps handler_defs Let_def split: option.splits if_splits)+

lemma resume_total:
  assumes "resume b w r p = Some p'"
  shows "total_cost p' < total_cost p + wait_cost w"
proof (cases w)
  case (WFetch c)
  have m: "fetched_cost c \<le> max (fetched_cost c) (err_cost c)" "err_cost c \<le> max (fetched_cost c) (err_cost c)" by simp_all
  show ?thesis
  proof (cases r)
    case (Responded st stx)
    with assms WFetch fetched_total [of b c p] m show ?thesis by (auto simp: cost_simps simp del: max.bounded_iff split: if_splits)
  next
    case (Failed e)
    with assms WFetch failed_total [of c e p] m(2) show ?thesis by simp
  qed (use assms WFetch in simp_all)
next
  case (WErrText st stx c)
  with assms failed_total [of c _ p] show ?thesis by (cases r) auto
next
  case (WBody c)
  with assms body_read_total show ?thesis by simp
qed (use assms in \<open>cases r; auto simp: cost_simps handler_defs\<close>)+

section \<open>Handlers end\<close>

lemma delete_cost:
  "map_of m i = Some w \<Longrightarrow>
    sum_list (map (wait_cost \<circ> snd) (AList.delete i m)) + wait_cost w \<le> sum_list (map (wait_cost \<circ> snd) m)"
proof (induction m)
  case (Cons x m)
  show ?case
  proof (cases "fst x = i")
    case True
    have "sum_list (map (wait_cost \<circ> snd) (AList.delete i m)) \<le> sum_list (map (wait_cost \<circ> snd) m)"
      by (induction m) auto
    with True Cons.prems show ?thesis by (cases x) (auto simp: comp_def)
  next
    case False
    with Cons show ?thesis by (cases x) auto
  qed
qed simp

lemma settle_total:
  assumes "settle b i r p = Some p'"
  shows "total_cost p' < total_cost p"
proof -
  from assms obtain w where w: "map_of (pending p) i = Some w"
    and r: "resume b w r (p\<lparr>pending := AList.delete i (pending p)\<rparr>) = Some p'"
    by (auto simp: settle_def split: option.splits)
  from resume_total [OF r] delete_cost [OF w] show ?thesis by (simp add: total_cost_def)
qed

fun settle_all :: "browser \<Rightarrow> (nat \<times> outcome) list \<Rightarrow> page \<Rightarrow> page option" where
  "settle_all b [] p = Some p"
| "settle_all b ((i, r) # evs) p = (case settle b i r p of None \<Rightarrow> None | Some p \<Rightarrow> settle_all b evs p)"

lemma settle_all_total: "settle_all b evs p = Some p' \<Longrightarrow> length evs + total_cost p' \<le> total_cost p"
proof (induction evs arbitrary: p)
  case (Cons ev evs)
  obtain i r where ev: "ev = (i, r)" by fastforce
  with Cons.prems obtain q where q: "settle b i r p = Some q" "settle_all b evs q = Some p'" by (auto split: option.splits)
  from Cons.IH [OF q(2)] settle_total [OF q(1)] show ?case by simp
qed simp

lemma settle_possible:
  assumes "pending p \<noteq> []"
  shows "\<exists>i r p'. settle b i r p = Some p'"
proof -
  obtain i w ps where p: "pending p = (i, w) # ps" using assms by (metis list.exhaust surj_pair)
  have "\<exists>r q'. resume b w r q = Some q'" for q
  proof (cases w)
    case (WFile addr)
    then have "resume b w (GotFile []) q \<noteq> None" by simp
    then show ?thesis by blast
  next
    case (WBody c)
    then have "resume b w (Failed []) q \<noteq> None" by (cases c) auto
    then show ?thesis by blast
  qed (fastforce intro: exI [of _ "Failed []"])+
  then show ?thesis by (simp add: settle_def p) (metis option.distinct(1) map_of_Cons_code(2))
qed

text \<open>
  C17: The handlers of the page finish. From any page, every sequence of answers, failures and loaded
  files is at most as long as the costs of the waiting handlers allow, whatever the node answers and
  in whatever order; and as long as a handler waits, there is an outcome that lets one go on, so
  the page always can get to a state in which nothing is pending.
\<close>

theorem handlers_finish:
  assumes "settle_all b evs p = Some p'"
  shows "length evs \<le> total_cost p - total_cost p' \<and> total_cost p' \<le> total_cost p
    \<and> (pending p' = [] \<longleftrightarrow> \<not> (\<exists>i r q. settle b i r p' = Some q))"
proof -
  have "pending p' = [] \<Longrightarrow> settle b i r p' = None" for i r by (simp add: settle_def)
  then have "pending p' = [] \<longleftrightarrow> \<not> (\<exists>i r q. settle b i r p' = Some q)"
    using settle_possible [of p' b] by (metis option.distinct(1))
  with settle_all_total [OF assms] show ?thesis by simp
qed

definition test_browser :: browser where
  "test_browser = \<lparr>scrollHeight = (\<lambda>ms. 0), packets_scrollWidth = (\<lambda>ps. 0), holder_scrollWidth = (\<lambda>ps. 0),
     local_time = (\<lambda>ms. (0, 0, 0)), round_percent = (\<lambda>a b. 0)\<rparr>"

definition filled_inputs :: "string \<Rightarrow> input_el" where
  "filled_inputs n = \<lparr>el_name = n, el_value = ''v''\<rparr>"

definition long_run :: "(nat \<times> outcome) list" where
  "long_run = [(0, Responded 200 ''OK''), (1, Responded 500 ''x''), (2, GotText ''y''), (3, Responded 200 ''OK''),
     (4, GotText ''g''), (5, GotSvg ''s'')]"

lemma long_run_ends:
  "map_option pending (settle_all test_browser long_run (Routing_addPeer (new_page filled_inputs))) = Some []"
  by code_simp

theorem handlers_finish_witness:
  "let p = Routing_addPeer (new_page filled_inputs); p' = the (settle_all test_browser long_run p)
   in settle_all test_browser long_run p = Some p' \<and> length long_run = 6 \<and> total_cost p = 6
      \<and> \<not> (\<exists>i r q. settle test_browser i r p' = Some q)"
proof -
  let ?p = "Routing_addPeer (new_page filled_inputs)"
  let ?p' = "the (settle_all test_browser long_run ?p)"
  have s: "settle_all test_browser long_run ?p = Some ?p'" and d: "pending ?p' = []"
    using long_run_ends by auto
  have "length long_run = 6" "total_cost ?p = 6"
    by (simp_all add: long_run_def Routing_addPeer_def filled_inputs_def new_page_def cost_simps) (simp add: total_cost_def)
  with handlers_finish [OF s] s d show ?thesis unfolding Let_def by simp
qed

lemmas start_defs =
  Unicast_send_def Routing_addPeer_def Routing_setEntry_def Broadcast_sendChat_def Broadcast_sendPrivate_def
  Catalog_add_def DataSharing_upload_def DataSharing_download_def Search_searchAll_def Search_searchFirst_def
  Naming_resolve_def Naming_tag_def

lemma perform_total: "total_cost (perform a p) \<le> total_cost p + 6"
  by (cases a) (simp_all add: start_defs Routing_update_def Catalog_update_def cost_simps case_prod_unfold Let_def)

text \<open>
  C35: A click on a button is over after at most six settlements (the longest are \<open>addPeer\<close> and
  \<open>setEntry\<close>, which fetch the routing table and its graph afterwards), on top of those that the
  handlers that were already running still wait for.
\<close>

theorem click_settles_soon:
  assumes "settle_all b evs (perform a p) = Some p'"
  shows "length evs + total_cost p' \<le> total_cost p + 6"
  using settle_all_total [OF assms] perform_total [of a p] by linarith

theorem click_settles_soon_witness:
  "let p = new_page filled_inputs; p' = the (settle_all test_browser long_run (perform ActAddPeer p))
   in settle_all test_browser long_run (perform ActAddPeer p) = Some p' \<and> length long_run + total_cost p' \<le> 6
     \<and> total_cost p = 0"
proof -
  let ?p = "new_page filled_inputs"
  let ?p' = "the (settle_all test_browser long_run (perform ActAddPeer ?p))"
  have s: "settle_all test_browser long_run (perform ActAddPeer ?p) = Some ?p'"
    using long_run_ends by auto
  have "total_cost ?p = 0" by (simp add: total_cost_def new_page_def)
  with click_settles_soon [OF s] s show ?thesis unfolding Let_def by simp
qed

end
