(* ===== verification/Dom.thy ===== *)
theory Dom
  imports Js_String "HOL-Library.Multiset"
begin

text \<open>
  The part of the Document Object Model that stimulus.js reads and the observers react to.
  A document is a forest: the tree of the document element, whose node is \<open>document_root\<close>,
  and the trees of the nodes that are not connected to it. Elements have an identity (a
  number), a tag name, attributes in order and children; only elements are kept in the
  trees. The second half gives the changes of a document with the mutation records that a
  \<open>MutationObserver\<close> with the options \<open>attributes\<close>, \<open>childList\<close> and \<open>subtree\<close> gets for
  them, its transient observers on removed subtrees included.
\<close>

section \<open>Trees of elements\<close>

datatype el = El nat string "(string, string) jsmap" "el list"

type_synonym dom = "el list"

definition document_root :: nat where
  "document_root = 0"

fun nodes :: "dom \<Rightarrow> (nat \<times> string \<times> (string, string) jsmap) list" where
  "nodes [] = []"
| "nodes (El i t a ks # ts) = (i, t, a) # nodes ks @ nodes ts"

definition ids :: "dom \<Rightarrow> nat list" where
  "ids d = map fst (nodes d)"

definition dom_wf :: "dom \<Rightarrow> bool" where
  "dom_wf d \<longleftrightarrow> distinct (ids d)"

fun find_tree :: "nat \<Rightarrow> dom \<Rightarrow> el option" where
  "find_tree n [] = None"
| "find_tree n (El i t a ks # ts) =
     (if i = n then Some (El i t a ks)
      else (case find_tree n ks of Some x \<Rightarrow> Some x | None \<Rightarrow> find_tree n ts))"

text \<open>The element and its descendants, in document order.\<close>

definition subtree :: "dom \<Rightarrow> nat \<Rightarrow> nat list" where
  "subtree d n = (case find_tree n d of None \<Rightarrow> [] | Some t \<Rightarrow> ids [t])"

text \<open>The element and its ancestors, innermost first.\<close>

fun path :: "nat \<Rightarrow> dom \<Rightarrow> nat list" where
  "path n [] = []"
| "path n (El i t a ks # ts) =
     (if i = n then [n]
      else if path n ks \<noteq> [] then path n ks @ [i] else path n ts)"

definition parentElement :: "dom \<Rightarrow> nat \<Rightarrow> nat option" where
  "parentElement d n = (case path n d of _ # p # _ \<Rightarrow> Some p | _ \<Rightarrow> None)"

definition attrs :: "dom \<Rightarrow> nat \<Rightarrow> (string, string) jsmap" where
  "attrs d n = (case map_of (nodes d) n of None \<Rightarrow> [] | Some (t, a) \<Rightarrow> a)"

definition tagName :: "dom \<Rightarrow> nat \<Rightarrow> string" where
  "tagName d n = (case map_of (nodes d) n of None \<Rightarrow> [] | Some (t, a) \<Rightarrow> t)"

text \<open>Names of attributes of HTML elements are in lower case and looked up so.\<close>

definition getAttribute :: "dom \<Rightarrow> nat \<Rightarrow> string \<Rightarrow> string option" where
  "getAttribute d n name = map_of (attrs d n) (lower name)"

definition hasAttribute :: "dom \<Rightarrow> nat \<Rightarrow> string \<Rightarrow> bool" where
  "hasAttribute d n name \<longleftrightarrow> getAttribute d n name \<noteq> None"

definition contains :: "dom \<Rightarrow> nat \<Rightarrow> nat \<Rightarrow> bool" where
  "contains d n e \<longleftrightarrow> e \<in> set (subtree d n)"

definition isConnected :: "dom \<Rightarrow> nat \<Rightarrow> bool" where
  "isConnected d n \<longleftrightarrow> contains d document_root n"

section \<open>Selectors\<close>

text \<open>
  The two selectors that stimulus.js writes: \<open>[name]\<close>, and \<open>[name~="token"]\<close>, which holds
  when the token is one of the words of the value. Words are separated by the whitespace of
  HTML, which is a part of what \<open>\s\<close> of a regular expression matches.
\<close>

definition is_html_ws :: "char \<Rightarrow> bool" where
  "is_html_ws c \<longleftrightarrow> of_char c \<in> {9, 10, 12, 13, 32 :: nat}"

fun html_pieces :: "string \<Rightarrow> string list" where
  "html_pieces [] = [[]]"
| "html_pieces (c # cs) =
     (if is_html_ws c then [] # html_pieces cs
      else (case html_pieces cs of [] \<Rightarrow> [[c]] | p # ps \<Rightarrow> (c # p) # ps))"

definition html_words :: "string \<Rightarrow> string list" where
  "html_words s = filter (\<lambda>w. w \<noteq> []) (html_pieces s)"

datatype selector = HasAttr string | AttrToken string string

fun matches :: "dom \<Rightarrow> selector \<Rightarrow> nat \<Rightarrow> bool" where
  "matches d (HasAttr name) e = hasAttribute d e name"
| "matches d (AttrToken name tok) e = (case getAttribute d e name of
     None \<Rightarrow> False
   | Some v \<Rightarrow> tok \<in> set (html_words v))"

definition querySelectorAll :: "dom \<Rightarrow> nat \<Rightarrow> selector \<Rightarrow> nat list" where
  "querySelectorAll d n sel = filter (matches d sel) (tl (subtree d n))"

definition closest :: "dom \<Rightarrow> nat \<Rightarrow> selector \<Rightarrow> nat option" where
  "closest d n sel = find (matches d sel) (path n d)"

section \<open>Changes of a document\<close>

text \<open>Taking a subtree out, putting a tree in, and changing the attributes of an element.\<close>

fun cut_tree :: "nat \<Rightarrow> dom \<Rightarrow> dom" where
  "cut_tree c [] = []"
| "cut_tree c (El i t a ks # ts) = (if i = c then cut_tree c ts else El i t a (cut_tree c ks) # cut_tree c ts)"

definition insert_at :: "nat \<Rightarrow> 'a \<Rightarrow> 'a list \<Rightarrow> 'a list" where
  "insert_at k x xs = take k xs @ x # drop k xs"

fun graft :: "nat \<Rightarrow> nat \<Rightarrow> el \<Rightarrow> dom \<Rightarrow> dom" where
  "graft p k x [] = []"
| "graft p k x (El i t a ks # ts) =
     El i t a (if i = p then insert_at k x ks else graft p k x ks) # graft p k x ts"

fun update_attrs :: "nat \<Rightarrow> ((string, string) jsmap \<Rightarrow> (string, string) jsmap) \<Rightarrow> dom \<Rightarrow> dom" where
  "update_attrs n f [] = []"
| "update_attrs n f (El i t a ks # ts) =
     El i t (if i = n then f a else a) (update_attrs n f ks) # update_attrs n f ts"

definition detach :: "nat \<Rightarrow> dom \<Rightarrow> dom" where
  "detach c d = (case find_tree c d of None \<Rightarrow> d | Some t \<Rightarrow> cut_tree c d @ [t])"

definition attach :: "nat \<Rightarrow> nat \<Rightarrow> nat \<Rightarrow> dom \<Rightarrow> dom" where
  "attach c p k d = (case find_tree c d of None \<Rightarrow> d | Some t \<Rightarrow> graft p k t (cut_tree c d))"

section \<open>The subtree relation\<close>

text \<open>\<open>below d\<close>: the pairs of an element and one in its subtree.\<close>

fun below :: "dom \<Rightarrow> (nat \<times> nat) set" where
  "below [] = {}"
| "below (El i t a ks # ts) = {i} \<times> set (i # ids ks) \<union> below ks \<union> below ts"

lemma ids_simps [simp]:
  "ids [] = []" "ids (El i t a ks # ts) = i # ids ks @ ids ts" "ids (d1 @ d2) = ids d1 @ ids d2"
proof -
  show "ids (d1 @ d2) = ids d1 @ ids d2"
    by (induction d1 rule: nodes.induct) (simp_all add: ids_def)
qed (simp_all add: ids_def)

lemma nodes_append: "nodes (d1 @ d2) = nodes d1 @ nodes d2"
  by (induction d1 rule: nodes.induct) simp_all

lemma below_append: "below (d1 @ d2) = below d1 \<union> below d2"
  by (induction d1 rule: below.induct) auto

lemma below_ids: "(n, e) \<in> below d \<Longrightarrow> n \<in> set (ids d) \<and> e \<in> set (ids d)"
  by (induction d rule: below.induct) auto

lemma below_sub: "below d \<subseteq> set (ids d) \<times> set (ids d)"
  using below_ids by auto

lemma below_refl: "n \<in> set (ids d) \<Longrightarrow> (n, n) \<in> below d"
  by (induction d rule: below.induct) auto

lemma find_tree_None: "find_tree n d = None \<longleftrightarrow> n \<notin> set (ids d)"
  by (induction n d rule: find_tree.induct) (auto split: option.splits)

lemma find_tree_ids: "find_tree n d = Some t \<Longrightarrow> set (ids [t]) \<subseteq> set (ids d)"
  by (induction n d rule: find_tree.induct) (auto split: option.splits if_splits)

lemma find_tree_below:
  "dom_wf d \<Longrightarrow> find_tree n d = Some t \<Longrightarrow> (n, e) \<in> below d \<longleftrightarrow> e \<in> set (ids [t])"
proof (induction n d rule: find_tree.induct)
  case (2 n i tg a ks ts)
  from "2.prems"(1) have wf: "dom_wf ks" "dom_wf ts" "i \<notin> set (ids ks)" "i \<notin> set (ids ts)"
    "set (ids ks) \<inter> set (ids ts) = {}"
    by (auto simp: dom_wf_def)
  show ?case
  proof (cases "i = n")
    case True
    with "2.prems"(2) wf show ?thesis by (auto dest: below_ids)
  next
    case False
    show ?thesis
    proof (cases "find_tree n ks")
      case None
      with False "2.prems"(2) "2.IH"(2) wf show ?thesis
        by (auto simp: find_tree_None dest: below_ids)
    next
      case (Some x)
      then have "n \<in> set (ids ks)" by (metis find_tree_None option.distinct(1))
      with False Some "2.prems"(2) "2.IH"(1) wf show ?thesis
        by (auto dest: below_ids)
    qed
  qed
qed simp

lemma subtree_below: "dom_wf d \<Longrightarrow> e \<in> set (subtree d n) \<longleftrightarrow> (n, e) \<in> below d"
proof (cases "find_tree n d")
  case None
  then have "n \<notin> set (ids d)" by (simp add: find_tree_None)
  with None show ?thesis by (auto simp: subtree_def dest: below_ids)
qed (simp add: subtree_def find_tree_below)

lemma below_trans: "dom_wf d \<Longrightarrow> (n, m) \<in> below d \<Longrightarrow> (m, e) \<in> below d \<Longrightarrow> (n, e) \<in> below d"
  by (induction d rule: below.induct) (auto simp: dom_wf_def dest: below_ids)

section \<open>How the changes act on the subtree relation\<close>

lemma cut_absent [simp]: "c \<notin> set (ids d) \<Longrightarrow> cut_tree c d = d"
  by (induction c d rule: cut_tree.induct) auto

lemma find_tree_root: "find_tree c d = Some t \<Longrightarrow> \<exists>tg a ks. t = El c tg a ks"
  by (induction c d rule: find_tree.induct) (auto split: if_splits option.splits)

lemma cut_below:
  assumes "dom_wf d" and "find_tree c d = Some t"
  shows "below (cut_tree c d) = {(n, e) \<in> below d. e \<notin> set (ids [t])}
    \<and> set (ids (cut_tree c d)) = set (ids d) - set (ids [t]) \<and> dom_wf (cut_tree c d)"
  using assms
proof (induction c d rule: cut_tree.induct)
  case (2 c i tg a ks ts)
  from "2.prems"(1) have wf: "dom_wf ks" "dom_wf ts" "i \<notin> set (ids ks)" "i \<notin> set (ids ts)"
    "set (ids ks) \<inter> set (ids ts) = {}"
    by (auto simp: dom_wf_def)
  consider (here) "i = c" | (kids) "i \<noteq> c" "find_tree c ks = Some t"
    | (later) "i \<noteq> c" "find_tree c ks = None" "find_tree c ts = Some t"
    using "2.prems"(2) by (auto split: if_splits option.splits)
  then show ?case
  proof cases
    case here
    with "2.prems"(2) have "t = El c tg a ks" by simp
    with here wf below_sub [of ks] below_sub [of ts] show ?thesis by simp blast
  next
    case kids
    have t: "set (ids [t]) \<subseteq> set (ids ks)" using kids(2) by (rule find_tree_ids)
    with kids(2) find_tree_root [OF kids(2)] wf(5) have "c \<notin> set (ids ts)" by auto
    then have cut: "cut_tree c (El i tg a ks # ts) = El i tg a (cut_tree c ks) # ts"
      using kids(1) by simp
    note IH = "2.IH"(2) [OF kids(1) wf(1) kids(2)]
    have "e \<notin> set (ids [t])" if "e \<in> set (i # ids ts)" for e using that t wf by auto
    with IH t wf below_sub [of ts] show ?thesis unfolding cut dom_wf_def by (intro conjI) auto
  next
    case later
    have t: "set (ids [t]) \<subseteq> set (ids ts)" using later(3) by (rule find_tree_ids)
    have "c \<notin> set (ids ks)" using later(2) by (simp add: find_tree_None)
    then have cut: "cut_tree c (El i tg a ks # ts) = El i tg a ks # cut_tree c ts"
      using later(1) by simp
    note IH = "2.IH"(3) [OF later(1) wf(2) later(3)]
    have "e \<notin> set (ids [t])" if "e \<in> set (i # ids ks)" for e using that t wf by auto
    with IH t wf below_sub [of ks] show ?thesis unfolding cut dom_wf_def by (intro conjI) auto
  qed
qed simp

lemma find_tree_sub:
  assumes "dom_wf d" and "find_tree c d = Some t"
  shows "below [t] = {(n, e) \<in> below d. n \<in> set (ids [t])} \<and> dom_wf [t]"
  using assms
proof (induction c d rule: find_tree.induct)
  case (2 c i tg a ks ts)
  from "2.prems"(1) have wf: "dom_wf ks" "dom_wf ts" "i \<notin> set (ids ks)" "i \<notin> set (ids ts)"
    "set (ids ks) \<inter> set (ids ts) = {}"
    by (auto simp: dom_wf_def)
  consider (here) "i = c" | (kids) "i \<noteq> c" "find_tree c ks = Some t"
    | (later) "i \<noteq> c" "find_tree c ks = None" "find_tree c ts = Some t"
    using "2.prems"(2) by (auto split: if_splits option.splits)
  then show ?case
  proof cases
    case here
    with "2.prems"(2) have "t = El c tg a ks" by simp
    with here wf below_sub [of ks] below_sub [of ts] show ?thesis
      unfolding dom_wf_def by simp blast
  next
    case kids
    with "2.IH"(1) wf find_tree_ids [OF kids(2)] below_sub [of ts] show ?thesis by simp blast
  next
    case later
    with "2.IH"(2) wf find_tree_ids [OF later(3)] below_sub [of ks] show ?thesis by simp blast
  qed
qed simp

lemma detach_below:
  assumes "dom_wf d" and "c \<in> set (ids d)"
  shows "dom_wf (detach c d)" "set (ids (detach c d)) = set (ids d)"
    "(n, e) \<in> below (detach c d) \<longleftrightarrow>
       (n, e) \<in> below d \<and> ((c, e) \<in> below d \<longrightarrow> (c, n) \<in> below d)"
proof -
  obtain t where t: "find_tree c d = Some t"
    using assms(2) find_tree_None [of c d] by (cases "find_tree c d") auto
  note c = cut_below [OF assms(1) t] and s = find_tree_sub [OF assms(1) t]
    and m = find_tree_below [OF assms(1) t] and i = find_tree_ids [OF t]
  show "dom_wf (detach c d)" using c s by (auto simp: detach_def t dom_wf_def)
  show "set (ids (detach c d)) = set (ids d)" using c i by (auto simp: detach_def t)
  show "(n, e) \<in> below (detach c d) \<longleftrightarrow>
      (n, e) \<in> below d \<and> ((c, e) \<in> below d \<longrightarrow> (c, n) \<in> below d)"
    unfolding detach_def t option.case below_append m using c s below_trans [OF assms(1), of c n e]
    by (auto simp: m)
qed

lemma set_insert_at [simp]: "set (insert_at k x xs) = insert x (set xs)"
  using set_append [of "take k xs" "drop k xs"] by (simp add: insert_at_def)

lemma nodes_insert_at: "mset (nodes (insert_at k x ks)) = mset (nodes [x]) + mset (nodes ks)"
proof -
  have "mset (nodes ks) = mset (nodes (take k ks)) + mset (nodes (drop k ks))"
    using arg_cong [OF nodes_append [of "take k ks" "drop k ks"], of mset] by simp
  moreover have "nodes (x # drop k ks) = nodes [x] @ nodes (drop k ks)"
    using nodes_append [of "[x]" "drop k ks"] by simp
  ultimately show ?thesis by (simp add: insert_at_def nodes_append)
qed

lemma below_insert_at: "below (insert_at k x ks) = below [x] \<union> below ks"
proof -
  have "below ks = below (take k ks) \<union> below (drop k ks)"
    using below_append [of "take k ks" "drop k ks"] by simp
  moreover have "below (x # drop k ks) = below [x] \<union> below (drop k ks)"
    using below_append [of "[x]" "drop k ks"] by simp
  ultimately show ?thesis by (auto simp: insert_at_def below_append)
qed

lemma graft_absent [simp]: "p \<notin> set (ids d) \<Longrightarrow> graft p k x d = d"
  by (induction p k x d rule: graft.induct) auto

lemma ids_insert_at: "set (ids (insert_at k x ks)) = set (ids [x]) \<union> set (ids ks)"
  using arg_cong [OF nodes_insert_at [of k x ks], of set_mset] by (simp add: ids_def image_Un)

lemma graft_nodes:
  assumes "dom_wf d" and "p \<in> set (ids d)"
  shows "mset (nodes (graft p k x d)) = mset (nodes [x]) + mset (nodes d)
    \<and> below (graft p k x d) = below d \<union> below [x] \<union> {(n, e). (n, p) \<in> below d \<and> e \<in> set (ids [x])}"
  using assms
proof (induction p k x d rule: graft.induct)
  case (2 p k x i t a ks ts)
  from "2.prems" have wf: "dom_wf ks" "dom_wf ts" "i \<notin> set (ids ks)" "i \<notin> set (ids ts)"
    "set (ids ks) \<inter> set (ids ts) = {}"
    by (auto simp: dom_wf_def)
  have ids_graft: "set (ids (graft p k x ks)) = set (ids [x]) \<union> set (ids ks)"
    if "mset (nodes (graft p k x ks)) = mset (nodes [x]) + mset (nodes ks)"
    using arg_cong [OF that, of set_mset] by (simp add: ids_def image_Un)
  consider (here) "i = p" "p \<notin> set (ids ks)" "p \<notin> set (ids ts)"
    | (kids) "i \<noteq> p" "p \<in> set (ids ks)" "p \<notin> set (ids ts)"
    | (later) "i \<noteq> p" "p \<notin> set (ids ks)" "p \<in> set (ids ts)"
    using "2.prems"(2) wf by auto
  then show ?case
  proof cases
    case here
    with below_sub [of ks] below_sub [of ts] show ?thesis
      by (auto simp: nodes_insert_at below_insert_at ids_insert_at)
  next
    case kids
    with "2.IH"(1) wf below_sub [of ts] ids_graft below_refl [of p ks] show ?thesis by auto
  next
    case later
    with "2.IH"(2) wf below_sub [of ks] show ?thesis by auto
  qed
qed simp

lemma cut_nodes:
  assumes "dom_wf d" and "find_tree c d = Some t"
  shows "mset (nodes d) = mset (nodes (cut_tree c d)) + mset (nodes [t])"
  using assms
proof (induction c d rule: cut_tree.induct)
  case (2 c i tg a ks ts)
  from "2.prems"(1) have wf: "dom_wf ks" "dom_wf ts" "i \<notin> set (ids ks)" "i \<notin> set (ids ts)"
    "set (ids ks) \<inter> set (ids ts) = {}"
    by (auto simp: dom_wf_def)
  consider (here) "i = c" | (kids) "i \<noteq> c" "find_tree c ks = Some t"
    | (later) "i \<noteq> c" "find_tree c ks = None" "find_tree c ts = Some t"
    using "2.prems"(2) by (auto split: if_splits option.splits)
  then show ?case
  proof cases
    case here
    with "2.prems"(2) wf show ?thesis by auto
  next
    case kids
    have "c \<notin> set (ids ts)"
      using find_tree_ids [OF kids(2)] find_tree_root [OF kids(2)] wf(5) by auto
    with kids "2.IH"(2) wf show ?thesis by simp
  next
    case later
    have "c \<notin> set (ids ks)" using later(2) by (simp add: find_tree_None)
    with later "2.IH"(3) wf show ?thesis by simp
  qed
qed simp

lemma below_chain:
  "dom_wf d \<Longrightarrow> (n, e) \<in> below d \<Longrightarrow> (m, e) \<in> below d \<Longrightarrow> (n, m) \<in> below d \<or> (m, n) \<in> below d"
proof (induction d rule: below.induct)
  case (2 i t a ks ts)
  then have wf: "dom_wf ks" "dom_wf ts" "i \<notin> set (ids ks)" "i \<notin> set (ids ts)"
    "set (ids ks) \<inter> set (ids ts) = {}"
    by (auto simp: dom_wf_def)
  with 2 below_sub [of ks] below_sub [of ts] show ?case by auto
qed simp

lemma below_antisym: "dom_wf d \<Longrightarrow> (n, m) \<in> below d \<Longrightarrow> (m, n) \<in> below d \<Longrightarrow> n = m"
proof (induction d rule: below.induct)
  case (2 i t a ks ts)
  then have wf: "dom_wf ks" "dom_wf ts" "i \<notin> set (ids ks)" "i \<notin> set (ids ts)"
    "set (ids ks) \<inter> set (ids ts) = {}"
    by (auto simp: dom_wf_def)
  with 2 below_sub [of ks] below_sub [of ts] show ?case by auto
qed simp

lemma attach_nodes:
  assumes "dom_wf d" and "c \<in> set (ids d)" and "p \<in> set (ids d)" and "(c, p) \<notin> below d"
  shows "mset (nodes (attach c p k d)) = mset (nodes d)"
proof -
  obtain t where t: "find_tree c d = Some t"
    using assms(2) find_tree_None [of c d] by (cases "find_tree c d") auto
  note c = cut_below [OF assms(1) t] and m = find_tree_below [OF assms(1) t]
  have p: "p \<in> set (ids (cut_tree c d))" using c assms(3,4) m by auto
  have wf: "dom_wf (cut_tree c d)" using c by simp
  show ?thesis
    using graft_nodes [OF wf p, of k t] cut_nodes [OF assms(1) t] by (simp add: attach_def t)
qed

lemma attach_below:
  assumes "dom_wf d" and "c \<in> set (ids d)" and "p \<in> set (ids d)"
    and root: "\<And>n. (n, c) \<in> below d \<Longrightarrow> n = c" and "(c, p) \<notin> below d"
  shows "dom_wf (attach c p k d)" "set (ids (attach c p k d)) = set (ids d)"
    "(n, e) \<in> below (attach c p k d) \<longleftrightarrow> (n, e) \<in> below d \<or> ((n, p) \<in> below d \<and> (c, e) \<in> below d)"
proof -
  obtain t where t: "find_tree c d = Some t"
    using assms(2) find_tree_None [of c d] by (cases "find_tree c d") auto
  note c = cut_below [OF assms(1) t] and s = find_tree_sub [OF assms(1) t]
    and m = find_tree_below [OF assms(1) t]
  have p: "p \<in> set (ids (cut_tree c d))" using c assms(3,5) m by auto
  have wf: "dom_wf (cut_tree c d)" using c by simp
  note g = graft_nodes [OF wf p, of k t]
  have "mset (nodes (attach c p k d)) = mset (nodes d)" by (rule attach_nodes) fact+
  then have "mset (ids (attach c p k d)) = mset (ids d)" by (simp add: ids_def)
  then show "dom_wf (attach c p k d)" "set (ids (attach c p k d)) = set (ids d)"
    using assms(1) by (auto simp: dom_wf_def dest: mset_eq_setD mset_eq_imp_distinct_iff)
  have up: "(c, n) \<in> below d" if "(n, e) \<in> below d" "(c, e) \<in> below d" for n e
    using below_chain [OF assms(1) that] root by auto
  have "(n, p) \<in> below (cut_tree c d) \<longleftrightarrow> (n, p) \<in> below d" for n
    using c m assms(5) by auto
  then show "(n, e) \<in> below (attach c p k d) \<longleftrightarrow>
      (n, e) \<in> below d \<or> ((n, p) \<in> below d \<and> (c, e) \<in> below d)"
    using g c s m up below_trans [OF assms(1), of c n e] by (auto simp: attach_def t)
qed

section \<open>How the changes act on attributes\<close>

lemma map_of_nodes_cong:
  assumes "dom_wf d" and "mset (nodes d') = mset (nodes d)"
  shows "map_of (nodes d') = map_of (nodes d)"
proof -
  have "mset (map fst (nodes d')) = mset (map fst (nodes d))" using assms(2) by simp
  then have "distinct (map fst (nodes d'))"
    using assms(1) mset_eq_imp_distinct_iff unfolding dom_wf_def ids_def by blast
  then show ?thesis
    using assms mset_eq_setD [OF assms(2)] map_of_inject_set [of "nodes d'" "nodes d"]
    by (simp add: dom_wf_def ids_def)
qed

lemma detach_attrs: "dom_wf d \<Longrightarrow> attrs (detach c d) = attrs d"
  using map_of_nodes_cong [of d "detach c d"] cut_nodes [of d c]
  by (cases "find_tree c d") (simp_all add: attrs_def detach_def nodes_append fun_eq_iff)

lemma update_attrs_ids [simp]: "ids (update_attrs n f d) = ids d"
  by (induction n f d rule: update_attrs.induct) simp_all

lemma update_attrs_below [simp]: "below (update_attrs n f d) = below d"
  by (induction n f d rule: update_attrs.induct) simp_all

lemma update_attrs_attrs:
  "attrs (update_attrs n f d) m = (if m = n \<and> n \<in> set (ids d) then f (attrs d m) else attrs d m)"
proof -
  have "nodes (update_attrs n f d) = map (\<lambda>(i, t, a). (i, t, if i = n then f a else a)) (nodes d)"
    by (induction n f d rule: update_attrs.induct) auto
  moreover have "map_of (map (\<lambda>(i, t, a). (i, t, if i = n then f a else a)) xs) m =
      map_option (\<lambda>(t, a). (t, if m = n then f a else a)) (map_of xs m)" for xs
    by (induction xs) auto
  ultimately have lookup: "map_of (nodes (update_attrs n f d)) m =
      map_option (\<lambda>(t, a). (t, if m = n then f a else a)) (map_of (nodes d) m)" by simp
  have "m \<in> set (ids d) \<longleftrightarrow> map_of (nodes d) m \<noteq> None"
    by (simp add: ids_def map_of_eq_None_iff)
  with lookup show ?thesis by (cases "map_of (nodes d) m") (auto simp: attrs_def)
qed

lemma attach_attrs:
  assumes "dom_wf d" and "c \<in> set (ids d)" and "p \<in> set (ids d)" and "(c, p) \<notin> below d"
  shows "attrs (attach c p k d) = attrs d"
  using map_of_nodes_cong [OF assms(1) attach_nodes [OF assms]] by (simp add: attrs_def fun_eq_iff)

end
