(* ===== verification/Mutation.thy ===== *)
theory Mutation
  imports Dom
begin

text \<open>
  Changes of a document and what a \<open>MutationObserver\<close> hears of them. The observer is
  registered on an element with the options \<open>attributes\<close>, \<open>childList\<close> and \<open>subtree\<close>; its
  records queue up until the browser delivers them. When an observed node is removed, the
  observer stays registered on the removed subtree, as a transient observer, until the next
  delivery.
\<close>

section \<open>Records\<close>

datatype node = ElementNode nat | TextNode

datatype mutation =
    AttributesMutation nat string \<comment> \<open>target, attributeName\<close>
  | ChildListMutation "node list" "node list" \<comment> \<open>addedNodes, removedNodes\<close>

record observed =
  doc :: dom
  records :: "mutation list"
  transients :: "nat list"

definition observes :: "nat \<Rightarrow> observed \<Rightarrow> nat \<Rightarrow> bool" where
  "observes root s n \<longleftrightarrow> list_ex (\<lambda>r. contains (doc s) r n) (root # transients s)"

definition record_mutation :: "nat \<Rightarrow> nat \<Rightarrow> mutation \<Rightarrow> observed \<Rightarrow> observed" where
  "record_mutation root target m s =
     (if observes root s target then s\<lparr>records := records s @ [m]\<rparr> else s)"

section \<open>Changes\<close>

datatype change =
    SetAttribute nat string string
  | RemoveAttribute nat string
  | CreateElement string "(string, string) jsmap"
  | InsertNode nat nat nat \<comment> \<open>child, parent, position\<close>
  | RemoveNode nat
  | InsertText nat

definition fresh :: "dom \<Rightarrow> nat" where
  "fresh d = Suc (fold max (ids d) 0)"

text \<open>
  \<open>InsertNode\<close> puts in a node without parent; moving a node is \<open>RemoveNode\<close> followed by
  \<open>InsertNode\<close>, which is how the browser does it. A change that the browser would refuse
  (the parent is inside the child, there is no such node) leaves the document as it is.
\<close>

fun apply_change :: "nat \<Rightarrow> change \<Rightarrow> observed \<Rightarrow> observed" where
  "apply_change root (SetAttribute n name v) s =
     (if n \<in> set (ids (doc s))
      then (record_mutation root n (AttributesMutation n (lower name)) s)
        \<lparr>doc := update_attrs n (AList.update (lower name) v) (doc s)\<rparr>
      else s)"
| "apply_change root (RemoveAttribute n name) s =
     (if hasAttribute (doc s) n name
      then (record_mutation root n (AttributesMutation n (lower name)) s)
        \<lparr>doc := update_attrs n (AList.delete (lower name)) (doc s)\<rparr>
      else s)"
| "apply_change root (CreateElement tag a) s =
     s\<lparr>doc := doc s @ [El (fresh (doc s)) tag a []]\<rparr>"
| "apply_change root (InsertNode c p k) s =
     (if c \<in> set (ids (doc s)) \<and> p \<in> set (ids (doc s)) \<and> parentElement (doc s) c = None
         \<and> c \<noteq> document_root \<and> \<not> contains (doc s) c p
      then (record_mutation root p (ChildListMutation [ElementNode c] []) s)
        \<lparr>doc := attach c p k (doc s)\<rparr>
      else s)"
| "apply_change root (RemoveNode c) s = (case parentElement (doc s) c of
     None \<Rightarrow> s
   | Some p \<Rightarrow>
       let s' = (record_mutation root p (ChildListMutation [] [ElementNode c]) s)
         \<lparr>doc := detach c (doc s)\<rparr>
       in if observes root s p then s'\<lparr>transients := transients s @ [c]\<rparr> else s')"
| "apply_change root (InsertText p) s =
     record_mutation root p (ChildListMutation [TextNode] []) s"

section \<open>Facts about parents\<close>

lemma path_Nil: "path n d = [] \<longleftrightarrow> n \<notin> set (ids d)"
  by (induction n d rule: path.induct) auto

lemma path_below: "dom_wf d \<Longrightarrow> m \<in> set (path n d) \<longleftrightarrow> (m, n) \<in> below d"
proof (induction n d rule: path.induct)
  case (2 n i t a ks ts)
  then have wf: "dom_wf ks" "dom_wf ts" "i \<notin> set (ids ks)" "i \<notin> set (ids ts)"
    "set (ids ks) \<inter> set (ids ts) = {}"
    by (auto simp: dom_wf_def)
  consider (here) "i = n" | (kids) "i \<noteq> n" "n \<in> set (ids ks)" "n \<notin> set (ids ts)"
    | (later) "i \<noteq> n" "n \<notin> set (ids ks)"
    using wf by auto
  then show ?case
    by cases (use 2 wf below_sub [of ks] below_sub [of ts] in \<open>auto simp: path_Nil\<close>)
qed simp

lemma path_distinct: "dom_wf d \<Longrightarrow> distinct (path n d)"
proof (induction n d rule: path.induct)
  case (2 n i t a ks ts)
  then have wf: "dom_wf ks" "dom_wf ts" "i \<notin> set (ids ks)"
    by (auto simp: dom_wf_def)
  with 2 path_below [OF wf(1), of i n] below_sub [of ks] show ?case by auto
qed simp

lemma path_parent:
  "dom_wf d \<Longrightarrow> path n d = n # p # rest \<Longrightarrow> (m, n) \<in> below d \<Longrightarrow> m = n \<or> (m, p) \<in> below d"
proof (induction n d arbitrary: rest rule: path.induct)
  case (2 n i t a ks ts)
  then have wf: "dom_wf ks" "dom_wf ts" "i \<notin> set (ids ks)" "i \<notin> set (ids ts)"
    "set (ids ks) \<inter> set (ids ts) = {}"
    by (auto simp: dom_wf_def)
  show ?case
  proof (cases "path n ks = []")
    case True
    with 2 wf below_sub [of ks] show ?thesis by (auto simp: path_Nil split: if_splits)
  next
    case False
    then have n: "n \<in> set (ids ks)" by (simp add: path_Nil)
    with wf have ne: "i \<noteq> n" "n \<notin> set (ids ts)" by auto
    with "2.prems"(3) below_sub [of ts] have m: "m = i \<or> (m, n) \<in> below ks" by auto
    have pth: "path n ks @ [i] = n # p # rest" using "2.prems"(2) False ne by simp
    show ?thesis
    proof (cases "\<exists>r. path n ks = n # p # r")
      case True
      then obtain r where r: "path n ks = n # p # r" by auto
      then have "p \<in> set (ids ks)" using path_below [OF wf(1), of p n] below_sub [of ks] by auto
      with m r "2.IH"(1) [OF ne(1) wf(1)] show ?thesis by auto
    next
      case False
      with pth \<open>path n ks \<noteq> []\<close> have "path n ks = [n]" "p = i"
        by (cases "path n ks"; cases "tl (path n ks)"; auto)+
      with m path_below [OF wf(1), of m n] show ?thesis by auto
    qed
  qed
qed simp

lemma path_hd: "path n d \<noteq> [] \<Longrightarrow> hd (path n d) = n"
  by (induction n d rule: path.induct) auto

lemma parentElement_Some:
  assumes "dom_wf d" and "parentElement d c = Some p"
  shows "(p, c) \<in> below d" and "(m, c) \<in> below d \<Longrightarrow> m = c \<or> (m, p) \<in> below d"
    and "c \<in> set (ids d)" and "p \<noteq> c"
proof -
  from assms(2) obtain x rest where "path c d = x # p # rest"
    by (auto simp: parentElement_def split: list.splits)
  moreover from this have "x = c" using path_hd [of c d] by simp
  ultimately have pth: "path c d = c # p # rest" by simp
  show pc: "(p, c) \<in> below d" using path_below [OF assms(1), of p c] pth by simp
  show "(m, c) \<in> below d \<Longrightarrow> m = c \<or> (m, p) \<in> below d" by (rule path_parent [OF assms(1) pth])
  show "c \<in> set (ids d)" using below_ids [OF pc] by simp
  show "p \<noteq> c" using path_distinct [OF assms(1), of c] pth by auto
qed

lemma parentElement_None:
  assumes "dom_wf d" and "parentElement d c = None" and "(m, c) \<in> below d"
  shows "m = c"
proof -
  have "c \<in> set (ids d)" using below_ids [OF assms(3)] by simp
  then obtain x xs where x: "path c d = x # xs" by (metis list.exhaust path_Nil)
  with assms(2) have "path c d = [c]" using path_hd [of c d]
    by (auto simp: parentElement_def split: list.splits)
  with assms(3) path_below [OF assms(1), of m c] show ?thesis by simp
qed

end
