(* ===== verification/Element_Observer.thy ===== *)
theory Element_Observer
  imports Mutation
begin

text \<open>
  \<open>ElementObserver\<close> and \<open>AttributeObserver\<close> of stimulus.js: the set of elements below an
  observed element that have a given attribute, kept up to date from mutation records. An
  \<open>ElementObserver\<close> is only ever created by an \<open>AttributeObserver\<close>, which is its delegate;
  the calls to it are returned as \<open>element_call\<close>s and turned into the calls that the
  \<open>AttributeObserver\<close> makes to its own delegate. The document \<open>d\<close> is what the browser shows
  while the operation runs.
\<close>

section \<open>AttributeObserver\<close>

definition AttributeObserver_matchElement :: "dom \<Rightarrow> string \<Rightarrow> nat \<Rightarrow> bool" where
  "AttributeObserver_matchElement d an element = hasAttribute d element an"

definition AttributeObserver_matchElementsInTree :: "dom \<Rightarrow> string \<Rightarrow> nat \<Rightarrow> nat list" where
  "AttributeObserver_matchElementsInTree d an tree =
     (let match = if AttributeObserver_matchElement d an tree then [tree] else [];
          matches = querySelectorAll d tree (HasAttr an)
      in match @ matches)"

datatype element_call =
    ElementMatched nat
  | ElementUnmatched nat
  | ElementAttributeChanged nat string

datatype attribute_call =
    ElementMatchedAttribute nat
  | ElementUnmatchedAttribute nat
  | ElementAttributeValueChanged nat

fun AttributeObserver_call :: "string \<Rightarrow> element_call \<Rightarrow> attribute_call list" where
  "AttributeObserver_call an (ElementMatched element) = [ElementMatchedAttribute element]"
| "AttributeObserver_call an (ElementUnmatched element) = [ElementUnmatchedAttribute element]"
| "AttributeObserver_call an (ElementAttributeChanged element name) =
     (if an = name then [ElementAttributeValueChanged element] else [])"

section \<open>ElementObserver\<close>

record element_observer =
  eo_element :: nat
  eo_started :: bool
  eo_elements :: "nat list"

definition new_ElementObserver :: "nat \<Rightarrow> element_observer" where
  "new_ElementObserver element = \<lparr>eo_element = element, eo_started = False, eo_elements = []\<rparr>"

definition elementIsActive :: "dom \<Rightarrow> element_observer \<Rightarrow> nat \<Rightarrow> bool" where
  "elementIsActive d eo element =
     (if isConnected d element \<noteq> isConnected d (eo_element eo) then False
      else contains d (eo_element eo) element)"

definition addElement ::
  "dom \<Rightarrow> nat \<Rightarrow> element_observer \<Rightarrow> element_observer \<times> element_call list" where
  "addElement d element eo =
     (if element \<notin> set (eo_elements eo) then
        if elementIsActive d eo element
        then (eo\<lparr>eo_elements := set_add element (eo_elements eo)\<rparr>, [ElementMatched element])
        else (eo, [])
      else (eo, []))"

definition removeElement :: "nat \<Rightarrow> element_observer \<Rightarrow> element_observer \<times> element_call list" where
  "removeElement element eo =
     (if element \<in> set (eo_elements eo)
      then (eo\<lparr>eo_elements := set_delete element (eo_elements eo)\<rparr>, [ElementUnmatched element])
      else (eo, []))"

definition processTree :: "dom \<Rightarrow> string \<Rightarrow> nat \<Rightarrow>
    (nat \<Rightarrow> element_observer \<Rightarrow> element_observer \<times> element_call list) \<Rightarrow>
    element_observer \<Rightarrow> element_observer \<times> element_call list" where
  "processTree d an tree processor eo =
     each processor (AttributeObserver_matchElementsInTree d an tree) eo"

fun elementFromNode :: "node \<Rightarrow> nat option" where
  "elementFromNode (ElementNode element) = Some element"
| "elementFromNode TextNode = None"

definition processRemovedNodes :: "dom \<Rightarrow> string \<Rightarrow> node list \<Rightarrow>
    element_observer \<Rightarrow> element_observer \<times> element_call list" where
  "processRemovedNodes d an = each (\<lambda>node eo. case elementFromNode node of
     None \<Rightarrow> (eo, [])
   | Some element \<Rightarrow> processTree d an element removeElement eo)"

definition processAddedNodes :: "dom \<Rightarrow> string \<Rightarrow> node list \<Rightarrow>
    element_observer \<Rightarrow> element_observer \<times> element_call list" where
  "processAddedNodes d an = each (\<lambda>node eo. case elementFromNode node of
     None \<Rightarrow> (eo, [])
   | Some element \<Rightarrow>
       if elementIsActive d eo element then processTree d an element (addElement d) eo
       else (eo, []))"

definition processAttributeChange :: "dom \<Rightarrow> string \<Rightarrow> nat \<Rightarrow> string \<Rightarrow>
    element_observer \<Rightarrow> element_observer \<times> element_call list" where
  "processAttributeChange d an element name eo =
     (if element \<in> set (eo_elements eo) then
        if AttributeObserver_matchElement d an element
        then (eo, [ElementAttributeChanged element name])
        else removeElement element eo
      else if AttributeObserver_matchElement d an element then addElement d element eo
      else (eo, []))"

fun processMutation :: "dom \<Rightarrow> string \<Rightarrow> mutation \<Rightarrow>
    element_observer \<Rightarrow> element_observer \<times> element_call list" where
  "processMutation d an (AttributesMutation target name) eo =
     processAttributeChange d an target name eo"
| "processMutation d an (ChildListMutation added removed) eo =
     (let (eo, cs1) = processRemovedNodes d an removed eo;
          (eo, cs2) = processAddedNodes d an added eo
      in (eo, cs1 @ cs2))"

definition processMutations :: "dom \<Rightarrow> string \<Rightarrow> mutation list \<Rightarrow>
    element_observer \<Rightarrow> element_observer \<times> element_call list" where
  "processMutations d an mutations eo =
     (if eo_started eo then each (processMutation d an) mutations eo else (eo, []))"

definition ElementObserver_refresh ::
  "dom \<Rightarrow> string \<Rightarrow> element_observer \<Rightarrow> element_observer \<times> element_call list" where
  "ElementObserver_refresh d an eo =
     (if eo_started eo then
        let matches = set_from (AttributeObserver_matchElementsInTree d an (eo_element eo));
            (eo, cs1) = each (\<lambda>element eo. if element \<notin> set matches then removeElement element eo
              else (eo, [])) (eo_elements eo) eo;
            (eo, cs2) = each (addElement d) matches eo
        in (eo, cs1 @ cs2)
      else (eo, []))"

definition ElementObserver_start ::
  "dom \<Rightarrow> string \<Rightarrow> element_observer \<Rightarrow> element_observer \<times> element_call list" where
  "ElementObserver_start d an eo =
     (if \<not> eo_started eo then ElementObserver_refresh d an (eo\<lparr>eo_started := True\<rparr>) else (eo, []))"

definition ElementObserver_stop :: "element_observer \<Rightarrow> element_observer" where
  "ElementObserver_stop eo = (if eo_started eo then eo\<lparr>eo_started := False\<rparr> else eo)"

section \<open>Which elements an operation leaves\<close>

text \<open>A document whose root element has no parent.\<close>

definition dom_ok :: "dom \<Rightarrow> bool" where
  "dom_ok d \<longleftrightarrow> dom_wf d \<and> (\<forall>n. (n, document_root) \<in> below d \<longrightarrow> n = document_root)"

lemma contains_below: "dom_ok d \<Longrightarrow> contains d n e \<longleftrightarrow> (n, e) \<in> below d"
  by (simp add: dom_ok_def contains_def subtree_below)

lemma elementIsActive_contains:
  assumes "dom_ok d"
  shows "elementIsActive d eo e \<longleftrightarrow> (eo_element eo, e) \<in> below d"
proof -
  let ?r = "eo_element eo"
  have wf: "dom_wf d" using assms by (simp add: dom_ok_def)
  have "(document_root, e) \<in> below d \<longleftrightarrow> (document_root, ?r) \<in> below d" if "(?r, e) \<in> below d"
  proof
    assume "(document_root, e) \<in> below d"
    with that below_chain [OF wf] have "(?r, document_root) \<in> below d \<or> (document_root, ?r) \<in> below d"
      by blast
    then show "(document_root, ?r) \<in> below d" using assms by (auto simp: dom_ok_def)
  qed (use that below_trans [OF wf] in blast)
  then show ?thesis
    using assms by (auto simp: elementIsActive_def isConnected_def contains_below)
qed

lemma subtree_hd: "n \<in> set (ids d) \<Longrightarrow> subtree d n = n # tl (subtree d n)"
proof -
  assume "n \<in> set (ids d)"
  then obtain t where t: "find_tree n d = Some t" using find_tree_None by fastforce
  then obtain tg a ks where "t = El n tg a ks" using find_tree_root by blast
  with t show ?thesis by (simp add: subtree_def)
qed

lemma set_matchElementsInTree:
  assumes "dom_ok d"
  shows "set (AttributeObserver_matchElementsInTree d an n) =
    {e. (n, e) \<in> below d \<and> hasAttribute d e an}"
proof (cases "n \<in> set (ids d)")
  case True
  have "set (AttributeObserver_matchElementsInTree d an n) =
      {e \<in> set (n # tl (subtree d n)). hasAttribute d e an}"
    by (auto simp: AttributeObserver_matchElementsInTree_def AttributeObserver_matchElement_def
        querySelectorAll_def)
  also have "\<dots> = {e \<in> set (subtree d n). hasAttribute d e an}"
    using subtree_hd [OF True] by simp
  finally show ?thesis using assms by (auto simp: subtree_below dom_ok_def)
next
  case False
  then have "subtree d n = []" by (simp add: subtree_def find_tree_None [THEN iffD2])
  moreover have "attrs d n = []"
    using False by (simp add: attrs_def ids_def map_of_eq_None_iff [THEN iffD2])
  ultimately show ?thesis
    using False below_sub [of d]
    by (auto simp: AttributeObserver_matchElementsInTree_def AttributeObserver_matchElement_def
        querySelectorAll_def hasAttribute_def getAttribute_def)
qed

text \<open>The operations never change the observed element nor whether it is observed.\<close>

definition eo_frame :: "element_observer \<Rightarrow> element_observer \<Rightarrow> bool" where
  "eo_frame eo eo' \<longleftrightarrow> eo_element eo' = eo_element eo \<and> eo_started eo' = eo_started eo
     \<and> (distinct (eo_elements eo) \<longrightarrow> distinct (eo_elements eo'))"

lemma eo_frame_refl [simp]: "eo_frame eo eo"
  by (simp add: eo_frame_def)

lemma eo_frame_trans: "eo_frame a b \<Longrightarrow> eo_frame b c \<Longrightarrow> eo_frame a c"
  by (simp add: eo_frame_def)

lemma each_frame:
  "(\<And>x s. x \<in> set xs \<Longrightarrow> eo_frame s (fst (f x s))) \<Longrightarrow> eo_frame eo (fst (each f xs eo))"
  by (rule each_invariant [where P = "eo_frame eo"]) (auto intro: eo_frame_trans)

lemma add_remove_frame [simp]:
  "eo_frame eo (fst (addElement d e eo))" "eo_frame eo (fst (removeElement e eo))"
  by (simp_all add: eo_frame_def addElement_def removeElement_def)

lemma process_frame [simp]:
  "eo_frame eo (fst (processTree d an e (addElement d) eo))"
  "eo_frame eo (fst (processTree d an e removeElement eo))"
  "eo_frame eo (fst (processRemovedNodes d an ns eo))"
  "eo_frame eo (fst (processAddedNodes d an ns eo))"
  "eo_frame eo (fst (processAttributeChange d an e name eo))"
  by (auto simp: processTree_def processRemovedNodes_def processAddedNodes_def
      processAttributeChange_def intro!: each_frame split: option.split)

lemma processMutation_frame [simp]: "eo_frame eo (fst (processMutation d an m eo))"
  by (cases m) (auto simp: Let_def case_prod_unfold intro: eo_frame_trans [OF process_frame(3,4)])

lemma processMutations_frame [simp]: "eo_frame eo (fst (processMutations d an ms eo))"
  by (auto simp: processMutations_def intro: each_frame)

lemma each_remove:
  "set (eo_elements (fst (each removeElement xs eo))) = set (eo_elements eo) - set xs"
proof (induction xs arbitrary: eo)
  case (Cons x xs)
  have "set (eo_elements (fst (removeElement x eo))) = set (eo_elements eo) - {x}"
    by (auto simp: removeElement_def)
  with Cons.IH [of "fst (removeElement x eo)"] show ?case
    by (auto simp: Let_def case_prod_unfold)
qed simp

lemma each_add:
  assumes "dom_ok d"
  shows "set (eo_elements (fst (each (addElement d) xs eo))) =
    set (eo_elements eo) \<union> {x \<in> set xs. (eo_element eo, x) \<in> below d}"
proof (induction xs arbitrary: eo)
  case (Cons x xs)
  have "set (eo_elements (fst (addElement d x eo))) = set (eo_elements eo) \<union>
      (if (eo_element eo, x) \<in> below d then {x} else {})"
    using assms by (auto simp: addElement_def elementIsActive_contains)
  moreover have "eo_element (fst (addElement d x eo)) = eo_element eo"
    by (simp add: addElement_def)
  ultimately show ?case
    using Cons.IH [of "fst (addElement d x eo)"] by (auto simp: Let_def case_prod_unfold)
qed simp

text \<open>Whether an element is in the set after a record, in terms of whether it was before.\<close>

fun member_after :: "dom \<Rightarrow> string \<Rightarrow> nat \<Rightarrow> nat \<Rightarrow> mutation \<Rightarrow> bool \<Rightarrow> bool" where
  "member_after d an root e (AttributesMutation n name) b =
     (if n = e then hasAttribute d e an \<and> (b \<or> (root, e) \<in> below d) else b)"
| "member_after d an root e (ChildListMutation added removed) b =
     ((b \<and> \<not> (hasAttribute d e an \<and> (\<exists>n. ElementNode n \<in> set removed \<and> (n, e) \<in> below d)))
      \<or> (hasAttribute d e an \<and> (root, e) \<in> below d \<and>
           (\<exists>n. ElementNode n \<in> set added \<and> (root, n) \<in> below d \<and> (n, e) \<in> below d)))"

lemma processRemovedNodes_elements:
  assumes "dom_ok d"
  shows "set (eo_elements (fst (processRemovedNodes d an ns eo))) = {e \<in> set (eo_elements eo).
    \<not> (hasAttribute d e an \<and> (\<exists>n. ElementNode n \<in> set ns \<and> (n, e) \<in> below d))}"
  unfolding processRemovedNodes_def
proof (induction ns arbitrary: eo)
  case (Cons n ns)
  have "set (eo_elements (fst (case elementFromNode n of None \<Rightarrow> (eo, [])
      | Some e \<Rightarrow> processTree d an e removeElement eo))) = {e \<in> set (eo_elements eo).
        \<not> (hasAttribute d e an \<and> (\<exists>m. n = ElementNode m \<and> (m, e) \<in> below d))}"
    using assms by (cases n) (auto simp: processTree_def each_remove set_matchElementsInTree)
  with Cons.IH show ?case by (auto simp: Let_def case_prod_unfold)
qed simp

lemma processAddedNodes_elements:
  assumes "dom_ok d"
  shows "set (eo_elements (fst (processAddedNodes d an ns eo))) = set (eo_elements eo) \<union>
    {e. hasAttribute d e an \<and> (eo_element eo, e) \<in> below d \<and>
      (\<exists>n. ElementNode n \<in> set ns \<and> (eo_element eo, n) \<in> below d \<and> (n, e) \<in> below d)}"
  unfolding processAddedNodes_def
proof (induction ns arbitrary: eo)
  case (Cons n ns)
  let ?f = "\<lambda>node eo. case elementFromNode node of None \<Rightarrow> (eo, [])
    | Some e \<Rightarrow> if elementIsActive d eo e then processTree d an e (addElement d) eo else (eo, [])"
  have "set (eo_elements (fst (?f n eo))) = set (eo_elements eo) \<union>
      {e. hasAttribute d e an \<and> (eo_element eo, e) \<in> below d \<and>
        (\<exists>m. n = ElementNode m \<and> (eo_element eo, m) \<in> below d \<and> (m, e) \<in> below d)}"
    using assms by (cases n)
      (auto simp: processTree_def each_add set_matchElementsInTree elementIsActive_contains)
  moreover have "eo_element (fst (?f n eo)) = eo_element eo"
    using process_frame(1) [of eo d an] by (cases n) (auto simp: eo_frame_def)
  ultimately show ?case
    using Cons.IH [of "fst (?f n eo)"] by (auto simp: Let_def case_prod_unfold)
qed simp

lemma processMutation_elements:
  assumes "dom_ok d"
  shows "e \<in> set (eo_elements (fst (processMutation d an m eo))) \<longleftrightarrow>
    member_after d an (eo_element eo) e m (e \<in> set (eo_elements eo))"
proof (cases m)
  case (AttributesMutation n name)
  with assms show ?thesis
    by (auto simp: processAttributeChange_def removeElement_def addElement_def
        elementIsActive_contains AttributeObserver_matchElement_def)
next
  case (ChildListMutation added removed)
  have "eo_element (fst (processRemovedNodes d an removed eo)) = eo_element eo"
    using process_frame(3) [of eo d an removed] by (simp add: eo_frame_def)
  with assms ChildListMutation show ?thesis
    by (simp add: Let_def case_prod_unfold processRemovedNodes_elements processAddedNodes_elements)
qed

lemma processMutations_elements:
  assumes "dom_ok d" and "eo_started eo"
  shows "e \<in> set (eo_elements (fst (processMutations d an ms eo))) \<longleftrightarrow>
    fold (member_after d an (eo_element eo) e) ms (e \<in> set (eo_elements eo))"
proof -
  have "e \<in> set (eo_elements (fst (each (processMutation d an) ms eo))) \<longleftrightarrow>
      fold (member_after d an (eo_element eo) e) ms (e \<in> set (eo_elements eo))"
  proof (induction ms arbitrary: eo)
    case (Cons m ms)
    have "eo_element (fst (processMutation d an m eo)) = eo_element eo"
      using processMutation_frame [of eo d an m] by (simp add: eo_frame_def)
    with Cons.IH [of "fst (processMutation d an m eo)"] show ?case
      by (simp add: Let_def case_prod_unfold processMutation_elements [OF assms(1)])
  qed simp
  then show ?thesis using assms(2) by (simp add: processMutations_def)
qed

lemma ElementObserver_refresh_elements:
  assumes "dom_ok d" and "eo_started eo"
  shows "set (eo_elements (fst (ElementObserver_refresh d an eo))) =
    {e. (eo_element eo, e) \<in> below d \<and> hasAttribute d e an}"
proof -
  define ms where "ms = set_from (AttributeObserver_matchElementsInTree d an (eo_element eo))"
  let ?f = "\<lambda>e eo. if e \<notin> set ms then removeElement e eo else (eo, [])"
  have rem: "set (eo_elements (fst (each ?f xs eo))) = {e \<in> set (eo_elements eo). e \<in> set xs \<longrightarrow> e \<in> set ms}
      \<and> eo_element (fst (each ?f xs eo)) = eo_element eo" for xs eo
    by (induction xs arbitrary: eo) (auto simp: Let_def case_prod_unfold removeElement_def)
  have ms: "set ms = {e. (eo_element eo, e) \<in> below d \<and> hasAttribute d e an}"
    using assms(1) by (simp add: ms_def set_matchElementsInTree)
  show ?thesis
    unfolding ElementObserver_refresh_def ms_def [symmetric] Let_def case_prod_unfold
    using assms(2) rem [of "eo_elements eo" eo] ms by (auto simp: each_add [OF assms(1)])
qed

end
