(* ===== verification/Element_Calls.thy ===== *)
theory Element_Calls
  imports Element_Observer
begin

text \<open>
  What the delegate of an \<open>AttributeObserver\<close> can rely on: the calls it gets match the set
  that the observer keeps. An element is reported as matched only when it was not in the
  set, as unmatched or changed only when it was, and replaying the calls gives the new set.
\<close>

definition attribute_calls :: "string \<Rightarrow> element_call list \<Rightarrow> attribute_call list" where
  "attribute_calls an cs = concat (map (AttributeObserver_call an) cs)"

fun replay :: "attribute_call list \<Rightarrow> nat set \<Rightarrow> nat set option" where
  "replay [] E = Some E"
| "replay (ElementMatchedAttribute e # cs) E = (if e \<in> E then None else replay cs (insert e E))"
| "replay (ElementUnmatchedAttribute e # cs) E = (if e \<in> E then replay cs (E - {e}) else None)"
| "replay (ElementAttributeValueChanged e # cs) E = (if e \<in> E then replay cs E else None)"

lemma replay_append: "replay (cs1 @ cs2) E = Option.bind (replay cs1 E) (replay cs2)"
  by (induction cs1 E rule: replay.induct) auto

lemma attribute_calls_append [simp]:
  "attribute_calls an [] = []"
  "attribute_calls an (c # cs) = AttributeObserver_call an c @ attribute_calls an cs"
  "attribute_calls an (cs1 @ cs2) = attribute_calls an cs1 @ attribute_calls an cs2"
  by (simp_all add: attribute_calls_def)

text \<open>Operations whose calls report what they do to the set.\<close>

definition reports :: "string \<Rightarrow> (element_observer \<Rightarrow> element_observer \<times> element_call list) \<Rightarrow> bool" where
  "reports an f \<longleftrightarrow> (\<forall>eo. replay (attribute_calls an (snd (f eo))) (set (eo_elements eo)) =
     Some (set (eo_elements (fst (f eo)))))"

lemma reports_skip: "reports an (\<lambda>eo. (eo, []))"
  by (simp add: reports_def)

lemma reports_add: "reports an (addElement d e)"
  by (auto simp: reports_def addElement_def)

lemma reports_remove: "reports an (removeElement e)"
  by (auto simp: reports_def removeElement_def)

lemma reports_each:
  assumes "\<And>x. x \<in> set xs \<Longrightarrow> reports an (f x)"
  shows "reports an (each f xs)"
  using assms
proof (induction xs)
  case (Cons x xs)
  then have "reports an (f x)" "reports an (each f xs)" by simp_all
  then show ?case by (simp add: reports_def Let_def case_prod_unfold replay_append)
qed (simp add: reports_def)

lemma reports_then:
  "reports an f \<Longrightarrow> reports an g \<Longrightarrow> reports an (\<lambda>eo. (fst (g (fst (f eo))), snd (f eo) @ snd (g (fst (f eo)))))"
  by (simp add: reports_def replay_append)

lemma reports_process:
  "reports an (processRemovedNodes d an ns)" "reports an (processAddedNodes d an ns)"
  unfolding processRemovedNodes_def processAddedNodes_def processTree_def
proof -
  have rem: "reports an (each removeElement es)" and add: "reports an (each (addElement d) es)" for es
    by (intro reports_each reports_remove reports_add)+
  have "reports an (\<lambda>eo. case elementFromNode node of None \<Rightarrow> (eo, [])
      | Some e \<Rightarrow> each removeElement (AttributeObserver_matchElementsInTree d an e) eo)" for node
    by (cases node) (simp_all add: rem reports_skip)
  then show "reports an (each (\<lambda>node eo. case elementFromNode node of None \<Rightarrow> (eo, [])
      | Some e \<Rightarrow> each removeElement (AttributeObserver_matchElementsInTree d an e) eo) ns)"
    by (rule reports_each)
  have "reports an (\<lambda>eo. if elementIsActive d eo e then each (addElement d) es eo else (eo, []))" for e es
    using add by (simp add: reports_def)
  then have "reports an (\<lambda>eo. case elementFromNode node of None \<Rightarrow> (eo, [])
      | Some e \<Rightarrow> if elementIsActive d eo e
          then each (addElement d) (AttributeObserver_matchElementsInTree d an e) eo else (eo, []))" for node
    by (cases node) (simp_all add: reports_skip)
  then show "reports an (each (\<lambda>node eo. case elementFromNode node of None \<Rightarrow> (eo, [])
      | Some e \<Rightarrow> if elementIsActive d eo e
          then each (addElement d) (AttributeObserver_matchElementsInTree d an e) eo else (eo, [])) ns)"
    by (rule reports_each)
qed

lemma reports_mutation: "reports an (processMutation d an m)"
proof (cases m)
  case (AttributesMutation n name)
  then show ?thesis
    by (auto simp: reports_def processAttributeChange_def addElement_def removeElement_def)
next
  case (ChildListMutation added removed)
  have "processMutation d an m = (\<lambda>eo. (fst (processAddedNodes d an added (fst (processRemovedNodes d an removed eo))),
      snd (processRemovedNodes d an removed eo) @
      snd (processAddedNodes d an added (fst (processRemovedNodes d an removed eo)))))"
    by (simp add: fun_eq_iff ChildListMutation Let_def case_prod_unfold)
  then show ?thesis by (simp only: reports_then reports_process)
qed

lemma reports_mutations: "reports an (processMutations d an ms)"
proof -
  have "reports an (each (processMutation d an) ms)" by (intro reports_each reports_mutation)
  then show ?thesis by (simp add: reports_def processMutations_def)
qed

lemma reports_refresh: "reports an (ElementObserver_refresh d an)"
proof -
  let ?ms = "\<lambda>eo. set_from (AttributeObserver_matchElementsInTree d an (eo_element eo))"
  have "reports an (each (\<lambda>e eo. if e \<notin> set ms then removeElement e eo else (eo, [])) xs)" for ms xs
    using reports_remove [of an] by (intro reports_each) (simp add: reports_def)
  moreover have "reports an (each (addElement d) xs)" for xs by (intro reports_each reports_add)
  ultimately show ?thesis
    by (simp add: reports_def ElementObserver_refresh_def Let_def case_prod_unfold replay_append)
qed

lemma reports_start: "reports an (ElementObserver_start d an)"
  unfolding reports_def
proof
  fix eo
  show "replay (attribute_calls an (snd (ElementObserver_start d an eo))) (set (eo_elements eo)) =
      Some (set (eo_elements (fst (ElementObserver_start d an eo))))"
    using reports_refresh [of an d, unfolded reports_def, rule_format, of "eo\<lparr>eo_started := True\<rparr>"]
    by (simp add: ElementObserver_start_def)
qed

section \<open>Elements that a batch reaches\<close>

lemma replay_new: "replay cs E = Some E' \<Longrightarrow> e \<in> E' \<Longrightarrow> e \<in> E \<or> ElementMatchedAttribute e \<in> set cs"
  by (induction cs E rule: replay.induct) (auto split: if_splits)

text \<open>An element whose attribute has a record is read again, if it stays in the set.\<close>

lemma processMutations_reached:
  assumes "eo_started eo" and "AttributesMutation e an \<in> set ms"
    and "e \<in> set (eo_elements (fst (processMutations d an ms eo)))"
  shows "ElementMatchedAttribute e \<in> set (attribute_calls an (snd (processMutations d an ms eo)))
    \<or> ElementAttributeValueChanged e \<in> set (attribute_calls an (snd (processMutations d an ms eo)))"
  using assms
proof (induction ms arbitrary: eo)
  case (Cons m ms)
  let ?eo = "fst (processMutation d an m eo)"
  have st: "eo_started ?eo"
    using Cons.prems(1) processMutation_frame [of eo d an m] by (simp add: eo_frame_def)
  have e: "e \<in> set (eo_elements (fst (processMutations d an ms ?eo)))"
    using Cons.prems(1,3) st by (simp add: processMutations_def Let_def case_prod_unfold)
  have calls: "snd (processMutations d an (m # ms) eo) =
      snd (processMutation d an m eo) @ snd (processMutations d an ms ?eo)"
    using Cons.prems(1) st by (simp add: processMutations_def Let_def case_prod_unfold)
  show ?case
  proof (cases "m = AttributesMutation e an")
    case True
    show ?thesis
    proof (cases "e \<in> set (eo_elements eo) \<and> hasAttribute d e an")
      case True
      with \<open>m = AttributesMutation e an\<close> calls show ?thesis
        by (simp add: processAttributeChange_def AttributeObserver_matchElement_def)
    next
      case False
      then have "e \<notin> set (eo_elements ?eo) \<or> ElementMatchedAttribute e \<in>
          set (attribute_calls an (snd (processMutation d an m eo)))"
        by (auto simp: True processAttributeChange_def AttributeObserver_matchElement_def
            removeElement_def addElement_def)
      then show ?thesis
        using e calls reports_mutations [of an d ms]
          replay_new [of "attribute_calls an (snd (processMutations d an ms ?eo))"]
        by (auto simp: reports_def)
    qed
  next
    case False
    with Cons.prems(2) Cons.IH [OF st _ e] calls show ?thesis by auto
  qed
qed simp

end
