(* ===== verification/Token_List.thy ===== *)
theory Token_List
  imports Element_Calls Multimap
begin

text \<open>
  \<open>TokenListObserver\<close> of stimulus.js: the words of an attribute of each matched element, as
  token objects in a \<open>Multimap\<close>. A token is an object; its identity is a number that is
  taken from a counter when \<open>parseTokenString\<close> creates it, so that two tokens with the same
  content stay apart in the sets and maps that hold them.
\<close>

section \<open>Tokens\<close>

record token =
  tok_id :: nat
  tok_element :: nat
  tok_attributeName :: string
  tok_content :: string
  tok_index :: nat

definition token_words :: "string \<Rightarrow> string list" where
  "token_words s = filter (\<lambda>content. length content \<noteq> 0) (split_ws (trim s))"

definition parseTokenString :: "string \<Rightarrow> nat \<Rightarrow> string \<Rightarrow> nat \<Rightarrow> token list" where
  "parseTokenString tokenString element an next =
     map (\<lambda>(index, content). \<lparr>tok_id = next + index, tok_element = element,
       tok_attributeName = an, tok_content = content, tok_index = index\<rparr>)
     (enumerate 0 (token_words tokenString))"

definition js_at :: "'a list \<Rightarrow> nat \<Rightarrow> 'a option" where
  "js_at xs i = (if i < length xs then Some (xs ! i) else None)"

definition js_zip :: "'a list \<Rightarrow> 'b list \<Rightarrow> ('a option \<times> 'b option) list" where
  "js_zip left right =
     map (\<lambda>index. (js_at left index, js_at right index)) [0..<max (length left) (length right)]"

fun tokensAreEqual :: "token option \<Rightarrow> token option \<Rightarrow> bool" where
  "tokensAreEqual (Some left) (Some right) =
     (tok_index left = tok_index right \<and> tok_content left = tok_content right)"
| "tokensAreEqual _ _ = False"

text \<open>\<open>findIndex\<close>; \<open>None\<close> is -1.\<close>

fun findIndex :: "('a \<Rightarrow> bool) \<Rightarrow> 'a list \<Rightarrow> nat option" where
  "findIndex P [] = None"
| "findIndex P (x # xs) = (if P x then Some 0 else map_option Suc (findIndex P xs))"

section \<open>The observer\<close>

record token_list_observer =
  tl_attributeName :: string
  tokensByElement :: "(nat, token) multimap"
  next_token :: nat

definition new_TokenListObserver :: "string \<Rightarrow> token_list_observer" where
  "new_TokenListObserver an =
     \<lparr>tl_attributeName = an, tokensByElement = new_Multimap, next_token = 0\<rparr>"

datatype token_call = TokenMatched token | TokenUnmatched token

definition tokenMatched :: "token \<Rightarrow> token_list_observer \<Rightarrow> token_list_observer \<times> token_call list" where
  "tokenMatched tok tlo =
     (tlo\<lparr>tokensByElement := Multimap_add (tokensByElement tlo) (tok_element tok) tok\<rparr>,
      [TokenMatched tok])"

definition tokenUnmatched :: "token \<Rightarrow> token_list_observer \<Rightarrow> token_list_observer \<times> token_call list" where
  "tokenUnmatched tok tlo =
     (tlo\<lparr>tokensByElement := Multimap_delete (tokensByElement tlo) (tok_element tok) tok\<rparr>,
      [TokenUnmatched tok])"

definition tokensMatched ::
  "token list \<Rightarrow> token_list_observer \<Rightarrow> token_list_observer \<times> token_call list" where
  "tokensMatched = each tokenMatched"

definition tokensUnmatched ::
  "token list \<Rightarrow> token_list_observer \<Rightarrow> token_list_observer \<times> token_call list" where
  "tokensUnmatched = each tokenUnmatched"

definition readTokensForElement ::
  "dom \<Rightarrow> nat \<Rightarrow> token_list_observer \<Rightarrow> token list \<times> token_list_observer" where
  "readTokensForElement d element tlo =
     (let tokenString = (case getAttribute d element (tl_attributeName tlo) of None \<Rightarrow> [] | Some v \<Rightarrow> v);
          toks = parseTokenString tokenString element (tl_attributeName tlo) (next_token tlo)
      in (toks, tlo\<lparr>next_token := next_token tlo + length toks\<rparr>))"

definition refreshTokensForElement ::
  "dom \<Rightarrow> nat \<Rightarrow> token_list_observer \<Rightarrow> (token list \<times> token list) \<times> token_list_observer" where
  "refreshTokensForElement d element tlo =
     (let previousTokens = getValuesForKey (tokensByElement tlo) element;
          (currentTokens, tlo) = readTokensForElement d element tlo
      in (case findIndex (\<lambda>(previousToken, currentToken).
              \<not> tokensAreEqual previousToken currentToken) (js_zip previousTokens currentTokens) of
            None \<Rightarrow> (([], []), tlo)
          | Some i \<Rightarrow> ((drop i previousTokens, drop i currentTokens), tlo)))"

fun TokenListObserver_call :: "dom \<Rightarrow> attribute_call \<Rightarrow>
    token_list_observer \<Rightarrow> token_list_observer \<times> token_call list" where
  "TokenListObserver_call d (ElementMatchedAttribute element) tlo =
     (let (toks, tlo) = readTokensForElement d element tlo in tokensMatched toks tlo)"
| "TokenListObserver_call d (ElementAttributeValueChanged element) tlo =
     (let ((unmatchedTokens, matchedTokens), tlo) = refreshTokensForElement d element tlo;
          (tlo, cs1) = tokensUnmatched unmatchedTokens tlo;
          (tlo, cs2) = tokensMatched matchedTokens tlo
      in (tlo, cs1 @ cs2))"
| "TokenListObserver_call d (ElementUnmatchedAttribute element) tlo =
     tokensUnmatched (getValuesForKey (tokensByElement tlo) element) tlo"

section \<open>The invariant\<close>

abbreviation tokens_of :: "token_list_observer \<Rightarrow> nat \<Rightarrow> token list" where
  "tokens_of tlo e \<equiv> getValuesForKey (tokensByElement tlo) e"

text \<open>The words of the observed attribute of an element.\<close>

definition attr_words :: "dom \<Rightarrow> string \<Rightarrow> nat \<Rightarrow> string list" where
  "attr_words d an e = (case getAttribute d e an of None \<Rightarrow> [] | Some v \<Rightarrow> token_words v)"

definition tl_wf :: "token_list_observer \<Rightarrow> bool" where
  "tl_wf tlo \<longleftrightarrow> multimap_wf (tokensByElement tlo)
     \<and> (\<forall>e. map tok_index (tokens_of tlo e) = [0..<length (tokens_of tlo e)])
     \<and> (\<forall>e. \<forall>t \<in> set (tokens_of tlo e). tok_element t = e \<and> tok_attributeName t = tl_attributeName tlo
           \<and> tok_id t < next_token tlo)
     \<and> inj_on tok_id (\<Union>e. set (tokens_of tlo e))"

lemma tokens_of_add:
  "getValuesForKey (Multimap_add m k v) e = (if e = k then set_add v (getValuesForKey m e) else getValuesForKey m e)"
  by (simp add: getValuesForKey_at Multimap_add_def setmap_at_add)

lemma tokens_of_delete:
  "getValuesForKey (Multimap_delete m k v) e =
     (if e = k then set_delete v (getValuesForKey m e) else getValuesForKey m e)"
  by (simp add: getValuesForKey_at Multimap_delete_def setmap_at_del)

lemma tokensMatched_result:
  assumes "distinct toks" and "\<forall>t \<in> set toks. tok_element t = e" and "set toks \<inter> set (tokens_of tlo e) = {}"
    and "multimap_wf (tokensByElement tlo)"
  shows "tokens_of (fst (tokensMatched toks tlo)) e' = tokens_of tlo e' @ (if e' = e then toks else [])
    \<and> multimap_wf (tokensByElement (fst (tokensMatched toks tlo)))
    \<and> tl_attributeName (fst (tokensMatched toks tlo)) = tl_attributeName tlo
    \<and> next_token (fst (tokensMatched toks tlo)) = next_token tlo
    \<and> snd (tokensMatched toks tlo) = map TokenMatched toks"
  using assms unfolding tokensMatched_def
proof (induction toks arbitrary: tlo)
  case (Cons t toks)
  let ?tlo = "fst (tokenMatched t tlo)"
  have t: "tok_element t = e" "t \<notin> set (tokens_of tlo e)" using Cons.prems by auto
  have one: "tokens_of ?tlo e' = tokens_of tlo e' @ (if e' = e then [t] else [])" for e'
    using t by (simp add: tokenMatched_def tokens_of_add set_add_def)
  have wf: "multimap_wf (tokensByElement ?tlo)"
    using Cons.prems(4) mm.inv_ins by (simp add: tokenMatched_def)
  have "distinct toks" "\<forall>t \<in> set toks. tok_element t = e" "set toks \<inter> set (tokens_of ?tlo e) = {}"
    using Cons.prems(1-3) one by auto
  from Cons.IH [OF this wf] one show ?case
    by (simp add: Let_def case_prod_unfold tokenMatched_def)
qed simp

lemma tokensUnmatched_result:
  assumes "\<forall>t \<in> set toks. tok_element t = e" and "multimap_wf (tokensByElement tlo)"
  shows "tokens_of (fst (tokensUnmatched toks tlo)) e' =
      filter (\<lambda>t. e' = e \<longrightarrow> t \<notin> set toks) (tokens_of tlo e')
    \<and> multimap_wf (tokensByElement (fst (tokensUnmatched toks tlo)))
    \<and> tl_attributeName (fst (tokensUnmatched toks tlo)) = tl_attributeName tlo
    \<and> next_token (fst (tokensUnmatched toks tlo)) = next_token tlo
    \<and> snd (tokensUnmatched toks tlo) = map TokenUnmatched toks"
  using assms unfolding tokensUnmatched_def
proof (induction toks arbitrary: tlo)
  case (Cons t toks)
  let ?tlo = "fst (tokenUnmatched t tlo)"
  have t: "tok_element t = e" using Cons.prems by auto
  have one: "tokens_of ?tlo e' = filter (\<lambda>x. e' = e \<longrightarrow> x \<noteq> t) (tokens_of tlo e')" for e'
    using t by (simp add: tokenUnmatched_def tokens_of_delete set_delete_def)
  have wf: "multimap_wf (tokensByElement ?tlo)"
    using Cons.prems(2) mm.inv_rem by (simp add: tokenUnmatched_def)
  from Cons.IH [OF _ wf] Cons.prems(1) one show ?case
    by (auto simp: Let_def case_prod_unfold tokenUnmatched_def intro!: filter_cong)
qed simp

section \<open>What a call does\<close>

lemma findIndex_None: "findIndex P xs = None \<longleftrightarrow> (\<forall>x \<in> set xs. \<not> P x)"
  by (induction xs) auto

lemma findIndex_Some:
  "findIndex P xs = Some i \<Longrightarrow> i < length xs \<and> P (xs ! i) \<and> (\<forall>j < i. \<not> P (xs ! j))"
proof (induction xs arbitrary: i)
  case (Cons x xs)
  then show ?case by (cases i) (auto split: if_splits simp: less_Suc_eq_0_disj)
qed simp

lemma js_zip_nth: "j < length (js_zip xs ys) \<Longrightarrow> js_zip xs ys ! j = (js_at xs j, js_at ys j)"
  by (simp add: js_zip_def)

lemma tokensAreEqual_at:
  "tokensAreEqual (js_at xs j) (js_at ys j) \<longleftrightarrow> j < length xs \<and> j < length ys
     \<and> tok_index (xs ! j) = tok_index (ys ! j) \<and> tok_content (xs ! j) = tok_content (ys ! j)"
  by (simp add: js_at_def)

text \<open>The position where two token lists differ: up to it the contents agree.\<close>

definition common :: "token list \<Rightarrow> token list \<Rightarrow> nat" where
  "common ps cs = (case findIndex (\<lambda>(p, c). \<not> tokensAreEqual p c) (js_zip ps cs) of
     None \<Rightarrow> length cs | Some i \<Rightarrow> i)"

lemma common_prefix:
  shows "common ps cs \<le> length ps" "common ps cs \<le> length cs"
    "map tok_content (take (common ps cs) ps) = map tok_content (take (common ps cs) cs)"
proof -
  let ?i = "common ps cs"
  have eq: "j < length ps \<and> j < length cs \<and> tok_content (ps ! j) = tok_content (cs ! j)"
    if "j < ?i" for j
  proof (cases "findIndex (\<lambda>(p, c). \<not> tokensAreEqual p c) (js_zip ps cs)")
    case None
    with that have "j < length cs" by (simp add: common_def)
    then have "j < length (js_zip ps cs)" by (simp add: js_zip_def)
    then have "(js_at ps j, js_at cs j) \<in> set (js_zip ps cs)"
      by (metis js_zip_nth nth_mem)
    with None show ?thesis by (auto simp: findIndex_None tokensAreEqual_at)
  next
    case (Some i)
    with that have "j < i" by (simp add: common_def)
    with findIndex_Some [OF Some] have "tokensAreEqual (js_at ps j) (js_at cs j)"
      by (auto simp: js_zip_nth)
    then show ?thesis by (simp add: tokensAreEqual_at)
  qed
  show len: "?i \<le> length ps" "?i \<le> length cs"
    using eq by (metis leI order.strict_iff_not)+
  show "map tok_content (take ?i ps) = map tok_content (take ?i cs)"
    using eq len by (auto intro: nth_equalityI)
qed

lemma common_None:
  assumes "findIndex (\<lambda>(p, c). \<not> tokensAreEqual p c) (js_zip ps cs) = None"
  shows "length ps = length cs"
proof (rule ccontr)
  assume "length ps \<noteq> length cs"
  let ?j = "min (length ps) (length cs)"
  have "?j < length (js_zip ps cs)" using \<open>length ps \<noteq> length cs\<close> by (simp add: js_zip_def)
  then have "(js_at ps ?j, js_at cs ?j) \<in> set (js_zip ps cs)" by (metis js_zip_nth nth_mem)
  with assms have "tokensAreEqual (js_at ps ?j) (js_at cs ?j)" by (fastforce simp: findIndex_None)
  then show False unfolding tokensAreEqual_at by (auto simp: min_def split: if_splits)
qed

lemma refreshTokens_common:
  assumes "readTokensForElement d e tlo = (cs, tlo')"
  shows "refreshTokensForElement d e tlo =
    ((drop (common (tokens_of tlo e) cs) (tokens_of tlo e), drop (common (tokens_of tlo e) cs) cs), tlo')"
  using assms common_None [of "tokens_of tlo e" cs]
  by (auto simp: refreshTokensForElement_def common_def split: option.split)

lemma readTokens:
  assumes "readTokensForElement d e tlo = (cs, tlo')"
  shows "map tok_content cs = attr_words d (tl_attributeName tlo) e"
    "map tok_index cs = [0..<length cs]" "map tok_id cs = [next_token tlo..<next_token tlo + length cs]"
    "\<forall>t \<in> set cs. tok_element t = e \<and> tok_attributeName t = tl_attributeName tlo"
    "tlo' = tlo\<lparr>next_token := next_token tlo + length cs\<rparr>"
proof -
  have words: "token_words [] = []" by (simp add: token_words_def split_ws.simps [of "[]"])
  have "map tok_content (parseTokenString s e an n) = token_words s"
    "map tok_index (parseTokenString s e an n) = [0..<length (token_words s)]"
    "map tok_id (parseTokenString s e an n) = [n..<n + length (token_words s)]"
    "\<forall>t \<in> set (parseTokenString s e an n). tok_element t = e \<and> tok_attributeName t = an" for s an n
    by (auto simp: parseTokenString_def enumerate_eq_zip comp_def case_prod_unfold intro: nth_equalityI)
  then show "map tok_content cs = attr_words d (tl_attributeName tlo) e"
    "map tok_index cs = [0..<length cs]" "map tok_id cs = [next_token tlo..<next_token tlo + length cs]"
    "\<forall>t \<in> set cs. tok_element t = e \<and> tok_attributeName t = tl_attributeName tlo"
    "tlo' = tlo\<lparr>next_token := next_token tlo + length cs\<rparr>"
    using assms words
    by (auto simp: readTokensForElement_def attr_words_def Let_def parseTokenString_def
        split: option.splits)
qed

text \<open>
  The tokens of one element are replaced by a part of what was there and a part of what was
  read; the others stay.
\<close>

lemma tl_wf_splice:
  assumes wf: "tl_wf tlo" and read: "readTokensForElement d e tlo = (cs, tlo1)"
    and i: "i \<le> length (tokens_of tlo e)" "i \<le> length cs"
    and mwf: "multimap_wf (tokensByElement tlo')"
    and toks: "\<And>e'. tokens_of tlo' e' =
      (if e' = e then take i (tokens_of tlo e) @ drop i cs else tokens_of tlo e')"
    and rest: "tl_attributeName tlo' = tl_attributeName tlo" "next_token tlo' = next_token tlo + length cs"
  shows "tl_wf tlo'"
proof -
  note r = readTokens [OF read]
  from wf have w: "map tok_index (tokens_of tlo e') = [0..<length (tokens_of tlo e')]"
    "\<forall>t \<in> set (tokens_of tlo e'). tok_element t = e' \<and> tok_attributeName t = tl_attributeName tlo
       \<and> tok_id t < next_token tlo" for e'
    by (auto simp: tl_wf_def)
  have new: "t \<in> set cs \<Longrightarrow> next_token tlo \<le> tok_id t \<and> tok_id t < next_token tlo + length cs" for t
    using arg_cong [OF r(3), of set] by (metis atLeastLessThan_iff image_eqI list.set_map set_upt)
  have inj_cs: "inj_on tok_id (set cs)" using r(3) by (metis distinct_map distinct_upt)
  have idx: "map tok_index (take i (tokens_of tlo e) @ drop i cs) = [0..<length cs]"
  proof -
    have "map tok_index (take i (tokens_of tlo e)) = take i [0..<length cs]"
      using w(1) [of e] i by (simp add: take_map [symmetric] min_def take_upt)
    moreover have "map tok_index (drop i cs) = drop i [0..<length cs]"
      using r(2) by (simp add: drop_map [symmetric])
    ultimately show ?thesis by (simp only: map_append append_take_drop_id)
  qed
  have len: "length (take i (tokens_of tlo e) @ drop i cs) = length cs" using i by simp
  have el: "\<forall>t \<in> set (tokens_of tlo' e'). tok_element t = e' \<and> tok_attributeName t = tl_attributeName tlo
      \<and> tok_id t < next_token tlo + length cs" for e'
  proof (cases "e' = e")
    case True
    with w(2) [of e] r(4) new toks [of e] show ?thesis
      by (auto dest!: in_set_takeD in_set_dropD simp: trans_less_add1)
  next
    case False
    with w(2) [of e'] toks [of e'] show ?thesis by (auto simp: trans_less_add1)
  qed
  have sub: "t \<in> set cs \<or> (t \<in> (\<Union>x. set (tokens_of tlo x)))" if "t \<in> set (tokens_of tlo' e')" for t e'
    using that toks [of e'] by (auto dest: in_set_takeD in_set_dropD split: if_splits)
  have "inj_on tok_id (set cs \<union> (\<Union>x. set (tokens_of tlo x)))"
  proof -
    have "inj_on tok_id (\<Union>x. set (tokens_of tlo x))" using wf by (simp add: tl_wf_def)
    moreover have "tok_id ` set cs \<inter> tok_id ` (\<Union>x. set (tokens_of tlo x)) = {}"
      using new w(2) by fastforce
    ultimately show ?thesis using inj_cs by (auto simp: inj_on_Un)
  qed
  then have "inj_on tok_id (\<Union>x. set (tokens_of tlo' x))"
    by (rule inj_on_subset) (use sub in blast)
  with mwf el rest idx len toks w(1) show ?thesis by (auto simp: tl_wf_def)
qed

lemma splice_words:
  assumes "readTokensForElement d e tlo = (cs, tlo1)" and "i \<le> length cs"
    and "map tok_content (take i ps) = map tok_content (take i cs)"
  shows "map tok_content (take i ps @ drop i cs) = attr_words d (tl_attributeName tlo) e"
  using readTokens(1) [OF assms(1)] assms(3)
  by (metis append_take_drop_id map_append)

lemma tl_wf_distinct: "tl_wf tlo \<Longrightarrow> distinct (tokens_of tlo e)"
  by (simp add: tl_wf_def mm.vals_at_distinct)

lemma read_fresh:
  assumes "tl_wf tlo" and "readTokensForElement d e tlo = (cs, tlo1)"
  shows "distinct cs" "set cs \<inter> set (tokens_of tlo e') = {}" "\<forall>t \<in> set cs. t \<notin> (\<Union>x. set (tokens_of tlo x))"
proof -
  note r = readTokens [OF assms(2)]
  show "distinct cs" using r(3) by (metis distinct_map distinct_upt)
  have "t \<in> set cs \<Longrightarrow> next_token tlo \<le> tok_id t" for t
    using arg_cong [OF r(3), of set] by (metis atLeastLessThan_iff image_eqI list.set_map set_upt)
  then show "\<forall>t \<in> set cs. t \<notin> (\<Union>x. set (tokens_of tlo x))"
    using assms(1) by (fastforce simp: tl_wf_def)
  then show "set cs \<inter> set (tokens_of tlo e') = {}" by blast
qed

text \<open>
  The three calls: which tokens each element has afterwards, and which calls go on to the
  delegate.
\<close>

lemma call_changed:
  assumes wf: "tl_wf tlo" and read: "readTokensForElement d e tlo = (cs, tlo1)"
    and i: "i = common (tokens_of tlo e) cs"
    and tlo': "(tlo', calls) = TokenListObserver_call d (ElementAttributeValueChanged e) tlo"
  shows "tl_wf tlo'" "tl_attributeName tlo' = tl_attributeName tlo"
    "tokens_of tlo' e' = (if e' = e then take i (tokens_of tlo e) @ drop i cs else tokens_of tlo e')"
    "calls = map TokenUnmatched (drop i (tokens_of tlo e)) @ map TokenMatched (drop i cs)"
    "map tok_content (tokens_of tlo' e) = attr_words d (tl_attributeName tlo) e"
    "next_token tlo' = next_token tlo + length cs"
proof -
  let ?ps = "tokens_of tlo e"
  note r = readTokens [OF read] and f = read_fresh [OF wf read] and c = common_prefix [of ?ps cs, folded i]
  define tlo2 where "tlo2 = fst (tokensUnmatched (drop i ?ps) tlo1)"
  have mwf: "multimap_wf (tokensByElement tlo1)" using wf r(5) by (simp add: tl_wf_def)
  have els: "\<forall>t \<in> set (drop i ?ps). tok_element t = e"
    using wf by (auto simp: tl_wf_def dest: in_set_dropD)
  have same: "tokens_of tlo1 = tokens_of tlo" using r(5) by (simp add: fun_eq_iff)
  note u = tokensUnmatched_result [OF els mwf]
  have "filter (\<lambda>t. t \<notin> set (drop i ?ps)) ?ps = take i ?ps"
  proof -
    have "distinct (take i ?ps @ drop i ?ps)" using tl_wf_distinct [OF wf, of e] by simp
    then have "filter (\<lambda>t. t \<notin> set (drop i ?ps)) (take i ?ps @ drop i ?ps) = take i ?ps"
      unfolding distinct_append filter_append by (auto simp: filter_empty_conv filter_id_conv)
    then show ?thesis by simp
  qed
  then have t2: "tokens_of tlo2 x = (if x = e then take i ?ps else tokens_of tlo x)" for x
    using u [of x] by (simp add: tlo2_def same)
  have m: "distinct (drop i cs)" "\<forall>t \<in> set (drop i cs). tok_element t = e"
    "set (drop i cs) \<inter> set (tokens_of tlo2 e) = {}" "multimap_wf (tokensByElement tlo2)"
    using f(1) f(2) [of e] r(4) t2 [of e] u by (auto simp: tlo2_def dest: in_set_dropD in_set_takeD)
  note v = tokensMatched_result [OF m]
  have fin: "tlo' = fst (tokensMatched (drop i cs) tlo2)"
    and calls: "calls = snd (tokensUnmatched (drop i ?ps) tlo1) @ snd (tokensMatched (drop i cs) tlo2)"
    using tlo' by (simp_all add: refreshTokens_common [OF read] i [symmetric] tlo2_def Let_def case_prod_unfold)
  show toks: "tokens_of tlo' e' = (if e' = e then take i ?ps @ drop i cs else tokens_of tlo e')" for e'
    using v [of e'] t2 [of e'] fin by simp
  show an: "tl_attributeName tlo' = tl_attributeName tlo"
    using v u r(5) fin by (simp add: tlo2_def)
  show nxt: "next_token tlo' = next_token tlo + length cs"
    using v u r(5) fin by (simp add: tlo2_def)
  show "tl_wf tlo'"
    by (rule tl_wf_splice [OF wf read c(1,2) _ toks an nxt]) (use v fin in simp)
  show "calls = map TokenUnmatched (drop i ?ps) @ map TokenMatched (drop i cs)"
    using calls u v by simp
  show "map tok_content (tokens_of tlo' e) = attr_words d (tl_attributeName tlo) e"
    using splice_words [OF read c(2,3)] toks [of e] by simp
qed

lemma call_matched:
  assumes wf: "tl_wf tlo" and read: "readTokensForElement d e tlo = (cs, tlo1)"
    and empty: "tokens_of tlo e = []"
    and tlo': "(tlo', calls) = TokenListObserver_call d (ElementMatchedAttribute e) tlo"
  shows "tl_wf tlo'" "tl_attributeName tlo' = tl_attributeName tlo"
    "tokens_of tlo' e' = (if e' = e then cs else tokens_of tlo e')"
    "calls = map TokenMatched cs"
    "map tok_content (tokens_of tlo' e) = attr_words d (tl_attributeName tlo) e"
    "next_token tlo' = next_token tlo + length cs"
proof -
  note r = readTokens [OF read] and f = read_fresh [OF wf read]
  have same: "tokens_of tlo1 = tokens_of tlo" using r(5) by (simp add: fun_eq_iff)
  have m: "\<forall>t \<in> set cs. tok_element t = e" "set cs \<inter> set (tokens_of tlo1 e) = {}"
    "multimap_wf (tokensByElement tlo1)"
    using r(4,5) empty wf by (auto simp: same tl_wf_def)
  note v = tokensMatched_result [OF f(1) m]
  have fin: "tlo' = fst (tokensMatched cs tlo1)" "calls = snd (tokensMatched cs tlo1)"
    using arg_cong [OF tlo', of fst] arg_cong [OF tlo', of snd] by (simp_all add: read Let_def)
  show toks: "tokens_of tlo' e' = (if e' = e then cs else tokens_of tlo e')" for e'
    using v [of e'] empty fin by (simp add: same)
  show an: "tl_attributeName tlo' = tl_attributeName tlo" using v r(5) fin by simp
  show nxt: "next_token tlo' = next_token tlo + length cs" using v r(5) fin by simp
  show "tl_wf tlo'"
    by (rule tl_wf_splice [OF wf read, of 0]) (use v fin toks an nxt in simp_all)
  show "calls = map TokenMatched cs" using v fin by simp
  show "map tok_content (tokens_of tlo' e) = attr_words d (tl_attributeName tlo) e"
    using toks [of e] r(1) by simp
qed

lemma call_unmatched:
  assumes wf: "tl_wf tlo"
    and tlo': "(tlo', calls) = TokenListObserver_call d (ElementUnmatchedAttribute e) tlo"
  shows "tl_wf tlo'" "tl_attributeName tlo' = tl_attributeName tlo"
    "tokens_of tlo' e' = (if e' = e then [] else tokens_of tlo e')"
    "calls = map TokenUnmatched (tokens_of tlo e)" "next_token tlo' = next_token tlo"
proof -
  have els: "\<forall>t \<in> set (tokens_of tlo e). tok_element t = e" "multimap_wf (tokensByElement tlo)"
    using wf by (auto simp: tl_wf_def)
  note u = tokensUnmatched_result [OF els]
  have fin: "tlo' = fst (tokensUnmatched (tokens_of tlo e) tlo)"
    "calls = snd (tokensUnmatched (tokens_of tlo e) tlo)"
    using arg_cong [OF tlo', of fst] arg_cong [OF tlo', of snd] by simp_all
  show toks: "tokens_of tlo' e' = (if e' = e then [] else tokens_of tlo e')" for e'
    using u [of e'] fin by (auto simp: filter_empty_conv)
  show an: "tl_attributeName tlo' = tl_attributeName tlo" using u fin by simp
  show nxt: "next_token tlo' = next_token tlo" using u fin by simp
  have "multimap_wf (tokensByElement tlo')" using u fin by simp
  moreover have "inj_on tok_id (\<Union>x. set (tokens_of tlo' x))"
    by (rule inj_on_subset [of _ "\<Union>x. set (tokens_of tlo x)"])
      (use wf in \<open>auto simp: tl_wf_def toks split: if_splits\<close>)
  ultimately show "tl_wf tlo'" using wf toks an nxt by (auto simp: tl_wf_def)
  show "calls = map TokenUnmatched (tokens_of tlo e)" using u fin by simp
qed

end
