(* ===== verification/Action.thy ===== *)
theory Action
  imports Token_List "HOL-Library.Sublist"
begin

text \<open>
  Action descriptors of stimulus.js, as in \<open>click@window->unicast#send:once\<close>: the regular
  expression \<open>descriptorPattern\<close>, \<open>parseActionDescriptorString\<close> and the class \<open>Action\<close>, with the
  theorem that printing and parsing are inverse to each other.
\<close>

section \<open>Backtracking matching\<close>

text \<open>
  A part of a regular expression maps the text to the list of its matches, each with the text
  that is left, in the order in which a backtracking matcher tries them. The match of the
  expression is the first one of the whole.
\<close>

definition is_dot :: "char \<Rightarrow> bool" where
  "is_dot c \<longleftrightarrow> c \<noteq> CHR 0x0A \<and> c \<noteq> CHR 0x0D"

definition lazy_plus :: "(char \<Rightarrow> bool) \<Rightarrow> string \<Rightarrow> (string \<times> string) list" where
  "lazy_plus P s = map (\<lambda>n. (take n s, drop n s)) [1..<Suc (length (takeWhile P s))]"

definition greedy_plus :: "(char \<Rightarrow> bool) \<Rightarrow> string \<Rightarrow> (string \<times> string) list" where
  "greedy_plus P s = rev (lazy_plus P s)"

definition literal :: "string \<Rightarrow> string \<Rightarrow> string list" where
  "literal lit s = (if take (length lit) s = lit then [drop (length lit) s] else [])"

definition and_then :: "'a list \<Rightarrow> ('a \<Rightarrow> 'b list) \<Rightarrow> 'b list" where
  "and_then xs f = concat (map f xs)"

section \<open>Descriptors\<close>

text \<open>The parts of \<open>/^((.+?)(@(window|document))?->)?(.+?)(#([^:]+?))(:(.+))?$/\<close>.\<close>

definition target_part :: "string \<Rightarrow> (string option \<times> string) list" where
  "target_part s = and_then [''window'', ''document'']
     (\<lambda>t. map (\<lambda>r. (Some t, r)) (literal (''@'' @ t) s)) @ [(None, s)]"

definition event_part :: "string \<Rightarrow> (string option \<times> string option \<times> string) list" where
  "event_part s = and_then (lazy_plus is_dot s)
     (\<lambda>(m2, r). and_then (target_part r) (\<lambda>(m4, r). map (\<lambda>r. (Some m2, m4, r)) (literal ''->'' r)))
     @ [(None, None, s)]"

definition options_part :: "string \<Rightarrow> (string option \<times> string) list" where
  "options_part s = and_then (literal '':'' s) (\<lambda>r. map (\<lambda>(m9, r). (Some m9, r)) (greedy_plus is_dot r))
     @ [(None, s)]"

definition method_part :: "string \<Rightarrow> (string \<times> string option) list" where
  "method_part s = and_then (lazy_plus (\<lambda>c. c \<noteq> CHR '':'') s)
     (\<lambda>(m7, r). and_then (options_part r) (\<lambda>(m9, r). if r = [] then [(m7, m9)] else []))"

definition action_part :: "string \<Rightarrow> (string \<times> string \<times> string option) list" where
  "action_part s = and_then (lazy_plus is_dot s)
     (\<lambda>(m5, r). and_then (literal ''#'' r) (\<lambda>r. map (\<lambda>(m7, m9). (m5, m7, m9)) (method_part r)))"

definition descriptorPattern ::
  "string \<Rightarrow> (string option \<times> string option \<times> string \<times> string \<times> string option) list" where
  "descriptorPattern s = and_then (event_part s)
     (\<lambda>(m2, m4, r). map (\<lambda>(m5, m7, m9). (m2, m4, m5, m7, m9)) (action_part r))"

datatype event_target = Window | Document | Element nat

record descriptor =
  d_eventTarget :: "event_target option"
  d_eventName :: "string option"
  d_eventOptions :: "(string, bool) jsmap"
  d_identifier :: "string option"
  d_methodName :: "string option"

fun parseEventTarget :: "string option \<Rightarrow> event_target option" where
  "parseEventTarget (Some t) = (if t = ''window'' then Some Window
     else if t = ''document'' then Some Document else None)"
| "parseEventTarget None = None"

definition parseEventOptions :: "string \<Rightarrow> (string, bool) jsmap" where
  "parseEventOptions s = foldl (\<lambda>options tok.
     AList.update (if take 1 tok = ''!'' then drop 1 tok else tok) (take 1 tok \<noteq> ''!'') options)
     [] (split_on (CHR '':'') s)"

definition parseActionDescriptorString :: "string \<Rightarrow> descriptor" where
  "parseActionDescriptorString descriptorString =
     (case descriptorPattern (trim descriptorString) of
        [] \<Rightarrow> \<lparr>d_eventTarget = None, d_eventName = None, d_eventOptions = [],
               d_identifier = None, d_methodName = None\<rparr>
      | (m2, m4, m5, m7, m9) # _ \<Rightarrow>
          \<lparr>d_eventTarget = parseEventTarget m4, d_eventName = m2,
           d_eventOptions = (case m9 of None \<Rightarrow> [] | Some m9 \<Rightarrow> parseEventOptions m9),
           d_identifier = Some m5, d_methodName = Some m7\<rparr>)"

section \<open>Actions\<close>

text \<open>\<open>act_id\<close> is the identity of the object: a token gives one action.\<close>

record action =
  act_id :: nat
  act_element :: nat
  act_index :: nat
  act_eventTarget :: event_target
  act_eventName :: string
  act_eventOptions :: "(string, bool) jsmap"
  act_identifier :: string
  act_methodName :: string

text \<open>A tag that is named like a member of \<open>Object.prototype\<close> is taken to have no entry.\<close>

definition getDefaultEventNameForElement :: "dom \<Rightarrow> nat \<Rightarrow> string option" where
  "getDefaultEventNameForElement d e =
     (let t = lower (tagName d e)
      in if t = ''a'' \<or> t = ''button'' then Some ''click''
         else if t = ''form'' then Some ''submit''
         else if t = ''input'' then Some (if getAttribute d e ''type'' = Some ''submit'' then ''click'' else ''input'')
         else if t = ''select'' then Some ''change''
         else if t = ''textarea'' then Some ''input''
         else None)"

text \<open>\<open>x || y\<close> on strings that may be undefined: the empty string counts as missing.\<close>

definition or_else :: "string option \<Rightarrow> string option \<Rightarrow> string option" where
  "or_else x y = (if x = None \<or> x = Some [] then y else x)"

definition new_Action :: "dom \<Rightarrow> nat \<Rightarrow> nat \<Rightarrow> nat \<Rightarrow> descriptor \<Rightarrow> string + action" where
  "new_Action d i element index desc =
     (case or_else (d_eventName desc) (getDefaultEventNameForElement d element) of
        None \<Rightarrow> Inl ''missing event name''
      | Some name \<Rightarrow> (case or_else (d_identifier desc) None of
          None \<Rightarrow> Inl ''missing identifier''
        | Some ident \<Rightarrow> (case or_else (d_methodName desc) None of
            None \<Rightarrow> Inl ''missing method name''
          | Some meth \<Rightarrow> Inr \<lparr>act_id = i, act_element = element, act_index = index,
              act_eventTarget = (case d_eventTarget desc of None \<Rightarrow> Element element | Some t \<Rightarrow> t),
              act_eventName = name, act_eventOptions = d_eventOptions desc,
              act_identifier = ident, act_methodName = meth\<rparr>)))"

definition Action_forToken :: "dom \<Rightarrow> token \<Rightarrow> string + action" where
  "Action_forToken d tok = new_Action d (tok_id tok) (tok_element tok) (tok_index tok)
     (parseActionDescriptorString (tok_content tok))"

fun stringifyEventTarget :: "event_target \<Rightarrow> string option" where
  "stringifyEventTarget Window = Some ''window''"
| "stringifyEventTarget Document = Some ''document''"
| "stringifyEventTarget (Element e) = None"

definition Action_toString :: "action \<Rightarrow> string" where
  "Action_toString a =
     (let eventNameSuffix = (case stringifyEventTarget (act_eventTarget a) of
            None \<Rightarrow> [] | Some t \<Rightarrow> ''@'' @ t)
      in act_eventName a @ eventNameSuffix @ ''->'' @ act_identifier a @ ''#'' @ act_methodName a)"

section \<open>First matches\<close>

lemma and_then_Cons [simp]: "and_then (x # xs) f = f x @ and_then xs f" "and_then [] f = []"
  by (simp_all add: and_then_def)

lemma and_then_append: "and_then (xs @ ys) f = and_then xs f @ and_then ys f"
  by (simp add: and_then_def)

lemma and_then_Nil: "and_then xs f = [] \<longleftrightarrow> (\<forall>x \<in> set xs. f x = [])"
  by (induction xs) auto

lemma and_then_map: "and_then (map g xs) f = and_then xs (\<lambda>x. f (g x))"
  by (induction xs) auto

lemma map_and_then: "map g (and_then xs f) = and_then xs (\<lambda>x. map g (f x))"
  by (induction xs) auto

lemma and_then_first:
  assumes "and_then xs f = a # as"
  obtains pre x post bs where "xs = pre @ x # post" "\<forall>y \<in> set pre. f y = []" "f x = a # bs"
  using assms
proof (induction xs arbitrary: thesis)
  case (Cons y ys)
  show ?case
  proof (cases "f y")
    case Nil
    with Cons.prems(2) obtain pre x post bs where "ys = pre @ x # post" "\<forall>y \<in> set pre. f y = []" "f x = a # bs"
      by (auto elim: Cons.IH)
    with Nil Cons.prems(1) [of "y # pre" x post bs] show ?thesis by simp
  next
    case (Cons b bs)
    with Cons.prems show ?thesis using Cons.prems(1) [of "[]" y ys bs] by simp
  qed
qed simp

text \<open>
  Two alternatives lists, the second an initial part of the first, where the alternatives before
  a chosen one fail in the second whenever they fail in the first.
\<close>

lemma and_then_transfer:
  assumes first: "and_then xs f = a # as" and pre: "prefix ys xs"
    and keep: "\<And>x bs. f x = a # bs \<Longrightarrow> x \<in> set xs \<Longrightarrow> x \<in> set ys \<and> (\<exists>bs. g x = b # bs)"
    and fail: "\<And>x. x \<in> set ys \<Longrightarrow> f x = [] \<Longrightarrow> g x = []"
  shows "\<exists>bs. and_then ys g = b # bs"
proof -
  from first obtain us x vs bs where xs: "xs = us @ x # vs" and us: "\<forall>y \<in> set us. f y = []" and x: "f x = a # bs"
    by (rule and_then_first)
  from keep [OF x] xs obtain cs where y: "x \<in> set ys" "g x = b # cs" by auto
  from pre obtain zs where zs: "us @ x # vs = ys @ zs" by (auto simp: xs prefix_def)
  have "length us < length ys"
  proof (rule ccontr)
    assume "\<not> length us < length ys"
    with zs have "prefix ys us" by (metis append_eq_append_conv_if append_eq_conv_conj leI prefixI take_is_prefix)
    with y(1) us have "f x = []" by (meson in_mono set_mono_prefix)
    with x show False by simp
  qed
  with zs have "ys = us @ x # take (length ys - Suc (length us)) vs"
    by (metis Suc_diff_Suc append_eq_conv_conj take_Suc_Cons take_append take_all less_imp_le diff_is_0_eq' append_Nil2 take_all_iff)
  moreover have "\<forall>y \<in> set us. g y = []"
    using us fail calculation by (metis Un_iff set_append)
  ultimately show ?thesis using y(2) by (metis and_then_append and_then_Cons(1) and_then_Nil append_Nil append_Cons)
qed

section \<open>The parts on a text of one line\<close>

abbreviation one_line :: "string \<Rightarrow> bool" where
  "one_line s \<equiv> (\<forall>c \<in> set s. is_dot c)"

lemma takeWhile_one_line [simp]: "one_line s \<Longrightarrow> takeWhile is_dot s = s"
  by (simp add: takeWhile_eq_all_conv)

lemma lazy_plus_one_line: "one_line s \<Longrightarrow> lazy_plus is_dot s = map (\<lambda>n. (take n s, drop n s)) [1..<Suc (length s)]"
  by (simp add: lazy_plus_def)

lemma literal_char [simp]: "literal [c] s = (case s of [] \<Rightarrow> [] | x # r \<Rightarrow> if x = c then [r] else [])"
  by (auto simp: literal_def split: list.split)

lemma options_part_end:
  assumes "one_line s"
  shows "and_then (options_part s) (\<lambda>(m9, r). if r = [] then [(m, m9)] else []) =
    (case s of [] \<Rightarrow> [(m, None)] | c # r \<Rightarrow> if c = CHR '':'' \<and> r \<noteq> [] then [(m, Some r)] else [])"
proof (cases s)
  case (Cons c r)
  have "and_then (greedy_plus is_dot r) (\<lambda>(m9, r). if r = [] then [(m, Some m9)] else []) =
      (if r \<noteq> [] then [(m, Some r)] else [])"
  proof (cases "r = []")
    case False
    have "[1..<Suc (length r)] = [1..<length r] @ [length r]" using False by (simp add: Suc_leI)
    then have "greedy_plus is_dot r = (r, []) # rev (map (\<lambda>n. (take n r, drop n r)) [1..<length r])"
      using assms Cons by (simp add: greedy_plus_def lazy_plus_one_line)
    moreover have "and_then (rev (map (\<lambda>n. (take n r, drop n r)) [1..<length r]))
        (\<lambda>(m9, r). if r = [] then [(m, Some m9)] else []) = []"
      unfolding and_then_Nil by auto
    ultimately show ?thesis using False by simp
  qed (simp add: greedy_plus_def lazy_plus_def)
  then show ?thesis
    by (auto simp: options_part_def Cons and_then_append and_then_map case_prod_unfold greedy_plus_def lazy_plus_def
        cong: if_cong)
qed (simp add: options_part_def)

text \<open>Alternatives of which only the last can match.\<close>

lemma and_then_last:
  assumes "\<And>n. n < k \<Longrightarrow> f n = []" and "k \<noteq> 0"
  shows "and_then [1..<Suc k] f = f k"
proof -
  have "[1..<Suc k] = [1..<k] @ [k]" using assms(2) by simp
  moreover have "and_then [1..<k] f = []" unfolding and_then_Nil using assms(1) by simp
  ultimately show ?thesis by (simp add: and_then_append)
qed

lemma colon_after:
  assumes "n < length (takeWhile (\<lambda>c. c \<noteq> CHR '':'') s)"
  shows "\<exists>c r. drop n s = c # r \<and> c \<noteq> CHR '':''"
proof -
  let ?t = "takeWhile (\<lambda>c. c \<noteq> CHR '':'') s"
  have "drop n s = s ! n # drop (Suc n) s"
    using assms length_takeWhile_le [of _ s] by (intro Cons_nth_drop_Suc [symmetric]) (auto intro: less_le_trans)
  moreover have "s ! n \<noteq> CHR '':''"
    using assms nth_mem [of n ?t] takeWhile_nth [of n "\<lambda>c. c \<noteq> CHR '':''" s] by (auto dest: set_takeWhileD)
  ultimately show ?thesis by simp
qed

lemma method_part_eq:
  assumes "one_line s"
  shows "method_part s = (if s = [] \<or> hd s = CHR '':'' then [] else
    case dropWhile (\<lambda>c. c \<noteq> CHR '':'') s of [] \<Rightarrow> [(s, None)]
    | c # r \<Rightarrow> if r = [] then [] else [(takeWhile (\<lambda>c. c \<noteq> CHR '':'') s, Some r)])"
proof -
  let ?t = "takeWhile (\<lambda>c. c \<noteq> CHR '':'') s" and ?d = "dropWhile (\<lambda>c. c \<noteq> CHR '':'') s"
  define k where "k = length ?t"
  define f where "f = (\<lambda>n. and_then (options_part (drop n s)) (\<lambda>(m9, r). if r = [] then [(take n s, m9)] else []))"
  have m: "method_part s = and_then [1..<Suc k] f"
    by (simp add: method_part_def lazy_plus_def and_then_map k_def f_def)
  have eq: "f n = (case drop n s of [] \<Rightarrow> [(take n s, None)] | c # r \<Rightarrow>
      if c = CHR '':'' \<and> r \<noteq> [] then [(take n s, Some r)] else [])" for n
    unfolding f_def by (rule options_part_end) (use assms in \<open>auto dest: in_set_dropD\<close>)
  have before: "f n = []" if "n < k" for n
    using colon_after [of n s] that by (auto simp: eq k_def)
  have s: "s = ?t @ ?d" by simp
  then have at: "drop k s = ?d" "take k s = ?t" by (metis append_eq_conv_conj k_def)+
  show ?thesis
  proof (cases "k = 0")
    case True
    then have "s = [] \<or> hd s = CHR '':''" by (cases s) (auto simp: k_def split: if_splits)
    with True show ?thesis by (simp add: m)
  next
    case False
    then have ne: "s \<noteq> [] \<and> hd s \<noteq> CHR '':''" by (cases s) (auto simp: k_def split: if_splits)
    have "method_part s = f k" unfolding m by (rule and_then_last [OF before False])
    also have "f k = (case ?d of [] \<Rightarrow> [(?t, None)] | c # r \<Rightarrow> if r = [] then [] else [(?t, Some r)])"
    proof (cases ?d)
      case Nil
      show ?thesis unfolding eq at Nil by simp
    next
      case (Cons c r)
      with hd_dropWhile [of "\<lambda>c. c \<noteq> CHR '':''" s] have "c = CHR '':''" by simp
      then show ?thesis unfolding eq at Cons by simp
    qed
    finally have "method_part s = (case ?d of [] \<Rightarrow> [(?t, None)] | c # r \<Rightarrow> if r = [] then [] else [(?t, Some r)])" .
    moreover have "?d = [] \<Longrightarrow> ?t = s" using s by (metis append_Nil2)
    ultimately show ?thesis using ne by (cases ?d) (simp_all del: dropWhile_eq_Nil_conv)
  qed
qed

section \<open>Leaving out the options\<close>

text \<open>What is left of a text when its options are taken away, and back.\<close>

definition with_options :: "string option \<Rightarrow> string" where
  "with_options m9 = (case m9 of None \<Rightarrow> [] | Some m9 \<Rightarrow> CHR '':'' # m9)"

lemma prefix_upt: "a \<le> b \<Longrightarrow> prefix [k..<a] [k..<b]"
  using upt_add_eq_append [of k a "b - a"] by (cases "k \<le> a") (auto simp: prefix_def)

lemma upt_around: "a \<le> k \<Longrightarrow> k < b \<Longrightarrow> [a..<b] = [a..<k] @ k # [Suc k..<b]"
  using upt_add_eq_append [of a k "b - k"] by (simp add: upt_conv_Cons)

lemma method_part_shape:
  assumes "one_line s" and "method_part s = (m7, m9) # bs"
  shows "s = m7 @ with_options m9" "m7 \<noteq> []" "CHR '':'' \<notin> set m7" "m9 \<noteq> Some []"
proof -
  let ?P = "\<lambda>c. c \<noteq> CHR '':''"
  have ne: "s \<noteq> []" "hd s \<noteq> CHR '':''" using assms(2) by (auto simp: method_part_eq [OF assms(1)] split: if_splits)
  have colon: "CHR '':'' \<notin> set (takeWhile ?P s)" by (auto dest: set_takeWhileD)
  have tne: "takeWhile ?P s \<noteq> []" using ne by (cases s) auto
  have s: "s = takeWhile ?P s @ dropWhile ?P s" by simp
  have "s = m7 @ with_options m9 \<and> m7 \<noteq> [] \<and> CHR '':'' \<notin> set m7 \<and> m9 \<noteq> Some []"
  proof (cases "dropWhile ?P s")
    case Nil
    have "CHR '':'' \<notin> set s" using s Nil colon by (metis append_Nil2)
    with assms(2) ne show ?thesis unfolding method_part_eq [OF assms(1)] Nil by (auto simp: with_options_def)
  next
    case (Cons c r)
    with hd_dropWhile [of ?P s] have "c = CHR '':''" by simp
    moreover have "(m7, m9) = (takeWhile ?P s, Some r)" "r \<noteq> []"
      using assms(2) ne unfolding method_part_eq [OF assms(1)] Cons by (auto split: if_splits)
    ultimately show ?thesis using s Cons colon tne by (simp add: with_options_def)
  qed
  then show "s = m7 @ with_options m9" "m7 \<noteq> []" "CHR '':'' \<notin> set m7" "m9 \<noteq> Some []" by auto
qed

lemma method_part_plain:
  "one_line m \<Longrightarrow> m \<noteq> [] \<Longrightarrow> CHR '':'' \<notin> set m \<Longrightarrow> method_part m = [(m, None)]"
proof -
  assume "one_line m" "m \<noteq> []" "CHR '':'' \<notin> set m"
  moreover from this(2,3) have "hd m \<noteq> CHR '':''" by (cases m) auto
  moreover have "dropWhile (\<lambda>c. c \<noteq> CHR '':'') m = []"
    using \<open>CHR '':'' \<notin> set m\<close> unfolding dropWhile_eq_Nil_conv by blast
  ultimately show ?thesis by (simp add: method_part_eq del: dropWhile_eq_Nil_conv)
qed

lemma method_part_more:
  assumes "one_line (s @ CHR '':'' # r)" and "method_part s \<noteq> []" and "r \<noteq> []"
  shows "method_part (s @ CHR '':'' # r) \<noteq> []"
proof -
  let ?P = "\<lambda>c. c \<noteq> CHR '':''"
  have one: "one_line s" using assms(1) by simp
  have ne: "s \<noteq> []" "hd s \<noteq> CHR '':''" using assms(2) by (auto simp: method_part_eq [OF one] split: if_splits)
  have "\<exists>c x. dropWhile ?P (s @ CHR '':'' # r) = c # x \<and> x \<noteq> []"
    using assms(3) by (induction s) auto
  then show ?thesis using ne by (auto simp: method_part_eq [OF assms(1)])
qed

definition action_alt :: "string \<Rightarrow> nat \<Rightarrow> (string \<times> string \<times> string option) list" where
  "action_alt s n = (case drop n s of [] \<Rightarrow> [] | c # r \<Rightarrow>
     if c = CHR ''#'' then map (\<lambda>(m7, m9). (take n s, m7, m9)) (method_part r) else [])"

lemma action_part_alt: "one_line s \<Longrightarrow> action_part s = and_then [1..<Suc (length s)] (action_alt s)"
  unfolding action_part_def lazy_plus_one_line and_then_map
  by (rule arg_cong [where f = "and_then _"]) (auto simp: fun_eq_iff action_alt_def split: list.split)

lemma action_alt_more:
  assumes "one_line (s @ CHR '':'' # r)" and "action_alt s n \<noteq> []" and "r \<noteq> []"
  shows "action_alt (s @ CHR '':'' # r) n \<noteq> []"
proof -
  from assms(2) obtain x where x: "drop n s = CHR ''#'' # x" "method_part x \<noteq> []"
    by (auto simp: action_alt_def split: list.splits if_splits)
  then have n: "n < length s" by (metis drop_eq_Nil leI list.distinct(1))
  have "set x \<subseteq> set s" using x(1) set_drop_subset [of n s] by auto
  then have "method_part (x @ CHR '':'' # r) \<noteq> []" using assms x(2) by (intro method_part_more) auto
  with x n show ?thesis by (simp add: action_alt_def)
qed

lemma action_part_more:
  assumes "one_line (s @ CHR '':'' # r)" and "action_part s \<noteq> []" and "r \<noteq> []"
  shows "action_part (s @ CHR '':'' # r) \<noteq> []"
  using assms(2) action_alt_more [OF assms(1) _ assms(3)] assms(1)
  by (auto simp: action_part_alt and_then_Nil simp del: upt_Suc) force

lemma action_part_shape:
  assumes "one_line s" and "action_part s = (m5, m7, m9) # bs"
  shows "s = m5 @ CHR ''#'' # m7 @ with_options m9" "m5 \<noteq> []" "m7 \<noteq> []" "CHR '':'' \<notin> set m7" "m9 \<noteq> Some []"
proof -
  from assms(2) obtain n cs where n: "n \<in> set [1..<Suc (length s)]" "action_alt s n = (m5, m7, m9) # cs"
    unfolding action_part_alt [OF assms(1)] by (rule and_then_first) (metis in_set_conv_decomp)
  then obtain x ds where x: "drop n s = CHR ''#'' # x" "method_part x = (m7, m9) # ds" "m5 = take n s"
    by (auto simp: action_alt_def split: list.splits if_splits)
  have "set x \<subseteq> set s" using x(1) set_drop_subset [of n s] by auto
  then have one: "one_line x" using assms(1) by auto
  note sh = method_part_shape [OF one x(2)]
  show "s = m5 @ CHR ''#'' # m7 @ with_options m9" using x sh(1) by (metis append_take_drop_id)
  show "m5 \<noteq> []" using n(1) x(3) by auto
  show "m7 \<noteq> []" "CHR '':'' \<notin> set m7" "m9 \<noteq> Some []" by (rule sh(2-4))+
qed

lemma action_part_short:
  assumes one: "one_line s" and first: "action_part s = (m5, m7, m9) # as"
  shows "\<exists>bs. action_part (m5 @ CHR ''#'' # m7) = (m5, m7, None) # bs"
proof (cases m9)
  case None
  with first action_part_shape(1) [OF one first] show ?thesis by (simp add: with_options_def)
next
  case (Some r)
  let ?s = "m5 @ CHR ''#'' # m7"
  note sh = action_part_shape [OF one first]
  have s: "s = ?s @ CHR '':'' # r" and r: "r \<noteq> []" using sh(1,5) Some by (simp_all add: with_options_def)
  have one': "one_line ?s" using one unfolding s by auto
  have "\<exists>bs. and_then [1..<Suc (length ?s)] (action_alt ?s) = (m5, m7, None) # bs"
  proof (rule and_then_transfer [OF first [unfolded action_part_alt [OF one]]])
    show "prefix [1..<Suc (length ?s)] [1..<Suc (length s)]"
      by (rule prefix_upt) (simp add: s)
    fix n bs assume f: "action_alt s n = (m5, m7, m9) # bs" and n: "n \<in> set [1..<Suc (length s)]"
    then have "m5 = take n s" by (auto simp: action_alt_def split: list.splits if_splits)
    then have "n = length m5" using n by (simp del: upt_Suc)
    then show "n \<in> set [1..<Suc (length ?s)] \<and> (\<exists>bs. action_alt ?s n = (m5, m7, None) # bs)"
      using one' sh(2,3,4) by (simp add: action_alt_def method_part_plain Suc_leI del: upt_Suc)
  next
    fix n assume "action_alt s n = []"
    then show "action_alt ?s n = []" using action_alt_more [of ?s r n] one r unfolding s by auto
  qed
  then show ?thesis by (simp add: action_part_alt [OF one'] del: upt_Suc)
qed

section \<open>The whole pattern\<close>

definition target_suffix :: "string option \<Rightarrow> string" where
  "target_suffix m4 = (case m4 of None \<Rightarrow> [] | Some t \<Rightarrow> CHR ''@'' # t)"

definition event_targets :: "string option list" where
  "event_targets = [Some ''window'', Some ''document'', None]"

definition event_alt :: "string \<Rightarrow> nat \<times> string option \<Rightarrow>
    (string option \<times> string option \<times> string \<times> string \<times> string option) list" where
  "event_alt s = (\<lambda>(n, m4). and_then (literal (target_suffix m4 @ ''->'') (drop n s))
     (\<lambda>r. map (\<lambda>(m5, m7, m9). (Some (take n s), m4, m5, m7, m9)) (action_part r)))"

lemma literal_append: "literal (a @ b) s = and_then (literal a s) (literal b)"
proof (cases "take (length a) s = a")
  case True
  then show ?thesis by (simp add: literal_def take_add add.commute)
next
  case False
  have "take (length (a @ b)) s \<noteq> a @ b"
  proof
    assume "take (length (a @ b)) s = a @ b"
    then have "take (length a) (take (length (a @ b)) s) = a" by simp
    with False show False by (simp add: min_def)
  qed
  with False show ?thesis by (simp add: literal_def)
qed

lemma literal_Some: "r \<in> set (literal a s) \<longleftrightarrow> s = a @ r"
  by (auto simp: literal_def) (metis append_take_drop_id)

lemma literal_self [simp]: "literal a (a @ r) = [r]"
  by (simp add: literal_def)

lemma and_then_assoc: "and_then (and_then xs f) g = and_then xs (\<lambda>x. and_then (f x) g)"
  by (induction xs) (simp_all add: and_then_append)

lemma and_then_product: "and_then (List.product xs ys) f = and_then xs (\<lambda>x. and_then ys (\<lambda>y. f (x, y)))"
  by (induction xs) (simp_all add: and_then_append and_then_map)

lemma literal_target:
  "and_then (map (Pair m) (literal a s)) (\<lambda>(m4, r). map (\<lambda>r. (x, m4, r)) (literal b r)) =
     map (\<lambda>r. (x, m, r)) (literal (a @ b) s)"
  by (simp add: literal_append and_then_map map_and_then)

lemma target_part_alt: "and_then (target_part s) (\<lambda>(m4, r). map (\<lambda>r. (Some m2, m4, r)) (literal ''->'' r)) =
  and_then event_targets (\<lambda>m4. map (\<lambda>r. (Some m2, m4, r)) (literal (target_suffix m4 @ ''->'') s))"
  unfolding target_part_def event_targets_def target_suffix_def and_then_append and_then_Cons option.case
    Cons_eq_appendI [OF refl refl] literal_target
  by (simp add: literal_target [where a = "[]" and m = None, simplified literal_def list.size take_0 drop_0, simplified])

lemma descriptorPattern_alt:
  assumes "one_line s"
  shows "descriptorPattern s = and_then (List.product [1..<Suc (length s)] event_targets) (event_alt s)
    @ map (\<lambda>(m5, m7, m9). (None, None, m5, m7, m9)) (action_part s)"
  unfolding descriptorPattern_def event_part_def target_part_alt lazy_plus_one_line [OF assms]
  by (simp add: and_then_append and_then_assoc and_then_map and_then_product event_alt_def case_prod_unfold del: upt_Suc)

lemma prefix_product: "prefix xs ys \<Longrightarrow> prefix (List.product xs zs) (List.product ys zs)"
proof -
  have "List.product (xs @ us) zs = List.product xs zs @ List.product us zs" for us
    by (induction xs) simp_all
  then show "prefix xs ys \<Longrightarrow> ?thesis" by (auto simp: prefix_def)
qed

lemma event_alt_shape:
  assumes "event_alt s (n, x) = (m2, m4, m5, m7, m9) # bs"
  obtains r cs where "drop n s = target_suffix x @ ''->'' @ r" "action_part r = (m5, m7, m9) # cs"
    "m4 = x" "m2 = Some (take n s)"
proof -
  from assms obtain r where r: "r \<in> set (literal (target_suffix x @ ''->'') (drop n s))"
    by (cases "literal (target_suffix x @ ''->'') (drop n s)") (auto simp: event_alt_def)
  then have d: "drop n s = (target_suffix x @ ''->'') @ r" by (simp only: literal_Some)
  then have "event_alt s (n, x) = map (\<lambda>(m5, m7, m9). (Some (take n s), x, m5, m7, m9)) (action_part r)"
    unfolding event_alt_def by (simp only: case_prod_conv d literal_self and_then_Cons append_Nil2)
  with assms have m: "map (\<lambda>(m5, m7, m9). (Some (take n s), x, m5, m7, m9)) (action_part r) = (m2, m4, m5, m7, m9) # bs"
    by simp
  then obtain cs where "action_part r = (m5, m7, m9) # cs" "m4 = x" "m2 = Some (take n s)" by (auto simp: Cons_eq_map_conv map_eq_Cons_conv)
  with that [of r cs] d show thesis by simp
qed

lemma event_alt_self:
  assumes "action_part r = (m5, m7, m9) # cs"
  shows "\<exists>bs. event_alt (ev @ target_suffix m4 @ ''->'' @ r) (length ev, m4) = (Some ev, m4, m5, m7, m9) # bs"
proof -
  have "drop (length ev) (ev @ target_suffix m4 @ ''->'' @ r) = (target_suffix m4 @ ''->'') @ r" by simp
  then show ?thesis
    unfolding event_alt_def by (simp only: case_prod_conv literal_self and_then_Cons append_Nil2) (simp add: assms)
qed

lemma event_alt_more:
  assumes one: "one_line (s @ CHR '':'' # r)" and "event_alt s x \<noteq> []" and "r \<noteq> []"
  shows "event_alt (s @ CHR '':'' # r) x \<noteq> []"
proof -
  obtain n m4 where x: "x = (n, m4)" by (cases x)
  obtain m2 m4' m5 m7 m9 bs where "event_alt s (n, m4) = (m2, m4', m5, m7, m9) # bs"
    using assms(2) x by (cases "event_alt s x") (auto simp: x)
  then obtain q cs where q: "drop n s = target_suffix m4 @ ''->'' @ q" "action_part q = (m5, m7, m9) # cs"
    by (rule event_alt_shape)
  have n: "n < length s" using q(1) by (metis append_is_Nil_conv drop_eq_Nil leI list.distinct(1))
  have "set q \<subseteq> set s" using q(1) set_drop_subset [of n s] by auto
  then have "action_part (q @ CHR '':'' # r) \<noteq> []" using one q(2) assms(3) by (intro action_part_more) auto
  then obtain y cs' where y: "action_part (q @ CHR '':'' # r) = y # cs'" by (cases "action_part (q @ CHR '':'' # r)") auto
  have "drop n (s @ CHR '':'' # r) = (target_suffix m4 @ ''->'') @ (q @ CHR '':'' # r)" using q(1) n by simp
  then show ?thesis unfolding x event_alt_def
    by (simp only: case_prod_conv literal_self and_then_Cons append_Nil2) (simp add: y)
qed

lemma descriptor_short_event:
  assumes one: "one_line s" and first: "descriptorPattern s = (Some ev, m4, m5, m7, m9) # as"
  defines "s' \<equiv> ev @ target_suffix m4 @ ''->'' @ m5 @ CHR ''#'' # m7"
  shows "s = s' @ with_options m9" "m9 \<noteq> Some []" "ev \<noteq> []" "m5 \<noteq> []" "m7 \<noteq> []" "m4 \<in> set event_targets"
    "\<exists>bs. descriptorPattern s' = (Some ev, m4, m5, m7, None) # bs"
proof -
  let ?xs = "\<lambda>s. List.product [1..<Suc (length s)] event_targets"
  obtain as' where prod: "and_then (?xs s) (event_alt s) = (Some ev, m4, m5, m7, m9) # as'"
    using first unfolding descriptorPattern_alt [OF one]
    by (cases "and_then (?xs s) (event_alt s)"; cases "action_part s") (auto simp del: upt_Suc)
  have shape: "n = length ev \<and> x = m4 \<and> s = s' @ with_options m9 \<and> m9 \<noteq> Some [] \<and> m5 \<noteq> [] \<and> m7 \<noteq> []
      \<and> (\<exists>cs. action_part (m5 @ CHR ''#'' # m7) = (m5, m7, None) # cs)"
    if "event_alt s (n, x) = (Some ev, m4, m5, m7, m9) # bs" "n \<le> length s" for n x bs
  proof -
    from that(1) obtain r cs where r: "drop n s = target_suffix x @ ''->'' @ r" "action_part r = (m5, m7, m9) # cs"
      "m4 = x" "ev = take n s" by (auto elim: event_alt_shape)
    have "set r \<subseteq> set s" using r(1) set_drop_subset [of n s] by auto
    then have "one_line r" using one by auto
    from action_part_shape [OF this r(2)] action_part_short [OF this r(2)] r that(2) show ?thesis
      by (simp add: s'_def) (metis append.assoc append_Cons append_take_drop_id)
  qed
  from prod obtain n x bs where nx: "(n, x) \<in> set (?xs s)" "event_alt s (n, x) = (Some ev, m4, m5, m7, m9) # bs"
    by (rule and_then_first) (metis in_set_conv_decomp surj_pair)
  then have "n \<in> set [1..<Suc (length s)]" "x \<in> set event_targets" by (simp_all add: set_product del: upt_Suc)
  with shape [OF nx(2)] show s: "s = s' @ with_options m9" and m9: "m9 \<noteq> Some []" and ev: "ev \<noteq> []"
    and m57: "m5 \<noteq> []" "m7 \<noteq> []" and m4: "m4 \<in> set event_targets"
    by (auto simp del: upt_Suc)
  have one': "one_line s'" using one unfolding s by auto
  have "\<exists>bs. and_then (?xs s') (event_alt s') = (Some ev, m4, m5, m7, None) # bs"
  proof (rule and_then_transfer [OF prod])
    show "prefix (?xs s') (?xs s)" by (intro prefix_product prefix_upt) (simp add: s)
    fix x bs assume x: "event_alt s x = (Some ev, m4, m5, m7, m9) # bs" "x \<in> set (?xs s)"
    then have x': "x = (length ev, m4)" using shape [of "fst x" "snd x" bs] by (cases x) (auto simp: set_product simp del: upt_Suc)
    obtain cs where "action_part (m5 @ CHR ''#'' # m7) = (m5, m7, None) # cs"
      using shape [of "fst x" "snd x" bs] x by (cases x) (auto simp: set_product simp del: upt_Suc)
    from event_alt_self [OF this, of ev m4] ev m4
    show "x \<in> set (?xs s') \<and> (\<exists>bs. event_alt s' x = (Some ev, m4, m5, m7, None) # bs)"
      by (auto simp: x' s'_def set_product Suc_leI simp del: upt_Suc)
  next
    fix x assume "event_alt s x = []"
    then show "event_alt s' x = []"
      using event_alt_more [of s' _ x] one m9 s by (cases m9) (auto simp: with_options_def)
  qed
  then show "\<exists>bs. descriptorPattern s' = (Some ev, m4, m5, m7, None) # bs"
    by (auto simp: descriptorPattern_alt [OF one'] simp del: upt_Suc)
qed

text \<open>A first alternative without an event is the action alone.\<close>

lemma plain_alternative:
  assumes one: "one_line s" and first: "descriptorPattern s = (None, m4, m5, m7, m9) # as"
  shows "m4 = None \<and> (\<exists>cs. action_part s = (m5, m7, m9) # cs)"
proof -
  let ?alts = "and_then (List.product [1..<Suc (length s)] event_targets) (event_alt s)"
  have "?alts = []"
  proof (rule ccontr)
    assume "?alts \<noteq> []"
    then obtain as' where "?alts = (None, m4, m5, m7, m9) # as'"
      using first unfolding descriptorPattern_alt [OF one] by (cases ?alts) (auto simp del: upt_Suc)
    then obtain n x bs where "event_alt s (n, x) = (None, m4, m5, m7, m9) # bs"
      by (rule and_then_first) (metis surj_pair)
    then show False by (rule event_alt_shape) simp
  qed
  then have "map (\<lambda>(m5, m7, m9). (None, None, m5, m7, m9)) (action_part s) = (None, m4, m5, m7, m9) # as"
    using first unfolding descriptorPattern_alt [OF one] by (simp del: upt_Suc)
  then show ?thesis by (auto simp: map_eq_Cons_conv)
qed

text \<open>Behind an event name without \<open>-\<close> and \<open>@\<close> no shorter name matches.\<close>

lemma no_shorter_event:
  assumes ev: "CHR ''-'' \<notin> set ev" "CHR ''@'' \<notin> set ev" and nx: "n < length ev \<or> (n = length ev \<and> x \<noteq> None)"
  shows "event_alt (ev @ ''->'' @ t) (n, x) = []"
proof (rule ccontr)
  let ?s = "ev @ ''->'' @ t"
  assume "event_alt ?s (n, x) \<noteq> []"
  then obtain m2 m4' m5' m7' m9' zs where "event_alt ?s (n, x) = (m2, m4', m5', m7', m9') # zs"
    by (cases "event_alt ?s (n, x)") auto
  then obtain q where q: "drop n ?s = target_suffix x @ ''->'' @ q" by (rule event_alt_shape)
  then have h: "?s ! n = CHR ''@'' \<or> (x = None \<and> ?s ! n = CHR ''-'')"
    using hd_drop_conv_nth [of n ?s] nx by (cases x) (auto simp: target_suffix_def)
  show False
  proof (cases "n < length ev")
    case True
    then have "?s ! n = ev ! n" "ev ! n \<in> set ev" by (simp_all add: nth_append)
    with h ev show False by auto
  next
    case False
    with nx have "n = length ev" "x \<noteq> None" by auto
    with h show False by (simp add: nth_append)
  qed
qed

lemma descriptor_short_plain:
  assumes one: "one_line s" "one_line ev" and first: "descriptorPattern s = (None, m4, m5, m7, m9) # as"
    and ev: "ev \<noteq> []" "CHR ''-'' \<notin> set ev" "CHR ''@'' \<notin> set ev"
  defines "s' \<equiv> ev @ ''->'' @ m5 @ CHR ''#'' # m7"
  shows "m4 = None" "s = m5 @ CHR ''#'' # m7 @ with_options m9" "m5 \<noteq> []" "m7 \<noteq> []"
    "\<exists>bs. descriptorPattern s' = (Some ev, None, m5, m7, None) # bs"
proof -
  let ?xs = "\<lambda>s. List.product [1..<Suc (length s)] event_targets"
  obtain cs where a: "action_part s = (m5, m7, m9) # cs" and m4: "m4 = None"
    using plain_alternative [OF one(1) first] by blast
  show "m4 = None" by (rule m4)
  show s: "s = m5 @ CHR ''#'' # m7 @ with_options m9" and "m5 \<noteq> []" "m7 \<noteq> []" by (rule action_part_shape [OF one(1) a])+
  obtain bs where b: "action_part (m5 @ CHR ''#'' # m7) = (m5, m7, None) # bs"
    using action_part_short [OF one(1) a] by blast
  have one': "one_line s'" using one unfolding s s'_def by (auto simp: is_dot_def)
  have early: "event_alt s' (n, x) = []" if "n < length ev \<or> (n = length ev \<and> x \<noteq> None)" for n x
    unfolding s'_def by (rule no_shorter_event [OF ev(2,3) that])
  have "[1..<Suc (length s')] = [1..<length ev] @ length ev # [Suc (length ev)..<Suc (length s')]"
    using ev(1) by (intro upt_around) (simp_all add: s'_def Suc_leI)
  moreover have "and_then (List.product [1..<length ev] event_targets) (event_alt s') = []"
    unfolding and_then_Nil using early by (auto simp: set_product)
  ultimately have "\<exists>bs. and_then (?xs s') (event_alt s') = (Some ev, None, m5, m7, None) # bs"
    using event_alt_self [OF b, of ev None] early
    by (auto simp: and_then_product and_then_append event_targets_def target_suffix_def s'_def simp del: upt_Suc)
  then show "\<exists>bs. descriptorPattern s' = (Some ev, None, m5, m7, None) # bs"
    by (auto simp: descriptorPattern_alt [OF one'] simp del: upt_Suc)
qed

section \<open>Printing and parsing\<close>

lemma default_event_name:
  "getDefaultEventNameForElement d e = Some ev \<Longrightarrow> ev \<noteq> [] \<and> CHR ''-'' \<notin> set ev \<and> CHR ''@'' \<notin> set ev
     \<and> (\<forall>c \<in> set ev. \<not> is_ws c)"
proof -
  assume "getDefaultEventNameForElement d e = Some ev"
  then have "ev \<in> {''click'', ''submit'', ''input'', ''change''}"
    by (simp add: getDefaultEventNameForElement_def Let_def split: if_splits)
  then show ?thesis by (auto simp: is_ws_def)
qed

lemma no_ws_one_line: "\<forall>c \<in> set s. \<not> is_ws c \<Longrightarrow> one_line s \<and> trim s = s"
  by (auto simp: is_ws_def is_dot_def intro!: trim_id) (auto simp: no_ws_ends_def is_ws_def)

lemma stringify_target:
  "m4 \<in> set event_targets \<Longrightarrow>
     stringifyEventTarget (case parseEventTarget m4 of None \<Rightarrow> Element e | Some t \<Rightarrow> t) = m4"
  by (auto simp: event_targets_def)

lemma parsed_short:
  assumes "\<exists>bs. descriptorPattern s = (Some ev, m4, m5, m7, None) # bs" and "\<forall>c \<in> set s. \<not> is_ws c"
  shows "parseActionDescriptorString s = \<lparr>d_eventTarget = parseEventTarget m4, d_eventName = Some ev,
      d_eventOptions = [], d_identifier = Some m5, d_methodName = Some m7\<rparr>"
  using assms no_ws_one_line [OF assms(2)] by (auto simp: parseActionDescriptorString_def)

text \<open>
  C26: The text that an action prints for itself is a descriptor of the same action: parsed on the
  same element it gives back the event, the target, the controller and the method that the
  descriptor of the token had; only the event options are not printed. It holds for every
  descriptor that parses, with the event written out or taken from the kind of element.
\<close>

theorem action_round_trip:
  assumes "Action_forToken d tok = Inr a" and "\<forall>c \<in> set (tok_content tok). \<not> is_ws c"
  shows "Action_forToken d (tok\<lparr>tok_content := Action_toString a\<rparr>) = Inr (a\<lparr>act_eventOptions := []\<rparr>)"
proof -
  let ?s = "tok_content tok"
  have one: "one_line ?s" and tr: "trim ?s = ?s" using no_ws_one_line [OF assms(2)] by auto
  obtain m2 m4 m5 m7 m9 as where first: "descriptorPattern ?s = (m2, m4, m5, m7, m9) # as"
    using assms(1) by (cases "descriptorPattern ?s")
      (auto simp: Action_forToken_def parseActionDescriptorString_def tr new_Action_def or_else_def split: option.splits)
  have parse: "parseActionDescriptorString ?s = \<lparr>d_eventTarget = parseEventTarget m4, d_eventName = m2,
      d_eventOptions = (case m9 of None \<Rightarrow> [] | Some m9 \<Rightarrow> parseEventOptions m9),
      d_identifier = Some m5, d_methodName = Some m7\<rparr>"
    by (simp add: parseActionDescriptorString_def tr first)
  show ?thesis
  proof (cases m2)
    case (Some ev)
    note sh = descriptor_short_event [OF one first [unfolded Some]]
    let ?s' = "ev @ target_suffix m4 @ ''->'' @ m5 @ CHR ''#'' # m7"
    have "\<forall>c \<in> set ?s'. \<not> is_ws c" using assms(2) unfolding sh(1) by auto
    note p = parsed_short [OF sh(7) this]
    have "Action_toString a = ?s'"
      using assms(1) sh(3,4,5) stringify_target [OF sh(6), of "tok_element tok"]
      by (auto simp: Action_forToken_def parse Some new_Action_def or_else_def Action_toString_def target_suffix_def Let_def split: option.split)
    with assms(1) p sh(3,4,5) show ?thesis
      by (auto simp: Action_forToken_def parse Some new_Action_def or_else_def)
  next
    case None
    obtain ev where ev: "getDefaultEventNameForElement d (tok_element tok) = Some ev"
      using assms(1) by (cases "getDefaultEventNameForElement d (tok_element tok)")
        (auto simp: Action_forToken_def parse None new_Action_def or_else_def)
    note de = default_event_name [OF ev]
    have o: "one_line ev" and e: "ev \<noteq> []" "CHR ''-'' \<notin> set ev" "CHR ''@'' \<notin> set ev"
      using de no_ws_one_line by auto
    note sh = descriptor_short_plain [OF one o first [unfolded None] e]
    let ?s' = "ev @ ''->'' @ m5 @ CHR ''#'' # m7"
    have ws: "\<not> is_ws (CHR ''-'')" "\<not> is_ws (CHR ''>'')" "\<not> is_ws (CHR ''#'')" by (simp_all add: is_ws_def)
    have "\<forall>c \<in> set ?s'. \<not> is_ws c" using assms(2) de ws unfolding sh(2) by auto
    note p = parsed_short [OF sh(5) this]
    have "Action_toString a = ?s'"
      using assms(1) sh(1,3,4) de ev
      by (auto simp: Action_forToken_def parse None new_Action_def or_else_def Action_toString_def Let_def)
    with assms(1) p sh(1,3,4) de ev show ?thesis
      by (auto simp: Action_forToken_def parse None new_Action_def or_else_def)
  qed
qed

theorem action_round_trip_witness:
  "Action_forToken [El 0 ''form'' [] []] \<lparr>tok_id = 0, tok_element = 0, tok_attributeName = ''data-action'',
      tok_content = ''submit->unicast#send'', tok_index = 0\<rparr>
   = Inr \<lparr>act_id = 0, act_element = 0, act_index = 0, act_eventTarget = Element 0, act_eventName = ''submit'',
      act_eventOptions = [], act_identifier = ''unicast'', act_methodName = ''send''\<rparr>"
proof -
  let ?tok = "\<lparr>tok_id = 0, tok_element = 0, tok_attributeName = ''data-action'',
      tok_content = ''unicast#send:once:!passive'', tok_index = 0\<rparr>"
  let ?a = "\<lparr>act_id = 0, act_element = 0, act_index = 0, act_eventTarget = Element 0, act_eventName = ''submit'',
      act_eventOptions = [(''once'', True), (''passive'', False)], act_identifier = ''unicast'', act_methodName = ''send''\<rparr>"
  have "Action_forToken [El 0 ''form'' [] []] ?tok = Inr ?a" by code_simp
  moreover have "\<forall>c \<in> set (tok_content ?tok). \<not> is_ws c" by code_simp
  moreover have "Action_toString ?a = ''submit->unicast#send''" by code_simp
  ultimately show ?thesis using action_round_trip [of "[El 0 ''form'' [] []]" ?tok ?a] by simp
qed

end
