(* ===== verification/Router.thy ===== *)
theory Router
  imports Multimap
begin

text \<open>
  \<open>Scope\<close>, \<open>Module\<close>, \<open>Context\<close> and \<open>Router\<close> of stimulus.js, as far as they create, connect
  and disconnect controllers. A \<open>Scope\<close> is created once for an element and an identifier
  (\<open>ScopeObserver\<close> keeps it), so the pair is its identity. A \<open>Module\<close> is created by every
  \<open>loadDefinition\<close> and has a number; a \<open>Context\<close>, with its controller, is created once for a
  module and a scope. What happens to contexts is written to a log: \<open>Initialize\<close> when the
  constructor of \<open>Context\<close> has created the controller and calls its \<open>initialize\<close>,
  \<open>Connect\<close> and \<open>Disconnect\<close> for the methods of that name. Exceptions of the controller's
  methods are caught there and change nothing.
\<close>

section \<open>Modules\<close>

record scope =
  scope_element :: nat
  scope_identifier :: string

record ctx =
  ctx_module :: nat
  ctx_scope :: scope

datatype lifecycle = Initialize ctx | Connect ctx | Disconnect ctx

record module =
  module_id :: nat
  module_identifier :: string
  contextsByScope :: "(scope, ctx) jsmap"
  connectedContexts :: "ctx list"

definition new_Module :: "nat \<Rightarrow> string \<Rightarrow> module" where
  "new_Module i identifier = \<lparr>module_id = i, module_identifier = identifier,
     contextsByScope = [], connectedContexts = []\<rparr>"

definition fetchContextForScope :: "scope \<Rightarrow> module \<Rightarrow> ctx \<times> module \<times> lifecycle list" where
  "fetchContextForScope sc m = (case map_of (contextsByScope m) sc of
     Some c \<Rightarrow> (c, m, [])
   | None \<Rightarrow> (let c = \<lparr>ctx_module = module_id m, ctx_scope = sc\<rparr>
       in (c, m\<lparr>contextsByScope := AList.update sc c (contextsByScope m)\<rparr>, [Initialize c])))"

definition connectContextForScope :: "scope \<Rightarrow> module \<Rightarrow> module \<times> lifecycle list" where
  "connectContextForScope sc m =
     (let (c, m, log) = fetchContextForScope sc m
      in (m\<lparr>connectedContexts := set_add c (connectedContexts m)\<rparr>, log @ [Connect c]))"

definition disconnectContextForScope :: "scope \<Rightarrow> module \<Rightarrow> module \<times> lifecycle list" where
  "disconnectContextForScope sc m = (case map_of (contextsByScope m) sc of
     None \<Rightarrow> (m, [])
   | Some c \<Rightarrow> (m\<lparr>connectedContexts := set_delete c (connectedContexts m)\<rparr>, [Disconnect c]))"

section \<open>Router\<close>

record router =
  scopesByIdentifier :: "(string, scope) multimap"
  modulesByIdentifier :: "(string, module) jsmap"
  next_module :: nat
  lifecycles :: "lifecycle list"

definition new_Router :: router where
  "new_Router = \<lparr>scopesByIdentifier = new_Multimap, modulesByIdentifier = [], next_module = 0,
     lifecycles = []\<rparr>"

definition scopeConnected :: "scope \<Rightarrow> router \<Rightarrow> router" where
  "scopeConnected sc r =
     (let r = r\<lparr>scopesByIdentifier := Multimap_add (scopesByIdentifier r) (scope_identifier sc) sc\<rparr>
      in case map_of (modulesByIdentifier r) (scope_identifier sc) of
           None \<Rightarrow> r
         | Some m \<Rightarrow> (let (m, log) = connectContextForScope sc m
             in r\<lparr>modulesByIdentifier := AList.update (scope_identifier sc) m (modulesByIdentifier r),
                  lifecycles := lifecycles r @ log\<rparr>))"

definition scopeDisconnected :: "scope \<Rightarrow> router \<Rightarrow> router" where
  "scopeDisconnected sc r =
     (let r = r\<lparr>scopesByIdentifier := Multimap_delete (scopesByIdentifier r) (scope_identifier sc) sc\<rparr>
      in case map_of (modulesByIdentifier r) (scope_identifier sc) of
           None \<Rightarrow> r
         | Some m \<Rightarrow> (let (m, log) = disconnectContextForScope sc m
             in r\<lparr>modulesByIdentifier := AList.update (scope_identifier sc) m (modulesByIdentifier r),
                  lifecycles := lifecycles r @ log\<rparr>))"

definition connectModule :: "module \<Rightarrow> router \<Rightarrow> router" where
  "connectModule m r =
     (let r = r\<lparr>modulesByIdentifier := AList.update (module_identifier m) m (modulesByIdentifier r)\<rparr>;
          scopes = getValuesForKey (scopesByIdentifier r) (module_identifier m);
          (m, log) = each connectContextForScope scopes m
      in r\<lparr>modulesByIdentifier := AList.update (module_identifier m) m (modulesByIdentifier r),
           lifecycles := lifecycles r @ log\<rparr>)"

text \<open>The module has left the map when its contexts are disconnected; it is not kept.\<close>

definition disconnectModule :: "module \<Rightarrow> router \<Rightarrow> router" where
  "disconnectModule m r =
     (let r = r\<lparr>modulesByIdentifier := AList.delete (module_identifier m) (modulesByIdentifier r)\<rparr>;
          scopes = getValuesForKey (scopesByIdentifier r) (module_identifier m);
          (m, log) = each disconnectContextForScope scopes m
      in r\<lparr>lifecycles := lifecycles r @ log\<rparr>)"

definition unloadIdentifier :: "string \<Rightarrow> router \<Rightarrow> router" where
  "unloadIdentifier identifier r = (case map_of (modulesByIdentifier r) identifier of
     None \<Rightarrow> r
   | Some m \<Rightarrow> disconnectModule m r)"

definition loadDefinition :: "string \<Rightarrow> router \<Rightarrow> router" where
  "loadDefinition identifier r =
     (let r = unloadIdentifier identifier r;
          m = new_Module (next_module r) identifier
      in connectModule m (r\<lparr>next_module := Suc (next_module r)\<rparr>))"

definition getContextForElementAndIdentifier :: "router \<Rightarrow> nat \<Rightarrow> string \<Rightarrow> ctx option" where
  "getContextForElementAndIdentifier r element identifier =
     (case map_of (modulesByIdentifier r) identifier of
        None \<Rightarrow> None
      | Some m \<Rightarrow> find (\<lambda>c. scope_element (ctx_scope c) = element) (connectedContexts m))"

definition Router_contexts :: "router \<Rightarrow> ctx list" where
  "Router_contexts r = foldl (\<lambda>contexts m. contexts @ connectedContexts m) []
     (map snd (modulesByIdentifier r))"

section \<open>The life of a context\<close>

text \<open>
  A context is fresh until it is initialised; then connecting and disconnecting take turns,
  connecting first. \<open>None\<close> is any other order.
\<close>

datatype life = Fresh | Created | Connected

fun live :: "lifecycle \<Rightarrow> ctx \<Rightarrow> life option \<Rightarrow> life option" where
  "live (Initialize c) x l = (if c = x then (if l = Some Fresh then Some Created else None) else l)"
| "live (Connect c) x l = (if c = x then (if l = Some Created then Some Connected else None) else l)"
| "live (Disconnect c) x l = (if c = x then (if l = Some Connected then Some Created else None) else l)"

definition life_of :: "lifecycle list \<Rightarrow> ctx \<Rightarrow> life option" where
  "life_of log x = fold (\<lambda>ev. live ev x) log (Some Fresh)"

lemma life_of_Nil [simp]: "life_of [] x = Some Fresh"
  by (simp add: life_of_def)

lemma life_of_append: "life_of (log @ evs) x = fold (\<lambda>ev. live ev x) evs (life_of log x)"
  by (simp add: life_of_def)

text \<open>The invariant of a module, given the log so far and the scopes of its identifier.\<close>

definition module_ok :: "lifecycle list \<Rightarrow> scope set \<Rightarrow> string \<Rightarrow> module \<Rightarrow> bool" where
  "module_ok log S identifier m \<longleftrightarrow> module_identifier m = identifier
     \<and> distinct (connectedContexts m)
     \<and> ctx_scope ` set (connectedContexts m) = S
     \<and> (\<forall>c \<in> set (connectedContexts m). map_of (contextsByScope m) (ctx_scope c) = Some c)
     \<and> (\<forall>sc c. map_of (contextsByScope m) sc = Some c \<longrightarrow> c = \<lparr>ctx_module = module_id m, ctx_scope = sc\<rparr>)
     \<and> (\<forall>c. ctx_module c = module_id m \<longrightarrow> life_of log c = Some
          (if c \<in> set (connectedContexts m) then Connected
           else if map_of (contextsByScope m) (ctx_scope c) \<noteq> None then Created else Fresh))"

lemma module_ok_new:
  "(\<And>c. ctx_module c = i \<Longrightarrow> life_of log c = Some Fresh) \<Longrightarrow> module_ok log {} identifier (new_Module i identifier)"
  by (simp add: module_ok_def new_Module_def)

lemma module_ok_context:
  assumes "module_ok log S i m" and "c \<in> set (connectedContexts m)"
  shows "c = \<lparr>ctx_module = module_id m, ctx_scope = ctx_scope c\<rparr>" "ctx_scope c \<in> S"
  using assms unfolding module_ok_def by blast+

lemma module_ok_lookup:
  "module_ok log S i m \<Longrightarrow> c \<in> set (connectedContexts m) \<Longrightarrow> map_of (contextsByScope m) (ctx_scope c) = Some c"
  by (simp add: module_ok_def)

lemma module_ok_life:
  "module_ok log S i m \<Longrightarrow> ctx_module c = module_id m \<Longrightarrow> life_of log c = Some
     (if c \<in> set (connectedContexts m) then Connected
      else if map_of (contextsByScope m) (ctx_scope c) \<noteq> None then Created else Fresh)"
  by (simp add: module_ok_def)

lemma module_connected_iff:
  assumes "module_ok log S i m"
  shows "c \<in> set (connectedContexts m) \<longleftrightarrow> ctx_module c = module_id m \<and> ctx_scope c \<in> S"
proof
  assume "c \<in> set (connectedContexts m)"
  with module_ok_context [OF assms this] show "ctx_module c = module_id m \<and> ctx_scope c \<in> S"
    by (metis ctx.select_convs(1))
next
  assume c: "ctx_module c = module_id m \<and> ctx_scope c \<in> S"
  then obtain c' where c': "c' \<in> set (connectedContexts m)" "ctx_scope c' = ctx_scope c"
    using assms by (auto simp: module_ok_def)
  with module_ok_context(1) [OF assms c'(1)] c have "c' = c" by simp
  with c' show "c \<in> set (connectedContexts m)" by simp
qed

lemma connectContext_ok:
  assumes ok: "module_ok log S i m" and new: "sc \<notin> S" and step: "(m', evs) = connectContextForScope sc m"
  shows "module_ok (log @ evs) (insert sc S) i m' \<and> module_id m' = module_id m
    \<and> (\<forall>c. ctx_module c \<noteq> module_id m \<longrightarrow> life_of (log @ evs) c = life_of log c)"
proof -
  let ?c = "\<lparr>ctx_module = module_id m, ctx_scope = sc\<rparr>"
  have notin: "?c \<notin> set (connectedContexts m)" using module_connected_iff [OF ok] new by simp
  have known: "map_of (contextsByScope m) sc = None \<or> map_of (contextsByScope m) sc = Some ?c"
    using ok by (cases "map_of (contextsByScope m) sc") (auto simp: module_ok_def)
  define m1 where "m1 = (if map_of (contextsByScope m) sc = None
    then m\<lparr>contextsByScope := AList.update sc ?c (contextsByScope m)\<rparr> else m)"
  have m': "m' = m1\<lparr>connectedContexts := set_add ?c (connectedContexts m)\<rparr>"
    and evs: "evs = (if map_of (contextsByScope m) sc = None then [Initialize ?c] else []) @ [Connect ?c]"
    using step known
    by (auto simp: connectContextForScope_def fetchContextForScope_def m1_def Let_def)
  have ctx1: "map_of (contextsByScope m1) x = (if x = sc then Some ?c else map_of (contextsByScope m) x)" for x
    using known by (auto simp: m1_def)
  have life: "life_of (log @ evs) x = (if x = ?c then Some Connected else life_of log x)" for x
  proof (cases "x = ?c")
    case True
    have "life_of log ?c = Some (if map_of (contextsByScope m) sc \<noteq> None then Created else Fresh)"
      using module_ok_life [OF ok, of ?c] notin by simp
    with True evs show ?thesis by (auto simp: life_of_append)
  qed (auto simp: life_of_append evs)
  have "module_ok (log @ evs) (insert sc S) i m'"
    unfolding module_ok_def
  proof (intro conjI allI impI ballI)
    show "ctx_scope ` set (connectedContexts m') = insert sc S" using ok by (auto simp: m' module_ok_def)
  next
    fix c assume "c \<in> set (connectedContexts m')"
    then show "map_of (contextsByScope m') (ctx_scope c) = Some c"
      using ok new by (auto simp: m' ctx1 module_ok_def)
  next
    fix x c assume "map_of (contextsByScope m') x = Some c"
    then show "c = \<lparr>ctx_module = module_id m', ctx_scope = x\<rparr>"
      using ok by (auto simp: m' ctx1 m1_def module_ok_def split: if_splits)
  next
    fix c :: ctx
    assume "ctx_module c = module_id m'"
    then have cm: "ctx_module c = module_id m" by (simp add: m' m1_def)
    have "c \<noteq> ?c \<Longrightarrow> ctx_scope c \<noteq> sc" using cm by auto
    then show "life_of (log @ evs) c = Some (if c \<in> set (connectedContexts m') then Connected
        else if map_of (contextsByScope m') (ctx_scope c) \<noteq> None then Created else Fresh)"
      using module_ok_life [OF ok cm] by (auto simp: life m' ctx1)
  qed (use ok in \<open>auto simp: m' m1_def module_ok_def\<close>)
  then show ?thesis by (auto simp: m' m1_def life)
qed

lemma disconnectContext_ok:
  assumes ok: "module_ok log S i m" and sc: "sc \<in> S" and step: "(m', evs) = disconnectContextForScope sc m"
  shows "module_ok (log @ evs) (S - {sc}) i m' \<and> module_id m' = module_id m
    \<and> (\<forall>c. ctx_module c \<noteq> module_id m \<longrightarrow> life_of (log @ evs) c = life_of log c)"
proof -
  let ?c = "\<lparr>ctx_module = module_id m, ctx_scope = sc\<rparr>"
  have conn: "?c \<in> set (connectedContexts m)" using module_connected_iff [OF ok] sc by simp
  have known: "map_of (contextsByScope m) sc = Some ?c" using module_ok_lookup [OF ok conn] by simp
  have m': "m' = m\<lparr>connectedContexts := set_delete ?c (connectedContexts m)\<rparr>" and evs: "evs = [Disconnect ?c]"
    using step known by (auto simp: disconnectContextForScope_def)
  have life: "life_of (log @ evs) x = (if x = ?c then Some Created else life_of log x)" for x
  proof (cases "x = ?c")
    case True
    have "life_of log ?c = Some Connected" using module_ok_life [OF ok, of ?c] conn by simp
    with True evs show ?thesis by (auto simp: life_of_append)
  qed (auto simp: life_of_append evs)
  have inj: "c \<in> set (connectedContexts m) \<Longrightarrow> ctx_scope c = sc \<Longrightarrow> c = ?c" for c
    using module_ok_lookup [OF ok, of c] known by simp
  have "module_ok (log @ evs) (S - {sc}) i m'"
    unfolding module_ok_def
  proof (intro conjI allI impI ballI)
    have S: "ctx_scope ` set (connectedContexts m) = S" using ok by (simp add: module_ok_def)
    show "ctx_scope ` set (connectedContexts m') = S - {sc}"
    proof (rule set_eqI)
      fix x
      show "x \<in> ctx_scope ` set (connectedContexts m') \<longleftrightarrow> x \<in> S - {sc}"
        unfolding S [symmetric] m' using inj by (force simp: image_iff)
    qed
  next
    fix c :: ctx
    assume "ctx_module c = module_id m'"
    then have cm: "ctx_module c = module_id m" by (simp add: m')
    show "life_of (log @ evs) c = Some (if c \<in> set (connectedContexts m') then Connected
        else if map_of (contextsByScope m') (ctx_scope c) \<noteq> None then Created else Fresh)"
      using module_ok_life [OF ok cm] known by (auto simp: life m')
  qed (use ok in \<open>auto simp: m' module_ok_def\<close>)
  then show ?thesis by (auto simp: m' life)
qed

lemma module_ok_log:
  assumes "module_ok log S i m" and "\<And>c. ctx_module c = module_id m \<Longrightarrow> life_of log' c = life_of log c"
  shows "module_ok log' S i m"
  using assms unfolding module_ok_def by simp

section \<open>The invariant of the router\<close>

abbreviation scopes_at :: "router \<Rightarrow> string \<Rightarrow> scope list" where
  "scopes_at r i \<equiv> getValuesForKey (scopesByIdentifier r) i"

text \<open>
  Every registered module has a connected context for exactly the scopes of its identifier;
  the log is in order for every context, and no context of a module that was unloaded is
  connected.
\<close>

definition router_ok :: "router \<Rightarrow> bool" where
  "router_ok r \<longleftrightarrow> multimap_wf (scopesByIdentifier r)
     \<and> (\<forall>i. \<forall>sc \<in> set (scopes_at r i). scope_identifier sc = i)
     \<and> (\<forall>i m. map_of (modulesByIdentifier r) i = Some m \<longrightarrow>
          module_ok (lifecycles r) (set (scopes_at r i)) i m \<and> module_id m < next_module r)
     \<and> (\<forall>i j m m'. map_of (modulesByIdentifier r) i = Some m \<longrightarrow> map_of (modulesByIdentifier r) j = Some m' \<longrightarrow>
          module_id m = module_id m' \<longrightarrow> i = j)
     \<and> (\<forall>c. life_of (lifecycles r) c \<noteq> None)
     \<and> (\<forall>c. next_module r \<le> ctx_module c \<longrightarrow> life_of (lifecycles r) c = Some Fresh)
     \<and> (\<forall>c. life_of (lifecycles r) c = Some Connected \<longrightarrow>
          (\<exists>i m. map_of (modulesByIdentifier r) i = Some m \<and> c \<in> set (connectedContexts m)))"

lemma router_ok_new [simp]: "router_ok new_Router"
  using mm.inv_empty by (simp add: router_ok_def new_Router_def getValuesForKey_def new_Multimap_def)

lemma scopes_at_add:
  "getValuesForKey (Multimap_add m k v) i = (if i = k then set_add v (getValuesForKey m i) else getValuesForKey m i)"
  by (simp add: getValuesForKey_at Multimap_add_def setmap_at_add)

lemma scopes_at_delete:
  "getValuesForKey (Multimap_delete m k v) i = (if i = k then set_delete v (getValuesForKey m i) else getValuesForKey m i)"
  by (simp add: getValuesForKey_at Multimap_delete_def setmap_at_del)

text \<open>What the operations on one module leave of the others.\<close>

lemma router_modules:
  "router_ok r \<Longrightarrow> map_of (modulesByIdentifier r) j = Some mj \<Longrightarrow>
     module_ok (lifecycles r) (set (scopes_at r j)) j mj \<and> module_id mj < next_module r"
  by (simp add: router_ok_def)

lemma router_other:
  assumes "router_ok r" and "map_of (modulesByIdentifier r) j = Some mj" and "module_id mj \<noteq> k"
    and "\<And>c. ctx_module c \<noteq> k \<Longrightarrow> life_of (lifecycles r @ evs) c = life_of (lifecycles r) c"
  shows "module_ok (lifecycles r @ evs) (set (scopes_at r j)) j mj"
  using router_modules [OF assms(1,2)] assms(3,4) by (auto intro: module_ok_log)

lemma router_life_known:
  assumes "router_ok r" and "module_ok (lifecycles r @ evs) S i m'"
    and "\<And>c. ctx_module c \<noteq> module_id m' \<Longrightarrow> life_of (lifecycles r @ evs) c = life_of (lifecycles r) c"
  shows "life_of (lifecycles r @ evs) c \<noteq> None"
  using assms module_ok_life [OF assms(2), of c] by (cases "ctx_module c = module_id m'") (simp_all add: router_ok_def)

lemma router_connected_other:
  assumes ok: "router_ok r" and con: "life_of (lifecycles r) c = Some Connected"
    and "\<And>m. map_of (modulesByIdentifier r) i = Some m \<Longrightarrow> ctx_module c \<noteq> module_id m"
  shows "\<exists>j mj. j \<noteq> i \<and> map_of (modulesByIdentifier r) j = Some mj \<and> c \<in> set (connectedContexts mj)"
proof -
  obtain j mj where j: "map_of (modulesByIdentifier r) j = Some mj" "c \<in> set (connectedContexts mj)"
    using ok con unfolding router_ok_def by meson
  from router_modules [OF ok j(1)] have "module_ok (lifecycles r) (set (scopes_at r j)) j mj" ..
  from module_connected_iff [OF this, of c] j(2) have "ctx_module c = module_id mj" by simp
  with j(1) assms(3) [of mj] have "j \<noteq> i" by metis
  with j show ?thesis by (intro exI [of _ j] exI [of _ mj]) simp
qed

text \<open>
  One module changes together with the scopes of its identifier, and the log grows by events
  of its contexts only.
\<close>

text \<open>A module that is put in has a number of its own.\<close>

lemma module_number_own:
  assumes ok: "router_ok r"
    and old: "case map_of (modulesByIdentifier r) i of
      Some m \<Rightarrow> module_id m' = module_id m \<and> n = next_module r
    | None \<Rightarrow> module_id m' = next_module r \<and> n = Suc (next_module r)"
  shows "module_id m' < n \<and> next_module r \<le> n"
    and "j \<noteq> i \<Longrightarrow> map_of (modulesByIdentifier r) j = Some mj \<Longrightarrow> module_id mj \<noteq> module_id m'"
proof -
  note mods = router_modules [OF ok]
  show "module_id m' < n \<and> next_module r \<le> n"
    using old mods [of i] by (auto split: option.splits)
  show "module_id mj \<noteq> module_id m'" if j: "j \<noteq> i" "map_of (modulesByIdentifier r) j = Some mj"
  proof -
    have "module_id mj \<noteq> module_id m" if "map_of (modulesByIdentifier r) i = Some m" for m
      using ok that j unfolding router_ok_def by blast
    then show ?thesis using old mods [OF j(2)] by (auto split: option.splits)
  qed
qed

lemma router_ok_update:
  assumes ok: "router_ok r"
    and old: "case map_of (modulesByIdentifier r) i of
      Some m \<Rightarrow> module_id m' = module_id m \<and> n = next_module r
    | None \<Rightarrow> module_id m' = next_module r \<and> n = Suc (next_module r)"
    and m': "module_ok (lifecycles r @ evs) (set (getValuesForKey S i)) i m'"
    and others: "\<And>c. ctx_module c \<noteq> module_id m' \<Longrightarrow> life_of (lifecycles r @ evs) c = life_of (lifecycles r) c"
    and S: "multimap_wf S" "\<And>j. j \<noteq> i \<Longrightarrow> getValuesForKey S j = scopes_at r j"
      "\<forall>sc \<in> set (getValuesForKey S i). scope_identifier sc = i"
  shows "router_ok (r\<lparr>scopesByIdentifier := S, modulesByIdentifier := AList.update i m' (modulesByIdentifier r),
    lifecycles := lifecycles r @ evs, next_module := n\<rparr>)"
proof -
  let ?r = "r\<lparr>scopesByIdentifier := S, modulesByIdentifier := AList.update i m' (modulesByIdentifier r),
    lifecycles := lifecycles r @ evs, next_module := n\<rparr>"
  note mods = router_modules [OF ok]
  note own = module_number_own [OF ok old]
  have mid: "module_id m' < n" "next_module r \<le> n" using own(1) by auto
  have other: "module_ok (lifecycles r @ evs) (set (scopes_at r j)) j mj \<and> module_id mj < n
      \<and> module_id mj \<noteq> module_id m'" if "j \<noteq> i" "map_of (modulesByIdentifier r) j = Some mj" for j mj
    using router_other [OF ok that(2) own(2) [OF that] others] own(2) [OF that] mods [OF that(2)] mid(2) by auto
  have conn: "\<exists>j mj. map_of (modulesByIdentifier ?r) j = Some mj \<and> c \<in> set (connectedContexts mj)"
    if "life_of (lifecycles r @ evs) c = Some Connected" for c
  proof (cases "ctx_module c = module_id m'")
    case True
    then have "c \<in> set (connectedContexts m')"
      using module_ok_life [OF m', of c] that by (auto split: if_splits)
    then show ?thesis by (intro exI [of _ i] exI [of _ m']) simp
  next
    case False
    then have "life_of (lifecycles r) c = Some Connected" using that others by simp
    from router_connected_other [OF ok this, of i] False old show ?thesis by force
  qed
  note some = router_life_known [OF ok m' others]
  show ?thesis
    unfolding router_ok_def
  proof (intro conjI allI impI)
    fix j mj assume "map_of (modulesByIdentifier ?r) j = Some mj"
    then show "module_ok (lifecycles ?r) (set (scopes_at ?r j)) j mj" and "module_id mj < next_module ?r"
      using other [of j mj] m' mid S(2) [of j] by (cases "j = i"; simp)+
  next
    fix j k mj mk
    assume "map_of (modulesByIdentifier ?r) j = Some mj" "map_of (modulesByIdentifier ?r) k = Some mk"
      "module_id mj = module_id mk"
    then show "j = k"
      using other [of j mj] other [of k mk] ok unfolding router_ok_def
      by (cases "j = i"; cases "k = i") auto
  next
    fix j
    show "\<forall>sc \<in> set (scopes_at ?r j). scope_identifier sc = j"
      using S(2) [of j] S(3) ok by (cases "j = i") (auto simp: router_ok_def)
  next
    fix c :: ctx
    assume "next_module ?r \<le> ctx_module c"
    then show "life_of (lifecycles ?r) c = Some Fresh" using others mid ok by (auto simp: router_ok_def)
  qed (use S(1) some conn in simp_all)
qed

text \<open>The scopes change and no module has their identifier.\<close>

lemma router_ok_scopes:
  assumes ok: "router_ok r" and m: "map_of (modulesByIdentifier r) i = None"
    and S: "multimap_wf S" "\<And>j. j \<noteq> i \<Longrightarrow> getValuesForKey S j = scopes_at r j"
      "\<forall>sc \<in> set (getValuesForKey S i). scope_identifier sc = i"
  shows "router_ok (r\<lparr>scopesByIdentifier := S\<rparr>)"
  unfolding router_ok_def
proof (intro conjI allI impI)
  fix j mj assume "map_of (modulesByIdentifier (r\<lparr>scopesByIdentifier := S\<rparr>)) j = Some mj"
  then show "module_ok (lifecycles (r\<lparr>scopesByIdentifier := S\<rparr>))
      (set (scopes_at (r\<lparr>scopesByIdentifier := S\<rparr>) j)) j mj"
    and "module_id mj < next_module (r\<lparr>scopesByIdentifier := S\<rparr>)"
    using ok m S(2) [of j] by (cases "j = i"; auto simp: router_ok_def)+
next
  fix j
  show "\<forall>sc \<in> set (scopes_at (r\<lparr>scopesByIdentifier := S\<rparr>) j). scope_identifier sc = j"
    using S(2) [of j] S(3) ok by (cases "j = i") (auto simp: router_ok_def)
qed (use ok S(1) in \<open>auto simp: router_ok_def\<close>)

lemma router_ok_remove:
  assumes ok: "router_ok r" and m: "map_of (modulesByIdentifier r) i = Some m"
    and m': "module_ok (lifecycles r @ evs) {} i m'" "module_id m' = module_id m"
    and others: "\<And>c. ctx_module c \<noteq> module_id m \<Longrightarrow> life_of (lifecycles r @ evs) c = life_of (lifecycles r) c"
  shows "router_ok (r\<lparr>modulesByIdentifier := AList.delete i (modulesByIdentifier r),
    lifecycles := lifecycles r @ evs\<rparr>)"
proof -
  let ?r = "r\<lparr>modulesByIdentifier := AList.delete i (modulesByIdentifier r), lifecycles := lifecycles r @ evs\<rparr>"
  note mods = router_modules [OF ok]
  have other: "module_ok (lifecycles r @ evs) (set (scopes_at r j)) j mj"
    if "j \<noteq> i" "map_of (modulesByIdentifier r) j = Some mj" for j mj
  proof -
    have "module_id mj \<noteq> module_id m" using ok m that unfolding router_ok_def by blast
    from router_other [OF ok that(2) this others] show ?thesis .
  qed
  have none: "connectedContexts m' = []" using m'(1) by (simp add: module_ok_def)
  have conn: "\<exists>j mj. map_of (modulesByIdentifier ?r) j = Some mj \<and> c \<in> set (connectedContexts mj)"
    if "life_of (lifecycles r @ evs) c = Some Connected" for c
  proof -
    have cm: "ctx_module c \<noteq> module_id m"
      using module_ok_life [OF m'(1), of c] m'(2) none that by (auto split: if_splits)
    then have "life_of (lifecycles r) c = Some Connected" using that others by simp
    from router_connected_other [OF ok this, of i] cm m show ?thesis by force
  qed
  note some = router_life_known [OF ok m'(1), unfolded m'(2), OF others]
  show ?thesis
    unfolding router_ok_def
  proof (intro conjI allI impI)
    fix j mj assume "map_of (modulesByIdentifier ?r) j = Some mj"
    then show "module_ok (lifecycles ?r) (set (scopes_at ?r j)) j mj" and "module_id mj < next_module ?r"
      using other [of j mj] mods [of j mj] by (cases "j = i"; simp)+
  next
    fix j k mj mk
    assume "map_of (modulesByIdentifier ?r) j = Some mj" "map_of (modulesByIdentifier ?r) k = Some mk"
      "module_id mj = module_id mk"
    then show "j = k"
      using ok unfolding router_ok_def by (cases "j = i"; cases "k = i") auto
  next
    fix c :: ctx
    assume "next_module ?r \<le> ctx_module c"
    then show "life_of (lifecycles ?r) c = Some Fresh"
      using others mods [OF m] ok by (auto simp: router_ok_def)
  qed (use ok some conn in \<open>auto simp: router_ok_def\<close>)
qed

lemma each_connect_ok:
  assumes "module_ok log S i m" and "distinct scs" and "S \<inter> set scs = {}"
    and "(m', evs) = each connectContextForScope scs m"
  shows "module_ok (log @ evs) (S \<union> set scs) i m' \<and> module_id m' = module_id m
    \<and> (\<forall>c. ctx_module c \<noteq> module_id m \<longrightarrow> life_of (log @ evs) c = life_of log c)"
  using assms
proof (induction scs arbitrary: log S m evs)
  case (Cons sc scs)
  obtain m1 e1 where one: "(m1, e1) = connectContextForScope sc m" by (metis surj_pair)
  obtain e2 where two: "(m', e2) = each connectContextForScope scs m1" and evs: "evs = e1 @ e2"
    using Cons.prems(4) by (auto simp: one [symmetric] Let_def split: prod.splits)
  have "sc \<notin> S" using Cons.prems(3) by auto
  note c = connectContext_ok [OF Cons.prems(1) this one]
  then have ok1: "module_ok (log @ e1) (insert sc S) i m1" by simp
  have "distinct scs" "insert sc S \<inter> set scs = {}" using Cons.prems(2,3) by auto
  from Cons.IH [OF ok1 this two] c show ?case by (simp add: evs)
qed simp

lemma each_disconnect_ok:
  assumes "module_ok log S i m" and "distinct scs" and "set scs \<subseteq> S"
    and "(m', evs) = each disconnectContextForScope scs m"
  shows "module_ok (log @ evs) (S - set scs) i m' \<and> module_id m' = module_id m
    \<and> (\<forall>c. ctx_module c \<noteq> module_id m \<longrightarrow> life_of (log @ evs) c = life_of log c)"
  using assms
proof (induction scs arbitrary: log S m evs)
  case (Cons sc scs)
  obtain m1 e1 where one: "(m1, e1) = disconnectContextForScope sc m" by (metis surj_pair)
  obtain e2 where two: "(m', e2) = each disconnectContextForScope scs m1" and evs: "evs = e1 @ e2"
    using Cons.prems(4) by (auto simp: one [symmetric] Let_def split: prod.splits)
  have "sc \<in> S" using Cons.prems(3) by auto
  note c = disconnectContext_ok [OF Cons.prems(1) this one]
  then have ok1: "module_ok (log @ e1) (S - {sc}) i m1" by simp
  have "distinct scs" "set scs \<subseteq> S - {sc}" using Cons.prems(2,3) by auto
  from Cons.IH [OF ok1 this two] c show ?case by (simp add: evs Diff_insert2 [symmetric])
qed simp

section \<open>Every operation keeps the invariant\<close>

lemma router_ok_wf: "router_ok r \<Longrightarrow> multimap_wf (scopesByIdentifier r)"
  by (simp add: router_ok_def)

lemma router_same_next: "r\<lparr>next_module := next_module r\<rparr> = (r :: router)"
  by simp

lemma scopeConnected_ok:
  assumes ok: "router_ok r" and new: "sc \<notin> set (scopes_at r (scope_identifier sc))"
  shows "router_ok (scopeConnected sc r)"
    and "scopesByIdentifier (scopeConnected sc r) = Multimap_add (scopesByIdentifier r) (scope_identifier sc) sc"
proof -
  let ?i = "scope_identifier sc" and ?S = "Multimap_add (scopesByIdentifier r) (scope_identifier sc) sc"
  show "scopesByIdentifier (scopeConnected sc r) = ?S"
    by (simp add: scopeConnected_def Let_def case_prod_unfold split: option.split)
  have S: "multimap_wf ?S" "\<And>j. j \<noteq> ?i \<Longrightarrow> getValuesForKey ?S j = scopes_at r j"
    "\<forall>s \<in> set (getValuesForKey ?S ?i). scope_identifier s = ?i"
    using ok mm.inv_ins router_ok_wf [OF ok] by (auto simp: scopes_at_add router_ok_def)
  show "router_ok (scopeConnected sc r)"
  proof (cases "map_of (modulesByIdentifier r) ?i")
    case None
    then show ?thesis using router_ok_scopes [OF ok None S] by (simp add: scopeConnected_def)
  next
    case (Some m)
    obtain m' evs where step: "(m', evs) = connectContextForScope sc m" by (metis surj_pair)
    have "module_ok (lifecycles r) (set (scopes_at r ?i)) ?i m" using ok Some by (simp add: router_ok_def)
    from connectContext_ok [OF this new step]
    have "router_ok (r\<lparr>scopesByIdentifier := ?S, modulesByIdentifier := AList.update ?i m' (modulesByIdentifier r),
        lifecycles := lifecycles r @ evs, next_module := next_module r\<rparr>)"
      by (intro router_ok_update [OF ok _ _ _ S]) (simp_all add: Some scopes_at_add)
    then show ?thesis by (simp add: scopeConnected_def Some step [symmetric])
  qed
qed

lemma scopeDisconnected_ok:
  assumes ok: "router_ok r" and mem: "sc \<in> set (scopes_at r (scope_identifier sc))"
  shows "router_ok (scopeDisconnected sc r)"
    and "scopesByIdentifier (scopeDisconnected sc r) = Multimap_delete (scopesByIdentifier r) (scope_identifier sc) sc"
proof -
  let ?i = "scope_identifier sc" and ?S = "Multimap_delete (scopesByIdentifier r) (scope_identifier sc) sc"
  show "scopesByIdentifier (scopeDisconnected sc r) = ?S"
    by (simp add: scopeDisconnected_def Let_def case_prod_unfold split: option.split)
  have S: "multimap_wf ?S" "\<And>j. j \<noteq> ?i \<Longrightarrow> getValuesForKey ?S j = scopes_at r j"
    "\<forall>s \<in> set (getValuesForKey ?S ?i). scope_identifier s = ?i"
    using ok mm.inv_rem router_ok_wf [OF ok] by (auto simp: scopes_at_delete router_ok_def)
  show "router_ok (scopeDisconnected sc r)"
  proof (cases "map_of (modulesByIdentifier r) ?i")
    case None
    then show ?thesis using router_ok_scopes [OF ok None S] by (simp add: scopeDisconnected_def)
  next
    case (Some m)
    obtain m' evs where step: "(m', evs) = disconnectContextForScope sc m" by (metis surj_pair)
    have "module_ok (lifecycles r) (set (scopes_at r ?i)) ?i m" using ok Some by (simp add: router_ok_def)
    from disconnectContext_ok [OF this mem step]
    have "router_ok (r\<lparr>scopesByIdentifier := ?S, modulesByIdentifier := AList.update ?i m' (modulesByIdentifier r),
        lifecycles := lifecycles r @ evs, next_module := next_module r\<rparr>)"
      by (intro router_ok_update [OF ok _ _ _ S]) (simp_all add: Some scopes_at_delete)
    then show ?thesis by (simp add: scopeDisconnected_def Some step [symmetric])
  qed
qed

lemma unloadIdentifier_ok:
  assumes ok: "router_ok r"
  shows "router_ok (unloadIdentifier i r)" "scopesByIdentifier (unloadIdentifier i r) = scopesByIdentifier r"
    "map_of (modulesByIdentifier (unloadIdentifier i r)) = (map_of (modulesByIdentifier r))(i := None)"
    "next_module (unloadIdentifier i r) = next_module r"
proof -
  have "router_ok (unloadIdentifier i r) \<and> scopesByIdentifier (unloadIdentifier i r) = scopesByIdentifier r
    \<and> map_of (modulesByIdentifier (unloadIdentifier i r)) = (map_of (modulesByIdentifier r))(i := None)
    \<and> next_module (unloadIdentifier i r) = next_module r"
  proof (cases "map_of (modulesByIdentifier r) i")
    case None
    then show ?thesis using ok by (auto simp: unloadIdentifier_def)
  next
    case (Some m)
    obtain m' evs where step: "(m', evs) = each disconnectContextForScope (scopes_at r i) m" by (metis surj_pair)
    have m: "module_ok (lifecycles r) (set (scopes_at r i)) i m" using ok Some by (simp add: router_ok_def)
    have id: "module_identifier m = i" using m by (simp add: module_ok_def)
    have "distinct (scopes_at r i)" using router_ok_wf [OF ok] by (rule mm.vals_at_distinct)
    from each_disconnect_ok [OF m this subset_refl step]
    have "router_ok (r\<lparr>modulesByIdentifier := AList.delete i (modulesByIdentifier r), lifecycles := lifecycles r @ evs\<rparr>)"
      by (intro router_ok_remove [OF ok Some, where m' = m']) simp_all
    then show ?thesis by (simp add: unloadIdentifier_def Some disconnectModule_def id step [symmetric])
  qed
  then show "router_ok (unloadIdentifier i r)" "scopesByIdentifier (unloadIdentifier i r) = scopesByIdentifier r"
    "map_of (modulesByIdentifier (unloadIdentifier i r)) = (map_of (modulesByIdentifier r))(i := None)"
    "next_module (unloadIdentifier i r) = next_module r" by blast+
qed

lemma loadDefinition_ok:
  assumes ok: "router_ok r"
  shows "router_ok (loadDefinition i r)" "scopesByIdentifier (loadDefinition i r) = scopesByIdentifier r"
    "dom (map_of (modulesByIdentifier (loadDefinition i r))) = insert i (dom (map_of (modulesByIdentifier r)))"
proof -
  define r1 where "r1 = unloadIdentifier i r"
  define m where "m = new_Module (next_module r1) i"
  note u = unloadIdentifier_ok [OF ok, of i, folded r1_def]
  obtain m' evs where step: "(m', evs) = each connectContextForScope (scopes_at r1 i) m" by (metis surj_pair)
  have fresh: "life_of (lifecycles r1) c = Some Fresh" if "ctx_module c = next_module r1" for c
    using u(1) that by (simp add: router_ok_def)
  have m: "module_ok (lifecycles r1) {} i m" unfolding m_def by (rule module_ok_new) (rule fresh)
  have d: "distinct (scopes_at r1 i)" using router_ok_wf [OF u(1)] by (rule mm.vals_at_distinct)
  note e = each_connect_ok [OF m d _ step]
  have ids: "module_identifier m = i" "module_id m = next_module r1" "module_identifier m' = i"
    using e by (simp_all add: m_def new_Module_def module_ok_def)
  have upd: "AList.update i m' (AList.update i m xs) = AList.update i m' xs" for xs
    by (induction xs) auto
  have "router_ok (r1\<lparr>scopesByIdentifier := scopesByIdentifier r1,
      modulesByIdentifier := AList.update i m' (modulesByIdentifier r1),
      lifecycles := lifecycles r1 @ evs, next_module := Suc (next_module r1)\<rparr>)"
  proof (rule router_ok_update [OF u(1)])
    show "case map_of (modulesByIdentifier r1) i of
        Some m \<Rightarrow> module_id m' = module_id m \<and> Suc (next_module r1) = next_module r1
      | None \<Rightarrow> module_id m' = next_module r1 \<and> Suc (next_module r1) = Suc (next_module r1)"
      using u(3) e ids by simp
    show "\<forall>sc \<in> set (scopes_at r1 i). scope_identifier sc = i" using u(1) by (simp add: router_ok_def)
  qed (use e ids router_ok_wf [OF u(1)] in simp_all)
  moreover have "loadDefinition i r = r1\<lparr>scopesByIdentifier := scopesByIdentifier r1,
      modulesByIdentifier := AList.update i m' (modulesByIdentifier r1),
      lifecycles := lifecycles r1 @ evs, next_module := Suc (next_module r1)\<rparr>"
    by (rule router.equality) (simp_all add: loadDefinition_def r1_def [symmetric] m_def [symmetric]
        connectModule_def ids Let_def step [symmetric] upd)
  ultimately show "router_ok (loadDefinition i r)" by simp
  show "scopesByIdentifier (loadDefinition i r) = scopesByIdentifier r"
    using u(2) by (simp add: loadDefinition_def r1_def [symmetric] connectModule_def Let_def case_prod_unfold)
  show "dom (map_of (modulesByIdentifier (loadDefinition i r))) = insert i (dom (map_of (modulesByIdentifier r)))"
    using u(3) by (auto simp: loadDefinition_def r1_def [symmetric] m_def [symmetric] connectModule_def ids
        Let_def step [symmetric])
qed

text \<open>What the router answers, in terms of the scopes and the registered modules.\<close>

lemma getContext_Some:
  assumes ok: "router_ok r"
  shows "getContextForElementAndIdentifier r e i = Some c \<longleftrightarrow>
    (\<exists>m. map_of (modulesByIdentifier r) i = Some m \<and> c = \<lparr>ctx_module = module_id m,
       ctx_scope = \<lparr>scope_element = e, scope_identifier = i\<rparr>\<rparr>
       \<and> \<lparr>scope_element = e, scope_identifier = i\<rparr> \<in> set (scopes_at r i))"
proof (cases "map_of (modulesByIdentifier r) i")
  case None
  then show ?thesis by (simp add: getContextForElementAndIdentifier_def)
next
  case (Some m)
  have mok: "module_ok (lifecycles r) (set (scopes_at r i)) i m" using ok Some by (simp add: router_ok_def)
  let ?c = "\<lparr>ctx_module = module_id m, ctx_scope = \<lparr>scope_element = e, scope_identifier = i\<rparr>\<rparr>"
  have idn: "sc \<in> set (scopes_at r i) \<Longrightarrow> scope_identifier sc = i" for sc
    using ok by (simp add: router_ok_def)
  have uniq: "x \<in> set (connectedContexts m) \<and> scope_element (ctx_scope x) = e \<longleftrightarrow>
      x = ?c \<and> \<lparr>scope_element = e, scope_identifier = i\<rparr> \<in> set (scopes_at r i)" for x
    using module_connected_iff [OF mok, of x] idn [of "ctx_scope x"]
    by (cases x, cases "ctx_scope x") auto
  show ?thesis
  proof (cases "\<lparr>scope_element = e, scope_identifier = i\<rparr> \<in> set (scopes_at r i)")
    case True
    then have "find (\<lambda>c. scope_element (ctx_scope c) = e) (connectedContexts m) \<noteq> None"
      using uniq by (auto simp: find_None_iff)
    then have "find (\<lambda>c. scope_element (ctx_scope c) = e) (connectedContexts m) = Some ?c"
      using uniq by (auto simp: find_Some_iff) (metis nth_mem)
    with Some True show ?thesis by (auto simp: getContextForElementAndIdentifier_def)
  next
    case False
    then have "find (\<lambda>c. scope_element (ctx_scope c) = e) (connectedContexts m) = None"
      using uniq by (auto simp: find_None_iff)
    with Some False show ?thesis by (auto simp: getContextForElementAndIdentifier_def)
  qed
qed

lemma scope_eta: "\<lparr>scope_element = scope_element sc, scope_identifier = scope_identifier sc\<rparr> = sc"
  by simp

lemma router_connected:
  assumes ok: "router_ok r"
  shows "life_of (lifecycles r) c = Some Connected \<longleftrightarrow>
    getContextForElementAndIdentifier r (scope_element (ctx_scope c)) (scope_identifier (ctx_scope c)) = Some c"
proof
  assume "life_of (lifecycles r) c = Some Connected"
  then obtain i m where m: "map_of (modulesByIdentifier r) i = Some m" "c \<in> set (connectedContexts m)"
    using ok unfolding router_ok_def by metis
  then have mok: "module_ok (lifecycles r) (set (scopes_at r i)) i m" using ok by (simp add: router_ok_def)
  then have "ctx_scope c \<in> set (scopes_at r i)" "ctx_module c = module_id m"
    using m(2) module_connected_iff [OF mok, of c] by auto
  moreover then have "scope_identifier (ctx_scope c) = i" using ok by (simp add: router_ok_def)
  ultimately show "getContextForElementAndIdentifier r (scope_element (ctx_scope c))
      (scope_identifier (ctx_scope c)) = Some c"
    using m(1) by (auto simp: getContext_Some [OF ok] scope_eta)
next
  assume "getContextForElementAndIdentifier r (scope_element (ctx_scope c))
      (scope_identifier (ctx_scope c)) = Some c"
  then obtain m where m: "map_of (modulesByIdentifier r) (scope_identifier (ctx_scope c)) = Some m"
    "c \<in> set (connectedContexts m)"
    by (auto simp: getContextForElementAndIdentifier_def find_Some_iff split: option.splits)
  then have "module_ok (lifecycles r) (set (scopes_at r (scope_identifier (ctx_scope c))))
      (scope_identifier (ctx_scope c)) m"
    using ok by (simp add: router_ok_def)
  with m(2) show "life_of (lifecycles r) c = Some Connected"
    using module_connected_iff [of _ _ _ m c] by (auto simp: module_ok_def)
qed

end
