(* ===== verification/Scope_Targets.thy ===== *)
theory Scope_Targets
  imports Element_Observer Router
begin

text \<open>
  What a controller sees of the document, from stimulus.js: \<open>Scope\<close> with its targets
  (\<open>TargetSet\<close>), data (\<open>DataMap\<close>) and classes (\<open>ClassMap\<close>), the \<open>Guide\<close> that warns about
  old attributes, and the spellings of names (\<open>camelize\<close>, \<open>capitalize\<close>, \<open>dasherize\<close>).
\<close>

section \<open>Spelling\<close>

definition camel_char :: "char \<Rightarrow> bool" where
  "camel_char c \<longleftrightarrow> is_lower c \<or> (48 \<le> (of_char c :: nat) \<and> (of_char c :: nat) \<le> 57)"

definition is_sep :: "char \<Rightarrow> bool" where
  "is_sep c \<longleftrightarrow> c = CHR ''_'' \<or> c = CHR ''-''"

fun camelize :: "string \<Rightarrow> string" where
  "camelize (c # x # s) = (if is_sep c \<and> camel_char x then upper_char x # camelize s else c # camelize (x # s))"
| "camelize [c] = [c]"
| "camelize [] = []"

definition capitalize :: "string \<Rightarrow> string" where
  "capitalize s = map upper_char (take 1 s) @ drop 1 s"

definition dasherize :: "string \<Rightarrow> string" where
  "dasherize s = concat (map (\<lambda>c. if is_upper c then [CHR ''-'', lower_char c] else [c]) s)"

section \<open>Guide\<close>

record guide =
  warnedKeysByObject :: "(nat, string list) jsmap"
  warnings :: "(string \<times> nat) list"

definition new_Guide :: guide where
  "new_Guide = \<lparr>warnedKeysByObject = [], warnings = []\<rparr>"

definition Guide_warn :: "nat \<Rightarrow> string \<Rightarrow> string \<Rightarrow> guide \<Rightarrow> guide" where
  "Guide_warn object key message g =
     (let warnedKeys = (case map_of (warnedKeysByObject g) object of None \<Rightarrow> [] | Some ks \<Rightarrow> ks);
          g = (if map_of (warnedKeysByObject g) object = None
               then g\<lparr>warnedKeysByObject := AList.update object [] (warnedKeysByObject g)\<rparr> else g)
      in if key \<in> set warnedKeys then g
         else g\<lparr>warnedKeysByObject := AList.update object (set_add key warnedKeys) (warnedKeysByObject g),
                warnings := warnings g @ [(message, object)]\<rparr>)"

section \<open>Scope\<close>

definition attributeValueContainsToken :: "string \<Rightarrow> string \<Rightarrow> selector" where
  "attributeValueContainsToken attributeName tok = AttrToken attributeName tok"

definition controllerSelector :: "scope \<Rightarrow> selector" where
  "controllerSelector sc = attributeValueContainsToken ''data-controller'' (scope_identifier sc)"

definition containsElement :: "dom \<Rightarrow> scope \<Rightarrow> nat \<Rightarrow> bool" where
  "containsElement d sc element \<longleftrightarrow> closest d element (controllerSelector sc) = Some (scope_element sc)"

definition queryElements :: "dom \<Rightarrow> scope \<Rightarrow> selector \<Rightarrow> nat list" where
  "queryElements d sc sel = querySelectorAll d (scope_element sc) sel"

definition findElement :: "dom \<Rightarrow> scope \<Rightarrow> selector \<Rightarrow> nat option" where
  "findElement d sc sel = (if matches d sel (scope_element sc) then Some (scope_element sc)
     else find (containsElement d sc) (queryElements d sc sel))"

definition findAllElements :: "dom \<Rightarrow> scope \<Rightarrow> selector \<Rightarrow> nat list" where
  "findAllElements d sc sel = (if matches d sel (scope_element sc) then [scope_element sc] else [])
     @ filter (containsElement d sc) (queryElements d sc sel)"

section \<open>TargetSet\<close>

definition targetAttribute :: string where
  "targetAttribute = ''data-target''"

definition getSelectorForTargetName :: "scope \<Rightarrow> string \<Rightarrow> selector" where
  "getSelectorForTargetName sc targetName =
     (let attributeName = ''data-'' @ scope_identifier sc @ ''-target''
      in attributeValueContainsToken attributeName targetName)"

definition getLegacySelectorForTargetName :: "scope \<Rightarrow> string \<Rightarrow> selector" where
  "getLegacySelectorForTargetName sc targetName =
     (let targetDescriptor = scope_identifier sc @ ''.'' @ targetName
      in attributeValueContainsToken targetAttribute targetDescriptor)"

definition findTarget :: "dom \<Rightarrow> scope \<Rightarrow> string \<Rightarrow> nat option" where
  "findTarget d sc targetName = findElement d sc (getSelectorForTargetName sc targetName)"

definition findAllTargets :: "dom \<Rightarrow> scope \<Rightarrow> string \<Rightarrow> nat list" where
  "findAllTargets d sc targetName = findAllElements d sc (getSelectorForTargetName sc targetName)"

definition deprecate :: "scope \<Rightarrow> string \<Rightarrow> nat \<Rightarrow> guide \<Rightarrow> guide" where
  "deprecate sc targetName element = Guide_warn element (''target:'' @ targetName)
     (''Please replace '' @ targetAttribute @ ''=\"'' @ scope_identifier sc @ ''.'' @ targetName
      @ ''\" with data-'' @ scope_identifier sc @ ''-target=\"'' @ targetName @ ''\". ''
      @ ''The '' @ targetAttribute
      @ '' attribute is deprecated and will be removed in a future version of Stimulus.'')"

definition findLegacyTarget :: "dom \<Rightarrow> scope \<Rightarrow> string \<Rightarrow> guide \<Rightarrow> nat option \<times> guide" where
  "findLegacyTarget d sc targetName g =
     (case findElement d sc (getLegacySelectorForTargetName sc targetName) of
        None \<Rightarrow> (None, g)
      | Some e \<Rightarrow> (Some e, deprecate sc targetName e g))"

definition findAllLegacyTargets :: "dom \<Rightarrow> scope \<Rightarrow> string \<Rightarrow> guide \<Rightarrow> nat list \<times> guide" where
  "findAllLegacyTargets d sc targetName g =
     (let es = findAllElements d sc (getLegacySelectorForTargetName sc targetName)
      in (es, fold (deprecate sc targetName) es g))"

text \<open>\<open>target || findTarget(n) || findLegacyTarget(n)\<close>, left to right.\<close>

definition find_step :: "dom \<Rightarrow> scope \<Rightarrow> nat option \<times> guide \<Rightarrow> string \<Rightarrow> nat option \<times> guide" where
  "find_step d sc = (\<lambda>(target, g) targetName.
     if target \<noteq> None then (target, g)
     else if findTarget d sc targetName \<noteq> None then (findTarget d sc targetName, g)
     else findLegacyTarget d sc targetName g)"

definition TargetSet_find :: "dom \<Rightarrow> scope \<Rightarrow> string list \<Rightarrow> guide \<Rightarrow> nat option \<times> guide" where
  "TargetSet_find d sc targetNames g = foldl (find_step d sc) (None, g) targetNames"

definition TargetSet_has :: "dom \<Rightarrow> scope \<Rightarrow> string \<Rightarrow> guide \<Rightarrow> bool \<times> guide" where
  "TargetSet_has d sc targetName g =
     (let (target, g) = TargetSet_find d sc [targetName] g in (target \<noteq> None, g))"

definition TargetSet_findAll :: "dom \<Rightarrow> scope \<Rightarrow> string list \<Rightarrow> guide \<Rightarrow> nat list \<times> guide" where
  "TargetSet_findAll d sc targetNames g = foldl (\<lambda>(targets, g) targetName.
     let (legacy, g) = findAllLegacyTargets d sc targetName g
     in (targets @ findAllTargets d sc targetName @ legacy, g)) ([], g) targetNames"

section \<open>DataMap and ClassMap\<close>

definition getAttributeNameForKey :: "scope \<Rightarrow> string \<Rightarrow> string" where
  "getAttributeNameForKey sc key = ''data-'' @ scope_identifier sc @ ''-'' @ dasherize key"

definition DataMap_get :: "dom \<Rightarrow> scope \<Rightarrow> string \<Rightarrow> string option" where
  "DataMap_get d sc key = getAttribute d (scope_element sc) (getAttributeNameForKey sc key)"

definition DataMap_has :: "dom \<Rightarrow> scope \<Rightarrow> string \<Rightarrow> bool" where
  "DataMap_has d sc key = hasAttribute d (scope_element sc) (getAttributeNameForKey sc key)"

definition DataMap_set :: "dom \<Rightarrow> scope \<Rightarrow> string \<Rightarrow> string \<Rightarrow> string option \<times> dom" where
  "DataMap_set d sc key v =
     (let name = getAttributeNameForKey sc key;
          d = update_attrs (scope_element sc) (AList.update (lower name) v) d
      in (DataMap_get d sc key, d))"

definition DataMap_delete :: "dom \<Rightarrow> scope \<Rightarrow> string \<Rightarrow> bool \<times> dom" where
  "DataMap_delete d sc key =
     (if DataMap_has d sc key
      then (True, update_attrs (scope_element sc) (AList.delete (lower (getAttributeNameForKey sc key))) d)
      else (False, d))"

definition getDataKey :: "string \<Rightarrow> string" where
  "getDataKey name = name @ ''-class''"

definition ClassMap_has :: "dom \<Rightarrow> scope \<Rightarrow> string \<Rightarrow> bool" where
  "ClassMap_has d sc name = DataMap_has d sc (getDataKey name)"

definition ClassMap_get :: "dom \<Rightarrow> scope \<Rightarrow> string \<Rightarrow> string option" where
  "ClassMap_get d sc name = DataMap_get d sc (getDataKey name)"

definition ClassMap_getAttributeName :: "scope \<Rightarrow> string \<Rightarrow> string" where
  "ClassMap_getAttributeName sc name = getAttributeNameForKey sc (getDataKey name)"

section \<open>Spelling there and back\<close>

lemma dasherize_simps [simp]:
  "dasherize [] = []"
  "dasherize (c # s) = (if is_upper c then [CHR ''-'', lower_char c] else [c]) @ dasherize s"
  by (simp_all add: dasherize_def)

lemma camel_not_upper: "camel_char c \<Longrightarrow> \<not> is_upper c"
  by (auto simp: camel_char_def is_upper_def is_lower_def)

lemma sep_not_upper: "is_sep c \<Longrightarrow> \<not> is_upper c"
  by (auto simp: is_sep_def is_upper_def)

lemma dash_is_sep [simp]: "is_sep (CHR ''-'')" "\<not> camel_char (CHR ''-'')"
  by (simp_all add: is_sep_def camel_char_def is_lower_def)

lemma dasherize_hd: "\<exists>y r. dasherize (x # s) = y # r \<and> (camel_char y \<longrightarrow> y = x)"
  by (cases "is_upper x") auto

text \<open>
  Writing a name with dashes and then in camel case gives what writing it in camel case at
  once gives; so the attribute of a key does not depend on which of the two spellings was used.
\<close>

theorem camelize_dasherize: "camelize (dasherize s) = camelize s"
proof (induction s rule: camelize.induct)
  case (1 c x s)
  obtain y r where r: "dasherize (x # s) = y # r" "camel_char y \<longrightarrow> y = x" using dasherize_hd by blast
  show ?case
  proof (cases "is_sep c \<and> camel_char x")
    case True
    with 1(1) show ?thesis by (simp add: sep_not_upper camel_not_upper)
  next
    case False
    note IH = 1(2) [OF False]
    show ?thesis
    proof (cases "is_upper c")
      case True
      then have "camel_char (lower_char c)" by (simp add: camel_char_def)
      with True IH False show ?thesis by auto
    next
      case False': False
      have "\<not> (is_sep c \<and> camel_char y)" using False r(2) by auto
      moreover have "camelize (y # r) = camelize (x # s)" using IH r(1) by simp
      ultimately show ?thesis using False False' r(1) by auto
    qed
  qed
next
  case (2 c)
  then show ?case by (simp add: camel_char_def)
qed simp

fun kebab :: "string \<Rightarrow> bool" where
  "kebab [] = True"
| "kebab [c] = (\<not> is_sep c \<and> \<not> is_upper c)"
| "kebab (c # x # s) = (c \<noteq> CHR ''_'' \<and> \<not> is_upper c \<and> (c = CHR ''-'' \<longrightarrow> is_lower x) \<and> kebab (x # s))"

text \<open>
  A name in small letters, each dash in front of a letter, is spelled the same again after
  it was written in camel case.
\<close>

theorem dasherize_camelize:
  assumes "kebab s"
  shows "dasherize (camelize s) = s"
  using assms
proof (induction s rule: camelize.induct)
  case (1 c x s)
  show ?case
  proof (cases "is_sep c \<and> camel_char x")
    case True
    with 1(3) have "c = CHR ''-''" "is_lower x" "kebab s"
      by (auto simp: is_sep_def) (cases s; auto)
    with True 1(1) show ?thesis by simp
  next
    case False
    with 1(2) [OF False] 1(3) show ?thesis by auto
  qed
qed simp_all

theorem dasherize_camelize_witness:
  "kebab ''max-file-size2'' \<and> camelize ''max-file-size2'' = ''maxFileSize2''
     \<and> dasherize (camelize ''max-file-size2'') = ''max-file-size2''"
proof -
  have k: "kebab ''max-file-size2''" by code_simp
  have "camelize ''max-file-size2'' = ''maxFileSize2''" by code_simp
  with k dasherize_camelize [OF k] show ?thesis by simp
qed

section \<open>One warning per object and key\<close>

fun firsts :: "(nat \<times> string) set \<Rightarrow> (nat \<times> string \<times> string) list \<Rightarrow> (string \<times> nat) list" where
  "firsts seen [] = []"
| "firsts seen ((obj, key, msg) # cs) =
     (if (obj, key) \<in> seen then firsts seen cs else (msg, obj) # firsts (insert (obj, key) seen) cs)"

definition warned :: "guide \<Rightarrow> (nat \<times> string) set" where
  "warned g = {(obj, key). case map_of (warnedKeysByObject g) obj of None \<Rightarrow> False | Some ks \<Rightarrow> key \<in> set ks}"

lemma Guide_warn_warned: "warned (Guide_warn obj key msg g) = insert (obj, key) (warned g)"
  by (auto simp: warned_def Guide_warn_def Let_def split: option.splits if_splits)

lemma Guide_warn_warnings:
  "warnings (Guide_warn obj key msg g) = warnings g @ (if (obj, key) \<in> warned g then [] else [(msg, obj)])"
  by (auto simp: warned_def Guide_warn_def Let_def split: option.splits)

text \<open>
  Whatever warnings are asked for, the logger sees the first one for each object and key,
  in order, and no other.
\<close>

theorem guide_warns_once:
  "warnings (fold (\<lambda>(obj, key, msg). Guide_warn obj key msg) calls new_Guide) = firsts {} calls"
proof -
  have "warnings (fold (\<lambda>(obj, key, msg). Guide_warn obj key msg) calls g) = warnings g @ firsts (warned g) calls" for g
    by (induction calls arbitrary: g) (auto simp: Guide_warn_warnings Guide_warn_warned insert_absorb)
  from this [of new_Guide] show ?thesis by (simp add: new_Guide_def warned_def)
qed

section \<open>Targets\<close>

lemma find_hd_filter: "find P xs = (case filter P xs of [] \<Rightarrow> None | x # _ \<Rightarrow> Some x)"
  by (induction xs) auto

definition first_of :: "'a list \<Rightarrow> 'a option" where
  "first_of xs = (case xs of [] \<Rightarrow> None | x # _ \<Rightarrow> Some x)"

lemma first_of_append: "first_of (xs @ ys) = (if xs = [] then first_of ys else first_of xs)"
  by (auto simp: first_of_def split: list.split)

lemma first_of_None [simp]: "first_of xs = None \<longleftrightarrow> xs = []"
  by (auto simp: first_of_def split: list.split)

lemma findElement_first: "findElement d sc sel = first_of (findAllElements d sc sel)"
  by (auto simp: findElement_def findAllElements_def first_of_def find_hd_filter split: list.split)

lemma find_step_first:
  "fst (find_step d sc (target, g) n) = (if target \<noteq> None then target
     else first_of (findAllTargets d sc n @ fst (findAllLegacyTargets d sc n g')))"
proof -
  have legacy: "fst (findLegacyTarget d sc n g) = first_of (fst (findAllLegacyTargets d sc n g'))"
    by (auto simp: findLegacyTarget_def findAllLegacyTargets_def findElement_first first_of_def Let_def split: option.split list.split)
  have "findTarget d sc n = first_of (findAllTargets d sc n)"
    by (simp add: findTarget_def findAllTargets_def findElement_first)
  with legacy show ?thesis
    by (cases "findAllTargets d sc n") (auto simp: find_step_def first_of_def)
qed

text \<open>
  \<open>find\<close> and \<open>findAll\<close> agree: the target found for some names is the first one of all the
  targets found for them, and none is found when there is none, old attributes included.
\<close>

theorem find_is_first_of_findAll:
  "fst (TargetSet_find d sc names g) = first_of (fst (TargetSet_findAll d sc names g'))"
proof -
  let ?f = "\<lambda>(ts, g) n. let (legacy, g) = findAllLegacyTargets d sc n g in (ts @ findAllTargets d sc n @ legacy, g)"
  have "fst (foldl (find_step d sc) (first_of ts, g) names) = first_of (fst (foldl ?f (ts, g') names))" for ts g g'
  proof (induction names arbitrary: ts g g')
    case (Cons n names)
    let ?ts = "ts @ findAllTargets d sc n @ fst (findAllLegacyTargets d sc n g')"
    have "fst (find_step d sc (first_of ts, g) n) = first_of ?ts"
      unfolding find_step_first [where g' = g'] by (simp add: first_of_append)
    then show ?case using Cons.IH [of ?ts "snd (find_step d sc (first_of ts, g) n)"
        "snd (findAllLegacyTargets d sc n g')"]
      by (simp add: Let_def case_prod_unfold prod_eq_iff) (metis prod.collapse)
  qed simp
  from this [of "[]" g g'] show ?thesis by (simp add: TargetSet_find_def TargetSet_findAll_def first_of_def)
qed

text \<open>An element has a controller of an identifier when its attribute lists it.\<close>

definition lists_controller :: "dom \<Rightarrow> scope \<Rightarrow> bool" where
  "lists_controller d sc \<longleftrightarrow> matches d (controllerSelector sc) (scope_element sc)
     \<and> scope_element sc \<in> set (ids d)"

lemma closest_self:
  assumes "matches d sel e" and "e \<in> set (ids d)"
  shows "closest d e sel = Some e"
proof -
  have "path e d \<noteq> []" "hd (path e d) = e" using assms(2) path_Nil [of e d] path_hd [of e d] by auto
  then obtain r where "path e d = e # r" by (cases "path e d") auto
  with assms(1) show ?thesis by (simp add: closest_def)
qed

lemma target_contained:
  assumes "lists_controller d sc" and "e \<in> set (findAllElements d sc sel)"
  shows "containsElement d sc e"
  using assms closest_self [of d "controllerSelector sc" "scope_element sc"]
  by (auto simp: findAllElements_def containsElement_def lists_controller_def split: if_splits)

lemma findAll_sources:
  "set (fst (TargetSet_findAll d sc names g)) \<subseteq> (\<Union>sel. set (findAllElements d sc sel))"
proof -
  let ?f = "\<lambda>(ts, g) n. let (legacy, g) = findAllLegacyTargets d sc n g in (ts @ findAllTargets d sc n @ legacy, g)"
  have "set (fst (foldl ?f (ts, g) names)) \<subseteq> set ts \<union> (\<Union>sel. set (findAllElements d sc sel))" for ts g
    by (induction names arbitrary: ts g)
      (fastforce simp: Let_def case_prod_unfold findAllTargets_def findAllLegacyTargets_def)+
  from this [of "[]" g] show ?thesis by (simp add: TargetSet_findAll_def)
qed

text \<open>
  C30: No element is a target of two controllers of the same identifier, whatever the names of the
  targets: an element belongs to the nearest enclosing element with the controller.
\<close>

theorem targets_have_one_controller:
  assumes "lists_controller d sc" and "lists_controller d sc'"
    and "scope_identifier sc = scope_identifier sc'"
    and "e \<in> set (fst (TargetSet_findAll d sc names g))" and "e \<in> set (fst (TargetSet_findAll d sc' names' g'))"
  shows "sc = sc'"
proof -
  have "containsElement d sc e" "containsElement d sc' e"
    using assms(4,5) findAll_sources [of d sc names g] findAll_sources [of d sc' names' g']
      target_contained [OF assms(1)] target_contained [OF assms(2)] by blast+
  then have "scope_element sc = scope_element sc'"
    using assms(3) by (simp add: containsElement_def controllerSelector_def)
  with assms(3) show ?thesis by simp
qed

definition nested_doc :: dom where
  "nested_doc = [El 0 ''div'' [(''data-controller'', ''x'')]
     [El 1 ''p'' [(''data-x-target'', ''a'')] [],
      El 2 ''div'' [(''data-controller'', ''y x'')] [El 3 ''p'' [(''data-x-target'', ''b a'')] []]]]"

theorem targets_have_one_controller_witness:
  "let outer = \<lparr>scope_element = 0, scope_identifier = ''x''\<rparr>; inner = \<lparr>scope_element = 2, scope_identifier = ''x''\<rparr>
   in lists_controller nested_doc outer \<and> lists_controller nested_doc inner
      \<and> fst (TargetSet_findAll nested_doc inner [''a''] new_Guide) = [3]
      \<and> 3 \<notin> set (fst (TargetSet_findAll nested_doc outer [''a'', ''b''] new_Guide))"
proof -
  let ?outer = "\<lparr>scope_element = 0, scope_identifier = ''x''\<rparr>" and ?inner = "\<lparr>scope_element = 2, scope_identifier = ''x''\<rparr>"
  have l: "lists_controller nested_doc ?outer" "lists_controller nested_doc ?inner" by code_simp+
  have f: "fst (TargetSet_findAll nested_doc ?inner [''a''] new_Guide) = [3]" by code_simp
  have "3 \<notin> set (fst (TargetSet_findAll nested_doc ?outer [''a'', ''b''] new_Guide))"
    using targets_have_one_controller [OF l(2,1), of 3 "[''a'']" new_Guide "[''a'', ''b'']" new_Guide] f by auto
  with l f show ?thesis by simp
qed

section \<open>Data\<close>

definition same_data :: "scope \<Rightarrow> string \<Rightarrow> scope \<Rightarrow> string \<Rightarrow> bool" where
  "same_data sc key sc' key' \<longleftrightarrow> scope_element sc' = scope_element sc
     \<and> lower (getAttributeNameForKey sc' key') = lower (getAttributeNameForKey sc key)"

lemma DataMap_has_get: "DataMap_has d sc key \<longleftrightarrow> DataMap_get d sc key \<noteq> None"
  by (simp add: DataMap_has_def DataMap_get_def hasAttribute_def)

lemma DataMap_ids [simp]: "ids (snd (DataMap_set d sc key v)) = ids d" "ids (snd (DataMap_delete d sc key)) = ids d"
  by (simp_all add: DataMap_set_def DataMap_delete_def Let_def)

lemma DataMap_get_set:
  "scope_element sc \<in> set (ids d) \<Longrightarrow> DataMap_get (snd (DataMap_set d sc key v)) sc' key' =
     (if same_data sc key sc' key' then Some v else DataMap_get d sc' key')"
  by (simp add: DataMap_set_def DataMap_get_def Let_def getAttribute_def update_attrs_attrs same_data_def)

lemma DataMap_get_delete:
  "scope_element sc \<in> set (ids d) \<Longrightarrow> DataMap_get (snd (DataMap_delete d sc key)) sc' key' =
     (if same_data sc key sc' key' then None else DataMap_get d sc' key')"
  by (auto simp: DataMap_delete_def DataMap_has_get DataMap_get_def getAttribute_def update_attrs_attrs same_data_def)

text \<open>
  Setting a key of the data of a controller returns the value and makes it the value of the
  key and of every key that spells the same attribute; the other keys, and the data of other
  elements, keep their values. Deleting the key again reports that it was there and leaves it
  absent.
\<close>

theorem data_set_get:
  assumes "scope_element sc \<in> set (ids d)" and "(r, d') = DataMap_set d sc key v"
  shows "r = Some v
    \<and> DataMap_get d' sc key' = (if lower (getAttributeNameForKey sc key') = lower (getAttributeNameForKey sc key)
        then Some v else DataMap_get d sc key')
    \<and> (scope_element sc' = scope_element sc \<or> DataMap_get d' sc' key' = DataMap_get d sc' key')
    \<and> fst (DataMap_delete d' sc key) \<and> \<not> DataMap_has (snd (DataMap_delete d' sc key)) sc key"
proof -
  have d': "d' = snd (DataMap_set d sc key v)" and r: "r = DataMap_get d' sc key"
    using assms(2) by (auto simp: DataMap_set_def Let_def)
  have get: "DataMap_get d' sc'' key'' = (if same_data sc key sc'' key'' then Some v else DataMap_get d sc'' key'')" for sc'' key''
    unfolding d' by (rule DataMap_get_set [OF assms(1)])
  then have has: "DataMap_has d' sc key" by (simp add: DataMap_has_get same_data_def)
  have "scope_element sc \<in> set (ids d')" using assms(1) by (simp add: d')
  then have "\<not> DataMap_has (snd (DataMap_delete d' sc key)) sc key"
    by (simp add: DataMap_has_get DataMap_get_delete same_data_def)
  with get has show ?thesis by (simp add: r DataMap_delete_def same_data_def)
qed

theorem data_set_get_witness:
  "let sc = \<lparr>scope_element = 0, scope_identifier = ''x''\<rparr>; r = DataMap_set [El 0 ''p'' [] []] sc ''fileName'' ''a''
   in fst r = Some ''a'' \<and> DataMap_get (snd r) sc ''file-name'' = Some ''a'' \<and> DataMap_get (snd r) sc ''file'' = None"
proof -
  let ?sc = "\<lparr>scope_element = 0, scope_identifier = ''x''\<rparr>"
  let ?d = "[El 0 ''p'' [] []]"
  let ?r = "DataMap_set ?d ?sc ''fileName'' ''a''"
  have el: "scope_element ?sc \<in> set (ids ?d)" by simp
  have same: "lower (getAttributeNameForKey ?sc ''file-name'') = lower (getAttributeNameForKey ?sc ''fileName'')" by code_simp
  have other: "lower (getAttributeNameForKey ?sc ''file'') \<noteq> lower (getAttributeNameForKey ?sc ''fileName'')" by code_simp
  have none: "DataMap_get ?d ?sc ''file'' = None" by code_simp
  note set = data_set_get [OF el prod.collapse]
  have "fst ?r = Some ''a''" "DataMap_get (snd ?r) ?sc ''file-name'' = Some ''a''"
    using set [of "''fileName''" "''a''" "''file-name''" ?sc] same by auto
  moreover have "DataMap_get (snd ?r) ?sc ''file'' = None"
    using set [of "''fileName''" "''a''" "''file''" ?sc] other none by auto
  ultimately show ?thesis unfolding Let_def by blast
qed

end
