(* ===== verification/Dispatcher.thy ===== *)
theory Dispatcher
  imports Action Scope_Targets "HOL-Library.List_Lexorder" "HOL-Library.Char_ord" "HOL-Library.Multiset"
begin

text \<open>
  \<open>EventListener\<close>, \<open>Dispatcher\<close> and \<open>Binding\<close> of stimulus.js: which methods of which controllers
  run, and in which order, when an event happens. The event targets of the browser are a list
  of registrations.
\<close>

section \<open>Bindings and listeners\<close>

record binding =
  b_context :: ctx
  b_action :: action

record event_listener =
  el_eventTarget :: event_target
  el_eventName :: string
  el_eventOptions :: "(string, bool) jsmap"
  unorderedBindings :: "binding list"

text \<open>\<open>Array.prototype.sort\<close> is stable.\<close>

definition EventListener_bindings :: "event_listener \<Rightarrow> binding list" where
  "EventListener_bindings l = sort_key (\<lambda>b. act_index (b_action b)) (unorderedBindings l)"

definition EventListener_bindingConnected :: "binding \<Rightarrow> event_listener \<Rightarrow> event_listener" where
  "EventListener_bindingConnected b l = l\<lparr>unorderedBindings := set_add b (unorderedBindings l)\<rparr>"

definition EventListener_bindingDisconnected :: "binding \<Rightarrow> event_listener \<Rightarrow> event_listener" where
  "EventListener_bindingDisconnected b l = l\<lparr>unorderedBindings := set_delete b (unorderedBindings l)\<rparr>"

section \<open>Handling an event\<close>

text \<open>
  The methods of the controllers are a parameter: whether a controller has a method of a name,
  and what a call does, namely whether it stops the immediate propagation of the event and
  whether it throws.
\<close>

record controllers =
  has_method :: "ctx \<Rightarrow> string \<Rightarrow> bool"
  stops :: "binding \<Rightarrow> bool"
  throws :: "binding \<Rightarrow> string option"

datatype handled = Called binding | HandledError binding string

definition willBeInvokedByEvent :: "dom \<Rightarrow> event_target \<Rightarrow> binding \<Rightarrow> bool" where
  "willBeInvokedByEvent d eventTarget b =
     (let sc = ctx_scope (b_context b)
      in if Element (scope_element sc) = eventTarget then True
         else (case eventTarget of
             Element e \<Rightarrow> if contains d (scope_element sc) e then containsElement d sc e
               else containsElement d sc (act_element (b_action b))
           | _ \<Rightarrow> containsElement d sc (act_element (b_action b))))"

definition invokeWithEvent :: "controllers \<Rightarrow> binding \<Rightarrow> bool \<Rightarrow> bool \<times> handled list" where
  "invokeWithEvent env b stopped =
     (if has_method env (b_context b) (act_methodName (b_action b)) then
        (stopped \<or> stops env b, Called b #
           (case throws env b of None \<Rightarrow> []
            | Some e \<Rightarrow> [HandledError b e]))
      else (stopped, [HandledError b (''Action \"'' @ Action_toString (b_action b)
          @ ''\" references undefined method \"'' @ act_methodName (b_action b) @ ''\"'')]))"

definition Binding_handleEvent ::
  "dom \<Rightarrow> controllers \<Rightarrow> event_target \<Rightarrow> binding \<Rightarrow> bool \<Rightarrow> bool \<times> handled list" where
  "Binding_handleEvent d env eventTarget b stopped =
     (if willBeInvokedByEvent d eventTarget b then invokeWithEvent env b stopped else (stopped, []))"

text \<open>\<open>None\<close> is an event that was not extended yet.\<close>

fun extendEvent :: "bool option \<Rightarrow> bool" where
  "extendEvent None = False"
| "extendEvent (Some stopped) = stopped"

fun handle_each ::
  "dom \<Rightarrow> controllers \<Rightarrow> event_target \<Rightarrow> binding list \<Rightarrow> bool \<Rightarrow> bool \<times> handled list" where
  "handle_each d env eventTarget [] stopped = (stopped, [])"
| "handle_each d env eventTarget (b # bs) stopped =
     (if stopped then (stopped, [])
      else let (stopped, hs) = Binding_handleEvent d env eventTarget b stopped;
               (stopped, hs') = handle_each d env eventTarget bs stopped
           in (stopped, hs @ hs'))"

definition EventListener_handleEvent ::
  "dom \<Rightarrow> controllers \<Rightarrow> event_target \<Rightarrow> event_listener \<Rightarrow> bool option \<Rightarrow> bool \<times> handled list" where
  "EventListener_handleEvent d env eventTarget l ext =
     handle_each d env eventTarget (EventListener_bindings l) (extendEvent ext)"

section \<open>Dispatcher\<close>

record registration =
  reg_target :: event_target
  reg_name :: string
  reg_capture :: bool
  reg_once :: bool
  reg_key :: string

record dispatcher =
  dp_started :: bool
  eventListenerMaps :: "(event_target, (string, event_listener) jsmap) jsmap"
  dp_regs :: "registration list"

definition new_Dispatcher :: dispatcher where
  "new_Dispatcher = \<lparr>dp_started = False, eventListenerMaps = [], dp_regs = []\<rparr>"

definition cacheKey :: "string \<Rightarrow> (string, bool) jsmap \<Rightarrow> string" where
  "cacheKey eventName eventOptions = join '':'' (eventName #
     map (\<lambda>key. (if map_of eventOptions key = Some True then '''' else ''!'') @ key)
       (sort (map fst eventOptions)))"

definition option_on :: "(string, bool) jsmap \<Rightarrow> string \<Rightarrow> bool" where
  "option_on opts k \<longleftrightarrow> map_of opts k = Some True"

text \<open>
  The registration of a listener. Its identity as an object is the place where the dispatcher
  keeps it: its target and its cache key.
\<close>

definition reg_of :: "event_listener \<Rightarrow> registration" where
  "reg_of l = \<lparr>reg_target = el_eventTarget l, reg_name = el_eventName l,
     reg_capture = option_on (el_eventOptions l) ''capture'', reg_once = option_on (el_eventOptions l) ''once'',
     reg_key = cacheKey (el_eventName l) (el_eventOptions l)\<rparr>"

definition same_reg :: "registration \<Rightarrow> registration \<Rightarrow> bool" where
  "same_reg r s \<longleftrightarrow> reg_target r = reg_target s \<and> reg_name r = reg_name s \<and> reg_capture r = reg_capture s
     \<and> reg_key r = reg_key s"

definition EventListener_connect :: "event_listener \<Rightarrow> registration list \<Rightarrow> registration list" where
  "EventListener_connect l regs =
     (if list_ex (same_reg (reg_of l)) regs then regs else regs @ [reg_of l])"

definition EventListener_disconnect :: "event_listener \<Rightarrow> registration list \<Rightarrow> registration list" where
  "EventListener_disconnect l regs = filter (\<lambda>r. \<not> same_reg (reg_of l) r) regs"

definition eventListeners :: "dispatcher \<Rightarrow> event_listener list" where
  "eventListeners dp = foldl (\<lambda>listeners m. listeners @ map snd m) [] (map snd (eventListenerMaps dp))"

definition Dispatcher_start :: "dispatcher \<Rightarrow> dispatcher" where
  "Dispatcher_start dp = (if dp_started dp then dp else
     dp\<lparr>dp_started := True, dp_regs := fold EventListener_connect (eventListeners dp) (dp_regs dp)\<rparr>)"

definition Dispatcher_stop :: "dispatcher \<Rightarrow> dispatcher" where
  "Dispatcher_stop dp = (if dp_started dp then
     dp\<lparr>dp_started := False, dp_regs := fold EventListener_disconnect (eventListeners dp) (dp_regs dp)\<rparr>
     else dp)"

definition createEventListener ::
  "event_target \<Rightarrow> string \<Rightarrow> (string, bool) jsmap \<Rightarrow> dispatcher \<Rightarrow> event_listener \<times> dispatcher" where
  "createEventListener eventTarget eventName eventOptions dp =
     (let l = \<lparr>el_eventTarget = eventTarget, el_eventName = eventName, el_eventOptions = eventOptions,
                unorderedBindings = []\<rparr>
      in (l, if dp_started dp then dp\<lparr>dp_regs := EventListener_connect l (dp_regs dp)\<rparr> else dp))"

definition fetchEventListenerMapForEventTarget ::
  "event_target \<Rightarrow> dispatcher \<Rightarrow> (string, event_listener) jsmap \<times> dispatcher" where
  "fetchEventListenerMapForEventTarget eventTarget dp =
     (case map_of (eventListenerMaps dp) eventTarget of
        Some m \<Rightarrow> (m, dp)
      | None \<Rightarrow> ([], dp\<lparr>eventListenerMaps := AList.update eventTarget [] (eventListenerMaps dp)\<rparr>))"

definition fetchEventListener ::
  "event_target \<Rightarrow> string \<Rightarrow> (string, bool) jsmap \<Rightarrow> dispatcher \<Rightarrow> event_listener \<times> dispatcher" where
  "fetchEventListener eventTarget eventName eventOptions dp =
     (let (m, dp) = fetchEventListenerMapForEventTarget eventTarget dp;
          key = cacheKey eventName eventOptions
      in case map_of m key of
           Some l \<Rightarrow> (l, dp)
         | None \<Rightarrow> (let (l, dp) = createEventListener eventTarget eventName eventOptions dp
             in (l, dp\<lparr>eventListenerMaps := AList.update eventTarget (AList.update key l m) (eventListenerMaps dp)\<rparr>)))"

definition fetchEventListenerForBinding :: "binding \<Rightarrow> dispatcher \<Rightarrow> event_listener \<times> dispatcher" where
  "fetchEventListenerForBinding b = (let a = b_action b
     in fetchEventListener (act_eventTarget a) (act_eventName a) (act_eventOptions a))"

text \<open>A listener is an object: a change of it is seen at the place where it is kept.\<close>

definition change_listener :: "binding \<Rightarrow> event_listener \<Rightarrow> dispatcher \<Rightarrow> dispatcher" where
  "change_listener b l dp =
     (let t = act_eventTarget (b_action b);
          key = cacheKey (act_eventName (b_action b)) (act_eventOptions (b_action b));
          m = (case map_of (eventListenerMaps dp) t of None \<Rightarrow> [] | Some m \<Rightarrow> m)
      in dp\<lparr>eventListenerMaps := AList.update t (AList.update key l m) (eventListenerMaps dp)\<rparr>)"

definition Dispatcher_bindingConnected :: "binding \<Rightarrow> dispatcher \<Rightarrow> dispatcher" where
  "Dispatcher_bindingConnected b dp =
     (let (l, dp) = fetchEventListenerForBinding b dp
      in change_listener b (EventListener_bindingConnected b l) dp)"

definition Dispatcher_bindingDisconnected :: "binding \<Rightarrow> dispatcher \<Rightarrow> dispatcher" where
  "Dispatcher_bindingDisconnected b dp =
     (let (l, dp) = fetchEventListenerForBinding b dp
      in change_listener b (EventListener_bindingDisconnected b l) dp)"

text \<open>
  The browser dispatches an event of a name at a target: it drops the registrations that are
  for once, and calls the listeners of all that match, in order. \<open>reached\<close> is the bindings
  these listeners hold.
\<close>

definition fire :: "event_target \<Rightarrow> string \<Rightarrow> dispatcher \<Rightarrow> dispatcher" where
  "fire t name dp = dp\<lparr>dp_regs := filter (\<lambda>r. \<not> (reg_target r = t \<and> reg_name r = name \<and> reg_once r)) (dp_regs dp)\<rparr>"

definition listener_at :: "dispatcher \<Rightarrow> event_target \<Rightarrow> string \<Rightarrow> event_listener option" where
  "listener_at dp t key = (case map_of (eventListenerMaps dp) t of None \<Rightarrow> None | Some m \<Rightarrow> map_of m key)"

definition reached :: "event_target \<Rightarrow> string \<Rightarrow> dispatcher \<Rightarrow> binding list" where
  "reached t name dp = concat (map (\<lambda>r. case listener_at dp t (reg_key r) of None \<Rightarrow> []
     | Some l \<Rightarrow> EventListener_bindings l) (filter (\<lambda>r. reg_target r = t \<and> reg_name r = name) (dp_regs dp)))"

end
