(* ===== verification/Dispatch_Order.thy ===== *)
theory Dispatch_Order
  imports Dispatcher
begin

text \<open>
  The theorems about \<open>EventListener\<close> and \<open>Dispatcher\<close>: the methods run in the order of the
  descriptors until one of them stops the event, and an event reaches the bindings that are
  connected for it and no others.
\<close>

section \<open>Order of the calls\<close>

fun upto_first :: "('a \<Rightarrow> bool) \<Rightarrow> 'a list \<Rightarrow> 'a list" where
  "upto_first P [] = []"
| "upto_first P (x # xs) = x # (if P x then [] else upto_first P xs)"

definition stops_event :: "controllers \<Rightarrow> binding \<Rightarrow> bool" where
  "stops_event env b \<longleftrightarrow> has_method env (b_context b) (act_methodName (b_action b)) \<and> stops env b"

lemma handle_each_eq:
  "handle_each d env t bs False =
    (list_ex (stops_event env) (filter (willBeInvokedByEvent d t) bs),
     concat (map (\<lambda>b. snd (invokeWithEvent env b False)) (upto_first (stops_event env) (filter (willBeInvokedByEvent d t) bs))))"
proof (induction bs)
  case (Cons b bs)
  have stop: "handle_each d env t bs True = (True, [])" by (cases bs) simp_all
  have "fst (invokeWithEvent env b False) = stops_event env b"
    by (simp add: invokeWithEvent_def stops_event_def)
  with Cons stop show ?case
    by (cases "stops_event env b") (simp_all add: Binding_handleEvent_def Let_def case_prod_unfold)
qed simp

text \<open>
  C24: When an event reaches a listener, the bindings it concerns are called in the order of
  their position in the attribute, those with the same position in the order in which they were
  connected, up to and including the first one that stops the event; an error of one call is
  reported and does not keep the next from being called.
\<close>

theorem listener_calls_in_order:
  defines "bs l \<equiv> EventListener_bindings l"
  shows "sorted (map (\<lambda>b. act_index (b_action b)) (bs l)) \<and> mset (bs l) = mset (unorderedBindings l)
    \<and> filter (\<lambda>b. act_index (b_action b) = k) (bs l) = filter (\<lambda>b. act_index (b_action b) = k) (unorderedBindings l)
    \<and> snd (EventListener_handleEvent d env t l None) = concat (map (\<lambda>b. snd (invokeWithEvent env b False))
        (upto_first (stops_event env) (filter (willBeInvokedByEvent d t) (bs l))))
    \<and> snd (EventListener_handleEvent d env t l (Some True)) = []"
proof -
  have "filter (\<lambda>b. act_index (b_action b) = k) (bs l) = filter (\<lambda>b. act_index (b_action b) = k) (unorderedBindings l)"
    using sort_key_stable [of "\<lambda>b. act_index (b_action b)" k "unorderedBindings l"]
    by (simp add: bs_def EventListener_bindings_def eq_commute)
  moreover have "snd (EventListener_handleEvent d env t l (Some True)) = []"
    by (cases "EventListener_bindings l") (simp_all add: EventListener_handleEvent_def)
  ultimately show ?thesis
    by (simp add: bs_def EventListener_bindings_def EventListener_handleEvent_def handle_each_eq)
qed

section \<open>Cache keys\<close>

definition plain_options :: "(string, bool) jsmap \<Rightarrow> bool" where
  "plain_options o' \<longleftrightarrow> map_wf o' \<and> (\<forall>k \<in> set (map fst o'). CHR '':'' \<notin> set k \<and> take 1 k \<noteq> ''!'')"

definition plain_action :: "action \<Rightarrow> bool" where
  "plain_action a \<longleftrightarrow> CHR '':'' \<notin> set (act_eventName a) \<and> plain_options (act_eventOptions a)"

definition key_part :: "(string, bool) jsmap \<Rightarrow> string \<Rightarrow> string" where
  "key_part o' k = (if map_of o' k = Some True then '''' else ''!'') @ k"

lemma cacheKey_parts: "cacheKey n o' = join '':'' (n # map (key_part o') (sort (map fst o')))"
  by (simp add: cacheKey_def key_part_def [abs_def])

lemma key_part_inj:
  assumes "take 1 k \<noteq> ''!''" and "take 1 k' \<noteq> ''!''" and "key_part o1 k = key_part o2 k'"
  shows "k = k' \<and> (map_of o1 k = Some True \<longleftrightarrow> map_of o2 k' = Some True)"
  using assms by (cases k; cases k') (auto simp: key_part_def split: if_splits)

lemma map_eq_pointwise:
  assumes "map f xs = map g ys" and "\<And>x y. x \<in> set xs \<Longrightarrow> y \<in> set ys \<Longrightarrow> f x = g y \<Longrightarrow> x = y \<and> P x"
  shows "xs = ys \<and> (\<forall>x \<in> set xs. P x)"
  using assms
proof (induction xs arbitrary: ys)
  case (Cons x xs)
  then obtain y zs where "ys = y # zs" by (cases ys) auto
  with Cons show ?case by auto
qed simp

lemma cacheKey_inj:
  assumes "CHR '':'' \<notin> set n1" "CHR '':'' \<notin> set n2" and o1: "plain_options o1" and o2: "plain_options o2"
    and eq: "cacheKey n1 o1 = cacheKey n2 o2"
  shows "n1 = n2 \<and> map_of o1 = map_of o2"
proof -
  have plain: "\<forall>p \<in> set (n # map (key_part o') (sort (map fst o'))). CHR '':'' \<notin> set p"
    if "CHR '':'' \<notin> set n" "plain_options o'" for n o'
    using that by (auto simp: plain_options_def key_part_def)
  have key: "split_on (CHR '':'') (cacheKey n o') = n # map (key_part o') (sort (map fst o'))"
    if "CHR '':'' \<notin> set n" "plain_options o'" for n o'
    using split_on_join [OF _ plain [OF that]] by (simp add: cacheKey_parts)
  have "n1 # map (key_part o1) (sort (map fst o1)) = n2 # map (key_part o2) (sort (map fst o2))"
    using key [OF assms(1) o1] key [OF assms(2) o2] eq by simp
  then have n: "n1 = n2" and m: "map (key_part o1) (sort (map fst o1)) = map (key_part o2) (sort (map fst o2))" by auto
  have "sort (map fst o1) = sort (map fst o2)
      \<and> (\<forall>k \<in> set (sort (map fst o1)). map_of o1 k = Some True \<longleftrightarrow> map_of o2 k = Some True)"
  proof (rule map_eq_pointwise [OF m])
    fix k k'
    assume k: "k \<in> set (sort (map fst o1))" "k' \<in> set (sort (map fst o2))" and eq: "key_part o1 k = key_part o2 k'"
    from k o1 o2 have "take 1 k \<noteq> ''!''" "take 1 k' \<noteq> ''!''" by (auto simp: plain_options_def simp del: One_nat_def)
    from key_part_inj [OF this eq] show "k = k' \<and> (map_of o1 k = Some True \<longleftrightarrow> map_of o2 k = Some True)" by auto
  qed
  then have dom: "set (map fst o1) = set (map fst o2)"
    and val: "\<And>k. k \<in> set (map fst o1) \<Longrightarrow> map_of o1 k = Some True \<longleftrightarrow> map_of o2 k = Some True"
    by (metis set_sort, metis set_sort)
  have "map_of o1 k = map_of o2 k" for k
  proof (cases "k \<in> set (map fst o1)")
    case True
    then obtain v1 v2 where "map_of o1 k = Some v1" "map_of o2 k = Some v2"
      using dom by (metis dom_map_of_conv_image_fst domD image_set)
    with val [OF True] show ?thesis by (cases v1; cases v2) auto
  next
    case False
    with dom show ?thesis by (metis map_of_eq_None_iff image_set)
  qed
  with n show ?thesis by auto
qed

definition colon_binding :: "nat \<Rightarrow> string \<Rightarrow> (string, bool) jsmap \<Rightarrow> binding" where
  "colon_binding i name opts = \<lparr>b_context = \<lparr>ctx_module = 0, ctx_scope = \<lparr>scope_element = 0, scope_identifier = ''x''\<rparr>\<rparr>,
     b_action = \<lparr>act_id = i, act_element = 0, act_index = i, act_eventTarget = Element 0, act_eventName = name,
       act_eventOptions = opts, act_identifier = ''x'', act_methodName = ''m''\<rparr>\<rparr>"

text \<open>
  Without restrictions on the names the cache key does not tell listeners apart: the event
  \<open>page\<close> with the option \<open>load\<close> has the key of the event \<open>page:load\<close>. A binding for the first,
  connected after one for the second, joins the listener of the second: its own event does not
  reach it, and the other event does.
\<close>

theorem cacheKey_collision:
  "let b1 = colon_binding 0 ''page:load'' []; b2 = colon_binding 1 ''page'' [(''load'', True)];
       dp = Dispatcher_bindingConnected b2 (Dispatcher_bindingConnected b1 (Dispatcher_start new_Dispatcher))
   in reached (Element 0) ''page'' dp = [] \<and> reached (Element 0) ''page:load'' dp = [b1, b2]"
  by code_simp

text \<open>
  A listener for once is dropped by the browser after its first event, but stays in the cache
  of the dispatcher as connected: a binding of the same kind that is connected later is never
  reached.
\<close>

theorem once_listener_is_not_renewed:
  "let b1 = colon_binding 0 ''click'' [(''once'', True)]; b2 = colon_binding 1 ''click'' [(''once'', True)];
       dp = Dispatcher_bindingConnected b1 (Dispatcher_start new_Dispatcher);
       dp' = Dispatcher_bindingConnected b2 (Dispatcher_bindingDisconnected b1 (fire (Element 0) ''click'' dp))
   in reached (Element 0) ''click'' dp = [b1] \<and> dp_started dp' \<and> reached (Element 0) ''click'' dp' = []"
  by code_simp

section \<open>Runs of the dispatcher\<close>

datatype dispatch_op =
    Start
  | Stop
  | BindingConnected binding
  | BindingDisconnected binding
  | Fired event_target string

fun dispatch :: "dispatch_op \<Rightarrow> dispatcher \<Rightarrow> dispatcher" where
  "dispatch Start dp = Dispatcher_start dp"
| "dispatch Stop dp = Dispatcher_stop dp"
| "dispatch (BindingConnected b) dp = Dispatcher_bindingConnected b dp"
| "dispatch (BindingDisconnected b) dp = Dispatcher_bindingDisconnected b dp"
| "dispatch (Fired t name) dp = fire t name dp"

text \<open>What the sequence of operations says by itself.\<close>

fun is_on :: "dispatch_op \<Rightarrow> bool \<Rightarrow> bool" where
  "is_on Start s = True"
| "is_on Stop s = False"
| "is_on _ s = s"

fun is_connected :: "binding \<Rightarrow> dispatch_op \<Rightarrow> bool \<Rightarrow> bool" where
  "is_connected b (BindingConnected b') s = (b = b' \<or> s)"
| "is_connected b (BindingDisconnected b') s = (b \<noteq> b' \<and> s)"
| "is_connected b _ s = s"

fun plain_op :: "dispatch_op \<Rightarrow> bool" where
  "plain_op (BindingConnected b) = plain_action (b_action b)"
| "plain_op (BindingDisconnected b) = plain_action (b_action b)"
| "plain_op _ = True"

abbreviation b_key :: "binding \<Rightarrow> string" where
  "b_key b \<equiv> cacheKey (act_eventName (b_action b)) (act_eventOptions (b_action b))"

abbreviation b_target :: "binding \<Rightarrow> event_target" where
  "b_target b \<equiv> act_eventTarget (b_action b)"

definition listener_ok :: "event_target \<Rightarrow> string \<Rightarrow> event_listener \<Rightarrow> bool" where
  "listener_ok t key l \<longleftrightarrow> el_eventTarget l = t \<and> cacheKey (el_eventName l) (el_eventOptions l) = key
     \<and> CHR '':'' \<notin> set (el_eventName l) \<and> plain_options (el_eventOptions l)"

definition dp_inv :: "dispatcher \<Rightarrow> bool" where
  "dp_inv dp \<longleftrightarrow> map_wf (eventListenerMaps dp) \<and> (\<forall>t m. map_of (eventListenerMaps dp) t = Some m \<longrightarrow> map_wf m)
     \<and> (\<forall>t key l. listener_at dp t key = Some l \<longrightarrow> listener_ok t key l)
     \<and> (\<forall>r \<in> set (dp_regs dp). dp_started dp \<and> (\<exists>l. listener_at dp (reg_target r) (reg_key r) = Some l \<and> r = reg_of l))
     \<and> (dp_started dp \<longrightarrow> (\<forall>t key l. listener_at dp t key = Some l \<longrightarrow>
          \<not> option_on (el_eventOptions l) ''once'' \<longrightarrow> reg_of l \<in> set (dp_regs dp)))"

definition holds :: "dispatcher \<Rightarrow> binding \<Rightarrow> bool" where
  "holds dp b \<longleftrightarrow> (\<exists>l. listener_at dp (b_target b) (b_key b) = Some l \<and> b \<in> set (unorderedBindings l))"

definition placed :: "dispatcher \<Rightarrow> bool" where
  "placed dp \<longleftrightarrow> (\<forall>t key l b. listener_at dp t key = Some l \<longrightarrow> b \<in> set (unorderedBindings l) \<longrightarrow>
     b_target b = t \<and> b_key b = key \<and> plain_action (b_action b))"

text \<open>A change of the listener of a binding, by a function that keeps what identifies it.\<close>

definition at_listener :: "binding \<Rightarrow> (event_listener \<Rightarrow> event_listener) \<Rightarrow> dispatcher \<Rightarrow> dispatcher" where
  "at_listener b f dp = (let (l, dp) = fetchEventListenerForBinding b dp in change_listener b (f l) dp)"

definition listener_for :: "binding \<Rightarrow> dispatcher \<Rightarrow> event_listener" where
  "listener_for b dp = (case listener_at dp (b_target b) (b_key b) of
     None \<Rightarrow> \<lparr>el_eventTarget = b_target b, el_eventName = act_eventName (b_action b),
        el_eventOptions = act_eventOptions (b_action b), unorderedBindings = []\<rparr>
   | Some l \<Rightarrow> l)"

lemma map_wf_one [simp]: "map_wf [p]"
  by (simp add: map_wf_def)

lemma at_listener:
  shows "listener_at (at_listener b f dp) t key = (if t = b_target b \<and> key = b_key b
      then Some (f (listener_for b dp)) else listener_at dp t key)" (is ?at)
    and "dp_started (at_listener b f dp) = dp_started dp" (is ?started)
    and "dp_regs (at_listener b f dp) = (if listener_at dp (b_target b) (b_key b) = None \<and> dp_started dp
      then EventListener_connect (listener_for b dp) (dp_regs dp) else dp_regs dp)" (is ?regs)
    and "map_wf (eventListenerMaps dp) \<Longrightarrow> map_wf (eventListenerMaps (at_listener b f dp))" (is "_ \<Longrightarrow> ?wf")
    and "\<forall>t m. map_of (eventListenerMaps dp) t = Some m \<longrightarrow> map_wf m \<Longrightarrow>
      map_of (eventListenerMaps (at_listener b f dp)) t = Some m \<Longrightarrow> map_wf m"
  by (auto simp: at_listener_def fetchEventListenerForBinding_def fetchEventListener_def
      fetchEventListenerMapForEventTarget_def createEventListener_def change_listener_def listener_at_def
      listener_for_def Let_def split: option.splits if_splits)

lemma bindingConnected_at: "Dispatcher_bindingConnected b = at_listener b (EventListener_bindingConnected b)"
  "Dispatcher_bindingDisconnected b = at_listener b (EventListener_bindingDisconnected b)"
  by (simp_all add: fun_eq_iff Dispatcher_bindingConnected_def Dispatcher_bindingDisconnected_def at_listener_def)

definition keeps_listener :: "(event_listener \<Rightarrow> event_listener) \<Rightarrow> bool" where
  "keeps_listener f \<longleftrightarrow> (\<forall>l. el_eventTarget (f l) = el_eventTarget l \<and> el_eventName (f l) = el_eventName l
     \<and> el_eventOptions (f l) = el_eventOptions l)"

lemma keeps_binding [simp]: "keeps_listener (EventListener_bindingConnected b)"
  "keeps_listener (EventListener_bindingDisconnected b)"
  by (simp_all add: keeps_listener_def EventListener_bindingConnected_def EventListener_bindingDisconnected_def)

lemma reg_of_keeps: "keeps_listener f \<Longrightarrow> reg_of (f l) = reg_of l"
  by (simp add: keeps_listener_def reg_of_def)

lemma set_connect:
  "\<forall>r \<in> set regs. same_reg (reg_of l) r \<longrightarrow> r = reg_of l \<Longrightarrow>
     set (EventListener_connect l regs) = insert (reg_of l) (set regs)"
  by (auto simp: EventListener_connect_def list_ex_iff)

lemma listener_for_ok:
  assumes "dp_inv dp" and "plain_action (b_action b)"
  shows "listener_ok (b_target b) (b_key b) (listener_for b dp)"
  using assms by (auto simp: dp_inv_def listener_for_def plain_action_def listener_ok_def split: option.split)

lemma regs_known:
  "dp_inv dp \<Longrightarrow> r \<in> set (dp_regs dp) \<Longrightarrow>
     dp_started dp \<and> (\<exists>l. listener_at dp (reg_target r) (reg_key r) = Some l \<and> r = reg_of l)"
  by (simp add: dp_inv_def)

lemma set_regs_at:
  assumes inv: "dp_inv dp" and ok: "listener_ok (b_target b) (b_key b) (listener_for b dp)"
  shows "set (dp_regs (at_listener b f dp)) =
    (if listener_at dp (b_target b) (b_key b) = None \<and> dp_started dp
     then insert (reg_of (listener_for b dp)) (set (dp_regs dp)) else set (dp_regs dp))"
proof (cases "listener_at dp (b_target b) (b_key b) = None")
  case True
  have "reg_target (reg_of (listener_for b dp)) = b_target b" "reg_key (reg_of (listener_for b dp)) = b_key b"
    using ok by (simp_all add: listener_ok_def reg_of_def)
  then have "\<forall>r \<in> set (dp_regs dp). same_reg (reg_of (listener_for b dp)) r \<longrightarrow> r = reg_of (listener_for b dp)"
    using regs_known [OF inv] True by (fastforce simp: same_reg_def)
  from set_connect [OF this] True show ?thesis by (simp add: at_listener(3))
qed (auto simp: at_listener(3))

lemma dp_inv_at:
  assumes inv: "dp_inv dp" and b: "plain_action (b_action b)" and f: "keeps_listener f"
  shows "dp_inv (at_listener b f dp)"
proof -
  let ?dp = "at_listener b f dp" and ?l = "listener_for b dp"
  note at = at_listener(1) [of b f dp] and st = at_listener(2) [of b f dp]
  have ok: "listener_ok (b_target b) (b_key b) ?l" by (rule listener_for_ok [OF inv b])
  then have place: "reg_target (reg_of ?l) = b_target b" "reg_key (reg_of ?l) = b_key b"
    by (simp_all add: listener_ok_def reg_of_def)
  note known = regs_known [OF inv] and set = set_regs_at [OF inv ok, of f]
  have same: "listener_at dp (b_target b) (b_key b) = Some l \<Longrightarrow> ?l = l" for l by (simp add: listener_for_def)
  have r: "dp_started ?dp \<and> (\<exists>l. listener_at ?dp (reg_target r) (reg_key r) = Some l \<and> r = reg_of l)"
    if "r \<in> set (dp_regs ?dp)" for r
  proof (cases "reg_target r = b_target b \<and> reg_key r = b_key b")
    case True
    then have "r = reg_of ?l \<and> dp_started dp" using that known [of r] same by (auto simp: set split: if_splits)
    with True show ?thesis by (simp add: at st reg_of_keeps [OF f])
  next
    case False
    then have "r \<in> set (dp_regs dp)" using that place by (auto simp: set split: if_splits)
    with known [OF this] False show ?thesis by (auto simp: at st)
  qed
  have all: "reg_of l \<in> set (dp_regs ?dp)"
    if "dp_started ?dp" "listener_at ?dp t key = Some l" "\<not> option_on (el_eventOptions l) ''once''" for t key l
  proof (cases "t = b_target b \<and> key = b_key b")
    case True
    then have "l = f ?l" using that(2) by (simp add: at)
    moreover from this have "reg_of l = reg_of ?l" "el_eventOptions l = el_eventOptions ?l"
      using f by (simp_all add: reg_of_keeps keeps_listener_def)
    ultimately show ?thesis
      using inv that st same by (cases "listener_at dp (b_target b) (b_key b)") (auto simp: set dp_inv_def)
  next
    case False
    then have "reg_of l \<in> set (dp_regs dp)" using inv that by (auto simp: at st dp_inv_def)
    then show ?thesis by (simp add: set)
  qed
  have "listener_ok t key l" if "listener_at ?dp t key = Some l" for t key l
    using that inv ok f by (auto simp: at dp_inv_def listener_ok_def keeps_listener_def split: if_splits)
  with r all inv at_listener(4) [of dp b f] at_listener(5) [of dp b f] show ?thesis by (auto simp: dp_inv_def)
qed

lemma listener_at_Some:
  "listener_at dp t key = Some l \<longleftrightarrow> (\<exists>m. map_of (eventListenerMaps dp) t = Some m \<and> map_of m key = Some l)"
  by (simp add: listener_at_def split: option.split)

lemma set_eventListeners:
  assumes "dp_inv dp"
  shows "l \<in> set (eventListeners dp) \<longleftrightarrow> (\<exists>t key. listener_at dp t key = Some l)"
proof -
  let ?m = "eventListenerMaps dp"
  have wf: "map_wf ?m" "\<And>t m. map_of ?m t = Some m \<Longrightarrow> map_wf m" using assms by (auto simp: dp_inv_def)
  have "foldl (\<lambda>ls m. ls @ map snd m) acc ms = acc @ concat (map (map snd) ms)" for acc :: "event_listener list" and ms
    by (induction ms arbitrary: acc) auto
  then have "l \<in> set (eventListeners dp) \<longleftrightarrow> l \<in> set (concat (map (map snd) (map snd ?m)))"
    unfolding eventListeners_def by (metis append_Nil)
  also have "\<dots> \<longleftrightarrow> (\<exists>t m key. (t, m) \<in> set ?m \<and> (key, l) \<in> set m)" by force
  also have "\<dots> \<longleftrightarrow> (\<exists>t m key. map_of ?m t = Some m \<and> map_of m key = Some l)"
    using wf by (metis map_wf_mem_iff)
  finally show ?thesis by (simp add: listener_at_Some) blast
qed

lemma listener_at_cong [simp]:
  "listener_at (dp\<lparr>dp_regs := rs\<rparr>) = listener_at dp" "listener_at (dp\<lparr>dp_started := s\<rparr>) = listener_at dp"
  by (simp_all add: fun_eq_iff listener_at_def)

lemma fold_connect:
  assumes "\<And>l l'. l \<in> L \<Longrightarrow> l' \<in> L \<Longrightarrow> same_reg (reg_of l) (reg_of l') \<Longrightarrow> reg_of l = reg_of l'"
    and "set ls \<subseteq> L" and "set regs \<subseteq> reg_of ` L"
  shows "set (fold EventListener_connect ls regs) = set regs \<union> reg_of ` set ls"
  using assms(2,3)
proof (induction ls arbitrary: regs)
  case (Cons l ls)
  have "set (EventListener_connect l regs) = insert (reg_of l) (set regs)"
    by (rule set_connect) (use assms(1) Cons.prems in fastforce)
  with Cons show ?case by auto
qed simp

lemma fold_disconnect:
  "set (fold EventListener_disconnect ls regs) = {r \<in> set regs. \<forall>l \<in> set ls. \<not> same_reg (reg_of l) r}"
  by (induction ls arbitrary: regs) (auto simp: EventListener_disconnect_def)

lemma dp_inv_start: "dp_inv dp \<Longrightarrow> dp_inv (Dispatcher_start dp)"
proof -
  assume inv: "dp_inv dp"
  have regs: "\<not> dp_started dp \<Longrightarrow> dp_regs dp = []" using inv by (cases "dp_regs dp") (auto simp: dp_inv_def)
  have ok: "listener_at dp t key = Some l \<Longrightarrow> reg_target (reg_of l) = t \<and> reg_key (reg_of l) = key" for t key l
    using inv by (auto simp: dp_inv_def listener_ok_def reg_of_def)
  have "set (fold EventListener_connect (eventListeners dp) []) = set [] \<union> reg_of ` set (eventListeners dp)"
  proof (rule fold_connect [OF _ order_refl])
    fix l l' assume "l \<in> set (eventListeners dp)" "l' \<in> set (eventListeners dp)" "same_reg (reg_of l) (reg_of l')"
    then show "reg_of l = reg_of l'"
      using ok set_eventListeners [OF inv] unfolding same_reg_def by (metis option.inject)
  qed simp
  then have "r \<in> set (fold EventListener_connect (eventListeners dp) []) \<longleftrightarrow>
      (\<exists>t key l. listener_at dp t key = Some l \<and> r = reg_of l)" for r
    using set_eventListeners [OF inv] by (simp add: image_iff) blast
  with inv ok regs show ?thesis
    by (auto simp: Dispatcher_start_def dp_inv_def)
qed

lemma dp_inv_stop: "dp_inv dp \<Longrightarrow> dp_inv (Dispatcher_stop dp)"
proof -
  assume inv: "dp_inv dp"
  have "same_reg r r" for r by (simp add: same_reg_def)
  then have "set (fold EventListener_disconnect (eventListeners dp) (dp_regs dp)) = {}"
    using inv set_eventListeners [OF inv] unfolding fold_disconnect dp_inv_def by fastforce
  with inv show ?thesis by (auto simp: Dispatcher_stop_def dp_inv_def)
qed

lemma dp_inv_fire: "dp_inv dp \<Longrightarrow> dp_inv (fire t name dp)"
  by (auto simp: dp_inv_def fire_def reg_of_def)

lemma holds_at:
  "placed dp \<Longrightarrow> plain_action (b_action b) \<Longrightarrow> placed (Dispatcher_bindingConnected b dp) \<and> placed (Dispatcher_bindingDisconnected b dp)"
  "holds (Dispatcher_bindingConnected b dp) b' \<longleftrightarrow> b' = b \<or> holds dp b'"
  "holds (Dispatcher_bindingDisconnected b dp) b' \<longleftrightarrow> b' \<noteq> b \<and> holds dp b'"
  by (auto simp: placed_def holds_def bindingConnected_at at_listener(1) listener_for_def
      EventListener_bindingConnected_def EventListener_bindingDisconnected_def split: option.splits if_splits)

lemma holds_frame [simp]:
  "holds (Dispatcher_start dp) = holds dp" "holds (Dispatcher_stop dp) = holds dp" "holds (fire t n dp) = holds dp"
  "placed (Dispatcher_start dp) = placed dp" "placed (Dispatcher_stop dp) = placed dp" "placed (fire t n dp) = placed dp"
  by (auto simp: fun_eq_iff holds_def placed_def Dispatcher_start_def Dispatcher_stop_def fire_def)

lemma dp_started_simps:
  "dp_started (Dispatcher_start dp)" "\<not> dp_started (Dispatcher_stop dp)"
  "dp_started (fire t n dp) = dp_started dp" "dp_started (Dispatcher_bindingConnected b dp) = dp_started dp"
  "dp_started (Dispatcher_bindingDisconnected b dp) = dp_started dp"
  by (simp_all add: Dispatcher_start_def Dispatcher_stop_def fire_def bindingConnected_at at_listener)

lemma dp_inv_binding:
  "dp_inv dp \<Longrightarrow> plain_action (b_action b) \<Longrightarrow>
     dp_inv (Dispatcher_bindingConnected b dp) \<and> dp_inv (Dispatcher_bindingDisconnected b dp)"
  by (simp add: bindingConnected_at dp_inv_at)

lemmas dispatch_simps = dp_started_simps dp_inv_binding dp_inv_start dp_inv_stop dp_inv_fire holds_at

lemma dispatch_inv:
  assumes "\<forall>op \<in> set ops. plain_op op" and "dp_inv dp" and "placed dp"
  shows "dp_inv (fold dispatch ops dp) \<and> placed (fold dispatch ops dp)
    \<and> dp_started (fold dispatch ops dp) = fold is_on ops (dp_started dp)
    \<and> (\<forall>b. holds (fold dispatch ops dp) b = fold (is_connected b) ops (holds dp b))"
  using assms
proof (induction ops arbitrary: dp)
  case (Cons op ops)
  have "dp_inv (dispatch op dp) \<and> placed (dispatch op dp) \<and> dp_started (dispatch op dp) = is_on op (dp_started dp)
      \<and> (\<forall>b. holds (dispatch op dp) b = is_connected b op (holds dp b))"
    using Cons.prems by (cases op) (simp_all add: dispatch_simps)
  with Cons show ?case by simp
qed simp

lemma dp_inv_new: "dp_inv new_Dispatcher" "placed new_Dispatcher" "\<not> holds new_Dispatcher b" "\<not> dp_started new_Dispatcher"
  by (simp_all add: dp_inv_def placed_def holds_def new_Dispatcher_def listener_at_def)

lemma listener_serves:
  assumes "dp_inv dp" and "placed dp" and "listener_at dp t key = Some l" and "b \<in> set (unorderedBindings l)"
  shows "el_eventName l = act_eventName (b_action b) \<and> map_of (el_eventOptions l) = map_of (act_eventOptions (b_action b))
    \<and> b_target b = t \<and> b_key b = key"
proof -
  have "listener_ok t key l" using assms(1,3) by (simp add: dp_inv_def)
  moreover have "b_target b = t" "b_key b = key" "plain_action (b_action b)" using assms(2-4) by (auto simp: placed_def)
  ultimately show ?thesis
    using cacheKey_inj [of "el_eventName l" "act_eventName (b_action b)" "el_eventOptions l" "act_eventOptions (b_action b)"]
    by (simp add: listener_ok_def plain_action_def)
qed

text \<open>
  C3: For actions whose event names and options are free of colons (and whose options do not start
  with an exclamation mark), and after any sequence of starting, stopping, connecting, disconnecting
  and events: an event of a name at a target reaches a binding without the option \<open>once\<close> exactly when
  the dispatcher is started, the binding is connected, and target and name are those of its action.
  \<open>cacheKey_collision\<close> and \<open>once_listener_is_not_renewed\<close> show what happens otherwise.
\<close>

theorem events_reach_their_bindings:
  assumes "\<forall>op \<in> set ops. plain_op op" and "dp = fold dispatch ops new_Dispatcher"
    and "\<not> option_on (act_eventOptions (b_action b)) ''once''"
  shows "b \<in> set (reached t name dp) \<longleftrightarrow> fold is_on ops False \<and> fold (is_connected b) ops False
    \<and> act_eventTarget (b_action b) = t \<and> act_eventName (b_action b) = name"
proof -
  have inv: "dp_inv dp" "placed dp" and on: "dp_started dp = fold is_on ops False"
    and holds: "holds dp b = fold (is_connected b) ops False"
    using dispatch_inv [OF assms(1) dp_inv_new(1,2)] by (simp_all add: assms(2) dp_inv_new)
  have "b \<in> set (reached t name dp) \<longleftrightarrow> (\<exists>r l. r \<in> set (dp_regs dp) \<and> reg_target r = t \<and> reg_name r = name
      \<and> listener_at dp t (reg_key r) = Some l \<and> b \<in> set (unorderedBindings l))"
    by (force simp: reached_def EventListener_bindings_def split: option.splits)
  also have "\<dots> \<longleftrightarrow> dp_started dp \<and> holds dp b \<and> b_target b = t \<and> act_eventName (b_action b) = name" (is "?lhs \<longleftrightarrow> ?rhs")
  proof
    assume ?lhs
    then obtain r l where r: "r \<in> set (dp_regs dp)" "reg_target r = t" "reg_name r = name"
      and l: "listener_at dp t (reg_key r) = Some l" "b \<in> set (unorderedBindings l)" by blast
    from inv(1) r l(1) have "dp_started dp" "reg_name r = el_eventName l" by (auto simp: dp_inv_def reg_of_def)
    with listener_serves [OF inv l] r l show ?rhs by (auto simp: holds_def)
  next
    assume rhs: ?rhs
    then obtain l where l: "listener_at dp t (b_key b) = Some l" "b \<in> set (unorderedBindings l)" by (auto simp: holds_def)
    note s = listener_serves [OF inv l]
    have "reg_of l \<in> set (dp_regs dp)" "listener_ok t (b_key b) l"
      using inv(1) rhs l(1) s assms(3) by (auto simp: dp_inv_def option_on_def)
    with s rhs l show ?lhs by (intro exI [of _ "reg_of l"] exI [of _ l]) (simp add: reg_of_def listener_ok_def)
  qed
  finally show ?thesis using on holds by simp
qed

theorem events_reach_their_bindings_witness:
  "let b1 = colon_binding 0 ''click'' []; b2 = colon_binding 1 ''click'' [(''passive'', True)];
       ops = [BindingConnected b1, Start, BindingConnected b2, Fired (Element 0) ''click'', BindingDisconnected b1];
       dp = fold dispatch ops new_Dispatcher
   in b1 \<notin> set (reached (Element 0) ''click'' dp) \<and> b2 \<in> set (reached (Element 0) ''click'' dp)"
proof -
  let ?b1 = "colon_binding 0 ''click'' []" and ?b2 = "colon_binding 1 ''click'' [(''passive'', True)]"
  let ?ops = "[BindingConnected ?b1, Start, BindingConnected ?b2, Fired (Element 0) ''click'', BindingDisconnected ?b1]"
  have plain: "\<forall>op \<in> set ?ops. plain_op op" by code_simp
  have once: "\<not> option_on (act_eventOptions (b_action ?b1)) ''once''" "\<not> option_on (act_eventOptions (b_action ?b2)) ''once''"
    by code_simp+
  have "fold is_on ?ops False" "\<not> fold (is_connected ?b1) ?ops False" "fold (is_connected ?b2) ?ops False"
    "act_eventTarget (b_action ?b2) = Element 0" "act_eventName (b_action ?b2) = ''click''" by code_simp+
  then show ?thesis
    using events_reach_their_bindings [OF plain refl once(1), of "Element 0" "''click''"]
      events_reach_their_bindings [OF plain refl once(2), of "Element 0" "''click''"]
    unfolding Let_def by blast
qed

end
