(* ===== verification/Element_Sync.thy ===== *)
theory Element_Sync
  imports Element_Observer
begin

text \<open>
  The set of an \<open>ElementObserver\<close> follows the document: whatever changes are made between
  two deliveries of mutation records, in whatever order, after a delivery the set holds
  exactly the elements below the observed element that have the attribute. The records only
  name nodes; what the observer finds below them is the document as it is when the records
  are delivered, not as it was when they were made. The invariant below says why the records
  are enough nevertheless.
\<close>

section \<open>Runs\<close>

text \<open>
  The observer hears of a removed subtree until the next delivery. \<open>apart root s\<close>: none of the nodes
  that were removed since the last delivery is above the observed element now.
\<close>

definition apart :: "nat \<Rightarrow> observed \<Rightarrow> bool" where
  "apart root s \<longleftrightarrow> list_all (\<lambda>t. \<not> contains (doc s) t root) (transients s)"

text \<open>
  Everything that can happen to an observer and its document. The flag says whether the observed
  element was apart from the removed nodes at every delivery since the last start: a start reads the
  whole subtree again.
\<close>

inductive watched :: "string \<Rightarrow> nat \<Rightarrow> bool \<Rightarrow> observed \<Rightarrow> element_observer \<Rightarrow> bool"
  for an :: string and root :: nat where
  created: "dom_ok d \<Longrightarrow> root \<in> set (ids d) \<Longrightarrow> watched an root True \<lparr>doc = d, records = [], transients = []\<rparr> (new_ElementObserver root)"
| start: "watched an root ok s eo \<Longrightarrow> \<not> eo_started eo \<Longrightarrow>
    watched an root True s (fst (ElementObserver_start (doc s) an eo))"
| stop: "watched an root ok s eo \<Longrightarrow> eo_started eo \<Longrightarrow>
    watched an root ok (s\<lparr>records := [], transients := []\<rparr>) (ElementObserver_stop eo)"
| change: "watched an root ok s eo \<Longrightarrow> eo_started eo \<Longrightarrow> watched an root ok (apply_change root c s) eo"
| unseen: "watched an root ok s eo \<Longrightarrow> \<not> eo_started eo \<Longrightarrow>
    watched an root ok (s\<lparr>doc := doc (apply_change root c s)\<rparr>) eo"
| deliver: "watched an root ok s eo \<Longrightarrow>
    watched an root (ok \<and> apart root s) (s\<lparr>records := [], transients := []\<rparr>)
      (fst (processMutations (doc s) an (records s) eo))"

section \<open>The invariant\<close>

definition removed_in :: "nat \<Rightarrow> mutation list \<Rightarrow> bool" where
  "removed_in n ms \<longleftrightarrow> (\<exists>a r. ChildListMutation a r \<in> set ms \<and> ElementNode n \<in> set r)"

definition added_in :: "nat \<Rightarrow> mutation list \<Rightarrow> bool" where
  "added_in n ms \<longleftrightarrow> (\<exists>a r. ChildListMutation a r \<in> set ms \<and> ElementNode n \<in> set a)"

text \<open>
  The records make up for the difference between the set and the document at an element: a
  member that lost the attribute has an attribute record, a member that left the observed
  subtree is below a removed node, and an element that belongs in the set is in it once the
  records are processed.
\<close>

definition covered :: "string \<Rightarrow> nat \<Rightarrow> dom \<Rightarrow> mutation list \<Rightarrow> bool \<Rightarrow> nat \<Rightarrow> bool" where
  "covered an root d ms b e \<longleftrightarrow>
     (b \<and> \<not> hasAttribute d e an \<longrightarrow> (\<exists>name. AttributesMutation e name \<in> set ms))
     \<and> (b \<and> (root, e) \<notin> below d \<longrightarrow> (\<exists>n. removed_in n ms \<and> (n, e) \<in> below d))
     \<and> (hasAttribute d e an \<and> (root, e) \<in> below d \<longrightarrow> fold (member_after d an root e) ms b)"

definition eo_inv :: "string \<Rightarrow> nat \<Rightarrow> observed \<Rightarrow> element_observer \<Rightarrow> bool" where
  "eo_inv an root s eo \<longleftrightarrow> dom_ok (doc s) \<and> distinct (eo_elements eo) \<and> eo_element eo = root
     \<and> root \<in> set (ids (doc s))
     \<and> (\<forall>n. removed_in n (records s) \<or> added_in n (records s) \<longrightarrow> n \<in> set (ids (doc s)))
     \<and> (if eo_started eo then
          (\<forall>n. removed_in n (records s) \<longrightarrow> n \<in> set (transients s))
          \<and> (\<forall>n \<in> set (transients s). (n, root) \<notin> below (doc s))
          \<and> (\<forall>e. covered an root (doc s) (records s) (e \<in> set (eo_elements eo)) e)
        else records s = [] \<and> transients s = [])"

section \<open>Delivery\<close>

lemma fold_without_attribute:
  assumes "\<not> hasAttribute d e an"
  shows "fold (member_after d an root e) ms b \<longleftrightarrow> b \<and> (\<nexists>name. AttributesMutation e name \<in> set ms)"
proof (induction ms arbitrary: b)
  case (Cons m ms)
  with assms show ?case by (cases m) auto
qed simp

lemma fold_outside:
  assumes "hasAttribute d e an" and "(root, e) \<notin> below d"
  shows "fold (member_after d an root e) ms b \<longleftrightarrow> b \<and> (\<nexists>n. removed_in n ms \<and> (n, e) \<in> below d)"
proof (induction ms arbitrary: b)
  case (Cons m ms)
  with assms show ?case by (cases m) (auto simp: removed_in_def)
qed (simp add: removed_in_def)

lemma covered_delivered:
  assumes "covered an root d ms b e"
  shows "fold (member_after d an root e) ms b \<longleftrightarrow> hasAttribute d e an \<and> (root, e) \<in> below d"
  using assms fold_without_attribute [of d e an root ms b] fold_outside [of d e an root ms b]
  by (cases "hasAttribute d e an"; cases "(root, e) \<in> below d") (auto simp: covered_def)

section \<open>Changes\<close>

text \<open>
  Records keep their effect at an element as long as the change does not touch the paths from
  the nodes they name to the element.
\<close>

lemma member_after_cong:
  assumes "m \<in> set ms" and "hasAttribute d' e an = hasAttribute d e an"
    and "(root, e) \<in> below d' \<longleftrightarrow> (root, e) \<in> below d"
    and "\<And>n. removed_in n ms \<Longrightarrow> (n, e) \<in> below d' \<longleftrightarrow> (n, e) \<in> below d"
    and "\<And>n. added_in n ms \<Longrightarrow> (root, n) \<in> below d' \<and> (n, e) \<in> below d' \<longleftrightarrow>
      (root, n) \<in> below d \<and> (n, e) \<in> below d"
  shows "member_after d' an root e m = member_after d an root e m"
proof
  fix b
  show "member_after d' an root e m b = member_after d an root e m b"
  proof (cases m)
    case (ChildListMutation a r)
    have "(\<exists>n. ElementNode n \<in> set r \<and> (n, e) \<in> below d') \<longleftrightarrow>
        (\<exists>n. ElementNode n \<in> set r \<and> (n, e) \<in> below d)"
      using assms(1,4) ChildListMutation by (auto simp: removed_in_def)
    moreover have "(\<exists>n. ElementNode n \<in> set a \<and> (root, n) \<in> below d' \<and> (n, e) \<in> below d') \<longleftrightarrow>
        (\<exists>n. ElementNode n \<in> set a \<and> (root, n) \<in> below d \<and> (n, e) \<in> below d)"
      using assms(1,5) ChildListMutation by (auto simp: added_in_def)
    ultimately show ?thesis using ChildListMutation assms(2,3) by simp
  qed (use assms(2,3) in simp)
qed

lemma covered_cong:
  assumes "covered an root d ms b e" and "hasAttribute d' e an = hasAttribute d e an"
    and "(root, e) \<in> below d' \<longleftrightarrow> (root, e) \<in> below d"
    and "\<And>n. removed_in n ms \<Longrightarrow> (n, e) \<in> below d' \<longleftrightarrow> (n, e) \<in> below d"
    and "\<And>n. added_in n ms \<Longrightarrow> (root, n) \<in> below d' \<and> (n, e) \<in> below d' \<longleftrightarrow>
      (root, n) \<in> below d \<and> (n, e) \<in> below d"
  shows "covered an root d' ms b e"
proof -
  have "fold (member_after d' an root e) ms b = fold (member_after d an root e) ms b"
    using member_after_cong [OF _ assms(2-5)] by (intro fold_cong) auto
  then show ?thesis using assms(1-4) by (auto simp: covered_def)
qed

lemma removed_in_append: "removed_in n (ms @ ms') \<longleftrightarrow> removed_in n ms \<or> removed_in n ms'"
  by (auto simp: removed_in_def)

lemma removed_in_single [simp]: "removed_in n [ChildListMutation a r] \<longleftrightarrow> ElementNode n \<in> set r"
  by (simp add: removed_in_def)

text \<open>A new record that leaves the element alone.\<close>

lemma covered_append:
  assumes "covered an root d ms b e" and "\<And>b. b \<Longrightarrow> member_after d an root e m b"
  shows "covered an root d (ms @ [m]) b e"
  using assms by (auto simp: covered_def removed_in_append)

lemma covered_record:
  assumes "covered an root d (records s) b e" and "\<And>b. b \<Longrightarrow> member_after d an root e m b"
  shows "covered an root d (records (record_mutation root n m s)) b e"
  using assms by (simp add: record_mutation_def covered_append)

lemma observes_below:
  "dom_ok (doc s) \<Longrightarrow> observes root s n \<longleftrightarrow>
     (root, n) \<in> below (doc s) \<or> (\<exists>t \<in> set (transients s). (t, n) \<in> below (doc s))"
  by (auto simp: observes_def contains_below list_ex_iff)

lemma dom_ok_update [simp]: "dom_ok (update_attrs n f d) = dom_ok d"
  by (simp add: dom_ok_def dom_wf_def)

lemma hasAttribute_update_other [simp]:
  "e \<noteq> n \<Longrightarrow> hasAttribute (update_attrs n f d) e an = hasAttribute d e an"
  by (simp add: hasAttribute_def getAttribute_def update_attrs_attrs)

lemma covered_attribute:
  assumes ok: "dom_ok (doc s)" and trans: "\<And>n. removed_in n (records s) \<Longrightarrow> n \<in> set (transients s)"
    and cov: "covered an root (doc s) (records s) b e"
  shows "covered an root (update_attrs n f (doc s))
    (records (record_mutation root n (AttributesMutation n name) s)) b e"
proof (cases "e = n")
  case False
  then have "covered an root (update_attrs n f (doc s)) (records s) b e"
    by (intro covered_cong [OF cov]) simp_all
  then show ?thesis by (rule covered_record) (use False in simp)
next
  case True
  show ?thesis
  proof (cases "b \<or> (root, e) \<in> below (doc s)")
    case act: True
    then have "observes root s n"
      using cov trans True by (auto simp: observes_below [OF ok] covered_def)
    with cov True act show ?thesis
      by (auto simp: covered_def record_mutation_def removed_in_append)
  qed (simp add: covered_def)
qed

text \<open>Inserting the tree of \<open>c\<close> below \<open>p\<close>.\<close>

lemma covered_insert:
  assumes ok: "dom_ok (doc s)" and trans: "\<And>n. removed_in n (records s) \<Longrightarrow> n \<in> set (transients s)"
    and cov: "covered an root (doc s) (records s) b e"
    and below': "\<And>n e. (n, e) \<in> below d' \<longleftrightarrow>
      (n, e) \<in> below (doc s) \<or> ((n, p) \<in> below (doc s) \<and> (c, e) \<in> below (doc s))"
    and has': "hasAttribute d' e an = hasAttribute (doc s) e an"
    and root_c: "\<And>n. (n, c) \<in> below (doc s) \<Longrightarrow> n = c"
    and adm: "(c, root) \<in> below (doc s) \<Longrightarrow> \<not> observes root s p"
    and c: "c \<in> set (ids (doc s))"
  shows "covered an root d' (records (record_mutation root p (ChildListMutation [ElementNode c] []) s)) b e"
proof -
  let ?B = "below (doc s)"
  have wf: "dom_wf (doc s)" using ok by (simp add: dom_ok_def)
  note tr = below_trans [OF wf] and ch = below_chain [OF wf]
  show ?thesis
  proof (cases "(root, e) \<in> below d' \<and> (root, e) \<notin> ?B")
    case True
    then have p: "(root, p) \<in> ?B" "(c, e) \<in> ?B" using below' by auto
    then have "observes root s p" by (auto simp: observes_below [OF ok])
    moreover have "(root, c) \<in> below d'" "(c, e) \<in> below d'" "(root, e) \<in> below d'"
      using p below' below_refl [OF c] by auto
    ultimately show ?thesis
      using cov has' True by (auto simp: covered_def record_mutation_def removed_in_append)
  next
    case False
    then have same: "(root, e) \<in> below d' \<longleftrightarrow> (root, e) \<in> ?B" using below' by auto
    have inside: "\<not> observes root s p" if "(c, e) \<in> ?B" "(root, e) \<in> ?B"
      using ch [OF that] root_c adm by auto
    have "covered an root d' (records s) b e"
    proof (cases "(root, e) \<in> ?B")
      case True
      show ?thesis
      proof (rule covered_cong [OF cov has' same])
        fix n assume "removed_in n (records s)"
        then show "(n, e) \<in> below d' \<longleftrightarrow> (n, e) \<in> ?B"
          using inside True trans below' by (auto simp: observes_below [OF ok])
      next
        fix n
        show "(root, n) \<in> below d' \<and> (n, e) \<in> below d' \<longleftrightarrow> (root, n) \<in> ?B \<and> (n, e) \<in> ?B"
          using inside True below' tr [of c n e] tr [of root n p]
          by (auto simp: observes_below [OF ok])
      qed
    next
      case out: False
      with same cov has' show ?thesis by (auto simp: covered_def below')
    qed
    then show ?thesis by (rule covered_record) simp
  qed
qed

text \<open>Removing \<open>c\<close> from its parent \<open>p\<close>.\<close>

text \<open>Where a removal does not take the element out of the observed tree, the records so far still do.\<close>

lemma covered_detached:
  assumes wf: "dom_wf (doc s)" and trans: "\<And>n. removed_in n (records s) \<Longrightarrow> n \<in> set (transients s)"
    and above: "\<And>n. n \<in> set (transients s) \<Longrightarrow> (n, root) \<notin> below (doc s)"
    and cov: "covered an root (doc s) (records s) b e"
    and below': "\<And>n e. (n, e) \<in> below d' \<longleftrightarrow>
      (n, e) \<in> below (doc s) \<and> ((c, e) \<in> below (doc s) \<longrightarrow> (c, n) \<in> below (doc s))"
    and has': "hasAttribute d' e an = hasAttribute (doc s) e an"
    and stays: "(c, e) \<in> below (doc s) \<Longrightarrow> (c, root) \<in> below (doc s)"
  shows "covered an root d' (records s) b e"
proof -
  let ?B = "below (doc s)"
  note tr = below_trans [OF wf] and ch = below_chain [OF wf]
  have same: "(root, e) \<in> below d' \<longleftrightarrow> (root, e) \<in> ?B" using stays below' by auto
  show ?thesis
  proof (cases "(c, e) \<in> ?B")
    case in_c: True
    note cr = stays [OF in_c]
    have tn: "(n, e) \<in> below d' \<longleftrightarrow> (n, e) \<in> ?B" if "removed_in n (records s)" for n
      using trans [OF that] above ch [of n e c] tr [of n c root] in_c cr below' by blast
    show ?thesis
      by (rule covered_cong [OF cov has' same tn]) (use below' cr tr [of c root] in blast)+
  next
    case out: False
    then show ?thesis
      using below' tr [of c _ e] by (intro covered_cong [OF cov has' same]) blast+
  qed
qed

lemma covered_remove:
  assumes ok: "dom_ok (doc s)" and trans: "\<And>n. removed_in n (records s) \<Longrightarrow> n \<in> set (transients s)"
    and above: "\<And>n. n \<in> set (transients s) \<Longrightarrow> (n, root) \<notin> below (doc s)"
    and cov: "covered an root (doc s) (records s) b e"
    and below': "\<And>n e. (n, e) \<in> below d' \<longleftrightarrow>
      (n, e) \<in> below (doc s) \<and> ((c, e) \<in> below (doc s) \<longrightarrow> (c, n) \<in> below (doc s))"
    and has': "hasAttribute d' e an = hasAttribute (doc s) e an"
    and parent: "(p, c) \<in> below (doc s)" "p \<noteq> c"
      "\<And>m. (m, c) \<in> below (doc s) \<Longrightarrow> m = c \<or> (m, p) \<in> below (doc s)"
    and c: "c \<in> set (ids (doc s))"
  shows "covered an root d' (records (record_mutation root p (ChildListMutation [] [ElementNode c]) s)) b e"
proof -
  let ?B = "below (doc s)"
  have wf: "dom_wf (doc s)" using ok by (simp add: dom_ok_def)
  note tr = below_trans [OF wf] and ch = below_chain [OF wf] and as = below_antisym [OF wf]
  have unseen: "\<not> observes root s p" if "(c, root) \<in> ?B"
    using that parent(1,2) above tr [of p c root] tr [of _ p root] as [of p root] as [of p c]
    by (auto simp: observes_below [OF ok])
  show ?thesis
  proof (cases "(c, e) \<in> ?B \<and> (c, root) \<notin> ?B")
    case True
    then have out: "(root, e) \<notin> below d'" using below' by auto
    have c': "(c, e) \<in> below d'" using True below' below_refl [OF c] by auto
    show ?thesis
    proof (cases "observes root s p")
      case obs: True
      with cov c' out has' show ?thesis
        by (auto simp: covered_def record_mutation_def removed_in_append)
    next
      case False
      then have n: "(n, e) \<in> ?B \<longrightarrow> (c, n) \<in> ?B" if "n = root \<or> n \<in> set (transients s)" for n
        using that True ch [of n e c] parent(3) [of n] below_refl [OF c]
        by (auto simp: observes_below [OF ok])
      then have "(root, e) \<notin> ?B" using True by auto
      with False cov out has' n trans show ?thesis
        by (auto simp: covered_def record_mutation_def below')
    qed
  next
    case False
    have cov': "covered an root d' (records s) b e"
      using False by (intro covered_detached [OF wf trans above cov below' has']) auto
    show ?thesis
    proof (cases "observes root s p")
      case True
      then have "(c, e) \<notin> ?B" using False unseen by blast
      then show ?thesis using cov' below' by (intro covered_record) auto
    qed (use cov' in \<open>simp add: record_mutation_def\<close>)
  qed
qed

section \<open>Every change keeps the invariant\<close>

lemma fresh_not_in: "fresh d \<notin> set (ids d)"
proof -
  have "x \<le> fold max xs a \<and> a \<le> fold max xs a" if "x \<in> set xs \<or> x = a" for x a :: nat and xs
    using that by (induction xs arbitrary: a x) (auto, (metis max.cobounded1 max.cobounded2 order_trans)+)
  then have "x < fresh d" if "x \<in> set (ids d)" for x
    using that by (fastforce simp: fresh_def less_Suc_eq_le)
  then show ?thesis by blast
qed

lemma dom_ok_create:
  assumes "dom_ok d"
  shows "dom_ok (d @ [El (fresh d) tg a []])"
  using assms fresh_not_in [of d] by (auto simp: dom_ok_def dom_wf_def below_append fresh_def document_root_def)

lemma hasAttribute_create:
  "e \<in> set (ids d) \<Longrightarrow> hasAttribute (d @ [El i tg a []]) e an = hasAttribute d e an"
proof -
  assume "e \<in> set (ids d)"
  then obtain x where "map_of (nodes d) e = Some x"
    by (metis ids_def list.set_map map_of_eq_None_iff option.exhaust)
  then show ?thesis
    by (simp add: hasAttribute_def getAttribute_def attrs_def nodes_append map_add_def)
qed

lemma covered_ids:
  "covered an root d ms b e \<Longrightarrow> b \<Longrightarrow> e \<in> set (ids d)"
  using below_sub [of d] by (auto simp: covered_def)

lemma covered_create:
  assumes cov: "covered an root d ms b e" and e: "i \<notin> set (ids d)"
    and names: "\<And>n. removed_in n ms \<or> added_in n ms \<or> n = root \<Longrightarrow> n \<in> set (ids d)"
  shows "covered an root (d @ [El i tg a []]) ms b e"
proof (cases "e \<in> set (ids d)")
  case True
  have "(n, e) \<in> below (d @ [El i tg a []]) \<longleftrightarrow> (n, e) \<in> below d" for n
    using True e by (auto simp: below_append)
  moreover have "(root, n) \<in> below (d @ [El i tg a []]) \<longleftrightarrow> (root, n) \<in> below d" for n
    using names [of root] e by (auto simp: below_append)
  ultimately show ?thesis
    using True by (intro covered_cong [OF cov]) (simp_all add: hasAttribute_create)
next
  case False
  then have "\<not> b" using covered_ids [OF cov] by blast
  moreover have "(root, e) \<notin> below (d @ [El i tg a []])"
    using False names [of root] e below_sub [of d] by (auto simp: below_append)
  ultimately show ?thesis by (simp add: covered_def)
qed

lemma dom_ok_attach:
  assumes "dom_ok d" "c \<in> set (ids d)" "p \<in> set (ids d)" "parentElement d c = None"
    "c \<noteq> document_root" "\<not> contains d c p"
  shows "dom_ok (attach c p k d)" "set (ids (attach c p k d)) = set (ids d)"
    "(n, e) \<in> below (attach c p k d) \<longleftrightarrow> (n, e) \<in> below d \<or> ((n, p) \<in> below d \<and> (c, e) \<in> below d)"
    "attrs (attach c p k d) = attrs d"
proof -
  have wf: "dom_wf d" using assms(1) by (simp add: dom_ok_def)
  have p: "(c, p) \<notin> below d" using assms(1,6) by (simp add: contains_below)
  have top: "(c, document_root) \<notin> below d" using assms(1,5) by (auto simp: dom_ok_def)
  note a = attach_below [OF wf assms(2,3) parentElement_None [OF wf assms(4)] p, where k = k]
  show "(n, e) \<in> below (attach c p k d) \<longleftrightarrow> (n, e) \<in> below d \<or> ((n, p) \<in> below d \<and> (c, e) \<in> below d)"
    for n e by (rule a(3))
  then show "dom_ok (attach c p k d)" using a(1) assms(1) top by (auto simp: dom_ok_def)
  show "set (ids (attach c p k d)) = set (ids d)" by (rule a(2))
  show "attrs (attach c p k d) = attrs d" by (rule attach_attrs [OF wf assms(2,3) p])
qed

lemma dom_ok_detach:
  assumes "dom_ok d" "parentElement d c = Some p"
  shows "dom_ok (detach c d)" "set (ids (detach c d)) = set (ids d)"
    "(n, e) \<in> below (detach c d) \<longleftrightarrow>
       (n, e) \<in> below d \<and> ((c, e) \<in> below d \<longrightarrow> (c, n) \<in> below d)"
    "attrs (detach c d) = attrs d"
proof -
  have wf: "dom_wf d" using assms(1) by (simp add: dom_ok_def)
  note b = detach_below [OF wf parentElement_Some(3) [OF wf assms(2)]]
  show "(n, e) \<in> below (detach c d) \<longleftrightarrow>
      (n, e) \<in> below d \<and> ((c, e) \<in> below d \<longrightarrow> (c, n) \<in> below d)" for n e by (rule b(3))
  then show "dom_ok (detach c d)" using b(1) assms(1) by (auto simp: dom_ok_def)
  show "set (ids (detach c d)) = set (ids d)" by (rule b(2))
  show "attrs (detach c d) = attrs d" by (rule detach_attrs [OF wf])
qed

lemma apply_change_ok:
  assumes "dom_ok (doc s)"
  shows "dom_ok (doc (apply_change root c s)) \<and>
    set (ids (doc s)) \<subseteq> set (ids (doc (apply_change root c s)))"
proof (cases c)
  case (RemoveNode n)
  with assms dom_ok_detach [OF assms] show ?thesis by (auto simp: Let_def split: option.split)
qed (use assms in \<open>auto simp: dom_ok_create dom_ok_attach record_mutation_def\<close>)

lemma records_record_mutation:
  "records (record_mutation root n m s) = records s @ (if observes root s n then [m] else [])"
  "transients (record_mutation root n m s) = transients s" "doc (record_mutation root n m s) = doc s"
  by (simp_all add: record_mutation_def)

lemma added_in_append: "added_in n (ms @ ms') \<longleftrightarrow> added_in n ms \<or> added_in n ms'"
  by (auto simp: added_in_def)

lemma named_simps [simp]:
  "\<not> removed_in n []" "\<not> added_in n []" "\<not> removed_in n [AttributesMutation m name]"
  "\<not> added_in n [AttributesMutation m name]"
  "added_in n [ChildListMutation a r] \<longleftrightarrow> ElementNode n \<in> set a"
  by (auto simp: removed_in_def added_in_def)

lemma hasAttribute_cong: "attrs d' = attrs d \<Longrightarrow> hasAttribute d' = hasAttribute d"
  by (simp add: fun_eq_iff hasAttribute_def getAttribute_def)

lemma eo_inv_startedD:
  assumes "eo_inv an root s eo" and "eo_started eo"
  shows "dom_ok (doc s)" "removed_in n (records s) \<Longrightarrow> n \<in> set (transients s)"
    "n \<in> set (transients s) \<Longrightarrow> (n, root) \<notin> below (doc s)"
    "covered an root (doc s) (records s) (e \<in> set (eo_elements eo)) e"
    "removed_in n (records s) \<or> added_in n (records s) \<or> n = root \<Longrightarrow> n \<in> set (ids (doc s))"
  using assms by (auto simp: eo_inv_def)

lemmas recorded = records_record_mutation removed_in_append added_in_append

lemma apart_below:
  "dom_ok (doc s) \<Longrightarrow> apart root s \<longleftrightarrow> (\<forall>t \<in> set (transients s). (t, root) \<notin> below (doc s))"
  by (simp add: apart_def list_all_iff contains_below)

text \<open>A node that was removed stays above the observed element until the next delivery.\<close>

lemma apart_change:
  assumes ok: "dom_ok (doc s)" and ap: "apart root (apply_change root c s)"
  shows "apart root s"
proof (rule ccontr)
  assume "\<not> apart root s"
  then obtain t where t: "t \<in> set (transients s)" "(t, root) \<in> below (doc s)" by (auto simp: apart_below [OF ok])
  have ok': "dom_ok (doc (apply_change root c s))" using apply_change_ok [OF ok] by blast
  have "\<exists>u \<in> set (transients (apply_change root c s)). (u, root) \<in> below (doc (apply_change root c s))"
  proof (cases c)
    case (InsertNode n p k)
    then show ?thesis using t dom_ok_attach(3) [OF ok, of n p t root k] by (auto simp: records_record_mutation intro!: bexI [of _ t])
  next
    case (RemoveNode n)
    show ?thesis
    proof (cases "parentElement (doc s) n")
      case (Some p)
      have wf: "dom_wf (doc s)" using ok by (simp add: dom_ok_def)
      note par = parentElement_Some [OF wf Some] and de = dom_ok_detach(3) [OF ok Some]
      show ?thesis
      proof (cases "(n, root) \<in> below (doc s) \<and> (n, t) \<notin> below (doc s)")
        case True
        then have "(t, n) \<in> below (doc s)" using below_chain [OF wf, of t root n] t(2) by blast
        then have "(t, p) \<in> below (doc s)" using par(2) [of t] True below_refl [OF par(3)] by auto
        then have "observes root s p" using t(1) by (auto simp: observes_below [OF ok])
        moreover have "(n, root) \<in> below (detach n (doc s))" using True de below_refl [OF par(3)] by auto
        ultimately show ?thesis using RemoveNode Some by (simp add: Let_def records_record_mutation)
      next
        case False
        then have "(t, root) \<in> below (detach n (doc s))" using t(2) de by auto
        with t(1) show ?thesis using RemoveNode Some by (auto simp: Let_def records_record_mutation)
      qed
    qed (use t RemoveNode in auto)
  qed (use t in \<open>auto simp: records_record_mutation below_append\<close>)
  with ap show False by (simp add: apart_below [OF ok'])
qed

lemma eo_inv_insert:
  assumes inv: "eo_inv an root s eo" and st: "eo_started eo" and ap: "apart root (apply_change root (InsertNode n p k) s)"
    and ins: "n \<in> set (ids (doc s))" "p \<in> set (ids (doc s))" "parentElement (doc s) n = None" "n \<noteq> document_root" "\<not> contains (doc s) n p"
  shows "eo_inv an root (apply_change root (InsertNode n p k) s) eo"
proof -
  note ok = eo_inv_startedD(1) [OF inv st] and tr = eo_inv_startedD(2) [OF inv st] and ab = eo_inv_startedD(3) [OF inv st]
    and cov = eo_inv_startedD(4) [OF inv st]
  have wf: "dom_wf (doc s)" using ok by (simp add: dom_ok_def)
  note a = dom_ok_attach [OF ok ins, where k = k]
  have ap': "(m, root) \<notin> below (attach n p k (doc s))" if "m \<in> set (transients s)" for m
    using that ap ins a(1) by (auto simp: apart_below records_record_mutation)
  have adm': "\<not> observes root s p" if r: "(n, root) \<in> below (doc s)"
  proof
    assume "observes root s p"
    then consider "(root, p) \<in> below (doc s)" | m where "m \<in> set (transients s)" "(m, p) \<in> below (doc s)"
      by (auto simp: observes_below [OF ok])
    then show False
    proof cases
      case 1
      then show ?thesis using below_trans [OF wf r] ins(5) by (simp add: contains_below [OF ok])
    next
      case 2
      then show ?thesis using ap' [of m] r by (simp add: a(3))
    qed
  qed
  have "covered an root (attach n p k (doc s)) (records (record_mutation root p
      (ChildListMutation [ElementNode n] []) s)) (e \<in> set (eo_elements eo)) e" for e
    by (rule covered_insert [OF ok tr cov a(3)])
      (use ins adm' parentElement_None [OF wf] in \<open>auto simp: hasAttribute_cong [OF a(4)]\<close>)
  with ap' show ?thesis using ins inv st a by (auto simp: eo_inv_def recorded)
qed

lemma eo_inv_remove:
  assumes inv: "eo_inv an root s eo" and st: "eo_started eo" and parent: "parentElement (doc s) n = Some p"
  shows "eo_inv an root (apply_change root (RemoveNode n) s) eo"
proof -
  note ok = eo_inv_startedD(1) [OF inv st] and tr = eo_inv_startedD(2) [OF inv st] and ab = eo_inv_startedD(3) [OF inv st]
    and cov = eo_inv_startedD(4) [OF inv st]
  have wf: "dom_wf (doc s)" using ok by (simp add: dom_ok_def)
  note par = parentElement_Some [OF wf parent] and de = dom_ok_detach [OF ok parent]
  have cov': "covered an root (detach n (doc s)) (records (record_mutation root p
      (ChildListMutation [] [ElementNode n]) s)) (e \<in> set (eo_elements eo)) e" for e
    by (rule covered_remove [OF ok tr ab cov de(3)])
      (use par in \<open>auto simp: hasAttribute_cong [OF de(4)]\<close>)
  have "(m, root) \<notin> below (detach n (doc s))" if "m \<in> set (transients s)" for m
    using that ab de(3) by auto
  moreover have "(n, root) \<notin> below (doc s)" if "observes root s p"
    using that par(1,4) ab below_trans [OF wf, of _ p root] below_trans [OF wf, of p n root]
      below_antisym [OF wf, of p root] below_antisym [OF wf, of p n]
    by (auto simp: observes_below [OF ok])
  ultimately show ?thesis
    using parent inv st cov' de par(3) by (auto simp: eo_inv_def recorded Let_def)
qed

lemma eo_inv_change:
  assumes inv: "eo_inv an root s eo" and st: "eo_started eo" and ap: "apart root (apply_change root c s)"
  shows "eo_inv an root (apply_change root c s) eo"
proof -
  note facts = eo_inv_startedD [OF inv st]
  note [simp] = eo_inv_def recorded
  show ?thesis
  proof (cases c)
    case (SetAttribute n name v)
    then show ?thesis using inv st covered_attribute [OF facts(1,2,4)] by auto
  next
    case (RemoveAttribute n name)
    then show ?thesis using inv st covered_attribute [OF facts(1,2,4)] by auto
  next
    case (CreateElement tg a)
    then show ?thesis
      using inv st covered_create [OF facts(4) fresh_not_in facts(5)] dom_ok_create [OF facts(1)] facts(3) fresh_not_in [of "doc s"]
      by (auto simp: below_append)
  next
    case (InsertNode n p k)
    show ?thesis
    proof (cases "n \<in> set (ids (doc s)) \<and> p \<in> set (ids (doc s)) \<and> parentElement (doc s) n = None
        \<and> n \<noteq> document_root \<and> \<not> contains (doc s) n p")
      case True
      have "apart root (apply_change root (InsertNode n p k) s)" using ap by (simp only: InsertNode)
      from eo_inv_insert [OF inv st this] True have "eo_inv an root (apply_change root (InsertNode n p k) s) eo"
        by (simp only: simp_thms)
      then show ?thesis by (simp only: InsertNode)
    qed (use InsertNode inv st in auto)
  next
    case (RemoveNode n)
    show ?thesis
    proof (cases "parentElement (doc s) n")
      case (Some p)
      from eo_inv_remove [OF inv st this] show ?thesis unfolding RemoveNode .
    qed (use RemoveNode inv st in auto)
  next
    case (InsertText p)
    have "covered an root (doc s) (records (record_mutation root p (ChildListMutation [TextNode] []) s))
        (e \<in> set (eo_elements eo)) e" for e
      by (rule covered_record [OF facts(4)]) simp
    then show ?thesis using InsertText inv st by auto
  qed
qed

lemma eo_inv_empty:
  assumes "dom_ok (doc s)" "distinct (eo_elements eo)" "eo_element eo = root" "root \<in> set (ids (doc s))"
    "records s = []" "transients s = []"
    "eo_started eo \<Longrightarrow> set (eo_elements eo) = {e. (root, e) \<in> below (doc s) \<and> hasAttribute (doc s) e an}"
  shows "eo_inv an root s eo"
  using assms by (auto simp: eo_inv_def covered_def)

lemma ElementObserver_refresh_frame [simp]: "eo_frame eo (fst (ElementObserver_refresh d an eo))"
  by (auto simp: ElementObserver_refresh_def Let_def case_prod_unfold
      intro!: eo_frame_trans [OF each_frame each_frame])

lemma eo_inv_start:
  assumes "eo_inv an root s eo" and "\<not> eo_started eo"
  shows "eo_inv an root s (fst (ElementObserver_start (doc s) an eo))"
proof -
  let ?eo = "eo\<lparr>eo_started := True\<rparr>"
  have "eo_frame ?eo (fst (ElementObserver_refresh (doc s) an ?eo))" by simp
  with assms show ?thesis
    using ElementObserver_refresh_elements [of "doc s" ?eo an]
    by (intro eo_inv_empty) (auto simp: eo_inv_def eo_frame_def ElementObserver_start_def)
qed

lemma eo_inv_deliver_elements:
  assumes "eo_inv an root s eo" and "eo_started eo"
  shows "set (eo_elements (fst (processMutations (doc s) an (records s) eo))) =
    {e. (root, e) \<in> below (doc s) \<and> hasAttribute (doc s) e an}"
  using assms covered_delivered [of an root "doc s" "records s"]
  by (auto simp: eo_inv_def processMutations_elements)

lemma eo_inv_deliver:
  assumes "eo_inv an root s eo"
  shows "eo_inv an root (s\<lparr>records := [], transients := []\<rparr>)
    (fst (processMutations (doc s) an (records s) eo))"
proof -
  have "eo_frame eo (fst (processMutations (doc s) an (records s) eo))" by simp
  with assms show ?thesis
    using eo_inv_deliver_elements [OF assms]
    by (intro eo_inv_empty) (auto simp: eo_inv_def eo_frame_def)
qed

lemma eo_inv_unseen:
  assumes "eo_inv an root s eo" and "\<not> eo_started eo"
  shows "eo_inv an root (s\<lparr>doc := doc (apply_change root c s)\<rparr>) eo"
  using assms apply_change_ok [of s root c] by (intro eo_inv_empty) (auto simp: eo_inv_def)

text \<open>
  In any run the set is one without repetitions; when the observed element is apart from the removed
  nodes, the records make up for the difference to the document.
\<close>

definition watch_inv :: "string \<Rightarrow> nat \<Rightarrow> bool \<Rightarrow> observed \<Rightarrow> element_observer \<Rightarrow> bool" where
  "watch_inv an root ok s eo \<longleftrightarrow> dom_ok (doc s) \<and> distinct (eo_elements eo) \<and> eo_element eo = root
     \<and> root \<in> set (ids (doc s)) \<and> (\<not> eo_started eo \<longrightarrow> records s = [] \<and> transients s = [])
     \<and> (eo_started eo \<and> ok \<and> apart root s \<longrightarrow> eo_inv an root s eo)"

lemma watch_inv_started: "eo_inv an root s eo \<Longrightarrow> eo_started eo \<Longrightarrow> watch_inv an root ok s eo"
  by (simp add: watch_inv_def) (simp add: eo_inv_def)

lemma watch_inv_stopped: "watch_inv an root ok s eo \<Longrightarrow> \<not> eo_started eo \<Longrightarrow> eo_inv an root s eo"
  by (intro eo_inv_empty) (auto simp: watch_inv_def)

lemma watch_inv_change:
  assumes inv: "watch_inv an root ok s eo" and st: "eo_started eo"
  shows "watch_inv an root ok (apply_change root c s) eo"
proof -
  have d: "dom_ok (doc s)" using inv by (simp add: watch_inv_def)
  have "eo_inv an root (apply_change root c s) eo" if ok and ap: "apart root (apply_change root c s)"
    using inv st \<open>ok\<close> apart_change [OF d ap] ap by (intro eo_inv_change) (simp_all add: watch_inv_def)
  with inv st apply_change_ok [OF d, of root c] show ?thesis by (auto simp: watch_inv_def)
qed

lemma watch_inv_deliver:
  assumes inv: "watch_inv an root ok s eo"
  shows "watch_inv an root (ok \<and> apart root s) (s\<lparr>records := [], transients := []\<rparr>) (fst (processMutations (doc s) an (records s) eo))"
proof -
  have "eo_frame eo (fst (processMutations (doc s) an (records s) eo))" by simp
  with inv show ?thesis using eo_inv_deliver [of an root s eo] by (auto simp: watch_inv_def eo_frame_def)
qed

lemma watched_inv: "watched an root ok s eo \<Longrightarrow> watch_inv an root ok s eo"
proof (induction rule: watched.induct)
  case (created d)
  then show ?case by (simp add: watch_inv_def new_ElementObserver_def)
next
  case (start ok s eo)
  note inv = eo_inv_start [OF watch_inv_stopped [OF start.IH start.hyps(2)] start.hyps(2)]
  moreover have "eo_started (fst (ElementObserver_start (doc s) an eo))"
    using ElementObserver_refresh_frame [of "eo\<lparr>eo_started := True\<rparr>" "doc s" an] start.hyps(2)
    by (simp add: ElementObserver_start_def eo_frame_def)
  ultimately show ?case by (simp add: watch_inv_def) (simp add: eo_inv_def)
next
  case (stop ok s eo)
  then show ?case by (simp add: watch_inv_def ElementObserver_stop_def)
next
  case (unseen ok s eo c)
  then show ?case using apply_change_ok [of s root c] by (auto simp: watch_inv_def)
qed (simp_all add: watch_inv_change watch_inv_deliver)

text \<open>The document's root element has no parent, so it is apart from all that is removed.\<close>

lemma apart_document:
  assumes "dom_ok (doc s)" and "document_root \<notin> set (transients s)"
  shows "document_root \<notin> set (transients (apply_change document_root c s))" "apart document_root (apply_change document_root c s)"
proof -
  have ok: "dom_ok (doc (apply_change document_root c s))" using apply_change_ok [OF assms(1)] by blast
  have wf: "dom_wf (doc s)" using assms(1) by (simp add: dom_ok_def)
  have top: "parentElement (doc s) document_root = None"
    using parentElement_Some(1,4) [OF wf, of document_root] assms(1)
    by (cases "parentElement (doc s) document_root") (fastforce simp: dom_ok_def)+
  show n: "document_root \<notin> set (transients (apply_change document_root c s))"
    by (cases c) (use assms top in \<open>auto simp: records_record_mutation Let_def split: option.split\<close>)
  with ok show "apart document_root (apply_change document_root c s)"
    unfolding apart_below [OF ok] by (auto simp: dom_ok_def)
qed

lemma eo_inv_apart:
  assumes "eo_inv an document_root s eo" and "eo_started eo"
  shows "apart document_root (apply_change document_root c s)"
proof -
  have "dom_ok (doc s)" "document_root \<notin> set (transients s)"
    using assms below_refl [of document_root "doc s"] by (auto simp: eo_inv_def)
  then show ?thesis by (rule apart_document(2))
qed

section \<open>The set follows the document\<close>

text \<open>
  C9: After a delivery of mutation records the set of a started \<open>ElementObserver\<close> is exactly the
  set of elements inside the observed element that carry the attribute, each once: for any
  starting document and any sequence of attribute changes, insertions, removals and moves of whole
  subtrees between deliveries, stops and restarts included. The one condition is that at no delivery
  since the last start the observed element is below a node that was removed, in the same batch, from
  the tree it observes; \<open>element_below_its_removed_child\<close> shows that the set is wrong otherwise. The
  document's element, which the application observes, meets it always (\<open>apart_document\<close>).
\<close>

theorem elements_follow_the_document:
  assumes "watched an root True s eo" and "eo_started eo" and "apart root s"
    and "eo' = fst (processMutations (doc s) an (records s) eo)"
  shows "distinct (eo_elements eo')
    \<and> set (eo_elements eo') = {e. contains (doc s) root e \<and> hasAttribute (doc s) e an}"
proof -
  have inv: "eo_inv an root s eo" using watched_inv [OF assms(1)] assms(2,3) by (simp add: watch_inv_def)
  then have "dom_ok (doc s)" by (simp add: eo_inv_def)
  then show ?thesis
    using eo_inv_deliver_elements [OF inv assms(2)] eo_inv_deliver [OF inv] assms(4)
    by (simp add: eo_inv_def contains_below)
qed

text \<open>A move out of a subtree that is itself removed, in one batch.\<close>

definition demo_doc :: dom where
  "demo_doc = [El 0 ''html'' [] [El 1 ''div'' [] [El 2 ''p'' [(''data-controller'', ''x'')] []],
     El 3 ''div'' [] []]]"

definition demo_moved :: observed where
  "demo_moved = fold (apply_change 0) [RemoveNode 1, RemoveNode 2, InsertNode 2 3 0]
     \<lparr>doc = demo_doc, records = [], transients = []\<rparr>"

lemma demo_moved_eval:
  "demo_moved = \<lparr>doc = [El 0 ''html'' [] [El 3 ''div'' [] [El 2 ''p'' [(''data-controller'', ''x'')] []]],
      El 1 ''div'' [] []],
     records = [ChildListMutation [] [ElementNode 1], ChildListMutation [] [ElementNode 2],
       ChildListMutation [ElementNode 2] []], transients = [1, 2]\<rparr>"
  by (simp add: demo_moved_def demo_doc_def parentElement_def detach_def attach_def insert_at_def
      record_mutation_def observes_def contains_def subtree_def document_root_def)

theorem elements_follow_the_document_witness:
  "\<exists>eo. watched ''data-controller'' 0 True demo_moved eo \<and> eo_started eo \<and> apart 0 demo_moved
     \<and> set (eo_elements (fst (processMutations (doc demo_moved) ''data-controller''
         (records demo_moved) eo))) = {2}"
proof -
  let ?an = "''data-controller''"
  let ?s = "\<lparr>doc = demo_doc, records = [], transients = []\<rparr>"
  define eo where "eo = fst (ElementObserver_start (doc ?s) ?an (new_ElementObserver 0))"
  have ok: "dom_ok demo_doc" by (auto simp: dom_ok_def dom_wf_def demo_doc_def document_root_def)
  have "watched ?an 0 True ?s (new_ElementObserver 0)"
    by (rule watched.created [OF ok]) (simp add: demo_doc_def)
  then have w0: "watched ?an 0 True ?s eo"
    unfolding eo_def by (rule watched.start) (simp add: new_ElementObserver_def)
  have st: "eo_started eo"
    using ElementObserver_refresh_frame [of "(new_ElementObserver 0)\<lparr>eo_started := True\<rparr>" demo_doc ?an]
    by (simp add: eo_def ElementObserver_start_def new_ElementObserver_def eo_frame_def)
  have step: "watched ?an 0 True (apply_change 0 c s) eo" if "watched ?an 0 True s eo" for c s
    by (rule watched.change [OF that st])
  have w: "watched ?an 0 True demo_moved eo"
    unfolding demo_moved_def fold_simps by (intro step w0)
  have ap: "apart 0 demo_moved" by (simp add: apart_def demo_moved_eval contains_def subtree_def)
  have "e \<in> {e. contains (doc demo_moved) 0 e \<and> hasAttribute (doc demo_moved) e ?an} \<longleftrightarrow> e = 2" for e
    by (auto simp: demo_moved_eval contains_def subtree_def hasAttribute_def getAttribute_def attrs_def
        lower_def lower_char_def is_upper_def)
  with elements_follow_the_document [OF w st ap refl] w st ap show ?thesis by blast
qed

text \<open>
  An element that does not stay apart: in one batch of records the child 2 of the observed element 1
  is removed, the element is put into the element 4 and this one into the child. The delivery takes
  everything below the removed child out of the set and finds that the added element 4 is not inside
  the observed one: the set ends without the element 3, which is still inside.
\<close>

definition loop_doc :: dom where
  "loop_doc = [El 0 ''html'' [] [El 1 ''div'' [] [El 2 ''p'' [] [], El 3 ''p'' [(''a'', ''x'')] []]], El 4 ''div'' [] []]"

definition looped :: observed where
  "looped = fold (apply_change 1) [RemoveNode 2, RemoveNode 1, InsertNode 1 4 0, InsertNode 4 2 0, InsertNode 2 0 0]
     \<lparr>doc = loop_doc, records = [], transients = []\<rparr>"

lemma element_below_its_removed_child:
  "let eo = fst (ElementObserver_start loop_doc ''a'' (new_ElementObserver 1))
   in eo_elements eo = [3] \<and> \<not> apart 1 looped \<and> contains (doc looped) 1 3 \<and> hasAttribute (doc looped) 3 ''a''
      \<and> eo_elements (fst (processMutations (doc looped) ''a'' (records looped) eo)) = []"
  by code_simp

end
