(* ===== verification/Token_Sync.thy ===== *)
theory Token_Sync
  imports Element_Sync Token_List
begin

text \<open>
  The tokens of a \<open>TokenListObserver\<close> follow the attributes of the document, and the calls it
  makes to its delegate match the tokens it holds: a token is reported as matched once, when
  it is created, and as unmatched at most once, when it is given up.
\<close>

section \<open>Calls to the delegate\<close>

definition all_tokens :: "token_list_observer \<Rightarrow> token set" where
  "all_tokens tlo = (\<Union>e. set (tokens_of tlo e))"

fun token_replay :: "token_call list \<Rightarrow> token set \<times> nat \<Rightarrow> (token set \<times> nat) option" where
  "token_replay [] Tn = Some Tn"
| "token_replay (TokenMatched t # cs) Tn = (case Tn of (T, n) \<Rightarrow>
     if tok_id t < n then None else token_replay cs (insert t T, Suc (tok_id t)))"
| "token_replay (TokenUnmatched t # cs) Tn = (case Tn of (T, n) \<Rightarrow>
     if t \<in> T then token_replay cs (T - {t}, n) else None)"

lemma token_replay_append:
  "token_replay (cs1 @ cs2) Tn = Option.bind (token_replay cs1 Tn) (token_replay cs2)"
  by (induction cs1 Tn rule: token_replay.induct) (auto split: prod.splits)

lemma token_replay_unmatched:
  "distinct ts \<Longrightarrow> set ts \<subseteq> T \<Longrightarrow> token_replay (map TokenUnmatched ts) (T, n) = Some (T - set ts, n)"
proof (induction ts arbitrary: T)
  case (Cons t ts)
  then have "set ts \<subseteq> T - {t}" by auto
  with Cons have "token_replay (map TokenUnmatched ts) (T - {t}, n) = Some (T - {t} - set ts, n)" by simp
  moreover have "T - {t} - set ts = T - insert t (set ts)" by blast
  ultimately show ?case using Cons.prems by simp
qed simp

lemma token_replay_matched:
  assumes "map tok_id ts = [a..<b]" and "n \<le> a"
  shows "\<exists>n'. token_replay (map TokenMatched ts) (T, n) = Some (T \<union> set ts, n') \<and> n' \<le> max n b"
  using assms
proof (induction ts arbitrary: T n a)
  case (Cons t ts)
  from Cons.prems(1) have "a < b" "tok_id t = a" "map tok_id ts = [Suc a..<b]"
    by (auto simp: upt_eq_Cons_conv eq_commute)
  with Cons.IH [of "Suc a" "Suc a" "insert t T"] Cons.prems(2) show ?case by auto
qed simp

lemma all_tokens_at:
  assumes "\<And>x. x \<noteq> e \<Longrightarrow> tokens_of tlo' x = tokens_of tlo x"
  shows "all_tokens tlo' = set (tokens_of tlo' e) \<union> (\<Union>x \<in> - {e}. set (tokens_of tlo x))"
proof -
  have "(UNIV :: nat set) = insert e (- {e})" by auto
  then have "all_tokens tlo' = set (tokens_of tlo' e) \<union> (\<Union>x \<in> - {e}. set (tokens_of tlo' x))"
    unfolding all_tokens_def by (metis UN_insert)
  also have "(\<Union>x \<in> - {e}. set (tokens_of tlo' x)) = (\<Union>x \<in> - {e}. set (tokens_of tlo x))"
    using assms by auto
  finally show ?thesis .
qed

text \<open>
  Every call of the observer leaves the delegate with the tokens it holds; \<open>n\<close> bounds the
  identities of the tokens that the delegate has seen.
\<close>

lemma tokens_elsewhere: "tl_wf tlo \<Longrightarrow> x \<noteq> e \<Longrightarrow> t \<in> set (tokens_of tlo e) \<Longrightarrow> t \<notin> set (tokens_of tlo x)"
  unfolding tl_wf_def by metis

lemma call_replay_changed:
  assumes wf: "tl_wf tlo" and step: "(tlo', calls) = TokenListObserver_call d (ElementAttributeValueChanged e) tlo"
    and n: "n \<le> next_token tlo"
  shows "tl_wf tlo' \<and> (\<exists>n'. token_replay calls (all_tokens tlo, n) = Some (all_tokens tlo', n')
    \<and> n' \<le> next_token tlo')"
proof -
  obtain cs tlo1 where read: "readTokensForElement d e tlo = (cs, tlo1)" by fastforce
  define i where "i = common (tokens_of tlo e) cs"
  note ch = call_changed [OF wf read i_def step]
  let ?kept = "all_tokens tlo - set (drop i (tokens_of tlo e))"
  have d: "distinct (take i (tokens_of tlo e) @ drop i (tokens_of tlo e))"
    using tl_wf_distinct [OF wf, of e] by simp
  then have split: "set (tokens_of tlo e) - set (drop i (tokens_of tlo e)) = set (take i (tokens_of tlo e))"
    unfolding distinct_append by (metis Diff_triv Int_commute Un_Diff append_take_drop_id
        set_append Diff_cancel sup_bot.right_neutral)
  have others: "all_tokens tlo = set (tokens_of tlo e) \<union> (\<Union>x \<in> - {e}. set (tokens_of tlo x))"
    by (rule all_tokens_at) simp
  have "?kept = set (take i (tokens_of tlo e)) \<union> (\<Union>x \<in> - {e}. set (tokens_of tlo x))"
    unfolding others split [symmetric] using tokens_elsewhere [OF wf] by (auto dest: in_set_dropD)
  then have all': "all_tokens tlo' = ?kept \<union> set (drop i cs)"
    using all_tokens_at [of e tlo' tlo] ch(3) by auto
  have "map tok_id (drop i cs) = [next_token tlo + i..<next_token tlo + length cs]"
    using readTokens(3) [OF read] by (simp add: drop_map [symmetric])
  from token_replay_matched [OF this, of n ?kept] n
  obtain n' where "token_replay (map TokenMatched (drop i cs)) (?kept, n) = Some (?kept \<union> set (drop i cs), n')"
    "n' \<le> next_token tlo + length cs" by auto
  moreover have "token_replay (map TokenUnmatched (drop i (tokens_of tlo e))) (all_tokens tlo, n) = Some (?kept, n)"
    using d by (intro token_replay_unmatched) (auto simp: all_tokens_def dest: in_set_dropD)
  ultimately show ?thesis using ch(1,4,6) all' by (simp add: token_replay_append)
qed

lemma call_replay:
  assumes wf: "tl_wf tlo" and fresh: "\<And>e. c = ElementMatchedAttribute e \<Longrightarrow> tokens_of tlo e = []"
    and step: "(tlo', calls) = TokenListObserver_call d c tlo" and n: "n \<le> next_token tlo"
  shows "tl_wf tlo' \<and> (\<exists>n'. token_replay calls (all_tokens tlo, n) = Some (all_tokens tlo', n')
    \<and> n' \<le> next_token tlo')"
proof -
  have others: "all_tokens tlo = set (tokens_of tlo e) \<union> (\<Union>x \<in> - {e}. set (tokens_of tlo x))" for e
    by (rule all_tokens_at) simp
  show ?thesis
  proof (cases c)
    case (ElementMatchedAttribute e)
    obtain cs tlo1 where read: "readTokensForElement d e tlo = (cs, tlo1)" by fastforce
    note m = call_matched [OF wf read fresh [OF ElementMatchedAttribute] step [unfolded ElementMatchedAttribute]]
    have all': "all_tokens tlo' = all_tokens tlo \<union> set cs"
      using all_tokens_at [of e tlo' tlo] others [of e] m(3) fresh [OF ElementMatchedAttribute] by auto
    with m(1,4,6) n token_replay_matched [OF readTokens(3) [OF read] n, of "all_tokens tlo"]
    show ?thesis by auto
  next
    case (ElementUnmatchedAttribute e)
    note u = call_unmatched [OF wf step [unfolded ElementUnmatchedAttribute]]
    have "all_tokens tlo' = all_tokens tlo - set (tokens_of tlo e)"
      using all_tokens_at [of e tlo' tlo] others [of e] u(3) tokens_elsewhere [OF wf] by auto
    then show ?thesis
      using u(1,4,5) n token_replay_unmatched [OF tl_wf_distinct [OF wf, of e], of "all_tokens tlo" n]
      by (auto simp: all_tokens_def)
  next
    case (ElementAttributeValueChanged e)
    from call_replay_changed [OF wf step [unfolded ElementAttributeValueChanged] n] show ?thesis .
  qed
qed

section \<open>The tokens follow the document\<close>

lemma call_effect:
  assumes wf: "tl_wf tlo" and empty: "\<And>e. e \<notin> E \<Longrightarrow> tokens_of tlo e = []"
    and step: "(tlo', calls) = TokenListObserver_call d c tlo" and rep: "replay [c] E = Some E'"
  shows "tl_attributeName tlo' = tl_attributeName tlo \<and> (\<forall>e. e \<notin> E' \<longrightarrow> tokens_of tlo' e = [])
    \<and> (\<forall>e \<in> E'. if c = ElementMatchedAttribute e \<or> c = ElementAttributeValueChanged e
         then map tok_content (tokens_of tlo' e) = attr_words d (tl_attributeName tlo) e
         else tokens_of tlo' e = tokens_of tlo e)"
proof (cases c)
  case (ElementMatchedAttribute e)
  with rep have E: "e \<notin> E" "E' = insert e E" by (auto split: if_splits)
  obtain cs tlo1 where read: "readTokensForElement d e tlo = (cs, tlo1)" by fastforce
  note m = call_matched [OF wf read empty [OF E(1)] step [unfolded ElementMatchedAttribute]]
  from m(2,3,5) E empty ElementMatchedAttribute show ?thesis by auto
next
  case (ElementUnmatchedAttribute e)
  with rep have E: "e \<in> E" "E' = E - {e}" by (auto split: if_splits)
  note u = call_unmatched [OF wf step [unfolded ElementUnmatchedAttribute]]
  from u(2,3) E empty ElementUnmatchedAttribute show ?thesis by auto
next
  case (ElementAttributeValueChanged e)
  with rep have E: "e \<in> E" "E' = E" by (auto split: if_splits)
  obtain cs tlo1 where read: "readTokensForElement d e tlo = (cs, tlo1)" by fastforce
  note ch = call_changed [OF wf read refl step [unfolded ElementAttributeValueChanged]]
  from ch(2,3,5) E empty ElementAttributeValueChanged show ?thesis by auto
qed

lemma calls_effect:
  assumes "tl_wf tlo" and "\<And>e. e \<notin> E \<Longrightarrow> tokens_of tlo e = []" and "replay cs E = Some E'"
    and "(tlo', calls) = each (TokenListObserver_call d) cs tlo" and "n \<le> next_token tlo"
  shows "tl_wf tlo' \<and> tl_attributeName tlo' = tl_attributeName tlo
    \<and> (\<exists>n'. token_replay calls (all_tokens tlo, n) = Some (all_tokens tlo', n') \<and> n' \<le> next_token tlo')
    \<and> (\<forall>e. e \<notin> E' \<longrightarrow> tokens_of tlo' e = [])
    \<and> (\<forall>e \<in> E'. map tok_content (tokens_of tlo' e) = attr_words d (tl_attributeName tlo) e
         \<or> (tokens_of tlo' e = tokens_of tlo e \<and> ElementMatchedAttribute e \<notin> set cs
              \<and> ElementAttributeValueChanged e \<notin> set cs))"
  using assms
proof (induction cs arbitrary: E tlo calls n)
  case (Cons c cs)
  obtain tlo1 c1 where one: "(tlo1, c1) = TokenListObserver_call d c tlo" by (metis surj_pair)
  obtain c2 where two: "(tlo', c2) = each (TokenListObserver_call d) cs tlo1" and calls: "calls = c1 @ c2"
    using Cons.prems(4) by (auto simp: one [symmetric] Let_def split: prod.splits)
  obtain E1 where E1: "replay [c] E = Some E1" "replay cs E1 = Some E'"
    using Cons.prems(3) replay_append [of "[c]" cs E] by (cases "replay [c] E") auto
  note eff = call_effect [OF Cons.prems(1,2) one E1(1)]
  have "tl_wf tlo1 \<and> (\<exists>n'. token_replay c1 (all_tokens tlo, n) = Some (all_tokens tlo1, n')
      \<and> n' \<le> next_token tlo1)"
    by (rule call_replay [OF Cons.prems(1) _ one Cons.prems(5)])
      (use E1(1) Cons.prems(2) in \<open>auto split: if_splits\<close>)
  then obtain n1 where wf1: "tl_wf tlo1"
    and rep1: "token_replay c1 (all_tokens tlo, n) = Some (all_tokens tlo1, n1)" "n1 \<le> next_token tlo1" by auto
  have empty1: "e \<notin> E1 \<Longrightarrow> tokens_of tlo1 e = []" for e using eff by blast
  note IH = Cons.IH [OF wf1 empty1 E1(2) two rep1(2)]
  have "map tok_content (tokens_of tlo' e) = attr_words d (tl_attributeName tlo) e
      \<or> (tokens_of tlo' e = tokens_of tlo e \<and> ElementMatchedAttribute e \<notin> set (c # cs)
           \<and> ElementAttributeValueChanged e \<notin> set (c # cs))" if "e \<in> E'" for e
  proof -
    have an1: "tl_attributeName tlo1 = tl_attributeName tlo" using eff by simp
    from IH that an1 consider "map tok_content (tokens_of tlo' e) = attr_words d (tl_attributeName tlo) e"
      | "tokens_of tlo' e = tokens_of tlo1 e" "ElementMatchedAttribute e \<notin> set cs"
        "ElementAttributeValueChanged e \<notin> set cs" by force
    then show ?thesis
    proof cases
      case 2
      with that E1(2) have "e \<in> E1" using replay_new by blast
      with eff have "if c = ElementMatchedAttribute e \<or> c = ElementAttributeValueChanged e
          then map tok_content (tokens_of tlo1 e) = attr_words d (tl_attributeName tlo) e
          else tokens_of tlo1 e = tokens_of tlo e" by blast
      with 2 show ?thesis by (auto split: if_splits)
    qed simp
  qed
  with IH eff rep1 calls show ?case by (auto simp: token_replay_append)
qed (auto simp: all_tokens_def)

text \<open>
  The elements with a record of the attribute; and what holds between deliveries: the elements of
  the set whose tokens may be out of date are in \<open>P\<close>.
\<close>

definition due :: "string \<Rightarrow> mutation list \<Rightarrow> nat set" where
  "due an ms = {e. AttributesMutation e an \<in> set ms}"

definition tok_inv :: "string \<Rightarrow> dom \<Rightarrow> nat set \<Rightarrow> nat set \<Rightarrow> token_list_observer \<Rightarrow> bool" where
  "tok_inv an d P E tlo \<longleftrightarrow> tl_wf tlo \<and> tl_attributeName tlo = an
     \<and> (\<forall>e. e \<notin> E \<longrightarrow> tokens_of tlo e = [])
     \<and> (\<forall>e \<in> E. map tok_content (tokens_of tlo e) = attr_words d an e \<or> e \<in> P)"

lemma due_Nil [simp]: "due an [] = {}"
  by (simp add: due_def)

lemma tok_inv_mono: "tok_inv an d P E tlo \<Longrightarrow> P \<subseteq> Q \<Longrightarrow> tok_inv an d Q E tlo"
  by (auto simp: tok_inv_def)

text \<open>Nothing is known of the tokens of the elements of \<open>P\<close>, so the document does not matter for them.\<close>

lemma tok_inv_any: "tok_inv an d P E tlo \<Longrightarrow> tok_inv an d' UNIV E tlo"
  by (simp add: tok_inv_def)

lemma attr_words_update:
  "getAttribute d' e an = getAttribute d e an \<Longrightarrow> attr_words d' an e = attr_words d an e"
  by (simp add: attr_words_def)

lemma member_observed:
  assumes "eo_inv an root s eo" and "eo_started eo" and "e \<in> set (eo_elements eo)"
  shows "observes root s e \<and> e \<in> set (ids (doc s))"
proof -
  from assms have ok: "dom_ok (doc s)" and tr: "\<And>n. removed_in n (records s) \<Longrightarrow> n \<in> set (transients s)"
    by (auto simp: eo_inv_def)
  have "covered an root (doc s) (records s) (e \<in> set (eo_elements eo)) e"
    using assms(1,2) by (simp add: eo_inv_def)
  with assms(3) have cov: "covered an root (doc s) (records s) True e" by simp
  from cov tr have "observes root s e" by (auto simp: observes_below [OF ok] covered_def)
  with covered_ids [OF cov] show ?thesis by simp
qed

lemma getAttribute_change:
  assumes "dom_ok (doc s)" and "e \<in> set (ids (doc s))"
    and "getAttribute (doc (apply_change root c s)) e an \<noteq> getAttribute (doc s) e an"
  shows "\<exists>name. lower name = lower an \<and> ((\<exists>v. c = SetAttribute e name v) \<or> c = RemoveAttribute e name)"
proof (cases c)
  case (SetAttribute n name v)
  with assms show ?thesis
    by (auto simp: getAttribute_def update_attrs_attrs record_mutation_def split: if_splits)
next
  case (RemoveAttribute n name)
  with assms show ?thesis
    by (auto simp: getAttribute_def update_attrs_attrs record_mutation_def split: if_splits)
next
  case (CreateElement tg a)
  from assms(2) obtain x where "map_of (nodes (doc s)) e = Some x"
    by (metis ids_def list.set_map map_of_eq_None_iff option.exhaust)
  with assms(3) CreateElement show ?thesis
    by (simp add: getAttribute_def attrs_def nodes_append map_add_def)
next
  case (InsertNode n p k)
  with assms dom_ok_attach(4) [OF assms(1), of n p k] show ?thesis
    by (auto simp: getAttribute_def split: if_splits)
next
  case (RemoveNode n)
  with assms dom_ok_detach(4) [OF assms(1), of n] show ?thesis
    by (auto simp: getAttribute_def Let_def split: option.splits if_splits)
qed (use assms in \<open>simp add: record_mutation_def split: if_splits\<close>)

lemma tok_inv_change:
  assumes inv: "eo_inv an root s eo" and st: "eo_started eo" and low: "lower an = an"
    and tok: "tok_inv an (doc s) (due an (records s) \<union> S) (set (eo_elements eo)) tlo"
  shows "tok_inv an (doc (apply_change root c s)) (due an (records (apply_change root c s)) \<union> S)
    (set (eo_elements eo)) tlo"
proof -
  let ?s = "apply_change root c s"
  have ok: "dom_ok (doc s)" using inv by (simp add: eo_inv_def)
  have mono: "set (records s) \<subseteq> set (records ?s)"
    by (cases c) (auto simp: record_mutation_def Let_def split: option.split)
  have "map tok_content (tokens_of tlo e) = attr_words (doc ?s) an e \<or> e \<in> due an (records ?s) \<union> S"
    if e: "e \<in> set (eo_elements eo)" for e
  proof (cases "getAttribute (doc ?s) e an = getAttribute (doc s) e an")
    case True
    with tok e mono attr_words_update [OF True] show ?thesis by (auto simp: tok_inv_def due_def)
  next
    case False
    note ob = member_observed [OF inv st e]
    from getAttribute_change [OF ok _ False] ob
    have "\<exists>name. lower name = an \<and> ((\<exists>v. c = SetAttribute e name v) \<or> c = RemoveAttribute e name)"
      by (simp add: low)
    with ob False show ?thesis by (auto simp: record_mutation_def due_def split: if_splits)
  qed
  with tok show ?thesis by (simp add: tok_inv_def)
qed

text \<open>The whole way from the records to the calls to the delegate of the token list.\<close>

definition deliver_tokens :: "dom \<Rightarrow> string \<Rightarrow> mutation list \<Rightarrow> element_observer \<Rightarrow> token_list_observer \<Rightarrow>
    element_observer \<times> token_list_observer \<times> token_call list" where
  "deliver_tokens d an ms eo tlo =
     (let (eo, cs) = processMutations d an ms eo;
          (tlo, calls) = each (TokenListObserver_call d) (attribute_calls an cs) tlo
      in (eo, tlo, calls))"

definition start_tokens :: "dom \<Rightarrow> string \<Rightarrow> element_observer \<Rightarrow> token_list_observer \<Rightarrow>
    element_observer \<times> token_list_observer \<times> token_call list" where
  "start_tokens d an eo tlo =
     (let (eo, cs) = ElementObserver_start d an eo;
          (tlo, calls) = each (TokenListObserver_call d) (attribute_calls an cs) tlo
      in (eo, tlo, calls))"

lemma tok_inv_deliver:
  assumes st: "eo_started eo" and tok: "tok_inv an d P (set (eo_elements eo)) tlo"
    and step: "(eo', tlo', calls) = deliver_tokens d an ms eo tlo" and n: "n \<le> next_token tlo"
  shows "tok_inv an d (P - due an ms) (set (eo_elements eo')) tlo'
    \<and> (\<exists>n'. token_replay calls (all_tokens tlo, n) = Some (all_tokens tlo', n') \<and> n' \<le> next_token tlo')"
proof -
  define cs where "cs = attribute_calls an (snd (processMutations d an ms eo))"
  have eo': "eo' = fst (processMutations d an ms eo)"
    and tlo': "(tlo', calls) = each (TokenListObserver_call d) cs tlo"
    using step by (simp_all add: deliver_tokens_def cs_def Let_def case_prod_unfold prod_eq_iff)
  have rep: "replay cs (set (eo_elements eo)) = Some (set (eo_elements eo'))"
    using reports_mutations [of an d ms] by (simp add: reports_def cs_def eo')
  have wf: "tl_wf tlo" and an: "tl_attributeName tlo = an"
    and empty: "\<And>e. e \<notin> set (eo_elements eo) \<Longrightarrow> tokens_of tlo e = []"
    using tok by (auto simp: tok_inv_def)
  note eff = calls_effect [OF wf empty rep tlo' n]
  have "e \<in> P - due an ms"
    if e: "e \<in> set (eo_elements eo')" and stale: "map tok_content (tokens_of tlo' e) \<noteq> attr_words d an e" for e
  proof -
    have same: "tokens_of tlo' e = tokens_of tlo e" "ElementMatchedAttribute e \<notin> set cs"
      "ElementAttributeValueChanged e \<notin> set cs" using eff e an stale by blast+
    with e replay_new [OF rep] have "e \<in> set (eo_elements eo)" by blast
    with tok same(1) stale have "e \<in> P" by (auto simp: tok_inv_def)
    moreover have "AttributesMutation e an \<notin> set ms"
      using processMutations_reached [OF st _ e [unfolded eo']] same by (auto simp: cs_def)
    ultimately show ?thesis by (simp add: due_def)
  qed
  with eff an show ?thesis by (auto simp: tok_inv_def)
qed

lemma new_TokenListObserver_wf [simp]:
  "tl_wf (new_TokenListObserver an)" "tokens_of (new_TokenListObserver an) e = []"
  using mm.inv_empty by (auto simp: tl_wf_def new_TokenListObserver_def getValuesForKey_def new_Multimap_def)

lemma tok_inv_new: "tok_inv an d P {} (new_TokenListObserver an)" "all_tokens (new_TokenListObserver an) = {}"
  by (auto simp: tok_inv_def all_tokens_def) (simp add: new_TokenListObserver_def)

lemma tok_inv_start:
  assumes st: "\<not> eo_started eo" and tok: "tok_inv an d P (set (eo_elements eo)) tlo"
    and step: "(eo', tlo', calls) = start_tokens d an eo tlo" and n: "n \<le> next_token tlo"
  shows "tok_inv an d P (set (eo_elements eo')) tlo'
    \<and> (\<exists>n'. token_replay calls (all_tokens tlo, n) = Some (all_tokens tlo', n') \<and> n' \<le> next_token tlo')"
proof -
  define cs where "cs = attribute_calls an (snd (ElementObserver_start d an eo))"
  have eo': "eo' = fst (ElementObserver_start d an eo)"
    and tlo': "(tlo', calls) = each (TokenListObserver_call d) cs tlo"
    using step by (simp_all add: start_tokens_def cs_def Let_def case_prod_unfold prod_eq_iff)
  have rep: "replay cs (set (eo_elements eo)) = Some (set (eo_elements eo'))"
    using reports_start [of an d] by (simp add: reports_def cs_def eo')
  have wf: "tl_wf tlo" and an: "tl_attributeName tlo = an"
    and empty: "\<And>e. e \<notin> set (eo_elements eo) \<Longrightarrow> tokens_of tlo e = []"
    using tok by (auto simp: tok_inv_def)
  note eff = calls_effect [OF wf empty rep tlo' n]
  have "map tok_content (tokens_of tlo' e) = attr_words d an e \<or> e \<in> P" if e: "e \<in> set (eo_elements eo')" for e
    using eff e an replay_new [OF rep e] tok unfolding tok_inv_def by metis
  with eff an show ?thesis by (auto simp: tok_inv_def)
qed

text \<open>Starting and delivering, with the invariants of both layers.\<close>

lemma start_tokens_inv:
  assumes inv: "eo_inv an root s eo" and st: "\<not> eo_started eo"
    and tok: "tok_inv an (doc s) P (set (eo_elements eo)) tlo"
    and step: "(eo', tlo', calls) = start_tokens (doc s) an eo tlo"
  shows "eo_inv an root s eo'" "eo_started eo'" "tok_inv an (doc s) P (set (eo_elements eo')) tlo'"
    "n \<le> next_token tlo \<Longrightarrow>
      \<exists>n'. token_replay calls (all_tokens tlo, n) = Some (all_tokens tlo', n') \<and> n' \<le> next_token tlo'"
proof -
  have eo: "eo' = fst (ElementObserver_start (doc s) an eo)"
    using step by (simp add: start_tokens_def Let_def case_prod_unfold)
  show "eo_inv an root s eo'" unfolding eo by (rule eo_inv_start [OF inv st])
  show "eo_started eo'"
    using ElementObserver_refresh_frame [of "eo\<lparr>eo_started := True\<rparr>" "doc s" an] st
    by (simp add: eo ElementObserver_start_def eo_frame_def)
  show "tok_inv an (doc s) P (set (eo_elements eo')) tlo'" using tok_inv_start [OF st tok step, of 0] by simp
  show "n \<le> next_token tlo \<Longrightarrow>
      \<exists>n'. token_replay calls (all_tokens tlo, n) = Some (all_tokens tlo', n') \<and> n' \<le> next_token tlo'"
    using tok_inv_start [OF st tok step] by simp
qed

lemma start_tokens_new:
  assumes inv: "eo_inv an root s eo" and st: "\<not> eo_started eo" "eo_elements eo = []"
    and step: "(eo', tlo', calls) = start_tokens (doc s) an eo (new_TokenListObserver an)"
  shows "eo_inv an root s eo'" "eo_started eo'" "tok_inv an (doc s) {} (set (eo_elements eo')) tlo'"
    "\<exists>n'. token_replay calls ({}, 0) = Some (all_tokens tlo', n') \<and> n' \<le> next_token tlo'"
proof -
  have tok: "tok_inv an (doc s) {} (set (eo_elements eo)) (new_TokenListObserver an)" using st(2) tok_inv_new(1) by simp
  note i = start_tokens_inv [OF inv st(1) tok step]
  show "eo_inv an root s eo'" "eo_started eo'" "tok_inv an (doc s) {} (set (eo_elements eo')) tlo'" by (fact i)+
  show "\<exists>n'. token_replay calls ({}, 0) = Some (all_tokens tlo', n') \<and> n' \<le> next_token tlo'"
    using i(4) [OF le0] by (simp add: tok_inv_new)
qed

lemma deliver_tokens_elements: "(eo', tlo', calls) = deliver_tokens d an ms eo tlo \<Longrightarrow> eo' = fst (processMutations d an ms eo)"
  by (simp add: deliver_tokens_def Let_def case_prod_unfold)

section \<open>A change of the attribute keeps what it can\<close>

lemma common_maximal:
  assumes k: "k = common ps cs" and len: "k < length ps" "k < length cs"
    and idx: "tok_index (ps ! k) = k" "tok_index (cs ! k) = k"
  shows "tok_content (ps ! k) \<noteq> tok_content (cs ! k)"
proof (cases "findIndex (\<lambda>(p, c). \<not> tokensAreEqual p c) (js_zip ps cs)")
  case None
  with k len show ?thesis by (simp add: common_def)
next
  case (Some i)
  with k have "i = k" by (simp add: common_def)
  with findIndex_Some [OF Some] have "\<not> tokensAreEqual (js_at ps k) (js_at cs k)"
    by (auto simp: js_zip_nth)
  with len idx show ?thesis by (simp add: tokensAreEqual_at)
qed

text \<open>
  C22: When the value of the attribute changes, the tokens before the first difference stay as
  they are and the delegate hears nothing of them; the rest of the old tokens is reported
  unmatched, then the rest of the new ones matched, both in order; the first reported pair
  really differs. The tokens then spell the attribute, and other elements keep theirs.
\<close>

theorem attribute_change_is_minimal:
  assumes "tl_wf tlo" and "(tlo', calls) = TokenListObserver_call d (ElementAttributeValueChanged e) tlo"
  shows "\<exists>k. k \<le> length (tokens_of tlo e) \<and> k \<le> length (tokens_of tlo' e)
    \<and> take k (tokens_of tlo' e) = take k (tokens_of tlo e)
    \<and> calls = map TokenUnmatched (drop k (tokens_of tlo e)) @ map TokenMatched (drop k (tokens_of tlo' e))
    \<and> (k = length (tokens_of tlo e) \<or> k = length (tokens_of tlo' e)
        \<or> tok_content (tokens_of tlo e ! k) \<noteq> tok_content (tokens_of tlo' e ! k))
    \<and> map tok_content (tokens_of tlo' e) = attr_words d (tl_attributeName tlo) e
    \<and> (\<forall>e'. e' \<noteq> e \<longrightarrow> tokens_of tlo' e' = tokens_of tlo e')"
proof -
  obtain cs tlo1 where read: "readTokensForElement d e tlo = (cs, tlo1)" by fastforce
  define k where "k = common (tokens_of tlo e) cs"
  note c = call_changed [OF assms(1) read k_def assms(2)]
  note p = common_prefix [of "tokens_of tlo e" cs, folded k_def] and r = readTokens [OF read]
  have toks: "tokens_of tlo' e = take k (tokens_of tlo e) @ drop k cs" using c(3) by simp
  then have len: "length (tokens_of tlo' e) = length cs" and drp: "drop k (tokens_of tlo' e) = drop k cs"
    using p by simp_all
  have "tok_content (tokens_of tlo e ! k) \<noteq> tok_content (tokens_of tlo' e ! k)"
    if k: "k < length (tokens_of tlo e)" "k < length cs"
  proof -
    have "map tok_index (tokens_of tlo e) ! k = k" using assms(1) k by (simp add: tl_wf_def)
    moreover have "map tok_index cs ! k = k" using r(2) k by simp
    moreover have "tokens_of tlo' e ! k = cs ! k" using k p by (simp add: toks nth_append)
    ultimately show ?thesis using common_maximal [OF k_def k] k by simp
  qed
  with c p len drp toks show ?thesis by (intro exI [of _ k]) (auto simp: le_less)
qed

definition words_before :: token_list_observer where
  "words_before = fst (TokenListObserver_call [El 0 ''p'' [(''a'', ''x y z'')] []]
     (ElementMatchedAttribute 0) (new_TokenListObserver ''a''))"

theorem attribute_change_is_minimal_witness:
  "\<exists>k tlo' calls. tl_wf words_before
     \<and> (tlo', calls) = TokenListObserver_call [El 0 ''p'' [(''a'', ''x w'')] []] (ElementAttributeValueChanged 0) words_before
     \<and> calls = map TokenUnmatched (drop k (tokens_of words_before 0)) @ map TokenMatched (drop k (tokens_of tlo' 0))
     \<and> map tok_content (tokens_of words_before 0) = [''x'', ''y'', ''z'']
     \<and> map tok_content (tokens_of tlo' 0) = [''x'', ''w'']"
proof -
  let ?d = "[El 0 ''p'' [(''a'', ''x y z'')] []]" and ?d' = "[El 0 ''p'' [(''a'', ''x w'')] []]"
  obtain cs t1 where read: "readTokensForElement ?d 0 (new_TokenListObserver ''a'') = (cs, t1)" by fastforce
  have new: "tokens_of (new_TokenListObserver ''a'') 0 = []" by code_simp
  obtain cl where "(words_before, cl) = TokenListObserver_call ?d (ElementMatchedAttribute 0) (new_TokenListObserver ''a'')"
    unfolding words_before_def by (metis prod.collapse)
  note wf = call_matched(1) [OF new_TokenListObserver_wf(1) read new this]
  obtain tlo' calls where st: "(tlo', calls) = TokenListObserver_call ?d' (ElementAttributeValueChanged 0) words_before"
    by (metis prod.collapse)
  have w: "map tok_content (tokens_of words_before 0) = [''x'', ''y'', ''z'']" by code_simp
  have "attr_words ?d' (tl_attributeName words_before) 0 = [''x'', ''w'']" by code_simp
  with attribute_change_is_minimal [OF wf st] wf st w show ?thesis by metis
qed

end
