(* ===== verification/Value_List.thy ===== *)
theory Value_List
  imports Token_Sync
begin

text \<open>
  \<open>ValueListObserver\<close> of stimulus.js: it parses each token once, remembers the result, and
  tells its delegate when a value comes and goes. The delegate is the \<open>ScopeObserver\<close> or a
  \<open>BindingObserver\<close>; its methods are a record of functions on the delegate's state. The two
  weak maps are keyed by the identity of a token and of an element.
\<close>

section \<open>The observer\<close>

type_synonym 'v parse_result = "string + 'v option"

record ('d, 'v) value_delegate =
  parseValueForToken :: "token \<Rightarrow> 'd \<Rightarrow> 'v parse_result \<times> 'd"
  elementMatchedValue :: "nat \<Rightarrow> 'v \<Rightarrow> 'd \<Rightarrow> 'd"
  elementUnmatchedValue :: "nat \<Rightarrow> 'v \<Rightarrow> 'd \<Rightarrow> 'd"

record 'v value_list_observer =
  parseResultsByToken :: "(nat, 'v parse_result) jsmap"
  valuesByTokenByElement :: "(nat, (nat, 'v) jsmap) jsmap"

definition new_ValueListObserver :: "'v value_list_observer" where
  "new_ValueListObserver = \<lparr>parseResultsByToken = [], valuesByTokenByElement = []\<rparr>"

text \<open>\<open>parseToken\<close> catches what the delegate throws; the result then has no value.\<close>

fun result_value :: "'v parse_result \<Rightarrow> 'v option" where
  "result_value (Inl error) = None"
| "result_value (Inr v) = v"

definition fetchParseResultForToken :: "('d, 'v) value_delegate \<Rightarrow> token \<Rightarrow>
    'v value_list_observer \<times> 'd \<Rightarrow> 'v parse_result \<times> 'v value_list_observer \<times> 'd" where
  "fetchParseResultForToken dl tok = (\<lambda>(vl, d).
     case map_of (parseResultsByToken vl) (tok_id tok) of
       Some r \<Rightarrow> (r, vl, d)
     | None \<Rightarrow> (let (r, d) = parseValueForToken dl tok d
         in (r, vl\<lparr>parseResultsByToken := AList.update (tok_id tok) r (parseResultsByToken vl)\<rparr>, d)))"

definition fetchValuesByTokenForElement ::
  "nat \<Rightarrow> 'v value_list_observer \<Rightarrow> (nat, 'v) jsmap \<times> 'v value_list_observer" where
  "fetchValuesByTokenForElement element vl =
     (case map_of (valuesByTokenByElement vl) element of
        Some m \<Rightarrow> (m, vl)
      | None \<Rightarrow> ([], vl\<lparr>valuesByTokenByElement := AList.update element [] (valuesByTokenByElement vl)\<rparr>))"

definition ValueListObserver_tokenMatched :: "('d, 'v) value_delegate \<Rightarrow> token \<Rightarrow>
    'v value_list_observer \<times> 'd \<Rightarrow> 'v value_list_observer \<times> 'd" where
  "ValueListObserver_tokenMatched dl tok s =
     (let element = tok_element tok;
          (r, vl, d) = fetchParseResultForToken dl tok s
      in case result_value r of
           None \<Rightarrow> (vl, d)
         | Some v \<Rightarrow>
             (let (m, vl) = fetchValuesByTokenForElement element vl;
                  vl = vl\<lparr>valuesByTokenByElement := AList.update element
                    (AList.update (tok_id tok) v m) (valuesByTokenByElement vl)\<rparr>
              in (vl, elementMatchedValue dl element v d)))"

definition ValueListObserver_tokenUnmatched :: "('d, 'v) value_delegate \<Rightarrow> token \<Rightarrow>
    'v value_list_observer \<times> 'd \<Rightarrow> 'v value_list_observer \<times> 'd" where
  "ValueListObserver_tokenUnmatched dl tok s =
     (let element = tok_element tok;
          (r, vl, d) = fetchParseResultForToken dl tok s
      in case result_value r of
           None \<Rightarrow> (vl, d)
         | Some v \<Rightarrow>
             (let (m, vl) = fetchValuesByTokenForElement element vl;
                  vl = vl\<lparr>valuesByTokenByElement := AList.update element
                    (AList.delete (tok_id tok) m) (valuesByTokenByElement vl)\<rparr>
              in (vl, elementUnmatchedValue dl element v d)))"

fun ValueListObserver_call :: "('d, 'v) value_delegate \<Rightarrow> token_call \<Rightarrow>
    'v value_list_observer \<times> 'd \<Rightarrow> 'v value_list_observer \<times> 'd" where
  "ValueListObserver_call dl (TokenMatched tok) = ValueListObserver_tokenMatched dl tok"
| "ValueListObserver_call dl (TokenUnmatched tok) = ValueListObserver_tokenUnmatched dl tok"

section \<open>The contract of a delegate\<close>

text \<open>
  What a delegate promises: it counts, for every value, the tokens that currently have it,
  and parsing a token gives a result that satisfies \<open>spec\<close> and changes no count. When tokens
  do not share values (\<open>shared\<close> is false) it has to count only up to one.
\<close>

locale counting_delegate =
  fixes dl :: "('d, 'v) value_delegate"
    and count :: "'d \<Rightarrow> 'v \<Rightarrow> nat"
    and ok :: "'d \<Rightarrow> bool"
    and spec :: "token \<Rightarrow> 'v parse_result \<Rightarrow> bool"
    and shared :: bool
  assumes parse: "ok d \<Longrightarrow> parseValueForToken dl tok d = (r, d') \<Longrightarrow>
      ok d' \<and> count d' = count d \<and> spec tok r"
    and own: "\<not> shared \<Longrightarrow> spec tok r \<Longrightarrow> spec tok' r' \<Longrightarrow> result_value r = Some v \<Longrightarrow>
      result_value r' = Some v \<Longrightarrow> tok_id tok = tok_id tok'"
    and matched: "ok d \<Longrightarrow> spec tok r \<Longrightarrow> result_value r = Some v \<Longrightarrow> shared \<or> count d v = 0 \<Longrightarrow>
      ok (elementMatchedValue dl (tok_element tok) v d)
      \<and> count (elementMatchedValue dl (tok_element tok) v d) = (count d)(v := Suc (count d v))"
    and unmatched: "ok d \<Longrightarrow> spec tok r \<Longrightarrow> result_value r = Some v \<Longrightarrow> 0 < count d v \<Longrightarrow>
      ok (elementUnmatchedValue dl (tok_element tok) v d)
      \<and> count (elementUnmatchedValue dl (tok_element tok) v d) = (count d)(v := count d v - 1)"
begin

text \<open>The value that the token's result has.\<close>

definition token_value :: "'v value_list_observer \<Rightarrow> token \<Rightarrow> 'v option" where
  "token_value vl tok = (case map_of (parseResultsByToken vl) (tok_id tok) of
     None \<Rightarrow> None | Some r \<Rightarrow> result_value r)"

definition vl_inv :: "'v value_list_observer \<times> 'd \<Rightarrow> token set \<times> nat \<Rightarrow> bool" where
  "vl_inv s Tn \<longleftrightarrow> (case s of (vl, d) \<Rightarrow> case Tn of (T, n) \<Rightarrow>
     ok d \<and> finite T \<and> inj_on tok_id T
     \<and> (\<forall>t \<in> T. tok_id t < n \<and> (\<exists>r. map_of (parseResultsByToken vl) (tok_id t) = Some r \<and> spec t r))
     \<and> (\<forall>i. map_of (parseResultsByToken vl) i \<noteq> None \<longrightarrow> i < n)
     \<and> (\<forall>v. count d v = card {t \<in> T. token_value vl t = Some v}))"

lemma token_value_frame [simp]:
  "token_value (vl\<lparr>valuesByTokenByElement := m\<rparr>) = token_value vl"
  by (simp add: fun_eq_iff token_value_def)

lemma fetchValues_frame [simp]:
  "parseResultsByToken (snd (fetchValuesByTokenForElement e vl)) = parseResultsByToken vl"
  by (simp add: fetchValuesByTokenForElement_def split: option.split)

lemma matched_result:
  "parseResultsByToken (fst (ValueListObserver_tokenMatched dl tok s)) =
     parseResultsByToken (fst (snd (fetchParseResultForToken dl tok s)))"
  "snd (ValueListObserver_tokenMatched dl tok s) =
     (case result_value (fst (fetchParseResultForToken dl tok s)) of
        None \<Rightarrow> snd (snd (fetchParseResultForToken dl tok s))
      | Some v \<Rightarrow> elementMatchedValue dl (tok_element tok) v (snd (snd (fetchParseResultForToken dl tok s))))"
  by (simp_all add: ValueListObserver_tokenMatched_def Let_def case_prod_unfold split: option.split)

lemma unmatched_result:
  "parseResultsByToken (fst (ValueListObserver_tokenUnmatched dl tok s)) =
     parseResultsByToken (fst (snd (fetchParseResultForToken dl tok s)))"
  "snd (ValueListObserver_tokenUnmatched dl tok s) =
     (case result_value (fst (fetchParseResultForToken dl tok s)) of
        None \<Rightarrow> snd (snd (fetchParseResultForToken dl tok s))
      | Some v \<Rightarrow> elementUnmatchedValue dl (tok_element tok) v (snd (snd (fetchParseResultForToken dl tok s))))"
  by (simp_all add: ValueListObserver_tokenUnmatched_def Let_def case_prod_unfold split: option.split)

lemma token_value_cong:
  "parseResultsByToken vl = parseResultsByToken vl' \<Longrightarrow> token_value vl = token_value vl'"
  by (simp add: fun_eq_iff token_value_def)

lemma card_insert_value:
  assumes "finite T" and "t \<notin> T"
  shows "card {x \<in> insert t T. f x = Some v} = card {x \<in> T. f x = Some v} + (if f t = Some v then 1 else 0)"
proof -
  have "{x \<in> insert t T. f x = Some v} = (if f t = Some v then insert t {x \<in> T. f x = Some v} else {x \<in> T. f x = Some v})"
    by auto
  with assms show ?thesis by simp
qed

text \<open>A new token gives a value that is not yet counted, unless values are shared.\<close>

lemma new_value_uncounted:
  assumes inv: "vl_inv (vl, d) (T, n)" and id: "n \<le> tok_id t" and p: "parseValueForToken dl t d = (r, d1)"
    and v: "result_value r = Some v"
  shows "shared \<or> count d1 v = 0"
proof (rule ccontr)
  assume "\<not> (shared \<or> count d1 v = 0)"
  moreover have okd: "ok d" and "count d v = card {x \<in> T. token_value vl x = Some v}"
    using inv by (auto simp: vl_inv_def)
  ultimately have ns: "\<not> shared" and "{x \<in> T. token_value vl x = Some v} \<noteq> {}"
    using parse [OF okd p] by (auto simp: card_eq_0_iff)
  then obtain x where x: "x \<in> T" "token_value vl x = Some v" by blast
  with inv obtain r' where "spec x r'" "result_value r' = Some v" "tok_id x < n" by (force simp: vl_inv_def token_value_def)
  with own [OF ns, of t r x r' v] parse [OF okd p] v x id show False by auto
qed

lemma vl_inv_matched:
  assumes inv: "vl_inv (vl, d) (T, n)" and id: "n \<le> tok_id t"
  shows "vl_inv (ValueListObserver_tokenMatched dl t (vl, d)) (insert t T, Suc (tok_id t))"
proof -
  obtain r d1 where p: "parseValueForToken dl t d = (r, d1)" by fastforce
  from inv have okd: "ok d" and fin: "finite T" and inj: "inj_on tok_id T"
    and less: "\<forall>t \<in> T. tok_id t < n" and keys: "\<forall>i. map_of (parseResultsByToken vl) i \<noteq> None \<longrightarrow> i < n"
    by (auto simp: vl_inv_def)
  from keys id have none: "map_of (parseResultsByToken vl) (tok_id t) = None" by (metis linorder_not_le)
  define vl1 where "vl1 = vl\<lparr>parseResultsByToken := AList.update (tok_id t) r (parseResultsByToken vl)\<rparr>"
  have f: "fetchParseResultForToken dl t (vl, d) = (r, vl1, d1)"
    by (simp add: fetchParseResultForToken_def none p vl1_def)
  note ps = parse [OF okd p]
  let ?s = "ValueListObserver_tokenMatched dl t (vl, d)"
  have res: "parseResultsByToken (fst ?s) = parseResultsByToken vl1" by (simp add: matched_result f)
  have tnew: "t \<notin> T" using less id by auto
  have old: "x \<in> T \<Longrightarrow> token_value (fst ?s) x = token_value vl x" for x
    using less id res by (auto simp: token_value_def vl1_def)
  have new: "token_value (fst ?s) t = result_value r" by (simp add: token_value_def res vl1_def)
  have cd: "count d v = card {x \<in> T. token_value vl x = Some v}" for v
    using inv by (simp add: vl_inv_def)
  note first = new_value_uncounted [OF inv id p]
  have cnt: "ok (snd ?s) \<and> (\<forall>v. count (snd ?s) v = count d v + (if result_value r = Some v then 1 else 0))"
    using ps matched [of d1 t r] first by (auto simp: matched_result f split: option.split)
  have same: "{x \<in> T. token_value (fst ?s) x = Some v} = {x \<in> T. token_value vl x = Some v}" for v
    using old by auto
  have "\<forall>v. count (snd ?s) v = card {x \<in> insert t T. token_value (fst ?s) x = Some v}"
    unfolding card_insert_value [OF fin tnew] new same cd [symmetric] using cnt by simp
  moreover have "inj_on tok_id (insert t T)"
  proof -
    have "tok_id t \<notin> tok_id ` T" using less id by (metis imageE linorder_not_le)
    with inj tnew show ?thesis by (simp add: inj_on_insert)
  qed
  moreover have "\<forall>x \<in> insert t T. tok_id x < Suc (tok_id t) \<and>
      (\<exists>r. map_of (parseResultsByToken (fst ?s)) (tok_id x) = Some r \<and> spec x r)"
  proof
    fix x assume "x \<in> insert t T"
    then show "tok_id x < Suc (tok_id t) \<and>
        (\<exists>r. map_of (parseResultsByToken (fst ?s)) (tok_id x) = Some r \<and> spec x r)"
      using inv id ps less by (cases "x = t") (force simp: vl_inv_def res vl1_def)+
  qed
  moreover have "\<forall>i. map_of (parseResultsByToken (fst ?s)) i \<noteq> None \<longrightarrow> i < Suc (tok_id t)"
    using keys id by (auto simp: res vl1_def)
  ultimately show ?thesis using cnt fin by (simp add: vl_inv_def case_prod_unfold)
qed

lemma vl_inv_unmatched:
  assumes inv: "vl_inv (vl, d) (T, n)" and t: "t \<in> T"
  shows "vl_inv (ValueListObserver_tokenUnmatched dl t (vl, d)) (T - {t}, n)"
proof -
  from inv t obtain r where r: "map_of (parseResultsByToken vl) (tok_id t) = Some r" "spec t r"
    and okd: "ok d" and fin: "finite T" by (auto simp: vl_inv_def)
  have f: "fetchParseResultForToken dl t (vl, d) = (r, vl, d)"
    by (simp add: fetchParseResultForToken_def r(1))
  let ?s = "ValueListObserver_tokenUnmatched dl t (vl, d)"
  have res: "parseResultsByToken (fst ?s) = parseResultsByToken vl" by (simp add: unmatched_result f)
  then have tv: "token_value (fst ?s) = token_value vl" by (rule token_value_cong)
  have val: "token_value vl t = result_value r" by (simp add: token_value_def r(1))
  have card: "card {x \<in> T. token_value vl x = Some v} =
      card {x \<in> T - {t}. token_value vl x = Some v} + (if result_value r = Some v then 1 else 0)" for v
    using card_insert_value [of "T - {t}" t "token_value vl" v, unfolded insert_Diff [OF t]] fin val by simp
  have cd: "count d v = card {x \<in> T. token_value vl x = Some v}" for v
    using inv by (simp add: vl_inv_def)
  have "ok (snd ?s) \<and> (\<forall>v. count (snd ?s) v = card {x \<in> T - {t}. token_value vl x = Some v})"
  proof (cases "result_value r")
    case None
    then show ?thesis using okd cd card by (simp add: unmatched_result f)
  next
    case (Some v)
    then have "0 < count d v" using cd [of v] card [of v] by simp
    with unmatched [OF okd r(2) Some] Some show ?thesis
      using cd card by (simp add: unmatched_result f)
  qed
  then show ?thesis
    using inv res by (auto simp: vl_inv_def case_prod_unfold tv inj_on_diff)
qed

lemma vl_inv_calls:
  "vl_inv s Tn \<Longrightarrow> token_replay calls Tn = Some Tn' \<Longrightarrow> vl_inv (fold (ValueListObserver_call dl) calls s) Tn'"
proof (induction calls Tn arbitrary: s rule: token_replay.induct)
  case (2 t cs Tn)
  then show ?case using vl_inv_matched [of "fst s" "snd s" "fst Tn" "snd Tn" t]
    by (auto split: prod.splits if_splits)
next
  case (3 t cs Tn)
  then show ?case using vl_inv_unmatched [of "fst s" "snd s" "fst Tn" "snd Tn" t]
    by (auto split: prod.splits if_splits)
qed simp

lemma vl_inv_new: "ok d \<Longrightarrow> (\<And>v. count d v = 0) \<Longrightarrow> vl_inv (new_ValueListObserver, d) ({}, 0)"
  by (simp add: vl_inv_def new_ValueListObserver_def)

end

end
