(* ===== verification/Binding_Observer.thy ===== *)
theory Binding_Observer
  imports Dispatch_Order Value_List
begin

text \<open>
  \<open>BindingObserver\<close> of stimulus.js: the bindings of one context, kept from the \<open>data-action\<close>
  attributes inside its element, and handed to the dispatcher.
\<close>

section \<open>The delegate of the value list\<close>

record binding_system =
  bindingsByAction :: "(action, binding) jsmap"
  bs_dispatcher :: dispatcher

definition actionAttribute :: string where
  "actionAttribute = ''data-action''"

definition connectAction :: "ctx \<Rightarrow> action \<Rightarrow> binding_system \<Rightarrow> binding_system" where
  "connectAction c action bs =
     (let b = \<lparr>b_context = c, b_action = action\<rparr>
      in bs\<lparr>bindingsByAction := AList.update action b (bindingsByAction bs),
            bs_dispatcher := Dispatcher_bindingConnected b (bs_dispatcher bs)\<rparr>)"

definition disconnectAction :: "action \<Rightarrow> binding_system \<Rightarrow> binding_system" where
  "disconnectAction action bs = (case map_of (bindingsByAction bs) action of
     None \<Rightarrow> bs
   | Some b \<Rightarrow> bs\<lparr>bindingsByAction := AList.delete action (bindingsByAction bs),
       bs_dispatcher := Dispatcher_bindingDisconnected b (bs_dispatcher bs)\<rparr>)"

definition disconnectAllActions :: "binding_system \<Rightarrow> binding_system" where
  "disconnectAllActions bs = bs\<lparr>bindingsByAction := [],
     bs_dispatcher := fold Dispatcher_bindingDisconnected (map snd (bindingsByAction bs)) (bs_dispatcher bs)\<rparr>"

definition binding_result :: "dom \<Rightarrow> string \<Rightarrow> token \<Rightarrow> action parse_result" where
  "binding_result d identifier tok = (case Action_forToken d tok of
     Inl e \<Rightarrow> Inl e
   | Inr a \<Rightarrow> Inr (if act_identifier a = identifier then Some a else None))"

definition BindingObserver_parseValueForToken ::
  "dom \<Rightarrow> ctx \<Rightarrow> token \<Rightarrow> binding_system \<Rightarrow> action parse_result \<times> binding_system" where
  "BindingObserver_parseValueForToken d c tok bs = (binding_result d (scope_identifier (ctx_scope c)) tok, bs)"

definition binding_delegate :: "dom \<Rightarrow> ctx \<Rightarrow> (binding_system, action) value_delegate" where
  "binding_delegate d c = \<lparr>parseValueForToken = BindingObserver_parseValueForToken d c,
     elementMatchedValue = (\<lambda>element. connectAction c),
     elementUnmatchedValue = (\<lambda>element. disconnectAction)\<rparr>"

section \<open>The observer\<close>

record observers =
  ob_elements :: element_observer
  ob_tokens :: token_list_observer
  ob_values :: "action value_list_observer"

record binding_observer =
  bo_context :: ctx
  bo_valueListObserver :: "observers option"
  bo_system :: binding_system

definition new_BindingObserver :: "ctx \<Rightarrow> dispatcher \<Rightarrow> binding_observer" where
  "new_BindingObserver c dp = \<lparr>bo_context = c, bo_valueListObserver = None,
     bo_system = \<lparr>bindingsByAction = [], bs_dispatcher = dp\<rparr>\<rparr>"

definition bo_tokens_changed :: "dom \<Rightarrow> action value_list_observer \<Rightarrow>
    element_observer \<times> token_list_observer \<times> token_call list \<Rightarrow> binding_observer \<Rightarrow> binding_observer" where
  "bo_tokens_changed d vl = (\<lambda>(eo, tlo, calls) bo.
     let (vl, bs) = fold (ValueListObserver_call (binding_delegate d (bo_context bo))) calls (vl, bo_system bo)
     in bo\<lparr>bo_valueListObserver := Some \<lparr>ob_elements = eo, ob_tokens = tlo, ob_values = vl\<rparr>, bo_system := bs\<rparr>)"

definition BindingObserver_start :: "dom \<Rightarrow> binding_observer \<Rightarrow> binding_observer" where
  "BindingObserver_start d bo = (case bo_valueListObserver bo of
     Some _ \<Rightarrow> bo
   | None \<Rightarrow> bo_tokens_changed d new_ValueListObserver
       (start_tokens d actionAttribute (new_ElementObserver (scope_element (ctx_scope (bo_context bo))))
          (new_TokenListObserver actionAttribute)) bo)"

definition BindingObserver_deliver :: "dom \<Rightarrow> mutation list \<Rightarrow> binding_observer \<Rightarrow> binding_observer" where
  "BindingObserver_deliver d ms bo = (case bo_valueListObserver bo of
     None \<Rightarrow> bo
   | Some ob \<Rightarrow> bo_tokens_changed d (ob_values ob)
       (deliver_tokens d actionAttribute ms (ob_elements ob) (ob_tokens ob)) bo)"

definition BindingObserver_stop :: "binding_observer \<Rightarrow> binding_observer" where
  "BindingObserver_stop bo = (case bo_valueListObserver bo of
     None \<Rightarrow> bo
   | Some ob \<Rightarrow> bo\<lparr>bo_valueListObserver := None, bo_system := disconnectAllActions (bo_system bo)\<rparr>)"

section \<open>Every binding is counted once\<close>

definition action_count :: "binding_system \<Rightarrow> action \<Rightarrow> nat" where
  "action_count bs a = (if map_of (bindingsByAction bs) a = None then 0 else 1)"

text \<open>The bindings of the context are the ones in the map, here and at the dispatcher.\<close>

definition bindings_ok :: "ctx \<Rightarrow> binding_system \<Rightarrow> bool" where
  "bindings_ok c bs \<longleftrightarrow> map_wf (bindingsByAction bs)
     \<and> (\<forall>a b. map_of (bindingsByAction bs) a = Some b \<longrightarrow> b = \<lparr>b_context = c, b_action = a\<rparr>)
     \<and> (\<forall>a. holds (bs_dispatcher bs) \<lparr>b_context = c, b_action = a\<rparr> \<longleftrightarrow> map_of (bindingsByAction bs) a \<noteq> None)"

definition action_spec :: "ctx \<Rightarrow> token \<Rightarrow> action parse_result \<Rightarrow> bool" where
  "action_spec c tok r \<longleftrightarrow> (\<exists>d. r = binding_result d (scope_identifier (ctx_scope c)) tok)"

lemma forToken_id: "Action_forToken d tok = Inr a \<Longrightarrow> act_id a = tok_id tok \<and> act_element a = tok_element tok \<and> act_index a = tok_index tok"
  by (auto simp: Action_forToken_def new_Action_def split: option.splits)

lemma binding_result_Some:
  "result_value (binding_result d i tok) = Some a \<longleftrightarrow> Action_forToken d tok = Inr a \<and> act_identifier a = i"
  by (cases "Action_forToken d tok") (auto simp: binding_result_def)

lemma action_spec_id:
  "action_spec c tok r \<Longrightarrow> result_value r = Some a \<Longrightarrow> act_id a = tok_id tok \<and> act_element a = tok_element tok
     \<and> act_index a = tok_index tok"
  using forToken_id by (auto simp: action_spec_def binding_result_Some)

interpretation bo: counting_delegate "binding_delegate d c" action_count "bindings_ok c" "action_spec c" False for d c
proof unfold_locales
  fix bs tok r and bs'
  assume "bindings_ok c bs" "parseValueForToken (binding_delegate d c) tok bs = (r, bs')"
  then show "bindings_ok c bs' \<and> action_count bs' = action_count bs \<and> action_spec c tok r"
    by (auto simp: binding_delegate_def BindingObserver_parseValueForToken_def action_spec_def)
next
  fix tok tok' r r' a
  assume "action_spec c tok r" "action_spec c tok' r'" "result_value r = Some a" "result_value r' = Some a"
  then show "tok_id tok = tok_id tok'" using action_spec_id by metis
next
  fix bs tok r a
  assume "bindings_ok c bs" "False \<or> action_count bs a = 0"
  then show "bindings_ok c (elementMatchedValue (binding_delegate d c) (tok_element tok) a bs) \<and>
      action_count (elementMatchedValue (binding_delegate d c) (tok_element tok) a bs) =
      (action_count bs)(a := Suc (action_count bs a))"
    by (auto simp: binding_delegate_def connectAction_def Let_def bindings_ok_def action_count_def holds_at fun_eq_iff
        split: if_splits)
next
  fix bs tok r a
  assume "bindings_ok c bs" "0 < action_count bs a"
  then show "bindings_ok c (elementUnmatchedValue (binding_delegate d c) (tok_element tok) a bs) \<and>
      action_count (elementUnmatchedValue (binding_delegate d c) (tok_element tok) a bs) =
      (action_count bs)(a := action_count bs a - 1)"
    by (auto simp: binding_delegate_def disconnectAction_def Let_def bindings_ok_def action_count_def holds_at fun_eq_iff
        split: if_splits option.splits)
qed

section \<open>Runs\<close>

text \<open>
  The dispatcher is shared: between the steps of this observer the application may start and
  stop it, events may happen, and other contexts connect and disconnect bindings.
\<close>

fun concerns :: "ctx \<Rightarrow> dispatch_op \<Rightarrow> bool" where
  "concerns c (BindingConnected b) = (b_context b = c)"
| "concerns c (BindingDisconnected b) = (b_context b = c)"
| "concerns c _ = False"

definition with_dispatcher :: "(dispatcher \<Rightarrow> dispatcher) \<Rightarrow> binding_observer \<Rightarrow> binding_observer" where
  "with_dispatcher f bo = bo\<lparr>bo_system := (bo_system bo)\<lparr>bs_dispatcher := f (bs_dispatcher (bo_system bo))\<rparr>\<rparr>"

abbreviation ctx_element :: "ctx \<Rightarrow> nat" where
  "ctx_element c \<equiv> scope_element (ctx_scope c)"

text \<open>
  As for an \<open>ElementObserver\<close>, the flag says whether the element of the context was apart from the
  nodes removed from it at every delivery since the observer was started last.
\<close>

inductive bo_run :: "ctx \<Rightarrow> bool \<Rightarrow> observed \<Rightarrow> binding_observer \<Rightarrow> bool" for c :: ctx where
  created: "dom_ok d \<Longrightarrow> ctx_element c \<in> set (ids d) \<Longrightarrow> \<forall>b. b_context b = c \<longrightarrow> \<not> holds dp b \<Longrightarrow>
    bo_run c True \<lparr>doc = d, records = [], transients = []\<rparr> (new_BindingObserver c dp)"
| start: "bo_run c ok s bo \<Longrightarrow> bo_run c (ok \<or> bo_valueListObserver bo = None) s (BindingObserver_start (doc s) bo)"
| stop: "bo_run c ok s bo \<Longrightarrow> bo_run c ok (s\<lparr>records := [], transients := []\<rparr>) (BindingObserver_stop bo)"
| change: "bo_run c ok s bo \<Longrightarrow> bo_valueListObserver bo \<noteq> None \<Longrightarrow> bo_run c ok (apply_change (ctx_element c) ch s) bo"
| unseen: "bo_run c ok s bo \<Longrightarrow> bo_valueListObserver bo = None \<Longrightarrow>
    bo_run c ok (s\<lparr>doc := doc (apply_change (ctx_element c) ch s)\<rparr>) bo"
| deliver: "bo_run c ok s bo \<Longrightarrow> bo_run c (ok \<and> apart (ctx_element c) s) (s\<lparr>records := [], transients := []\<rparr>)
    (BindingObserver_deliver (doc s) (records s) bo)"
| other: "bo_run c ok s bo \<Longrightarrow> \<not> concerns c op \<Longrightarrow> bo_run c ok s (with_dispatcher (dispatch op) bo)"

text \<open>The elements whose tokens may be out of date: all of them, once the element was not apart.\<close>

definition bo_due :: "ctx \<Rightarrow> bool \<Rightarrow> observed \<Rightarrow> nat set" where
  "bo_due c ok s = (if ok \<and> apart (ctx_element c) s then due actionAttribute (records s) else UNIV)"

definition bo_inv :: "ctx \<Rightarrow> bool \<Rightarrow> observed \<Rightarrow> binding_observer \<Rightarrow> bool" where
  "bo_inv c ok s bo \<longleftrightarrow> bo_context bo = c \<and> dom_ok (doc s) \<and> ctx_element c \<in> set (ids (doc s))
     \<and> bindings_ok c (bo_system bo)
     \<and> (case bo_valueListObserver bo of
          None \<Rightarrow> records s = [] \<and> transients s = [] \<and> bindingsByAction (bo_system bo) = []
        | Some ob \<Rightarrow> eo_started (ob_elements ob) \<and> watch_inv actionAttribute (ctx_element c) ok s (ob_elements ob)
            \<and> tok_inv actionAttribute (doc s) (bo_due c ok s) (set (eo_elements (ob_elements ob))) (ob_tokens ob)
            \<and> (\<exists>n. bo.vl_inv c (ob_values ob, bo_system bo) (all_tokens (ob_tokens ob), n) \<and> n \<le> next_token (ob_tokens ob)))"

lemma lower_actionAttribute: "lower actionAttribute = actionAttribute"
  by (simp add: actionAttribute_def lower_def lower_char_def is_upper_def)

lemma bo_tokens_inv:
  assumes "bo_context bo = c" and "dom_ok (doc s)" "ctx_element c \<in> set (ids (doc s))"
    and vl: "bo.vl_inv c (vl, bo_system bo) (T, n)"
    and rep: "token_replay calls (T, n) = Some (all_tokens tlo, n')" "n' \<le> next_token tlo"
    and eo: "watch_inv actionAttribute (ctx_element c) ok s eo" "eo_started eo"
    and tok: "tok_inv actionAttribute (doc s) (bo_due c ok s) (set (eo_elements eo)) tlo"
  shows "bo_inv c ok s (bo_tokens_changed d vl (eo, tlo, calls) bo)"
proof -
  obtain vl' bs' where f: "fold (ValueListObserver_call (binding_delegate d c)) calls (vl, bo_system bo) = (vl', bs')"
    by fastforce
  from bo.vl_inv_calls [OF vl rep(1), of d] f have "bo.vl_inv c (vl', bs') (all_tokens tlo, n')" by simp
  moreover from this have "bindings_ok c bs'" by (simp add: bo.vl_inv_def)
  ultimately show ?thesis using assms by (auto simp: bo_inv_def bo_tokens_changed_def f)
qed

lemma disconnectAll_holds:
  "holds (fold Dispatcher_bindingDisconnected bs dp) b \<longleftrightarrow> b \<notin> set bs \<and> holds dp b"
  by (induction bs arbitrary: dp) (auto simp: holds_at)

lemma bindings_ok_disconnectAll:
  assumes "bindings_ok c bs"
  shows "bindings_ok c (disconnectAllActions bs)" "bindingsByAction (disconnectAllActions bs) = []"
proof -
  have "\<lparr>b_context = c, b_action = a\<rparr> \<in> set (map snd (bindingsByAction bs))" if "map_of (bindingsByAction bs) a \<noteq> None" for a
  proof -
    from that obtain b where b: "map_of (bindingsByAction bs) a = Some b" by auto
    with assms have "b = \<lparr>b_context = c, b_action = a\<rparr>" by (simp add: bindings_ok_def)
    with map_of_SomeD [OF b] show ?thesis by force
  qed
  with assms show "bindings_ok c (disconnectAllActions bs)"
    by (auto simp: bindings_ok_def disconnectAllActions_def disconnectAll_holds)
  show "bindingsByAction (disconnectAllActions bs) = []" by (simp add: disconnectAllActions_def)
qed

lemma holds_other: "\<not> concerns c op \<Longrightarrow> b_context b = c \<Longrightarrow> holds (dispatch op dp) b = holds dp b"
  by (cases op) (auto simp: holds_at)

lemma bindings_ok_other:
  assumes "\<not> concerns c op"
  shows "bindings_ok c (bs\<lparr>bs_dispatcher := dispatch op (bs_dispatcher bs)\<rparr>) = bindings_ok c bs"
  using holds_other [OF assms] by (simp add: bindings_ok_def)

lemma bo_inv_start:
  assumes bo: "bo_inv c ok s bo"
  shows "bo_inv c (ok \<or> bo_valueListObserver bo = None) s (BindingObserver_start (doc s) bo)"
proof (cases "bo_valueListObserver bo")
  case (Some ob)
  with bo show ?thesis by (simp add: BindingObserver_start_def)
next
  case None
  let ?eo = "new_ElementObserver (ctx_element c)"
  have ctx: "bo_context bo = c" using bo by (simp add: bo_inv_def)
  have new: "\<not> eo_started ?eo" "eo_elements ?eo = []" by (simp_all add: new_ElementObserver_def)
  have inv: "eo_inv actionAttribute (ctx_element c) s ?eo"
    using bo None by (intro eo_inv_empty) (simp_all add: bo_inv_def new_ElementObserver_def)
  obtain eo tlo calls where st: "(eo, tlo, calls) = start_tokens (doc s) actionAttribute ?eo (new_TokenListObserver actionAttribute)"
    by (metis surj_pair)
  note i = start_tokens_new [OF inv new st]
  obtain n' where rep: "token_replay calls ({}, 0) = Some (all_tokens tlo, n')" "n' \<le> next_token tlo" using i(4) by blast
  have "bo.vl_inv c (new_ValueListObserver, bo_system bo) ({}, 0)"
    using bo None by (intro bo.vl_inv_new) (simp_all add: bo_inv_def action_count_def)
  from bo_tokens_inv [OF ctx _ _ this rep watch_inv_started [OF i(1,2)] i(2) tok_inv_mono [OF i(3) empty_subsetI]] bo show ?thesis
    by (simp add: BindingObserver_start_def None ctx st [symmetric] bo_inv_def)
qed

lemma bo_inv_stop: "bo_inv c ok s bo \<Longrightarrow> bo_inv c ok (s\<lparr>records := [], transients := []\<rparr>) (BindingObserver_stop bo)"
  by (cases "bo_valueListObserver bo") (auto simp: BindingObserver_stop_def bo_inv_def bindings_ok_disconnectAll)

lemma bo_inv_change:
  assumes bo: "bo_inv c ok s bo" and "bo_valueListObserver bo \<noteq> None"
  shows "bo_inv c ok (apply_change (ctx_element c) ch s) bo"
proof -
  from assms(2) obtain ob where ob: "bo_valueListObserver bo = Some ob" by auto
  let ?s = "apply_change (ctx_element c) ch s"
  from bo ob have w: "watch_inv actionAttribute (ctx_element c) ok s (ob_elements ob)" "eo_started (ob_elements ob)"
    and tok: "tok_inv actionAttribute (doc s) (bo_due c ok s) (set (eo_elements (ob_elements ob))) (ob_tokens ob)"
    by (auto simp: bo_inv_def)
  note w' = watch_inv_change [OF w, of ch]
  have d: "dom_ok (doc s)" using w(1) by (simp add: watch_inv_def)
  have "tok_inv actionAttribute (doc ?s) (bo_due c ok ?s) (set (eo_elements (ob_elements ob))) (ob_tokens ob)"
  proof (cases "ok \<and> apart (ctx_element c) ?s")
    case True
    then have ap: "apart (ctx_element c) s" using apart_change [OF d] by blast
    with True w have inv: "eo_inv actionAttribute (ctx_element c) s (ob_elements ob)" by (simp add: watch_inv_def)
    show ?thesis
      using tok_inv_change [OF inv w(2) lower_actionAttribute, of "{}" "ob_tokens ob" ch] tok True ap by (simp add: bo_due_def)
  next
    case False
    then show ?thesis using tok_inv_any [OF tok] by (simp only: bo_due_def if_False)
  qed
  with bo ob w' show ?thesis by (simp add: bo_inv_def) (simp add: watch_inv_def)
qed

lemma bo_inv_deliver:
  assumes bo: "bo_inv c ok s bo"
  shows "bo_inv c (ok \<and> apart (ctx_element c) s) (s\<lparr>records := [], transients := []\<rparr>) (BindingObserver_deliver (doc s) (records s) bo)"
proof (cases "bo_valueListObserver bo")
  case None
  with bo show ?thesis by (simp add: BindingObserver_deliver_def bo_inv_def)
next
  case (Some ob)
  from bo Some have ctx: "bo_context bo = c" and st: "eo_started (ob_elements ob)"
    and w: "watch_inv actionAttribute (ctx_element c) ok s (ob_elements ob)"
    and tok: "tok_inv actionAttribute (doc s) (bo_due c ok s) (set (eo_elements (ob_elements ob))) (ob_tokens ob)"
    by (auto simp: bo_inv_def)
  from bo Some obtain n where vl: "bo.vl_inv c (ob_values ob, bo_system bo) (all_tokens (ob_tokens ob), n)"
    "n \<le> next_token (ob_tokens ob)" by (auto simp: bo_inv_def)
  obtain eo tlo calls where step: "(eo, tlo, calls) = deliver_tokens (doc s) actionAttribute (records s) (ob_elements ob) (ob_tokens ob)"
    by (metis surj_pair)
  let ?s = "s\<lparr>records := [], transients := []\<rparr>" and ?ok = "ok \<and> apart (ctx_element c) s"
  note i = tok_inv_deliver [OF st tok step vl(2)] and eo = deliver_tokens_elements [OF step]
  from i obtain n' where rep: "token_replay calls (all_tokens (ob_tokens ob), n) = Some (all_tokens tlo, n')"
    "n' \<le> next_token tlo" by blast
  have "tok_inv actionAttribute (doc s) (bo_due c ok s - due actionAttribute (records s)) (set (eo_elements eo)) tlo" using i by blast
  then have tok': "tok_inv actionAttribute (doc ?s) (bo_due c ?ok ?s) (set (eo_elements eo)) tlo"
    by (simp, elim tok_inv_mono) (auto simp: bo_due_def)
  have "eo_frame (ob_elements ob) eo" by (simp add: eo)
  with st have st': "eo_started eo" by (simp add: eo_frame_def)
  have w': "watch_inv actionAttribute (ctx_element c) ?ok ?s eo" using watch_inv_deliver [OF w] eo by simp
  from bo_tokens_inv [OF ctx _ _ vl(1) rep w' st' tok'] bo show ?thesis
    by (simp add: BindingObserver_deliver_def Some step [symmetric] bo_inv_def)
qed

lemma bo_inv_other:
  assumes bo: "bo_inv c ok s bo" and op: "\<not> concerns c op"
  shows "bo_inv c ok s (with_dispatcher (dispatch op) bo)"
proof -
  note ok = bindings_ok_other [OF op, of "bo_system bo"]
  have "bo.vl_inv c (vl, (bo_system bo)\<lparr>bs_dispatcher := x\<rparr>) Tn"
    if "bo.vl_inv c (vl, bo_system bo) Tn" "bindings_ok c ((bo_system bo)\<lparr>bs_dispatcher := x\<rparr>)" for vl x Tn
    using that by (auto simp: bo.vl_inv_def action_count_def split: prod.splits)
  with bo ok show ?thesis
    by (cases "bo_valueListObserver bo") (simp_all add: bo_inv_def with_dispatcher_def, metis)
qed

lemmas bo_inv_steps = bo_inv_start bo_inv_stop bo_inv_change bo_inv_deliver bo_inv_other

lemma bo_run_inv: "bo_run c ok s bo \<Longrightarrow> bo_inv c ok s bo"
proof (induction rule: bo_run.induct)
  case (created d dp)
  then show ?case by (simp add: bo_inv_def new_BindingObserver_def bindings_ok_def)
next
  case (unseen ok s bo ch)
  have "dom_ok (doc s)" "ctx_element c \<in> set (ids (doc s))" using unseen.IH by (simp_all add: bo_inv_def)
  with apply_change_ok [of s "ctx_element c" ch] unseen show ?case by (auto simp: bo_inv_def)
qed (simp_all add: bo_inv_steps)

section \<open>Bindings follow the document\<close>

lemma holds_token:
  assumes inv: "bo_inv c ok s bo" and ob: "bo_valueListObserver bo = Some ob"
  shows "holds (bs_dispatcher (bo_system bo)) \<lparr>b_context = c, b_action = a\<rparr> \<longleftrightarrow>
    (\<exists>t \<in> all_tokens (ob_tokens ob). bo.token_value (ob_values ob) t = Some a)"
proof -
  from inv ob obtain n where vl: "bo.vl_inv c (ob_values ob, bo_system bo) (all_tokens (ob_tokens ob), n)"
    by (auto simp: bo_inv_def)
  then have "finite {t \<in> all_tokens (ob_tokens ob). bo.token_value (ob_values ob) t = Some a}"
    and "action_count (bo_system bo) a = card {t \<in> all_tokens (ob_tokens ob). bo.token_value (ob_values ob) t = Some a}"
    by (auto simp: bo.vl_inv_def)
  moreover have "holds (bs_dispatcher (bo_system bo)) \<lparr>b_context = c, b_action = a\<rparr> \<longleftrightarrow> 0 < action_count (bo_system bo) a"
    using inv by (simp add: bo_inv_def bindings_ok_def action_count_def)
  ultimately show ?thesis by (auto simp: card_gt_0_iff)
qed

lemma token_value_result:
  assumes inv: "bo_inv c ok s bo" and ob: "bo_valueListObserver bo = Some ob" and t: "t \<in> all_tokens (ob_tokens ob)"
  obtains d where "bo.token_value (ob_values ob) t = result_value (binding_result d (scope_identifier (ctx_scope c)) t)"
proof -
  from inv ob obtain n where "bo.vl_inv c (ob_values ob, bo_system bo) (all_tokens (ob_tokens ob), n)"
    by (auto simp: bo_inv_def)
  with t obtain r where "map_of (parseResultsByToken (ob_values ob)) (tok_id t) = Some r" "action_spec c t r"
    by (auto simp: bo.vl_inv_def)
  with that show thesis by (auto simp: bo.token_value_def action_spec_def)
qed

lemma token_at:
  assumes "tok_inv an d {} E tlo" and "e \<in> E" and "i < length (attr_words d an e)"
  shows "\<exists>t \<in> all_tokens tlo. tok_element t = e \<and> tok_index t = i"
proof -
  have len: "i < length (tokens_of tlo e)"
    using assms by (metis (no_types, lifting) length_map list.set_intros(1) empty_iff list.set(1) tok_inv_def)
  let ?t = "tokens_of tlo e ! i"
  have "?t \<in> set (tokens_of tlo e)" using len by simp
  moreover from this have "?t \<in> all_tokens tlo" by (auto simp: all_tokens_def)
  moreover have "map tok_index (tokens_of tlo e) ! i = i" using assms(1) len by (simp add: tok_inv_def tl_wf_def)
  ultimately show ?thesis using assms(1) len
    by (intro bexI [of _ ?t]) (auto simp: tok_inv_def tl_wf_def)
qed

lemma token_content:
  assumes inv: "tok_inv an d {} E tlo" and t: "t \<in> all_tokens tlo"
  shows "tok_element t \<in> E \<and> tok_index t < length (attr_words d an (tok_element t))
    \<and> tok_content t = attr_words d an (tok_element t) ! tok_index t"
proof -
  have mem: "t \<in> set (tokens_of tlo (tok_element t))"
    using inv t by (auto simp: all_tokens_def tok_inv_def tl_wf_def)
  then obtain j where j: "j < length (tokens_of tlo (tok_element t))" "tokens_of tlo (tok_element t) ! j = t"
    by (metis in_set_conv_nth)
  have "map tok_index (tokens_of tlo (tok_element t)) ! j = j" using inv j(1) by (simp add: tok_inv_def tl_wf_def)
  with j have idx: "tok_index t = j" by simp
  have E: "tok_element t \<in> E" using inv mem by (auto simp: tok_inv_def)
  then have words: "map tok_content (tokens_of tlo (tok_element t)) = attr_words d an (tok_element t)"
    using inv by (auto simp: tok_inv_def)
  from arg_cong [OF words, of length] arg_cong [OF words, of "\<lambda>xs. xs ! j"] j E idx show ?thesis by simp
qed

lemma set_and_then: "x \<in> set (and_then xs f) \<longleftrightarrow> (\<exists>y \<in> set xs. x \<in> set (f y))"
  by (induction xs) auto

lemma lazy_plus_nonempty: "(x, r) \<in> set (lazy_plus P s) \<Longrightarrow> x \<noteq> []"
  using length_takeWhile_le [of P s] by (auto simp: lazy_plus_def)

lemma event_name_nonempty:
  assumes "d_eventName (parseActionDescriptorString s) = Some ev"
  shows "ev \<noteq> []"
proof -
  obtain m4 m5 m7 m9 ms where m: "descriptorPattern (trim s) = (Some ev, m4, m5, m7, m9) # ms"
    using assms by (cases "descriptorPattern (trim s)") (auto simp: parseActionDescriptorString_def)
  then have "(Some ev, m4, m5, m7, m9) \<in> set (descriptorPattern (trim s))" by simp
  then obtain r where "(Some ev, m4, r) \<in> set (event_part (trim s))"
    by (auto simp: descriptorPattern_def set_and_then)
  then show ?thesis by (auto simp: event_part_def set_and_then dest: lazy_plus_nonempty)
qed

lemma new_Action_explicit:
  "d_eventName desc = Some ev \<Longrightarrow> ev \<noteq> [] \<Longrightarrow> new_Action d i e k desc = new_Action d' i e k desc"
  by (simp add: new_Action_def or_else_def)

lemma forToken_explicit:
  assumes "d_eventName (parseActionDescriptorString (tok_content t)) = Some ev"
  shows "result_value (binding_result d ident t) = Some a \<longleftrightarrow>
    new_Action d' (tok_id t) (tok_element t) (tok_index t) (parseActionDescriptorString (tok_content t)) = Inr a
    \<and> act_identifier a = ident"
  unfolding binding_result_Some Action_forToken_def
  using new_Action_explicit [OF assms event_name_nonempty [OF assms], of d _ _ _ d'] by simp

lemma new_Action_identifier:
  "new_Action d i e k desc = Inr a \<Longrightarrow> d_identifier desc = Some (act_identifier a)"
  by (auto simp: new_Action_def or_else_def split: option.splits if_splits)

lemma parsed_identifier:
  assumes "d_eventName (parseActionDescriptorString s) = Some ev"
  shows "\<exists>a. new_Action d i e k (parseActionDescriptorString s) = Inr a"
proof -
  let ?p = "parseActionDescriptorString s"
  obtain m4 m5 m7 m9 ms where m: "descriptorPattern (trim s) = (Some ev, m4, m5, m7, m9) # ms"
    using assms by (cases "descriptorPattern (trim s)") (auto simp: parseActionDescriptorString_def)
  then have "(Some ev, m4, m5, m7, m9) \<in> set (descriptorPattern (trim s))" by simp
  then obtain r where "(m5, m7, m9) \<in> set (action_part r)" by (auto simp: descriptorPattern_def set_and_then)
  then have "m5 \<noteq> []" "m7 \<noteq> []"
    by (auto simp: action_part_def method_part_def set_and_then dest: lazy_plus_nonempty split: if_splits)
  with event_name_nonempty [OF assms] show ?thesis
    by (simp add: parseActionDescriptorString_def m new_Action_def or_else_def)
qed

text \<open>The observer after a delivery: its elements and its tokens are those of the document.\<close>

lemma delivered_observer:
  assumes run: "bo_run c True s bo" and ap: "apart (ctx_element c) s" and on: "bo_valueListObserver bo \<noteq> None"
  obtains ob where "bo_valueListObserver (BindingObserver_deliver (doc s) (records s) bo) = Some ob"
    "set (eo_elements (ob_elements ob)) = {e. contains (doc s) (ctx_element c) e \<and> hasAttribute (doc s) e actionAttribute}"
    "tok_inv actionAttribute (doc s) {} (set (eo_elements (ob_elements ob))) (ob_tokens ob)"
proof -
  have inv: "bo_inv c True s bo" by (rule bo_run_inv [OF run])
  from on obtain ob0 where ob0: "bo_valueListObserver bo = Some ob0" by auto
  obtain eo tlo calls where step: "(eo, tlo, calls) = deliver_tokens (doc s) actionAttribute (records s) (ob_elements ob0) (ob_tokens ob0)"
    by (metis surj_pair)
  have st: "eo_started (ob_elements ob0)" and eo: "eo_inv actionAttribute (ctx_element c) s (ob_elements ob0)"
    and tok0: "tok_inv actionAttribute (doc s) (due actionAttribute (records s)) (set (eo_elements (ob_elements ob0))) (ob_tokens ob0)"
    using inv ob0 ap by (simp_all add: bo_inv_def watch_inv_def bo_due_def)
  have ok: "dom_ok (doc s)" using inv by (simp add: bo_inv_def)
  have "set (eo_elements eo) = {e. contains (doc s) (ctx_element c) e \<and> hasAttribute (doc s) e actionAttribute}"
    using eo_inv_deliver_elements [OF eo st] deliver_tokens_elements [OF step] by (simp add: contains_below [OF ok])
  moreover have "tok_inv actionAttribute (doc s) {} (set (eo_elements eo)) tlo" using tok_inv_deliver [OF st tok0 step le0] by simp
  moreover obtain ob where "bo_valueListObserver (BindingObserver_deliver (doc s) (records s) bo) = Some ob"
    "ob_elements ob = eo" "ob_tokens ob = tlo"
    by (simp add: BindingObserver_deliver_def ob0 step [symmetric] bo_tokens_changed_def Let_def case_prod_unfold)
  ultimately show ?thesis using that by simp
qed

text \<open>A held binding at a position is the action of the token at this position.\<close>

lemma held_by_token:
  assumes inv: "bo_inv c ok s bo" and ob: "bo_valueListObserver bo = Some ob"
    and tok: "tok_inv actionAttribute (doc s) {} E (ob_tokens ob)"
    and desc: "desc = parseActionDescriptorString (attr_words (doc s) actionAttribute e ! i)" "d_eventName desc = Some ev"
  shows "holds (bs_dispatcher (bo_system bo)) \<lparr>b_context = c, b_action = a\<rparr> \<and> act_element a = e \<and> act_index a = i \<longleftrightarrow>
    (\<exists>t \<in> all_tokens (ob_tokens ob). tok_element t = e \<and> tok_index t = i \<and> new_Action (doc s) (tok_id t) e i desc = Inr a
      \<and> act_identifier a = scope_identifier (ctx_scope c))"
proof -
  let ?ident = "scope_identifier (ctx_scope c)"
  have val: "bo.token_value (ob_values ob) t = Some a \<longleftrightarrow>
      new_Action (doc s) (tok_id t) e i desc = Inr a \<and> act_identifier a = ?ident"
    if "t \<in> all_tokens (ob_tokens ob)" "tok_element t = e" "tok_index t = i" for t
  proof -
    from token_value_result [OF inv ob] that(1) obtain d where
      "bo.token_value (ob_values ob) t = result_value (binding_result d ?ident t)" by metis
    moreover have "tok_content t = attr_words (doc s) actionAttribute e ! i"
      using token_content [OF tok that(1)] that(2,3) by simp
    ultimately show ?thesis
      using forToken_explicit [of t ev d ?ident a "doc s"] desc that(2,3) by simp
  qed
  have "tok_element t = act_element a \<and> tok_index t = act_index a"
    if "t \<in> all_tokens (ob_tokens ob)" "bo.token_value (ob_values ob) t = Some a" for t
    using token_value_result [OF inv ob, of t] that forToken_id by (metis binding_result_Some)
  then show ?thesis unfolding holds_token [OF inv ob] using val by metis
qed

text \<open>
  C2: Take a descriptor with an event name in the \<open>data-action\<close> attribute of an element. After the
  pending mutation records are delivered, the dispatcher holds a binding of the context for this
  position of this element exactly when the element is inside the element of the context and the
  descriptor names the identifier of the context; and then the action of the binding is the one
  the descriptor describes. It holds for any changes of the document, restarts of the observer and
  operations of other contexts at the dispatcher, as long as at no delivery since the observer was
  started last the element of the context is below a node that was removed, in the same batch, from
  inside it. (The router disconnects and reconnects a context whose element is moved, which starts
  its observer anew.)
\<close>

theorem bindings_follow_the_document:
  assumes "bo_run c True s bo" and "bo_valueListObserver bo \<noteq> None" and "apart (scope_element (ctx_scope c)) s"
    and "bo' = BindingObserver_deliver (doc s) (records s) bo"
    and "i < length (attr_words (doc s) actionAttribute e)"
    and "desc = parseActionDescriptorString (attr_words (doc s) actionAttribute e ! i)"
    and "d_eventName desc = Some ev"
  shows "((\<exists>a. holds (bs_dispatcher (bo_system bo')) \<lparr>b_context = c, b_action = a\<rparr> \<and> act_element a = e \<and> act_index a = i) \<longleftrightarrow>
      contains (doc s) (scope_element (ctx_scope c)) e \<and> d_identifier desc = Some (scope_identifier (ctx_scope c)))
    \<and> (\<forall>a. holds (bs_dispatcher (bo_system bo')) \<lparr>b_context = c, b_action = a\<rparr> \<and> act_element a = e \<and> act_index a = i \<longrightarrow>
        new_Action (doc s) (act_id a) e i desc = Inr a)"
proof -
  let ?s = "s\<lparr>records := [], transients := []\<rparr>" and ?ident = "scope_identifier (ctx_scope c)"
  have inv: "bo_inv c True ?s bo'" using bo_run_inv [OF bo_run.deliver [OF assms(1)]] assms(3,4) by simp
  from delivered_observer [OF assms(1,3,2)] assms(4) obtain ob where ob: "bo_valueListObserver bo' = Some ob"
    and els: "set (eo_elements (ob_elements ob)) = {e. contains (doc s) (ctx_element c) e \<and> hasAttribute (doc s) e actionAttribute}"
    and tok: "tok_inv actionAttribute (doc s) {} (set (eo_elements (ob_elements ob))) (ob_tokens ob)" by metis
  have E: "e \<in> set (eo_elements (ob_elements ob)) \<longleftrightarrow> contains (doc s) (ctx_element c) e"
    using els assms(5) by (cases "getAttribute (doc s) e actionAttribute") (auto simp: attr_words_def hasAttribute_def)
  have held: "holds (bs_dispatcher (bo_system bo')) \<lparr>b_context = c, b_action = a\<rparr> \<and> act_element a = e \<and> act_index a = i \<longleftrightarrow>
      (\<exists>t \<in> all_tokens (ob_tokens ob). tok_element t = e \<and> tok_index t = i \<and> new_Action (doc s) (tok_id t) e i desc = Inr a
        \<and> act_identifier a = ?ident)" for a
    using held_by_token [OF inv ob _ _ assms(7), of "set (eo_elements (ob_elements ob))" e i a] tok assms(6) by simp
  have "(\<exists>a. holds (bs_dispatcher (bo_system bo')) \<lparr>b_context = c, b_action = a\<rparr> \<and> act_element a = e \<and> act_index a = i) \<longleftrightarrow>
      contains (doc s) (ctx_element c) e \<and> d_identifier desc = Some ?ident" (is "?l \<longleftrightarrow> ?r")
  proof
    assume ?l
    then show ?r unfolding held using token_content [OF tok] E new_Action_identifier by metis
  next
    assume r: ?r
    then obtain t where t: "t \<in> all_tokens (ob_tokens ob)" "tok_element t = e" "tok_index t = i"
      using token_at [OF tok _ assms(5)] E by blast
    obtain a where a: "new_Action (doc s) (tok_id t) e i desc = Inr a"
      using parsed_identifier [of _ ev] assms(6,7) by metis
    with r t new_Action_identifier [OF a] show ?l unfolding held by auto
  qed
  moreover have "new_Action (doc s) (act_id a) e i desc = Inr a"
    if "holds (bs_dispatcher (bo_system bo')) \<lparr>b_context = c, b_action = a\<rparr> \<and> act_element a = e \<and> act_index a = i" for a
  proof -
    from that obtain n where n: "new_Action (doc s) n e i desc = Inr a" unfolding held by blast
    then have "act_id a = n" by (auto simp: new_Action_def split: option.splits)
    with n show ?thesis by simp
  qed
  ultimately show ?thesis by blast
qed

text \<open>Two descriptors on a button inside the element of the context, one for another controller.\<close>

definition button_doc :: dom where
  "button_doc = [El 0 ''div'' [(''data-controller'', ''x'')]
     [El 1 ''button'' [(''data-action'', ''click->y#a click->x#send'')] []]]"

definition button_ctx :: ctx where
  "button_ctx = \<lparr>ctx_module = 0, ctx_scope = \<lparr>scope_element = 0, scope_identifier = ''x''\<rparr>\<rparr>"

definition button_observer :: binding_observer where
  "button_observer = BindingObserver_start button_doc (new_BindingObserver button_ctx new_Dispatcher)"

theorem bindings_follow_the_document_witness:
  "let s = \<lparr>doc = button_doc, records = [], transients = []\<rparr>;
       bo' = BindingObserver_deliver (doc s) (records s) button_observer
   in bo_run button_ctx True s button_observer \<and> apart (scope_element (ctx_scope button_ctx)) s
      \<and> (\<exists>a. holds (bs_dispatcher (bo_system bo')) \<lparr>b_context = button_ctx, b_action = a\<rparr> \<and> act_element a = 1 \<and> act_index a = 1)
      \<and> \<not> (\<exists>a. holds (bs_dispatcher (bo_system bo')) \<lparr>b_context = button_ctx, b_action = a\<rparr> \<and> act_element a = 1 \<and> act_index a = 0)"
proof -
  let ?s = "\<lparr>doc = button_doc, records = [], transients = []\<rparr>"
  let ?ws = "attr_words (doc ?s) actionAttribute 1"
  have ok: "dom_ok button_doc" by (auto simp: dom_ok_def dom_wf_def button_doc_def document_root_def)
  have "bo_run button_ctx True ?s (new_BindingObserver button_ctx new_Dispatcher)"
    by (rule bo_run.created [OF ok]) (simp_all add: button_doc_def button_ctx_def holds_def listener_at_def new_Dispatcher_def)
  from bo_run.start [OF this] have run: "bo_run button_ctx True ?s button_observer" by (simp add: button_observer_def)
  have ap: "apart (scope_element (ctx_scope button_ctx)) ?s" by (simp add: apart_def)
  have st: "bo_valueListObserver button_observer \<noteq> None" by code_simp
  have ws: "?ws = [''click->y#a'', ''click->x#send'']" by code_simp
  have d0: "d_eventName (parseActionDescriptorString (?ws ! 0)) = Some ''click''"
    and d1: "d_eventName (parseActionDescriptorString (?ws ! 1)) = Some ''click''" by code_simp+
  have i0: "d_identifier (parseActionDescriptorString (?ws ! 0)) \<noteq> Some (scope_identifier (ctx_scope button_ctx))"
    and i1: "d_identifier (parseActionDescriptorString (?ws ! 1)) = Some (scope_identifier (ctx_scope button_ctx))"
    and cont: "contains (doc ?s) (scope_element (ctx_scope button_ctx)) 1" by code_simp+
  have len: "0 < length ?ws" "1 < length ?ws" unfolding ws by simp_all
  show ?thesis
    using bindings_follow_the_document [OF run st ap refl len(1) refl d0]
      bindings_follow_the_document [OF run st ap refl len(2) refl d1] i0 i1 cont run ap
    unfolding Let_def by blast
qed

end
