(* ===== verification/Json_Parse.thy ===== *)
theory Json_Parse
  imports Json
begin

text \<open>
  \<open>JSON.parse\<close>, which the readers of controller values and \<open>renderJSONObject\<close> call: a scanner
  for the tokens of the grammar and a push-down automaton that consumes one token per step, so
  that both end on every text.

  A number with a fraction or an exponent, an integer beyond the exactly represented ones and a
  code unit beyond 255 are outside the values of the model. A text that contains one (and is not a
  syntax error) is \<open>Unmodelled\<close>, with the value it describes except that \<open>null\<close> stands for each such
  number or string (and the empty name for such a name), so that the kind of the value is known.
\<close>

section \<open>Tokens\<close>

datatype tok = TPunct char | TStr "string option" | TNum "int option" | TLit json

definition json_ws :: "char \<Rightarrow> bool" where
  "json_ws c \<longleftrightarrow> of_char c \<in> {9, 10, 13, 32 :: nat}"

definition punct :: "char \<Rightarrow> bool" where
  "punct c \<longleftrightarrow> c \<in> set ''[]{},:''"

definition max_safe :: int where
  "max_safe = 2 ^ 53"

definition escape_char :: "char \<Rightarrow> char option" where
  "escape_char e = map_of [(CHR 0x22, CHR 0x22), (CHR 0x5C, CHR 0x5C), (CHR ''/'', CHR ''/''), (CHR ''b'', CHR 0x08),
     (CHR ''f'', CHR 0x0C), (CHR ''n'', CHR 0x0A), (CHR ''r'', CHR 0x0D), (CHR ''t'', CHR 0x09)] e"

definition code_unit :: "nat \<Rightarrow> char option" where
  "code_unit n = (if n < 256 then Some (char_of n) else None)"

text \<open>The rest of a string literal after its opening quotation mark.\<close>

definition put_char :: "char option \<Rightarrow> string option \<times> string \<Rightarrow> string option \<times> string" where
  "put_char c r = (case (c, fst r) of (Some c, Some s) \<Rightarrow> (Some (c # s), snd r) | _ \<Rightarrow> (None, snd r))"

definition escape_unit :: "string \<Rightarrow> (char option \<times> string) option" where
  "escape_unit cs =
     (let hs = take 4 (drop 1 cs) in
      if take 1 cs = ''u'' then
        (if length hs = 4 \<and> list_all (is_digit 16) hs then Some (code_unit (digits_val 16 hs), drop 5 cs) else None)
      else (case cs of [] \<Rightarrow> None | e # rest \<Rightarrow> map_option (\<lambda>x. (Some x, rest)) (escape_char e)))"

definition scan_unit :: "char \<Rightarrow> string \<Rightarrow> (char option \<times> string) option" where
  "scan_unit c cs =
     (if c = CHR 0x5C then escape_unit cs
      else if of_char c < (32 :: nat) then None else Some (Some c, cs))"

lemma scan_unit_length: "scan_unit c cs = Some (u, rest) \<Longrightarrow> length rest \<le> length cs"
  by (auto simp: scan_unit_def escape_unit_def Let_def split: if_splits list.splits)

function scan_string :: "string \<Rightarrow> (string option \<times> string) option" where
  "scan_string [] = None"
| "scan_string (c # cs) =
     (if c = CHR 0x22 then Some (Some [], cs)
      else (case scan_unit c cs of
              None \<Rightarrow> None
            | Some (u, rest) \<Rightarrow> map_option (put_char u) (scan_string rest)))"
  by pat_completeness auto
termination
  by (relation "measure length") (auto dest: scan_unit_length)

text \<open>A number: the digits, then the lengths of a fraction and of an exponent.\<close>

definition frac_len :: "string \<Rightarrow> nat" where
  "frac_len s = (let ds = takeWhile (is_digit 10) (drop 1 s)
     in if take 1 s = ''.'' \<and> ds \<noteq> [] then Suc (length ds) else 0)"

definition exp_len :: "string \<Rightarrow> nat" where
  "exp_len s = (let sign = (if take 1 (drop 1 s) \<in> {''+'', ''-''} then 1 else 0);
       ds = takeWhile (is_digit 10) (drop (1 + sign) s)
     in if take 1 s \<in> {''e'', ''E''} \<and> ds \<noteq> [] then 1 + sign + length ds else 0)"

definition int_digits :: "string \<Rightarrow> string" where
  "int_digits s = (if take 1 s = ''0'' then ''0'' else takeWhile (is_digit 10) s)"

definition scan_number :: "string \<Rightarrow> (int option \<times> string) option" where
  "scan_number s =
     (let neg = take 1 s = ''-''; s1 = (if neg then drop 1 s else s);
          ds = int_digits s1; s2 = drop (length ds) s1;
          s3 = drop (frac_len s2) s2; s4 = drop (exp_len s3) s3;
          i = (if neg then - int (digits_val 10 ds) else int (digits_val 10 ds))
      in if ds = [] then None
         else Some (if length s4 = length s2 \<and> \<bar>i\<bar> \<le> max_safe then Some i else None, s4))"

lemma put_char_rest [simp]: "snd (put_char u r) = snd r"
  by (simp add: put_char_def split: option.splits)

lemma scan_string_length: "scan_string s = Some r \<Longrightarrow> length (snd r) < length s"
proof (induction s arbitrary: r rule: scan_string.induct)
  case (2 c cs)
  show ?case
  proof (cases "c = CHR 0x22")
    case True
    with "2.prems" show ?thesis by auto
  next
    case False
    with "2.prems" obtain u rest r' where u: "scan_unit c cs = Some (u, rest)" and r': "scan_string rest = Some r'"
      and "r = put_char u r'" by (auto split: option.splits)
    with "2.IH" [OF False u refl r'] scan_unit_length [OF u] show ?thesis by simp
  qed
qed simp

lemma scan_number_length: "scan_number s = Some (i, rest) \<Longrightarrow> length rest < length s"
proof -
  assume s: "scan_number s = Some (i, rest)"
  define s1 where "s1 = (if take 1 s = ''-'' then drop 1 s else s)"
  from s have ds: "int_digits s1 \<noteq> []" by (auto simp: scan_number_def Let_def s1_def split: if_splits)
  from s obtain m n where "rest = drop m (drop n (drop (length (int_digits s1)) s1))"
    unfolding scan_number_def Let_def s1_def [symmetric] by (auto split: if_splits)
  moreover have "s1 \<noteq> []" using ds by (auto simp: int_digits_def)
  ultimately have "length rest < length s1" using ds by (cases "int_digits s1") auto
  then show ?thesis by (simp add: s1_def split: if_splits)
qed

function tokenize :: "string \<Rightarrow> tok list option" where
  "tokenize [] = Some []"
| "tokenize (c # cs) =
     (if json_ws c then tokenize cs
      else if punct c then map_option (Cons (TPunct c)) (tokenize cs)
      else if c = CHR 0x22 then
        (case scan_string cs of None \<Rightarrow> None | Some (s, rest) \<Rightarrow> map_option (Cons (TStr s)) (tokenize rest))
      else if c = CHR ''-'' \<or> is_digit 10 c then
        (case scan_number (c # cs) of None \<Rightarrow> None | Some (i, rest) \<Rightarrow> map_option (Cons (TNum i)) (tokenize rest))
      else if take 4 (c # cs) = ''null'' then map_option (Cons (TLit JNull)) (tokenize (drop 3 cs))
      else if take 4 (c # cs) = ''true'' then map_option (Cons (TLit (JBool True))) (tokenize (drop 3 cs))
      else if take 5 (c # cs) = ''false'' then map_option (Cons (TLit (JBool False))) (tokenize (drop 4 cs))
      else None)"
  by pat_completeness auto
termination
  by (relation "measure length") (auto dest: scan_string_length scan_number_length)

section \<open>The automaton\<close>

datatype frame = FArr "json list" | FObj "(string \<times> json) list" string

datatype mode = MValue | MFirst | MKeyFirst | MKey | MColon | MNext | MDone json

text \<open>
  Properties are created in the order of the text, except that array indices come first; a second
  value for a key replaces the first. Unlike an assignment this holds for \<open>__proto__\<close>, too.
\<close>

definition define_prop :: "string \<Rightarrow> 'v \<Rightarrow> (string \<times> 'v) list \<Rightarrow> (string \<times> 'v) list" where
  "define_prop k v kvs = (
     if k \<in> fst ` set kvs then AList.update k v kvs
     else if is_index k then insert_index k v kvs
     else kvs @ [(k, v)])"

fun deliver_value :: "json \<Rightarrow> frame list \<Rightarrow> mode \<times> frame list" where
  "deliver_value v [] = (MDone v, [])"
| "deliver_value v (FArr xs # fs) = (MNext, FArr (xs @ [v]) # fs)"
| "deliver_value v (FObj kvs k # fs) = (MNext, FObj (define_prop k v kvs) k # fs)"

definition in_model :: "'a option \<Rightarrow> ('a \<Rightarrow> json) \<Rightarrow> json" where
  "in_model x f = (case x of None \<Rightarrow> JNull | Some x \<Rightarrow> f x)"

fun value_step :: "tok \<Rightarrow> frame list \<Rightarrow> (mode \<times> frame list) option" where
  "value_step (TStr s) fs = Some (deliver_value (in_model s JStr) fs)"
| "value_step (TNum i) fs = Some (deliver_value (in_model i JNum) fs)"
| "value_step (TLit v) fs = Some (deliver_value v fs)"
| "value_step (TPunct c) fs =
     (if c = CHR ''['' then Some (MFirst, FArr [] # fs)
      else if c = CHR ''{'' then Some (MKeyFirst, FObj [] [] # fs) else None)"

fun key_step :: "tok \<Rightarrow> frame list \<Rightarrow> (mode \<times> frame list) option" where
  "key_step (TStr s) (FObj kvs _ # fs) = Some (MColon, FObj kvs (case s of None \<Rightarrow> [] | Some s \<Rightarrow> s) # fs)"
| "key_step _ _ = None"

fun close_step :: "char \<Rightarrow> frame list \<Rightarrow> (mode \<times> frame list) option" where
  "close_step c (FArr xs # fs) = (if c = CHR '']'' then Some (deliver_value (JArr xs) fs) else None)"
| "close_step c (FObj kvs k # fs) = (if c = CHR ''}'' then Some (deliver_value (JObj kvs) fs) else None)"
| "close_step c [] = None"

fun parse_step :: "tok \<Rightarrow> mode \<times> frame list \<Rightarrow> (mode \<times> frame list) option" where
  "parse_step t (MValue, fs) = value_step t fs"
| "parse_step t (MFirst, fs) = (if t = TPunct CHR '']'' then close_step CHR '']'' fs else value_step t fs)"
| "parse_step t (MKeyFirst, fs) = (if t = TPunct CHR ''}'' then close_step CHR ''}'' fs else key_step t fs)"
| "parse_step t (MKey, fs) = key_step t fs"
| "parse_step t (MColon, fs) = (if t = TPunct CHR '':'' then Some (MValue, fs) else None)"
| "parse_step t (MNext, fs) =
     (case t of
        TPunct c \<Rightarrow>
          if c = CHR '','' then (case fs of FArr _ # _ \<Rightarrow> Some (MValue, fs) | FObj _ _ # _ \<Rightarrow> Some (MKey, fs) | [] \<Rightarrow> None)
          else close_step c fs
      | _ \<Rightarrow> None)"
| "parse_step t (MDone v, fs) = None"

fun parse_run :: "tok list \<Rightarrow> mode \<times> frame list \<Rightarrow> (mode \<times> frame list) option" where
  "parse_run [] st = Some st"
| "parse_run (t # ts) st = (case parse_step t st of None \<Rightarrow> None | Some st \<Rightarrow> parse_run ts st)"

datatype json_result = Parsed json | SyntaxError | Unmodelled json

definition json_parse :: "string \<Rightarrow> json_result" where
  "json_parse s =
     (case tokenize s of
        None \<Rightarrow> SyntaxError
      | Some ts \<Rightarrow>
          (case parse_run ts (MValue, []) of
             Some (MDone v, []) \<Rightarrow> if TStr None \<in> set ts \<or> TNum None \<in> set ts then Unmodelled v else Parsed v
           | _ \<Rightarrow> SyntaxError))"

section \<open>Reading what was printed\<close>

text \<open>The values of the model that a script can hold.\<close>

fun json_ok :: "json \<Rightarrow> bool" where
  "json_ok (JNum i) \<longleftrightarrow> \<bar>i\<bar> \<le> max_safe"
| "json_ok (JArr xs) \<longleftrightarrow> list_all json_ok xs"
| "json_ok (JObj kvs) \<longleftrightarrow> list_all (\<lambda>(k, v). json_ok v) kvs \<and> foldl (\<lambda>ps (k, v). define_prop k v ps) [] kvs = kvs"
| "json_ok _ \<longleftrightarrow> True"

fun sep_toks :: "tok list list \<Rightarrow> tok list" where
  "sep_toks [] = []"
| "sep_toks [ts] = ts"
| "sep_toks (ts # us # tss) = ts @ TPunct CHR '','' # sep_toks (us # tss)"

fun json_toks :: "json \<Rightarrow> tok list" where
  "json_toks (JNum i) = [TNum (Some i)]"
| "json_toks (JStr s) = [TStr (Some s)]"
| "json_toks (JArr xs) = TPunct CHR ''['' # sep_toks (map json_toks xs) @ [TPunct CHR '']'']"
| "json_toks (JObj kvs) = TPunct CHR ''{'' #
     sep_toks (map (\<lambda>(k, v). TStr (Some k) # TPunct CHR '':'' # json_toks v) kvs) @ [TPunct CHR ''}'']"
| "json_toks v = [TLit v]"

subsection \<open>The scanner on printed values\<close>

lemma digit_val_hex: "d < 16 \<Longrightarrow> digit_val (hex_digit d) = Some d"
  by (auto simp: digit_val_def hex_digit_def of_char_of Let_def)

lemma digit_val_zero: "digit_val (CHR ''0'') = Some 0"
  by (simp add: digit_val_def)

lemma escape_hex:
  assumes "of_char c < (32 :: nat)"
  shows "escape_unit ([CHR ''u'', CHR ''0'', CHR ''0'', hex_digit (of_char c div 16), hex_digit (of_char c mod 16)] @ s)
    = Some (Some c, s)"
proof -
  have "n div 16 < 16" "n mod 16 < 16" if "n < 32" for n :: nat using that by auto
  note b = this [OF assms]
  note d = b [THEN digit_val_hex]
  have "digits_val 16 [CHR ''0'', CHR ''0'', hex_digit (of_char c div 16), hex_digit (of_char c mod 16)] = of_char c"
    by (simp add: digits_val_def digit_val_zero d)
  moreover have "is_digit 16 (hex_digit (of_char c div 16))" "is_digit 16 (hex_digit (of_char c mod 16))"
    "is_digit 16 (CHR ''0'')"
    by (simp_all add: is_digit_def d b digit_val_zero)
  ultimately show ?thesis using assms by (simp add: escape_unit_def code_unit_def)
qed

lemma quote_unit:
  "\<exists>a as. quote_char c = a # as \<and> a \<noteq> CHR 0x22 \<and> scan_unit a (as @ s) = Some (Some c, s)"
proof -
  consider "of_char c \<in> {34, 92, 8, 9, 10, 12, 13 :: nat}"
    | "of_char c \<notin> {34, 92, 8, 9, 10, 12, 13 :: nat}" "of_char c < (32 :: nat)"
    | "of_char c \<notin> {34, 92, 8, 9, 10, 12, 13 :: nat}" "of_char c \<ge> (32 :: nat)" by linarith
  then show ?thesis
  proof cases
    case 1
    moreover have "{34, 92, 8, 9, 10, 12, 13 :: nat} =
        of_char ` {CHR 0x22, CHR 0x5C, CHR 0x08, CHR 0x09, CHR 0x0A, CHR 0x0C, CHR 0x0D}" by simp
    ultimately have "c \<in> {CHR 0x22, CHR 0x5C, CHR 0x08, CHR 0x09, CHR 0x0A, CHR 0x0C, CHR 0x0D}"
      by (simp only: inj_image_mem_iff [OF inj_of_char])
    then show ?thesis
      by (elim insertE emptyE) (simp_all add: quote_char_def scan_unit_def escape_unit_def escape_char_def)
  next
    case 2
    with escape_hex [OF 2(2), of s] show ?thesis by (simp add: quote_char_def Let_def scan_unit_def)
  next
    case 3
    then have "c \<noteq> CHR 0x22" "c \<noteq> CHR 0x5C" by auto
    with 3 show ?thesis by (simp add: quote_char_def Let_def scan_unit_def)
  qed
qed

lemma scan_quoted: "scan_string (concat (map quote_char t) @ CHR 0x22 # s) = Some (Some t, s)"
proof (induction t)
  case (Cons c t)
  obtain a as where "quote_char c = a # as" "a \<noteq> CHR 0x22"
    "scan_unit a (as @ concat (map quote_char t) @ CHR 0x22 # s) = Some (Some c, concat (map quote_char t) @ CHR 0x22 # s)"
    using quote_unit by blast
  with Cons show ?case by (simp add: put_char_def)
qed simp

definition stops :: "string \<Rightarrow> bool" where
  "stops s \<longleftrightarrow> s = [] \<or> hd s \<in> set '',]}''"

lemma is_digit_digit_char: "d < 10 \<Longrightarrow> is_digit 10 (digit_char d)"
  by (simp add: is_digit_def digit_val_digit_char)

lemma nat_str_hd: "hd (nat_str n) = CHR ''0'' \<Longrightarrow> n = 0"
proof (induction n rule: nat_str.induct)
  case (1 n)
  show ?case
  proof (cases "n < 10")
    case True
    have "digit_val (digit_char n) = Some n" by (rule digit_val_digit_char [OF True])
    with "1.prems" True show ?thesis by (subst (asm) nat_str.simps) (simp add: digit_val_zero)
  next
    case False
    with "1.prems" have "hd (nat_str (n div 10)) = CHR ''0''" by (subst (asm) nat_str.simps) simp
    with "1.IH" [OF False] False show ?thesis by simp
  qed
qed

lemma nat_str_0: "nat_str 0 = ''0''"
  by code_simp

lemma int_digits_nat_str:
  assumes "stops s"
  shows "int_digits (nat_str n @ s) = nat_str n"
proof (cases "n = 0")
  case True
  then show ?thesis by (simp add: nat_str_0 int_digits_def)
next
  case False
  then have "hd (nat_str n) \<noteq> CHR ''0''" using nat_str_hd by blast
  then have "take 1 (nat_str n @ s) \<noteq> ''0''" by (cases "nat_str n") auto
  moreover have "takeWhile (is_digit 10) s = []"
    using assms by (cases s) (auto simp: stops_def is_digit_def digit_val_def)
  ultimately show ?thesis
    by (simp add: int_digits_def takeWhile_append2 nat_str_is_digit)
qed

lemma scan_int:
  assumes "stops s" and "\<bar>i\<bar> \<le> max_safe"
  shows "scan_number (int_str i @ s) = Some (Some i, s)"
proof -
  let ?n = "nat \<bar>i\<bar>"
  have hd: "take 1 (nat_str ?n @ s) \<noteq> ''-''"
    using nat_str_is_digit [of "hd (nat_str ?n)" ?n] by (cases "nat_str ?n") (auto simp: is_digit_def digit_val_def)
  have rest: "frac_len s = 0" "exp_len s = 0"
    using assms(1) by (cases s; auto simp: stops_def frac_len_def exp_len_def Let_def)+
  have strip: "(if take 1 (int_str i @ s) = ''-'' then drop 1 (int_str i @ s) else int_str i @ s) = nat_str ?n @ s"
    using hd by (auto simp: int_str_def)
  have neg: "take 1 (int_str i @ s) = ''-'' \<longleftrightarrow> i < 0" using hd by (auto simp: int_str_def)
  show ?thesis
    using assms(2) unfolding scan_number_def Let_def
    unfolding strip unfolding neg int_digits_nat_str [OF assms(1)]
    by (cases "i < 0") (simp_all add: rest digits_val_nat_str)
qed

lemma int_str_hd: "\<exists>c cs. int_str i = c # cs \<and> (c = CHR ''-'' \<or> is_digit 10 c)"
proof (cases "i < 0")
  case False
  then show ?thesis using nat_str_is_digit [of _ "nat i"] by (cases "nat_str (nat i)") (auto simp: int_str_def)
qed (simp add: int_str_def)

lemma digit_no_ws: "is_digit 10 c \<or> c = CHR ''-'' \<Longrightarrow> \<not> json_ws c \<and> \<not> punct c \<and> c \<noteq> CHR 0x22"
  by (auto simp: is_digit_def digit_val_def json_ws_def punct_def Let_def split: if_splits)

lemma lex_int:
  assumes "stops s" and "\<bar>i\<bar> \<le> max_safe"
  shows "tokenize (int_str i @ s) = map_option (Cons (TNum (Some i))) (tokenize s)"
proof -
  obtain c cs where c: "int_str i = c # cs" "c = CHR ''-'' \<or> is_digit 10 c" using int_str_hd by blast
  then show ?thesis using digit_no_ws [of c] scan_int [OF assms] by auto
qed

lemma lex_quoted: "tokenize (quote_string t @ s) = map_option (Cons (TStr (Some t))) (tokenize s)"
proof -
  have "\<not> json_ws (CHR 0x22)" "\<not> punct (CHR 0x22)" by code_simp+
  then show ?thesis by (simp add: quote_string_def scan_quoted)
qed

lemma lex_punct: "punct c \<Longrightarrow> tokenize (c # s) = map_option (Cons (TPunct c)) (tokenize s)"
  by (auto simp: punct_def json_ws_def)

lemma lex_literal:
  "tokenize (''null'' @ s) = map_option (Cons (TLit JNull)) (tokenize s)"
  "tokenize (''true'' @ s) = map_option (Cons (TLit (JBool True))) (tokenize s)"
  "tokenize (''false'' @ s) = map_option (Cons (TLit (JBool False))) (tokenize s)"
proof -
  have "list_all (\<lambda>c. \<not> json_ws c \<and> \<not> punct c \<and> \<not> is_digit 10 c) ''ntf''" by code_simp
  then show "tokenize (''null'' @ s) = map_option (Cons (TLit JNull)) (tokenize s)"
    "tokenize (''true'' @ s) = map_option (Cons (TLit (JBool True))) (tokenize s)"
    "tokenize (''false'' @ s) = map_option (Cons (TLit (JBool False))) (tokenize s)" by simp_all
qed

lemma puncts [simp]: "punct (CHR ''['')" "punct (CHR '']'')" "punct (CHR ''{'')" "punct (CHR ''}'')" "punct (CHR '','')"
    "punct (CHR '':'')"
  by code_simp+

declare tokenize.simps(2) [simp del]

text \<open>The scanner reads a list of printed parts one after the other.\<close>

lemma lex_join:
  assumes "\<And>x s. x \<in> set xs \<Longrightarrow> stops s \<Longrightarrow> tokenize (pr x @ s) = map_option ((@) (tk x)) (tokenize s)" and "stops s"
  shows "tokenize (join '','' (map pr xs) @ s) = map_option ((@) (sep_toks (map tk xs))) (tokenize s)"
  using assms(1)
proof (induction xs rule: induct_list012)
  case 1
  show ?case by (simp add: map_option.id [unfolded id_def])
next
  case (2 x)
  from "2.prems" [of x s] assms(2) show ?case by simp
next
  case (3 x y zs)
  have "stops ('','' @ join '','' (map pr (y # zs)) @ s)" by (simp add: stops_def)
  from "3.prems" [of x, OF _ this] have "tokenize (pr x @ '','' @ join '','' (map pr (y # zs)) @ s) =
      map_option ((@) (tk x)) (tokenize ('','' @ join '','' (map pr (y # zs)) @ s))" by simp
  also have "tokenize ('','' @ join '','' (map pr (y # zs)) @ s) =
      map_option (Cons (TPunct CHR '','')) (map_option ((@) (sep_toks (map tk (y # zs)))) (tokenize s))"
    using "3.IH"(2) "3.prems" by (simp add: lex_punct)
  finally show ?case by (simp add: option.map_comp comp_def)
qed

lemma lex_stringify:
  "json_ok v \<Longrightarrow> stops s \<Longrightarrow> tokenize (stringify v @ s) = map_option ((@) (json_toks v)) (tokenize s)"
proof (induction v arbitrary: s)
  case JNull
  then show ?case using lex_literal(1) [of s] by simp
next
  case (JBool b)
  then show ?case using lex_literal(2,3) [of s] by (cases b) simp_all
next
  case (JNum i)
  then show ?case by (simp add: lex_int json_number_str_exact max_safe_def)
next
  case (JStr t)
  then show ?case by (simp add: lex_quoted)
next
  case (JArr xs)
  then have "tokenize (join '','' (map stringify xs) @ '']'' @ s) =
      map_option ((@) (sep_toks (map json_toks xs))) (tokenize ('']'' @ s))"
    by (intro lex_join) (auto simp: list_all_iff stops_def)
  then show ?case by (simp add: lex_punct option.map_comp comp_def)
next
  case (JObj kvs)
  have "tokenize (join '','' (map (\<lambda>(k, v). quote_string k @ '':'' @ stringify v) kvs) @ ''}'' @ s) =
      map_option ((@) (sep_toks (map (\<lambda>(k, v). TStr (Some k) # TPunct CHR '':'' # json_toks v) kvs))) (tokenize (''}'' @ s))"
  proof (intro lex_join)
    fix x s' assume x: "x \<in> set kvs" and s': "stops s'"
    obtain k v where kv: "x = (k, v)" by fastforce
    with x JObj.prems have ok: "json_ok v" by (auto simp: list_all_iff)
    from JObj.IH [OF x, of v s'] kv ok s' have "tokenize (stringify v @ s') = map_option ((@) (json_toks v)) (tokenize s')" by simp
    then show "tokenize ((case x of (k, v) \<Rightarrow> quote_string k @ '':'' @ stringify v) @ s') =
        map_option ((@) (case x of (k, v) \<Rightarrow> TStr (Some k) # TPunct CHR '':'' # json_toks v)) (tokenize s')"
      by (cases "tokenize s'") (simp_all add: kv lex_quoted lex_punct)
  qed (simp add: stops_def)
  then show ?case by (simp add: lex_punct option.map_comp comp_def)
qed

subsection \<open>The automaton on the tokens of a value\<close>

lemma parse_elements:
  assumes "\<And>x m fs ts. x \<in> set xs \<Longrightarrow> m = MValue \<or> m = MFirst \<Longrightarrow>
      parse_run (json_toks x @ ts) (m, fs) = parse_run ts (deliver_value x fs)"
    and "m = MValue \<or> m = MFirst" and "xs \<noteq> []"
  shows "parse_run (sep_toks (map json_toks xs) @ ts) (m, FArr acc # fs) = parse_run ts (MNext, FArr (acc @ xs) # fs)"
  using assms
proof (induction xs arbitrary: acc m rule: induct_list012)
  case (3 x y zs)
  have "parse_run (sep_toks (map json_toks (x # y # zs)) @ ts) (m, FArr acc # fs) =
      parse_run (sep_toks (map json_toks (y # zs)) @ ts) (MValue, FArr (acc @ [x]) # fs)"
    using "3.prems"(1) [of x m] "3.prems"(2) by simp
  also have "\<dots> = parse_run ts (MNext, FArr ((acc @ [x]) @ y # zs) # fs)"
    using "3.prems"(1) by (intro "3.IH"(2)) auto
  finally show ?case by simp
qed simp_all

lemma parse_members:
  assumes "\<And>k v fs ts. (k, v) \<in> set kvs \<Longrightarrow> parse_run (json_toks v @ ts) (MValue, fs) = parse_run ts (deliver_value v fs)"
    and "m = MKey \<or> m = MKeyFirst" and "kvs \<noteq> []"
  shows "\<exists>k. parse_run (sep_toks (map (\<lambda>(k, v). TStr (Some k) # TPunct CHR '':'' # json_toks v) kvs) @ ts) (m, FObj acc k0 # fs)
    = parse_run ts (MNext, FObj (foldl (\<lambda>ps (k, v). define_prop k v ps) acc kvs) k # fs)"
  using assms
proof (induction kvs arbitrary: acc m k0 rule: induct_list012)
  case (2 x)
  then show ?case by (cases x) auto
next
  case (3 x y zs)
  obtain k v where x: "x = (k, v)" by fastforce
  let ?tk = "\<lambda>(k, v). TStr (Some k) # TPunct CHR '':'' # json_toks v"
  have "parse_run (sep_toks (map ?tk (x # y # zs)) @ ts) (m, FObj acc k0 # fs) =
      parse_run (sep_toks (map ?tk (y # zs)) @ ts) (MKey, FObj (define_prop k v acc) k # fs)"
    using "3.prems"(1) [of k v] "3.prems"(2) by (auto simp: x)
  moreover have "\<exists>k'. parse_run (sep_toks (map ?tk (y # zs)) @ ts) (MKey, FObj (define_prop k v acc) k # fs) =
      parse_run ts (MNext, FObj (foldl (\<lambda>ps (k, v). define_prop k v ps) (define_prop k v acc) (y # zs)) k' # fs)"
    using "3.prems"(1) by (intro "3.IH"(2)) auto
  ultimately show ?case by (simp add: x)
qed simp

lemma parse_value:
  "json_ok v \<Longrightarrow> m = MValue \<or> m = MFirst \<Longrightarrow> parse_run (json_toks v @ ts) (m, fs) = parse_run ts (deliver_value v fs)"
proof (induction v arbitrary: m ts fs)
  case (JArr xs)
  show ?case
  proof (cases "xs = []")
    case True
    with JArr.prems show ?thesis by auto
  next
    case False
    have "parse_run (sep_toks (map json_toks xs) @ [TPunct CHR '']''] @ ts) (MFirst, FArr [] # fs) =
        parse_run ([TPunct CHR '']''] @ ts) (MNext, FArr ([] @ xs) # fs)"
      using JArr False by (intro parse_elements) (auto simp: list_all_iff)
    with JArr.prems(2) show ?thesis by auto
  qed
next
  case (JObj kvs)
  show ?case
  proof (cases "kvs = []")
    case True
    with JObj.prems show ?thesis by auto
  next
    case False
    let ?tk = "\<lambda>(k, v). TStr (Some k) # TPunct CHR '':'' # json_toks v"
    have "\<And>k v fs ts. (k, v) \<in> set kvs \<Longrightarrow> parse_run (json_toks v @ ts) (MValue, fs) = parse_run ts (deliver_value v fs)"
      using JObj by (fastforce simp: list_all_iff)
    from parse_members [of kvs MKeyFirst "[TPunct CHR ''}''] @ ts" "[]" "[]" fs, OF this] False JObj.prems(1)
    obtain k where "parse_run (sep_toks (map ?tk kvs) @ [TPunct CHR ''}''] @ ts) (MKeyFirst, FObj [] [] # fs)
        = parse_run ([TPunct CHR ''}''] @ ts) (MNext, FObj kvs k # fs)" by auto
    with JObj.prems(2) show ?thesis by auto
  qed
qed (auto simp: in_model_def)

lemma sep_toks_set: "set (sep_toks tss) \<subseteq> (\<Union>ts \<in> set tss. set ts) \<union> {TPunct CHR '',''}"
  by (induction tss rule: sep_toks.induct) auto

lemma json_toks_modelled: "TStr None \<notin> set (json_toks v)" "TNum None \<notin> set (json_toks v)"
proof (induction v)
  case (JArr xs)
  { case 1 then show ?case using JArr sep_toks_set [of "map json_toks xs"] by auto }
  { case 2 then show ?case using JArr sep_toks_set [of "map json_toks xs"] by auto }
next
  case (JObj kvs)
  let ?tss = "map (\<lambda>(k, v). TStr (Some k) # TPunct CHR '':'' # json_toks v) kvs"
  { case 1 then show ?case using JObj sep_toks_set [of ?tss] by fastforce }
  { case 2 then show ?case using JObj sep_toks_set [of ?tss] by fastforce }
qed auto

text \<open>
  \<open>JSON.parse\<close> gives back the value that \<open>JSON.stringify\<close> printed, for every value whose
  numbers are exact and whose objects are in the order of a script's objects.
\<close>

theorem json_parse_stringify:
  assumes "json_ok v"
  shows "json_parse (stringify v) = Parsed v"
proof -
  have "tokenize (stringify v) = Some (json_toks v)" using lex_stringify [OF assms, of "[]"] by (simp add: stops_def)
  moreover have "parse_run (json_toks v) (MValue, []) = Some (MDone v, [])"
    using parse_value [OF assms, of MValue "[]" "[]"] by simp
  ultimately show ?thesis using json_toks_modelled by (simp add: json_parse_def)
qed

text \<open>Different values have different texts, so a text says which value was sent.\<close>

lemma stringify_inj: "json_ok v \<Longrightarrow> json_ok w \<Longrightarrow> stringify v = stringify w \<Longrightarrow> v = w"
proof -
  assume v: "json_ok v" and w: "json_ok w" and eq: "stringify v = stringify w"
  have "tokenize (stringify u) = Some (json_toks u)" if "json_ok u" for u
    using lex_stringify [OF that, of "[]"] by (simp add: stops_def)
  from this [OF v] this [OF w] eq have "json_toks v = json_toks w" by simp
  then show "v = w" using parse_value [OF v, of MValue "[]" "[]"] parse_value [OF w, of MValue "[]" "[]"] by simp
qed

end
