(* ===== verification/Values.thy ===== *)
theory Values
  imports Scope_Targets Json_Parse
begin

text \<open>
  Values of a controller in stimulus.js: the descriptors of the \<open>values\<close> a class declares
  (\<open>parseValueDefinitionPair\<close>, \<open>valueDescriptorForTokenAndType\<close>), their readers and writers, and
  the accessors that \<open>propertiesForValueDefinitionPair\<close> makes, which keep a value in an attribute
  of the element.
\<close>

section \<open>Descriptors\<close>

datatype type_constant = ArrayC | BooleanC | NumberC | ObjectC | StringC | OtherC string

datatype value_type = ArrayT | BooleanT | NumberT | ObjectT | StringT

record value_descriptor =
  vd_type :: value_type
  vd_key :: string
  vd_name :: string

fun parseValueTypeConstant :: "type_constant \<Rightarrow> string + value_type" where
  "parseValueTypeConstant ArrayC = Inr ArrayT"
| "parseValueTypeConstant BooleanC = Inr BooleanT"
| "parseValueTypeConstant NumberC = Inr NumberT"
| "parseValueTypeConstant ObjectC = Inr ObjectT"
| "parseValueTypeConstant StringC = Inr StringT"
| "parseValueTypeConstant (OtherC c) = Inl (''Error: Unknown value type constant '' @ [CHR 0x22] @ c @ [CHR 0x22])"

definition valueDescriptorForTokenAndType :: "string \<Rightarrow> value_type \<Rightarrow> value_descriptor" where
  "valueDescriptorForTokenAndType tok ty =
     (let key = dasherize tok @ ''-value'' in \<lparr>vd_type = ty, vd_key = key, vd_name = camelize key\<rparr>)"

definition parseValueDefinitionPair :: "string \<times> type_constant \<Rightarrow> string + value_descriptor" where
  "parseValueDefinitionPair pair =
     (case parseValueTypeConstant (snd pair) of
        Inl e \<Rightarrow> Inl e
      | Inr ty \<Rightarrow> Inr (valueDescriptorForTokenAndType (fst pair) ty))"

text \<open>\<open>Object.assign\<close> of each descriptor under the name of its attribute, up to the first exception.\<close>

fun valueDescriptorMap_from :: "scope \<Rightarrow> (string \<times> type_constant) list \<Rightarrow> (string, value_descriptor) jsmap \<Rightarrow>
    string + (string, value_descriptor) jsmap" where
  "valueDescriptorMap_from sc [] result = Inr result"
| "valueDescriptorMap_from sc (pair # pairs) result =
     (case parseValueDefinitionPair pair of
        Inl e \<Rightarrow> Inl e
      | Inr vd \<Rightarrow> valueDescriptorMap_from sc pairs (AList.update (getAttributeNameForKey sc (vd_key vd)) vd result))"

definition valueDescriptorMap :: "scope \<Rightarrow> (string \<times> type_constant) list \<Rightarrow> string + (string, value_descriptor) jsmap" where
  "valueDescriptorMap sc pairs = valueDescriptorMap_from sc pairs []"

fun defaultValuesByType :: "value_type \<Rightarrow> json" where
  "defaultValuesByType ArrayT = JArr []"
| "defaultValuesByType BooleanT = JBool False"
| "defaultValuesByType NumberT = JNum 0"
| "defaultValuesByType ObjectT = JObj []"
| "defaultValuesByType StringT = JStr []"

section \<open>Readers and writers\<close>

text \<open>
  What a reader gives: a value, \<open>NaN\<close>, an infinity (with its sign), an exception, or a value of the
  declared type that the model of values does not hold (it contains a number that is not an exact
  integer, or a text with a code unit beyond 255).
\<close>

datatype read_result = Value json | NotANumber | Infinite bool | Throws string | OutsideModel

text \<open>
  \<open>parseFloat(s)\<close>: the longest prefix, after whitespace, that is a decimal literal; unlike a
  number of JSON it may have leading zeros, a plus sign, and no digits after or before the point.
\<close>

definition parseFloat :: "string \<Rightarrow> read_result" where
  "parseFloat s =
     (let t = dropWhile is_ws s; neg = take 1 t = ''-'';
          u = (if take 1 t \<in> {''-'', ''+''} then drop 1 t else t);
          ds = takeWhile (is_digit 10) u; s2 = drop (length ds) u;
          fs = (if take 1 s2 = ''.'' then takeWhile (is_digit 10) (drop 1 s2) else []);
          s3 = (if take 1 s2 = ''.'' then drop (Suc (length fs)) s2 else s2);
          i = (if neg then - int (digits_val 10 ds) else int (digits_val 10 ds))
      in if take 8 u = ''Infinity'' then Infinite neg
         else if ds = [] \<and> fs = [] then NotANumber
         else if fs = [] \<and> exp_len s3 = 0 \<and> \<bar>i\<bar> \<le> max_safe then Value (JNum i)
         else OutsideModel)"

definition parse_then :: "string \<Rightarrow> (json \<Rightarrow> bool) \<Rightarrow> string \<Rightarrow> read_result" where
  "parse_then s ok msg =
     (case json_parse s of
        SyntaxError \<Rightarrow> Throws ''SyntaxError''
      | Unmodelled v \<Rightarrow> if ok v then OutsideModel else Throws (''TypeError: '' @ msg)
      | Parsed v \<Rightarrow> if ok v then Value v else Throws (''TypeError: '' @ msg))"

definition is_array :: "json \<Rightarrow> bool" where
  "is_array v = (case v of JArr _ \<Rightarrow> True | _ \<Rightarrow> False)"

definition is_object :: "json \<Rightarrow> bool" where
  "is_object v = (case v of JObj _ \<Rightarrow> True | _ \<Rightarrow> False)"

fun readers :: "value_type \<Rightarrow> string \<Rightarrow> read_result" where
  "readers ArrayT s = parse_then s is_array ''Expected array''"
| "readers BooleanT s = Value (JBool (\<not> (s = ''0'' \<or> s = ''false'')))"
| "readers NumberT s = parseFloat s"
| "readers ObjectT s = parse_then s is_object ''Expected object''"
| "readers StringT s = Value (JStr s)"

definition writeJSON :: "json \<Rightarrow> string" where
  "writeJSON v = stringify v"

definition writeString :: "json \<Rightarrow> string" where
  "writeString v = js_string v"

fun writers :: "value_type \<Rightarrow> json \<Rightarrow> string" where
  "writers ArrayT v = writeJSON v"
| "writers ObjectT v = writeJSON v"
| "writers BooleanT v = writeString v"
| "writers NumberT v = writeString v"
| "writers StringT v = writeString v"

section \<open>The accessors of a value\<close>

text \<open>A value that is assigned is a JSON value, or \<open>undefined\<close> (\<open>None\<close>).\<close>

definition value_get :: "dom \<Rightarrow> scope \<Rightarrow> value_descriptor \<Rightarrow> read_result" where
  "value_get d sc vd =
     (case DataMap_get d sc (vd_key vd) of
        Some s \<Rightarrow> readers (vd_type vd) s
      | None \<Rightarrow> Value (defaultValuesByType (vd_type vd)))"

definition value_set :: "dom \<Rightarrow> scope \<Rightarrow> value_descriptor \<Rightarrow> json option \<Rightarrow> dom" where
  "value_set d sc vd v =
     (case v of
        None \<Rightarrow> snd (DataMap_delete d sc (vd_key vd))
      | Some v \<Rightarrow> snd (DataMap_set d sc (vd_key vd) (writers (vd_type vd) v)))"

definition value_has :: "dom \<Rightarrow> scope \<Rightarrow> value_descriptor \<Rightarrow> bool" where
  "value_has d sc vd = DataMap_has d sc (vd_key vd)"

section \<open>Values survive in the document\<close>

fun fits :: "value_type \<Rightarrow> json \<Rightarrow> bool" where
  "fits ArrayT v = is_array v"
| "fits BooleanT v = (case v of JBool _ \<Rightarrow> True | _ \<Rightarrow> False)"
| "fits NumberT v = (case v of JNum _ \<Rightarrow> True | _ \<Rightarrow> False)"
| "fits ObjectT v = is_object v"
| "fits StringT v = (case v of JStr _ \<Rightarrow> True | _ \<Rightarrow> False)"

lemma parseFloat_int_str:
  assumes "\<bar>i\<bar> \<le> max_safe"
  shows "parseFloat (int_str i) = Value (JNum i)"
proof -
  let ?n = "nat \<bar>i\<bar>"
  have dig: "is_digit 10 c" if "c \<in> set (nat_str ?n)" for c using nat_str_is_digit that by blast
  then obtain c cs where n: "nat_str ?n = c # cs" "is_digit 10 c" by (cases "nat_str ?n") auto
  then have c: "c \<noteq> CHR ''-''" "c \<noteq> CHR ''+''" "c \<noteq> CHR ''I''" "\<not> is_ws c"
    by (auto simp: is_digit_def digit_val_def is_ws_def Let_def split: if_splits)
  have i: "int_str i = (if i < 0 then ''-'' else []) @ nat_str ?n" by (simp add: int_str_def)
  have ws: "dropWhile is_ws (int_str i) = int_str i" using c(4) by (simp add: i n is_ws_def)
  have neg: "take 1 (int_str i) = ''-'' \<longleftrightarrow> i < 0" using c by (simp add: i n)
  have u: "(if take 1 (int_str i) \<in> {''-'', ''+''} then drop 1 (int_str i) else int_str i) = nat_str ?n"
    using c by (simp add: i n)
  have ds: "takeWhile (is_digit 10) (nat_str ?n) = nat_str ?n" using dig by (simp add: takeWhile_eq_all_conv)
  have inf: "take 8 (nat_str ?n) \<noteq> ''Infinity''" using c by (simp add: n)
  show ?thesis
    using assms inf unfolding parseFloat_def Let_def ws unfolding u unfolding neg ds
    by (cases "i < 0") (simp_all add: exp_len_def digits_val_nat_str)
qed

lemma readers_writers:
  assumes "fits ty v" and "json_ok v"
  shows "readers ty (writers ty v) = Value v"
proof (cases ty)
  case ArrayT
  with assms json_parse_stringify [of v] show ?thesis by (simp add: writeJSON_def parse_then_def)
next
  case ObjectT
  with assms json_parse_stringify [of v] show ?thesis by (simp add: writeJSON_def parse_then_def)
next
  case NumberT
  with assms show ?thesis
    by (cases v) (simp_all add: writeString_def parseFloat_int_str number_str_exact max_safe_def)
next
  case BooleanT
  with assms show ?thesis by (cases v) (simp_all add: writeString_def)
next
  case StringT
  with assms show ?thesis by (cases v) (simp_all add: writeString_def)
qed

text \<open>
  C11: A value that is assigned to the property of a controller is read back as it was, whatever its
  type, and the properties that use other attributes, on this or on another element, keep their
  values. Assigning \<open>undefined\<close> afterwards makes the property the default of its type again.
\<close>

theorem values_survive:
  assumes el: "scope_element sc \<in> set (ids d)" and v: "fits (vd_type vd) v" "json_ok v"
    and other: "\<not> same_data sc (vd_key vd) sc' (vd_key vd')"
  defines "d1 \<equiv> value_set d sc vd (Some v)"
  shows "value_get d1 sc vd = Value v \<and> value_has d1 sc vd
    \<and> value_get d1 sc' vd' = value_get d sc' vd'
    \<and> value_get (value_set d1 sc vd None) sc vd = Value (defaultValuesByType (vd_type vd))
    \<and> \<not> value_has (value_set d1 sc vd None) sc vd
    \<and> value_get (value_set d1 sc vd None) sc' vd' = value_get d sc' vd'"
proof -
  have d1: "scope_element sc \<in> set (ids d1)" using el by (simp add: d1_def value_set_def)
  have same: "same_data sc (vd_key vd) sc (vd_key vd)" by (simp add: same_data_def)
  have set: "DataMap_get d1 sc'' key = (if same_data sc (vd_key vd) sc'' key
      then Some (writers (vd_type vd) v) else DataMap_get d sc'' key)" for sc'' key
    unfolding d1_def value_set_def by (simp add: DataMap_get_set [OF el])
  have del: "DataMap_get (value_set d1 sc vd None) sc'' key = (if same_data sc (vd_key vd) sc'' key
      then None else DataMap_get d1 sc'' key)" for sc'' key
    unfolding value_set_def by (simp add: DataMap_get_delete [OF d1])
  show ?thesis
    by (simp add: value_get_def value_has_def DataMap_has_get set del same other readers_writers [OF v])
qed

theorem values_survive_witness:
  "let sc = \<lparr>scope_element = 0, scope_identifier = ''x''\<rparr>; d = [El 0 ''p'' [(''data-x-n-value'', ''7'')] []];
       vd = valueDescriptorForTokenAndType ''items'' ArrayT; vd' = valueDescriptorForTokenAndType ''n'' NumberT;
       v = JArr [JNum 3, JObj [(''a'', JStr [CHR 0x22])]]
   in value_get d sc vd = Value (JArr []) \<and> value_get (value_set d sc vd (Some v)) sc vd = Value v
      \<and> value_get (value_set d sc vd (Some v)) sc vd' = Value (JNum 7)"
proof -
  let ?sc = "\<lparr>scope_element = 0, scope_identifier = ''x''\<rparr>" and ?d = "[El 0 ''p'' [(''data-x-n-value'', ''7'')] []]"
  let ?vd = "valueDescriptorForTokenAndType ''items'' ArrayT" and ?vd' = "valueDescriptorForTokenAndType ''n'' NumberT"
  let ?v = "JArr [JNum 3, JObj [(''a'', JStr [CHR 0x22])]]"
  have el: "scope_element ?sc \<in> set (ids ?d)" by simp
  have v: "fits (vd_type ?vd) ?v" "json_ok ?v" and other: "\<not> same_data ?sc (vd_key ?vd) ?sc (vd_key ?vd')" by code_simp+
  have "value_get ?d ?sc ?vd = Value (JArr [])" by code_simp
  moreover have "value_get ?d ?sc ?vd' = Value (JNum 7)"
  proof -
    have "DataMap_get ?d ?sc (vd_key ?vd') = Some (int_str 7)" "vd_type ?vd' = NumberT" by code_simp+
    then show ?thesis by (simp add: value_get_def parseFloat_int_str max_safe_def)
  qed
  moreover note values_survive [OF el v other]
  ultimately show ?thesis unfolding Let_def by (simp only: simp_thms)
qed

lemma parseFloat_returns: "parseFloat s \<noteq> Throws e"
proof -
  have "\<And>b x y. x \<noteq> Throws e \<Longrightarrow> y \<noteq> Throws e \<Longrightarrow> (if b then x else y) \<noteq> Throws e" by simp
  then show ?thesis unfolding parseFloat_def Let_def by (metis (no_types) read_result.distinct)
qed

lemma reader_errors:
  "(\<exists>e. readers ty s = Throws e) \<longleftrightarrow>
     (ty = ArrayT \<and> (json_parse s = SyntaxError \<or> (\<exists>v. json_parse s \<in> {Parsed v, Unmodelled v} \<and> \<not> is_array v))
      \<or> ty = ObjectT \<and> (json_parse s = SyntaxError \<or> (\<exists>v. json_parse s \<in> {Parsed v, Unmodelled v} \<and> \<not> is_object v)))"
  by (cases ty) (auto simp: parse_then_def parseFloat_returns split: json_result.splits)

lemma parseFloat_number: "parseFloat s = Value v \<Longrightarrow> fits NumberT v"
  by (auto simp: parseFloat_def Let_def split: if_splits)

lemma reader_type: "readers ty s = Value v \<Longrightarrow> fits ty v"
  using parseFloat_number by (cases ty) (auto simp: parse_then_def split: json_result.splits if_splits)

text \<open>
  C36: Properties of values are typed: whatever the attribute of the element holds, or when it is
  missing, a value that the property gives has the declared type; only a number can be \<open>NaN\<close> or an
  infinity; and the getter throws exactly when an array or an object is declared and the attribute
  is not the JSON text of one, be it no JSON at all or the text of another kind of value (also of a
  number or a string that the model of values does not hold).
\<close>

theorem values_are_typed:
  "(\<forall>v. value_get d sc vd = Value v \<longrightarrow> fits (vd_type vd) v)
   \<and> (value_get d sc vd = NotANumber \<or> (\<exists>neg. value_get d sc vd = Infinite neg) \<longrightarrow> vd_type vd = NumberT)
   \<and> ((\<exists>e. value_get d sc vd = Throws e) \<longleftrightarrow> vd_type vd \<in> {ArrayT, ObjectT} \<and> (\<exists>s. DataMap_get d sc (vd_key vd) = Some s
        \<and> (json_parse s = SyntaxError \<or> (\<exists>v. json_parse s \<in> {Parsed v, Unmodelled v} \<and> \<not> fits (vd_type vd) v))))"
proof (cases "DataMap_get d sc (vd_key vd)")
  case None
  then show ?thesis by (cases "vd_type vd") (simp_all add: value_get_def is_array_def is_object_def)
next
  case (Some s)
  have "readers ty s = NotANumber \<or> (\<exists>neg. readers ty s = Infinite neg) \<longrightarrow> ty = NumberT" for ty
    by (cases ty) (auto simp: parse_then_def split: json_result.splits if_splits)
  with Some reader_type [of "vd_type vd" s] reader_errors [of "vd_type vd" s] show ?thesis
    by (auto simp: value_get_def)
qed

text \<open>A number, a declared array that holds the text of a number, and one that holds no JSON.\<close>

definition typed_doc :: dom where
  "typed_doc = [El 0 ''p'' [(''data-a-n-value'', ''12''), (''data-a-xs-value'', ''1.5''), (''data-a-ys-value'', ''[1.5'')] []]"

definition typed_scope :: scope where
  "typed_scope = \<lparr>scope_element = 0, scope_identifier = ''a''\<rparr>"

theorem values_are_typed_witness:
  "value_get typed_doc typed_scope (valueDescriptorForTokenAndType ''n'' NumberT) = Value (JNum 12)
   \<and> fits NumberT (JNum 12)
   \<and> (\<exists>e. value_get typed_doc typed_scope (valueDescriptorForTokenAndType ''xs'' ArrayT) = Throws e)
   \<and> (\<exists>e. value_get typed_doc typed_scope (valueDescriptorForTokenAndType ''ys'' ArrayT) = Throws e)"
proof -
  let ?n = "valueDescriptorForTokenAndType ''n'' NumberT" and ?xs = "valueDescriptorForTokenAndType ''xs'' ArrayT"
    and ?ys = "valueDescriptorForTokenAndType ''ys'' ArrayT"
  have ty: "vd_type ?n = NumberT" "vd_type ?xs = ArrayT" "vd_type ?ys = ArrayT"
    by (simp_all add: valueDescriptorForTokenAndType_def)
  have get: "value_get typed_doc typed_scope ?n = Value (JNum 12)"
    and xs: "DataMap_get typed_doc typed_scope (vd_key ?xs) = Some ''1.5''"
    and ys: "DataMap_get typed_doc typed_scope (vd_key ?ys) = Some ''[1.5''"
    and px: "json_parse ''1.5'' = Unmodelled JNull" and nx: "\<not> fits ArrayT JNull"
    and py: "json_parse ''[1.5'' = SyntaxError" by code_simp+
  from values_are_typed [of typed_doc typed_scope ?n] get ty(1) have "fits NumberT (JNum 12)" by simp
  moreover from values_are_typed [of typed_doc typed_scope ?xs] ty(2) xs px nx
  have "\<exists>e. value_get typed_doc typed_scope ?xs = Throws e" by auto
  moreover from values_are_typed [of typed_doc typed_scope ?ys] ty(3) ys py
  have "\<exists>e. value_get typed_doc typed_scope ?ys = Throws e" by auto
  ultimately show ?thesis using get by blast
qed

end
