(* ===== verification/String_Map.thy ===== *)
theory String_Map
  imports Values Mutation
begin

text \<open>
  \<open>StringMapObserver\<close> of stimulus.js: the values of some attributes of one element, kept from
  mutation records, with a call to the delegate for each change; and \<open>ValueObserver\<close>, which
  watches the attributes of a controller's values and calls the \<open>...Changed\<close> methods.
\<close>

section \<open>The observer\<close>

record string_map_observer =
  sm_element :: nat
  sm_started :: bool
  stringMap :: "(string, string) jsmap"

datatype string_map_call =
    KeyAdded string string \<comment> \<open>key, attributeName\<close>
  | ValueChanged "string option" string \<comment> \<open>value, key\<close>
  | KeyRemoved string string \<comment> \<open>key, attributeName\<close>

definition new_StringMapObserver :: "nat \<Rightarrow> string_map_observer" where
  "new_StringMapObserver element = \<lparr>sm_element = element, sm_started = False, stringMap = []\<rparr>"

text \<open>
  The delegate's \<open>getStringMapKeyForAttribute\<close> is the parameter \<open>key_for\<close>. A missing attribute
  (\<open>null\<close>) and a missing entry (\<open>undefined\<close>) are equal for \<open>!=\<close>, and both are \<open>None\<close>.
\<close>

definition refreshAttribute :: "dom \<Rightarrow> (string \<Rightarrow> string option) \<Rightarrow> string \<Rightarrow>
    string_map_observer \<Rightarrow> string_map_observer \<times> string_map_call list" where
  "refreshAttribute d key_for attributeName sm =
     (case key_for attributeName of
        None \<Rightarrow> (sm, [])
      | Some key \<Rightarrow>
          let v = getAttribute d (sm_element sm) attributeName;
              added = (if map_of (stringMap sm) attributeName = None then [KeyAdded key attributeName] else []);
              changed = (if map_of (stringMap sm) attributeName \<noteq> v then [ValueChanged v key] else [])
          in (case v of
                None \<Rightarrow> (sm\<lparr>stringMap := AList.delete attributeName (stringMap sm)\<rparr>,
                  added @ changed @ [KeyRemoved key attributeName])
              | Some x \<Rightarrow> (sm\<lparr>stringMap := AList.update attributeName x (stringMap sm)\<rparr>, added @ changed)))"

definition currentAttributeNames :: "dom \<Rightarrow> string_map_observer \<Rightarrow> string list" where
  "currentAttributeNames d sm = map fst (attrs d (sm_element sm))"

definition recordedAttributeNames :: "string_map_observer \<Rightarrow> string list" where
  "recordedAttributeNames sm = map fst (stringMap sm)"

definition knownAttributeNames :: "dom \<Rightarrow> string_map_observer \<Rightarrow> string list" where
  "knownAttributeNames d sm = set_from (currentAttributeNames d sm @ recordedAttributeNames sm)"

definition StringMapObserver_refresh :: "dom \<Rightarrow> (string \<Rightarrow> string option) \<Rightarrow>
    string_map_observer \<Rightarrow> string_map_observer \<times> string_map_call list" where
  "StringMapObserver_refresh d key_for sm =
     (if sm_started sm then each (refreshAttribute d key_for) (knownAttributeNames d sm) sm else (sm, []))"

definition StringMapObserver_start :: "dom \<Rightarrow> (string \<Rightarrow> string option) \<Rightarrow>
    string_map_observer \<Rightarrow> string_map_observer \<times> string_map_call list" where
  "StringMapObserver_start d key_for sm =
     (if sm_started sm then (sm, []) else StringMapObserver_refresh d key_for (sm\<lparr>sm_started := True\<rparr>))"

definition StringMapObserver_stop :: "string_map_observer \<Rightarrow> string_map_observer" where
  "StringMapObserver_stop sm = (if sm_started sm then sm\<lparr>sm_started := False\<rparr> else sm)"

fun StringMapObserver_processMutation :: "dom \<Rightarrow> (string \<Rightarrow> string option) \<Rightarrow> mutation \<Rightarrow>
    string_map_observer \<Rightarrow> string_map_observer \<times> string_map_call list" where
  "StringMapObserver_processMutation d key_for (AttributesMutation target attributeName) sm =
     (if attributeName = [] then (sm, []) else refreshAttribute d key_for attributeName sm)"
| "StringMapObserver_processMutation d key_for (ChildListMutation added removed) sm = (sm, [])"

definition StringMapObserver_processMutations :: "dom \<Rightarrow> (string \<Rightarrow> string option) \<Rightarrow> mutation list \<Rightarrow>
    string_map_observer \<Rightarrow> string_map_observer \<times> string_map_call list" where
  "StringMapObserver_processMutations d key_for ms sm =
     (if sm_started sm then each (StringMapObserver_processMutation d key_for) ms sm else (sm, []))"

section \<open>ValueObserver\<close>

text \<open>
  \<open>attributeName in valueDescriptorMap\<close> is also true of the members that every object inherits;
  all of them but \<open>__proto__\<close> are functions, whose \<open>name\<close> is not empty.
\<close>

definition object_members :: "(string \<times> string) list" where
  "object_members = (''constructor'', ''Object'') #
     map (\<lambda>n. (n, n)) [''__defineGetter__'', ''__defineSetter__'', ''hasOwnProperty'', ''__lookupGetter__'', ''__lookupSetter__'',
       ''isPrototypeOf'', ''propertyIsEnumerable'', ''toString'', ''valueOf'', ''toLocaleString'']"

definition getStringMapKeyForAttribute :: "(string, value_descriptor) jsmap \<Rightarrow> string \<Rightarrow> string option" where
  "getStringMapKeyForAttribute vdm attributeName =
     (case map_of vdm attributeName of
        Some vd \<Rightarrow> Some (vd_name vd)
      | None \<Rightarrow> map_of object_members attributeName)"

record value_observer =
  vo_scope :: scope
  vo_map :: "(string, value_descriptor) jsmap" \<comment> \<open>valueDescriptorMap\<close>
  vo_strings :: string_map_observer

datatype changed_call = Changed string read_result \<comment> \<open>methodName, value\<close>

text \<open>
  The receiver: which methods it has, and what its properties are at the moment. A property or a
  method that throws is not modelled; the exception would leave the loop of the observer.
\<close>

record receiver =
  has_method :: "string \<Rightarrow> bool"
  property :: "string \<Rightarrow> read_result"

definition invokeChangedCallbackForValue :: "receiver \<Rightarrow> string \<Rightarrow> changed_call list" where
  "invokeChangedCallbackForValue rcv name =
     (let methodName = name @ ''Changed''
      in if has_method rcv methodName then [Changed methodName (property rcv name)] else [])"

definition valueDescriptors :: "(string, value_descriptor) jsmap \<Rightarrow> value_descriptor list" where
  "valueDescriptors vdm = map snd vdm"

definition invokeChangedCallbacksForDefaultValues :: "dom \<Rightarrow> scope \<Rightarrow> (string, value_descriptor) jsmap \<Rightarrow> receiver \<Rightarrow>
    changed_call list" where
  "invokeChangedCallbacksForDefaultValues d sc vdm rcv =
     concat (map (\<lambda>vd. if DataMap_has d sc (vd_key vd) then [] else invokeChangedCallbackForValue rcv (vd_name vd))
       (valueDescriptors vdm))"

fun stringMapValueChanged :: "receiver \<Rightarrow> string_map_call \<Rightarrow> changed_call list" where
  "stringMapValueChanged rcv (ValueChanged attributeValue name) = invokeChangedCallbackForValue rcv name"
| "stringMapValueChanged rcv _ = []"

definition new_ValueObserver :: "dom \<Rightarrow> scope \<Rightarrow> (string, value_descriptor) jsmap \<Rightarrow> receiver \<Rightarrow>
    value_observer \<times> changed_call list" where
  "new_ValueObserver d sc vdm rcv =
     (\<lparr>vo_scope = sc, vo_map = vdm, vo_strings = new_StringMapObserver (scope_element sc)\<rparr>,
      invokeChangedCallbacksForDefaultValues d sc vdm rcv)"

definition on_strings :: "receiver \<Rightarrow> value_observer \<Rightarrow> string_map_observer \<times> string_map_call list \<Rightarrow>
    value_observer \<times> changed_call list" where
  "on_strings rcv vo r = (vo\<lparr>vo_strings := fst r\<rparr>, concat (map (stringMapValueChanged rcv) (snd r)))"

definition ValueObserver_start :: "dom \<Rightarrow> receiver \<Rightarrow> value_observer \<Rightarrow> value_observer \<times> changed_call list" where
  "ValueObserver_start d rcv vo =
     on_strings rcv vo (StringMapObserver_start d (getStringMapKeyForAttribute (vo_map vo)) (vo_strings vo))"

definition ValueObserver_stop :: "value_observer \<Rightarrow> value_observer" where
  "ValueObserver_stop vo = vo\<lparr>vo_strings := StringMapObserver_stop (vo_strings vo)\<rparr>"

definition ValueObserver_deliver :: "dom \<Rightarrow> receiver \<Rightarrow> mutation list \<Rightarrow> value_observer \<Rightarrow>
    value_observer \<times> changed_call list" where
  "ValueObserver_deliver d rcv ms vo =
     on_strings rcv vo (StringMapObserver_processMutations d (getStringMapKeyForAttribute (vo_map vo)) ms (vo_strings vo))"

section \<open>The map follows the attributes\<close>

lemma refreshAttribute_map:
  assumes "(sm', calls) = refreshAttribute d key_for an sm"
  shows "sm_element sm' = sm_element sm" "sm_started sm' = sm_started sm"
    "map_of (stringMap sm') = (if key_for an = None then map_of (stringMap sm)
       else (map_of (stringMap sm))(an := getAttribute d (sm_element sm) an))"
    "ValueChanged v key \<in> set calls \<longleftrightarrow> key_for an = Some key \<and> map_of (stringMap sm) an \<noteq> v
       \<and> v = getAttribute d (sm_element sm) an"
  using assms by (auto simp: refreshAttribute_def Let_def split: option.splits if_splits)

definition is_change :: "string_map_call \<Rightarrow> bool" where
  "is_change c = (case c of ValueChanged _ _ \<Rightarrow> True | _ \<Rightarrow> False)"

text \<open>The calls that tell a change, for attributes in the order of their first refresh.\<close>

definition changes_for :: "dom \<Rightarrow> (string \<Rightarrow> string option) \<Rightarrow> string_map_observer \<Rightarrow> string list \<Rightarrow> string_map_call list" where
  "changes_for d key_for sm ans =
     map (\<lambda>an. ValueChanged (getAttribute d (sm_element sm) an) (the (key_for an)))
       (filter (\<lambda>an. key_for an \<noteq> None \<and> map_of (stringMap sm) an \<noteq> getAttribute d (sm_element sm) an) (set_from ans))"

lemma refreshAttribute_changes:
  "filter is_change (snd (refreshAttribute d key_for an sm)) =
     (if key_for an \<noteq> None \<and> map_of (stringMap sm) an \<noteq> getAttribute d (sm_element sm) an
      then [ValueChanged (getAttribute d (sm_element sm) an) (the (key_for an))] else [])"
  by (auto simp: refreshAttribute_def Let_def is_change_def split: option.splits)

lemma set_from_snoc: "set_from (xs @ [x]) = set_add x (set_from xs)"
  by (simp add: set_from_def)

lemma refresh_each:
  fixes d key_for sm
  defines "r \<equiv> \<lambda>ans. each (refreshAttribute d key_for) ans sm"
  shows "sm_element (fst (r ans)) = sm_element sm \<and> sm_started (fst (r ans)) = sm_started sm
    \<and> (\<forall>an. map_of (stringMap (fst (r ans))) an = (if an \<in> set ans \<and> key_for an \<noteq> None
       then getAttribute d (sm_element sm) an else map_of (stringMap sm) an))
    \<and> filter is_change (snd (r ans)) = changes_for d key_for sm ans"
proof (induction ans rule: rev_induct)
  case (snoc an ans)
  let ?s = "fst (r ans)"
  have step: "r (ans @ [an]) = (fst (refreshAttribute d key_for an ?s), snd (r ans) @ snd (refreshAttribute d key_for an ?s))"
    by (simp add: r_def each_append Let_def case_prod_unfold)
  note m = refreshAttribute_map(1-3) [OF prod.collapse, of d key_for an ?s]
  have "filter is_change (snd (r (ans @ [an]))) = changes_for d key_for sm (ans @ [an])"
    using snoc.IH by (simp add: step refreshAttribute_changes changes_for_def set_from_snoc set_add_def)
  with snoc.IH m show ?case by (auto simp: step fun_eq_iff)
qed (simp add: r_def changes_for_def set_from_def)

section \<open>Runs\<close>

text \<open>
  The observer is registered for the attributes of its element only; a change of another element
  or of the tree leaves no record for it.
\<close>

inductive sm_run :: "(string \<Rightarrow> string option) \<Rightarrow> dom \<Rightarrow> mutation list \<Rightarrow> string_map_observer \<Rightarrow> bool"
  for key_for :: "string \<Rightarrow> string option" where
  created: "e \<in> set (ids d) \<Longrightarrow> sm_run key_for d [] (new_StringMapObserver e)"
| start: "sm_run key_for d ms sm \<Longrightarrow> sm_run key_for d ms (fst (StringMapObserver_start d key_for sm))"
| stop: "sm_run key_for d ms sm \<Longrightarrow> sm_run key_for d [] (StringMapObserver_stop sm)"
| attribute: "sm_run key_for d ms sm \<Longrightarrow> name \<noteq> [] \<Longrightarrow>
    sm_run key_for (update_attrs n (AList.update (lower name) v) d)
      (if n = sm_element sm \<and> sm_started sm then ms @ [AttributesMutation n (lower name)] else ms) sm"
| removal: "sm_run key_for d ms sm \<Longrightarrow> name \<noteq> [] \<Longrightarrow>
    sm_run key_for (update_attrs n (AList.delete (lower name)) d)
      (if n = sm_element sm \<and> sm_started sm then ms @ [AttributesMutation n (lower name)] else ms) sm"
| deliver: "sm_run key_for d ms sm \<Longrightarrow>
    sm_run key_for d [] (fst (StringMapObserver_processMutations d key_for ms sm))"

definition record_names :: "mutation list \<Rightarrow> string list" where
  "record_names ms = concat (map (\<lambda>m. case m of AttributesMutation n an \<Rightarrow> [an] | _ \<Rightarrow> []) ms)"

definition sm_inv :: "(string \<Rightarrow> string option) \<Rightarrow> dom \<Rightarrow> mutation list \<Rightarrow> string_map_observer \<Rightarrow> bool" where
  "sm_inv key_for d ms sm \<longleftrightarrow> sm_element sm \<in> set (ids d)
     \<and> [] \<notin> set (record_names ms)
     \<and> (\<forall>an. key_for an = None \<longrightarrow> map_of (stringMap sm) an = None)
     \<and> (if sm_started sm then (\<forall>an. lower an = an \<and> key_for an \<noteq> None \<longrightarrow>
          map_of (stringMap sm) an = getAttribute d (sm_element sm) an \<or> an \<in> set (record_names ms))
        else ms = [])"

lemma processMutations_refresh:
  assumes "[] \<notin> set (record_names ms)" and "sm_started sm"
  shows "StringMapObserver_processMutations d key_for ms sm = each (refreshAttribute d key_for) (record_names ms) sm"
proof -
  have "each (StringMapObserver_processMutation d key_for) ms sm = each (refreshAttribute d key_for) (record_names ms) sm"
    if "[] \<notin> set (record_names ms)" for sm
    using that
  proof (induction ms arbitrary: sm)
    case (Cons m ms)
    then show ?case by (cases m) (auto simp: record_names_def Let_def case_prod_unfold)
  qed (simp add: record_names_def)
  with assms show ?thesis by (simp add: StringMapObserver_processMutations_def)
qed

lemma lower_lower [simp]: "lower (lower s) = lower s"
  by (induction s) (auto simp: lower_def lower_char_def is_upper_def)

lemma sm_inv_change:
  assumes inv: "sm_inv key_for d ms sm" and name: "name \<noteq> []"
    and other: "\<And>m k. k \<noteq> lower name \<Longrightarrow> map_of (f m) k = map_of m k"
  shows "sm_inv key_for (update_attrs n f d)
    (if n = sm_element sm \<and> sm_started sm then ms @ [AttributesMutation n (lower name)] else ms) sm"
proof -
  have "getAttribute (update_attrs n f d) e an = getAttribute d e an" if "e \<noteq> n \<or> lower an \<noteq> lower name" for e an
    using that other by (auto simp: getAttribute_def update_attrs_attrs)
  moreover have "record_names (ms @ [AttributesMutation n (lower name)]) = record_names ms @ [lower name]"
    by (simp add: record_names_def)
  moreover have "lower name \<noteq> []" using name by (simp add: lower_def)
  ultimately show ?thesis using inv by (auto simp: sm_inv_def split: if_splits)
qed

lemma sm_inv_start:
  assumes inv: "sm_inv key_for d ms sm"
  shows "sm_inv key_for d ms (fst (StringMapObserver_start d key_for sm))"
proof (cases "sm_started sm")
  case True
  with inv show ?thesis by (simp add: StringMapObserver_start_def)
next
  case False
  let ?sm = "sm\<lparr>sm_started := True\<rparr>"
  have known: "an \<notin> set (knownAttributeNames d ?sm) \<Longrightarrow> lower an = an \<Longrightarrow>
      map_of (stringMap sm) an = None \<and> getAttribute d (sm_element sm) an = None" for an
    by (auto simp: knownAttributeNames_def currentAttributeNames_def recordedAttributeNames_def getAttribute_def
        map_of_eq_None_iff)
  have "StringMapObserver_start d key_for sm = each (refreshAttribute d key_for) (knownAttributeNames d ?sm) ?sm"
    using False by (simp add: StringMapObserver_start_def StringMapObserver_refresh_def)
  with refresh_each [of d key_for "knownAttributeNames d ?sm" ?sm] known inv False show ?thesis by (auto simp: sm_inv_def)
qed

lemma sm_inv_deliver:
  assumes inv: "sm_inv key_for d ms sm"
  shows "sm_inv key_for d [] (fst (StringMapObserver_processMutations d key_for ms sm))"
proof (cases "sm_started sm")
  case True
  with inv have "StringMapObserver_processMutations d key_for ms sm = each (refreshAttribute d key_for) (record_names ms) sm"
    by (intro processMutations_refresh) (simp_all add: sm_inv_def)
  with refresh_each [of d key_for "record_names ms" sm] inv True show ?thesis
    by (auto simp: sm_inv_def record_names_def [of "[]"])
next
  case False
  with inv show ?thesis by (simp add: StringMapObserver_processMutations_def sm_inv_def record_names_def)
qed

lemma sm_run_inv: "sm_run key_for d ms sm \<Longrightarrow> sm_inv key_for d ms sm"
proof (induction rule: sm_run.induct)
  case (created e d)
  then show ?case by (simp add: sm_inv_def new_StringMapObserver_def record_names_def)
next
  case (stop d ms sm)
  then show ?case by (auto simp: sm_inv_def StringMapObserver_stop_def record_names_def)
next
  case (attribute d ms sm name n v)
  then show ?case by (intro sm_inv_change) auto
next
  case (removal d ms sm name n)
  then show ?case by (intro sm_inv_change) auto
qed (simp_all add: sm_inv_start sm_inv_deliver)

text \<open>
  C18: After the pending records are delivered, the map of a started observer holds, for every
  attribute it knows a key for, what the attribute of the element is, and nothing else; and the
  delegate has been told of a change once for each attribute whose value is not the one the map
  had, in the order of the first record, and of no other.
\<close>

theorem string_map_follows_the_attributes:
  assumes "sm_run key_for d ms sm" and "sm_started sm"
    and "(sm', calls) = StringMapObserver_processMutations d key_for ms sm"
  shows "(\<forall>an. lower an = an \<and> key_for an \<noteq> None \<longrightarrow> map_of (stringMap sm') an = getAttribute d (sm_element sm) an)
    \<and> (\<forall>an. key_for an = None \<longrightarrow> map_of (stringMap sm') an = None)
    \<and> filter is_change calls = changes_for d key_for sm (record_names ms)"
proof -
  have inv: "sm_inv key_for d ms sm" by (rule sm_run_inv [OF assms(1)])
  then have "StringMapObserver_processMutations d key_for ms sm = each (refreshAttribute d key_for) (record_names ms) sm"
    using assms(2) by (intro processMutations_refresh) (simp_all add: sm_inv_def)
  with refresh_each [of d key_for "record_names ms" sm] assms(3)
  have r: "\<forall>an. map_of (stringMap sm') an = (if an \<in> set (record_names ms) \<and> key_for an \<noteq> None
      then getAttribute d (sm_element sm) an else map_of (stringMap sm) an)"
    and c: "filter is_change calls = changes_for d key_for sm (record_names ms)" by (metis fst_conv, metis snd_conv)
  from r c inv assms(2) show ?thesis by (auto simp: sm_inv_def)
qed

definition size_key :: "string \<Rightarrow> string option" where
  "size_key = getStringMapKeyForAttribute [(''data-x-max-size-value'', valueDescriptorForTokenAndType ''maxSize'' NumberT)]"

theorem string_map_follows_the_attributes_witness:
  "let d = [El 0 ''p'' [(''data-x-max-size-value'', ''7'')] []];
       sm = fst (StringMapObserver_start [El 0 ''p'' [] []] size_key (new_StringMapObserver 0));
       ms = [AttributesMutation 0 ''data-x-max-size-value''];
       r = StringMapObserver_processMutations d size_key ms sm
   in sm_run size_key d ms sm \<and> sm_started sm
      \<and> map_of (stringMap (fst r)) ''data-x-max-size-value'' = Some ''7''
      \<and> filter is_change (snd r) = [ValueChanged (Some ''7'') ''maxSizeValue'']"
proof -
  let ?before = "[El 0 ''p'' [] []] :: dom" and ?d = "[El 0 ''p'' [(''data-x-max-size-value'', ''7'')] []]"
  let ?an = "''data-x-max-size-value''"
  let ?sm = "fst (StringMapObserver_start ?before size_key (new_StringMapObserver 0))"
  let ?ms = "[AttributesMutation 0 ?an]"
  have "sm_run size_key ?before [] (new_StringMapObserver 0)" by (rule sm_run.created) simp
  from sm_run.attribute [OF sm_run.start [OF this], of ?an 0 "''7''"]
  have "sm_run size_key (update_attrs 0 (AList.update (lower ?an) ''7'') ?before)
      (if 0 = sm_element ?sm \<and> sm_started ?sm then [] @ [AttributesMutation 0 (lower ?an)] else []) ?sm" by simp
  moreover have "update_attrs 0 (AList.update (lower ?an) ''7'') ?before = ?d" "0 = sm_element ?sm \<and> sm_started ?sm"
    "lower ?an = ?an" by code_simp+
  ultimately have run: "sm_run size_key ?d ?ms ?sm" by simp
  have st: "sm_started ?sm" by code_simp
  have key: "lower ?an = ?an \<and> size_key ?an \<noteq> None" by code_simp
  have get: "getAttribute ?d (sm_element ?sm) ?an = Some ''7''" by code_simp
  have ch: "changes_for ?d size_key ?sm (record_names ?ms) = [ValueChanged (Some ''7'') ''maxSizeValue'']" by code_simp
  from string_map_follows_the_attributes [OF run st prod.collapse] key get ch run st show ?thesis
    unfolding Let_def by metis
qed

section \<open>Identifiers with capital letters\<close>

lemma valueDescriptorMap_entries:
  assumes "valueDescriptorMap sc pairs = Inr vdm"
  shows "map_wf vdm" and "(an, vd) \<in> set vdm \<Longrightarrow>
    \<exists>tok ty. vd = valueDescriptorForTokenAndType tok ty \<and> an = getAttributeNameForKey sc (vd_key vd)"
proof -
  let ?P = "\<lambda>m. map_wf m \<and> (\<forall>an vd. map_of m an = Some vd \<longrightarrow>
      (\<exists>tok ty. vd = valueDescriptorForTokenAndType tok ty \<and> an = getAttributeNameForKey sc (vd_key vd)))"
  have "valueDescriptorMap_from sc pairs acc = Inr vdm \<Longrightarrow> ?P acc \<Longrightarrow> ?P vdm" for acc
  proof (induction pairs arbitrary: acc)
    case (Cons pair pairs)
    from Cons.prems(1) obtain ty where ty: "parseValueTypeConstant (snd pair) = Inr ty"
      by (auto simp: parseValueDefinitionPair_def split: sum.splits)
    let ?vd = "valueDescriptorForTokenAndType (fst pair) ty"
    from ty Cons.prems show ?case
      by (intro Cons.IH [of "AList.update (getAttributeNameForKey sc (vd_key ?vd)) ?vd acc"])
        (auto simp: parseValueDefinitionPair_def)
  qed simp
  from this [of "[]"] assms have P: "?P vdm" by (simp add: valueDescriptorMap_def)
  then show "map_wf vdm" by blast
  with P show "(an, vd) \<in> set vdm \<Longrightarrow> \<exists>tok ty. vd = valueDescriptorForTokenAndType tok ty \<and> an = getAttributeNameForKey sc (vd_key vd)"
    by (simp add: map_wf_mem_iff)
qed

lemma lower_no_upper: "lower s = s \<Longrightarrow> c \<in> set s \<Longrightarrow> \<not> is_upper c"
proof -
  assume "lower s = s" "c \<in> set s"
  then have "lower_char c = c" by (metis lower_def map_eq_conv list.map_ident)
  with is_lower_lower [of c] show ?thesis by (auto simp: is_lower_def is_upper_def)
qed

lemma object_member_lower: "lower an = an \<Longrightarrow> map_of object_members an = (if an = ''constructor'' then Some ''Object'' else None)"
proof -
  assume an: "lower an = an"
  have "\<forall>(n, v) \<in> set (tl object_members). lower n \<noteq> n" by code_simp
  then have "map_of (tl object_members) an = None" using an by (auto simp: map_of_eq_None_iff)
  then show ?thesis by (simp add: object_members_def)
qed

text \<open>
  The names of attributes that the browser reports are in small letters, the names that
  \<open>ValueObserver\<close> compares them with contain the identifier as it is written. For an identifier
  with a capital letter (as \<open>peerInfo\<close> or \<open>dataSharing\<close> of the page) no attribute of a value has a
  key, so no change of a value is ever reported.
\<close>

theorem mixed_case_values_are_not_observed:
  assumes "valueDescriptorMap sc pairs = Inr vdm" and "lower an = an" and "an \<noteq> ''constructor''"
    and "\<exists>c \<in> set (scope_identifier sc). is_upper c"
  shows "getStringMapKeyForAttribute vdm an = None
    \<and> refreshAttribute d (getStringMapKeyForAttribute vdm) an sm = (sm, [])"
proof -
  have "map_of vdm an = None"
  proof (rule ccontr)
    assume "map_of vdm an \<noteq> None"
    then obtain key where "an = getAttributeNameForKey sc key"
      using valueDescriptorMap_entries(2) [OF assms(1)] by (metis map_of_mem not_Some_eq)
    with assms show False using lower_no_upper [OF assms(2)] by (auto simp: getAttributeNameForKey_def)
  qed
  then show ?thesis using assms by (simp add: getStringMapKeyForAttribute_def refreshAttribute_def object_member_lower)
qed

theorem mixed_case_values_are_not_observed_witness:
  "let sc = \<lparr>scope_element = 0, scope_identifier = ''peerInfo''\<rparr>;
       vdm = [(''data-peerInfo-addr-value'', \<lparr>vd_type = StringT, vd_key = ''addr-value'', vd_name = ''addrValue''\<rparr>)]
   in valueDescriptorMap sc [(''addr'', StringC)] = Inr vdm
      \<and> getStringMapKeyForAttribute vdm ''data-peerinfo-addr-value'' = None"
proof -
  let ?sc = "\<lparr>scope_element = 0, scope_identifier = ''peerInfo''\<rparr>"
  let ?vdm = "[(''data-peerInfo-addr-value'', \<lparr>vd_type = StringT, vd_key = ''addr-value'', vd_name = ''addrValue''\<rparr>)]"
  have m: "valueDescriptorMap ?sc [(''addr'', StringC)] = Inr ?vdm" by code_simp
  have "lower ''data-peerinfo-addr-value'' = ''data-peerinfo-addr-value''" "''data-peerinfo-addr-value'' \<noteq> ''constructor''"
    "\<exists>c \<in> set (scope_identifier ?sc). is_upper c" by code_simp+
  from mixed_case_values_are_not_observed [OF m this] m show ?thesis unfolding Let_def by blast
qed

section \<open>Every value is announced once\<close>

lemma filter_concat_one:
  assumes "distinct xs" and "\<And>x. x \<in> set xs \<Longrightarrow> filter Q (f x) = (if x = x0 then ys else [])"
  shows "filter Q (concat (map f xs)) = (if x0 \<in> set xs then ys else [])"
  using assms by (induction xs) auto

lemma concat_changes: "concat (map (stringMapValueChanged rcv) calls) =
    concat (map (stringMapValueChanged rcv) (filter is_change calls))"
  by (induction calls) (auto simp: is_change_def split: string_map_call.splits)

lemma start_changes:
  assumes "\<not> sm_started sm" and "stringMap sm = []"
  shows "concat (map (stringMapValueChanged rcv) (snd (StringMapObserver_start d key_for sm))) =
    concat (map (\<lambda>an. invokeChangedCallbackForValue rcv (the (key_for an)))
      (filter (\<lambda>an. key_for an \<noteq> None \<and> getAttribute d (sm_element sm) an \<noteq> None) (set_from (currentAttributeNames d sm))))"
proof -
  let ?sm = "sm\<lparr>sm_started := True\<rparr>"
  have "set_from (set_from xs) = set_from xs" for xs :: "string list"
  proof -
    have "distinct xs \<Longrightarrow> set acc \<inter> set xs = {} \<Longrightarrow> fold set_add xs acc = acc @ xs" for xs acc :: "string list"
      by (induction xs arbitrary: acc) (auto simp: set_add_def)
    from this [of "set_from xs" "[]"] show ?thesis by (simp add: set_from_def [of "set_from xs"])
  qed
  then have "filter is_change (snd (StringMapObserver_start d key_for sm)) =
      map (\<lambda>an. ValueChanged (getAttribute d (sm_element sm) an) (the (key_for an)))
        (filter (\<lambda>an. key_for an \<noteq> None \<and> getAttribute d (sm_element sm) an \<noteq> None) (set_from (currentAttributeNames d sm)))"
    using refresh_each [of d key_for "knownAttributeNames d ?sm" ?sm] assms
    by (simp add: StringMapObserver_start_def StringMapObserver_refresh_def knownAttributeNames_def
        recordedAttributeNames_def currentAttributeNames_def changes_for_def eq_commute [of None])
  then show ?thesis by (subst concat_changes) (simp add: comp_def)
qed

lemma lower_dasherize: "lower (dasherize s) = dasherize s"
  by (induction s) (auto simp: lower_def lower_char_def is_upper_def)

lemma attribute_lower: "lower (scope_identifier sc) = scope_identifier sc \<Longrightarrow>
    lower (getAttributeNameForKey sc key) = getAttributeNameForKey sc key"
  using lower_dasherize [of key] by (simp add: getAttributeNameForKey_def lower_def lower_char_def is_upper_def)

definition call_of :: "string \<Rightarrow> changed_call \<Rightarrow> bool" where
  "call_of name c = (case c of Changed methodName _ \<Rightarrow> methodName = name @ ''Changed'')"

lemma filter_invoke:
  "filter (call_of name) (invokeChangedCallbackForValue rcv name') =
     (if name' = name then invokeChangedCallbackForValue rcv name else [])"
  by (auto simp: invokeChangedCallbackForValue_def call_of_def Let_def)

lemma named_entry:
  assumes "distinct (map vd_name (valueDescriptors vdm))" and "(an, vd) \<in> set vdm" and "x \<in> set vdm"
    and "vd_name (snd x) = vd_name vd"
  shows "x = (an, vd)"
proof -
  have "inj_on (vd_name \<circ> snd) (set vdm)" using assms(1) by (simp add: valueDescriptors_def distinct_map)
  then show ?thesis using assms(2-4) by (intro inj_onD [of "vd_name \<circ> snd" "set vdm"]) simp_all
qed

lemma default_calls:
  assumes names: "distinct (map vd_name (valueDescriptors vdm))" and an: "(an, vd) \<in> set vdm"
  shows "filter (call_of (vd_name vd)) (invokeChangedCallbacksForDefaultValues d sc vdm rcv) =
    (if DataMap_has d sc (vd_key vd) then [] else invokeChangedCallbackForValue rcv (vd_name vd))"
proof -
  let ?f = "\<lambda>x. if DataMap_has d sc (vd_key (snd x)) then [] else invokeChangedCallbackForValue rcv (vd_name (snd x))"
  have "filter (call_of (vd_name vd)) (?f x) = (if x = (an, vd) then ?f (an, vd) else [])" if "x \<in> set vdm" for x
  proof (cases "vd_name (snd x) = vd_name vd")
    case True
    with named_entry [OF names an that] show ?thesis by (simp add: filter_invoke)
  next
    case False
    then have "x \<noteq> (an, vd)" by auto
    with False show ?thesis by (simp add: filter_invoke)
  qed
  moreover have "distinct vdm" using names by (simp add: valueDescriptors_def distinct_map)
  ultimately have "filter (call_of (vd_name vd)) (concat (map ?f vdm)) = (if (an, vd) \<in> set vdm then ?f (an, vd) else [])"
    by (intro filter_concat_one)
  with an show ?thesis by (simp add: invokeChangedCallbacksForDefaultValues_def valueDescriptors_def comp_def)
qed

lemma attribute_calls:
  assumes m: "valueDescriptorMap sc pairs = Inr vdm" and names: "distinct (map vd_name (valueDescriptors vdm))"
    and low: "\<forall>a \<in> set as. lower a = a" "''constructor'' \<notin> set as" and an: "(an, vd) \<in> set vdm" and "distinct as"
    and key: "\<forall>a \<in> set as. getStringMapKeyForAttribute vdm a \<noteq> None"
  shows "filter (call_of (vd_name vd)) (concat (map (\<lambda>a. invokeChangedCallbackForValue rcv (the (getStringMapKeyForAttribute vdm a))) as))
    = (if an \<in> set as then invokeChangedCallbackForValue rcv (vd_name vd) else [])"
proof (rule filter_concat_one [OF assms(6)])
  fix a assume a: "a \<in> set as"
  have wf: "map_wf vdm" by (rule valueDescriptorMap_entries(1) [OF m])
  have "lower a = a" "a \<noteq> ''constructor''" "getStringMapKeyForAttribute vdm a \<noteq> None" using a low key by auto
  with object_member_lower [of a] obtain vd' where vd': "map_of vdm a = Some vd'"
    by (auto simp: getStringMapKeyForAttribute_def split: option.splits)
  have "vd_name vd' = vd_name vd \<longleftrightarrow> a = an"
    using named_entry [OF names an map_of_mem [OF vd']] vd' an wf by (auto simp: map_wf_mem_iff)
  with vd' show "filter (call_of (vd_name vd)) (invokeChangedCallbackForValue rcv (the (getStringMapKeyForAttribute vdm a)))
      = (if a = an then invokeChangedCallbackForValue rcv (vd_name vd) else [])"
    by (simp add: getStringMapKeyForAttribute_def filter_invoke)
qed

text \<open>
  C33: When a controller is connected for the first time, with the document as it was when its context
  was made, each of its \<open>...Changed\<close> methods is called once with the value of its property: by the
  constructor of the observer for a value that has no attribute, by the start of the observer for the
  others. The identifier and the attributes of the element are in small letters (the second as HTML
  keeps them; for an identifier with a capital letter see \<open>mixed_case_values_are_not_observed\<close>), the
  values of the class have different names, and the element has no attribute \<open>constructor\<close>, a name that
  every object inherits.
\<close>

theorem values_announced_once:
  assumes m: "valueDescriptorMap sc pairs = Inr vdm" and names: "distinct (map vd_name (valueDescriptors vdm))"
    and low: "lower (scope_identifier sc) = scope_identifier sc" "\<forall>(n, v) \<in> set (attrs d (scope_element sc)). lower n = n"
    and con: "\<not> hasAttribute d (scope_element sc) ''constructor''"
    and vd: "vd \<in> set (valueDescriptors vdm)" and meth: "has_method rcv (vd_name vd @ ''Changed'')"
    and new: "(vo, calls1) = new_ValueObserver d sc vdm rcv" and start: "(vo', calls2) = ValueObserver_start d rcv vo"
  shows "filter (call_of (vd_name vd)) calls1 @ filter (call_of (vd_name vd)) calls2 =
    [Changed (vd_name vd @ ''Changed'') (property rcv (vd_name vd))]"
proof -
  let ?e = "scope_element sc" and ?key = "getStringMapKeyForAttribute vdm" and ?n = "vd_name vd"
  obtain an where an: "(an, vd) \<in> set vdm" using vd by (auto simp: valueDescriptors_def)
  have wf: "map_wf vdm" by (rule valueDescriptorMap_entries(1) [OF m])
  have attr: "an = getAttributeNameForKey sc (vd_key vd)" using valueDescriptorMap_entries(2) [OF m an] by blast
  have c1: "filter (call_of ?n) calls1 = (if getAttribute d ?e an \<noteq> None then [] else invokeChangedCallbackForValue rcv ?n)"
    using new default_calls [OF names an, of d sc rcv]
    by (simp add: new_ValueObserver_def DataMap_has_def hasAttribute_def attr)
  let ?sm = "new_StringMapObserver ?e"
  let ?as = "filter (\<lambda>a. ?key a \<noteq> None \<and> getAttribute d ?e a \<noteq> None) (set_from (currentAttributeNames d ?sm))"
  have "lower an = an" using attribute_lower [OF low(1)] by (simp add: attr)
  moreover have "?key an \<noteq> None" using an wf by (simp add: getStringMapKeyForAttribute_def map_wf_mem_iff)
  ultimately have mem: "an \<in> set ?as \<longleftrightarrow> getAttribute d ?e an \<noteq> None"
    by (auto simp: currentAttributeNames_def new_StringMapObserver_def getAttribute_def map_of_eq_None_iff)
  have "calls2 = concat (map (\<lambda>a. invokeChangedCallbackForValue rcv (the (?key a))) ?as)"
    using new start start_changes [of ?sm rcv d ?key]
    by (simp add: new_ValueObserver_def ValueObserver_start_def on_strings_def new_StringMapObserver_def)
  moreover have "filter (call_of ?n) \<dots> = (if an \<in> set ?as then invokeChangedCallbackForValue rcv ?n else [])"
    using low con an by (intro attribute_calls [OF m names])
      (auto simp: currentAttributeNames_def new_StringMapObserver_def hasAttribute_def)
  ultimately have c2: "filter (call_of ?n) calls2 = (if getAttribute d ?e an \<noteq> None then invokeChangedCallbackForValue rcv ?n else [])"
    by (simp only: mem)
  show ?thesis using meth by (simp add: c1 c2 invokeChangedCallbackForValue_def)
qed

definition ab_doc :: dom where
  "ab_doc = [El 0 ''p'' [(''data-x-a-value'', ''q'')] []]"

definition ab_scope :: scope where
  "ab_scope = \<lparr>scope_element = 0, scope_identifier = ''x''\<rparr>"

definition ab_map :: "(string, value_descriptor) jsmap" where
  "ab_map = [(''data-x-a-value'', valueDescriptorForTokenAndType ''a'' StringT),
     (''data-x-b-value'', valueDescriptorForTokenAndType ''b'' NumberT)]"

definition ab_receiver :: receiver where
  "ab_receiver = \<lparr>has_method = (\<lambda>n. n = ''bValueChanged''), property = (\<lambda>n. Value (JNum 0))\<rparr>"

theorem values_announced_once_witness:
  "filter (call_of ''bValue'') (snd (new_ValueObserver ab_doc ab_scope ab_map ab_receiver)) @
     filter (call_of ''bValue'') (snd (ValueObserver_start ab_doc ab_receiver (fst (new_ValueObserver ab_doc ab_scope ab_map ab_receiver))))
   = [Changed ''bValueChanged'' (Value (JNum 0))]"
proof -
  let ?vd = "valueDescriptorForTokenAndType ''b'' NumberT"
  have m: "valueDescriptorMap ab_scope [(''a'', StringC), (''b'', NumberC)] = Inr ab_map" by code_simp
  have n: "distinct (map vd_name (valueDescriptors ab_map))"
    and l: "lower (scope_identifier ab_scope) = scope_identifier ab_scope"
      "\<forall>(n, v) \<in> set (attrs ab_doc (scope_element ab_scope)). lower n = n"
    and c: "\<not> hasAttribute ab_doc (scope_element ab_scope) ''constructor''"
    and v: "?vd \<in> set (valueDescriptors ab_map)" by code_simp+
  have nm: "vd_name ?vd = ''bValue''" by code_simp
  then have me: "has_method ab_receiver (vd_name ?vd @ ''Changed'')" by (simp add: ab_receiver_def)
  from values_announced_once [OF m n l c v me prod.collapse prod.collapse] nm show ?thesis
    by (simp add: ab_receiver_def)
qed

end
