(* ===== verification/Context.thy ===== *)
theory Context
  imports Binding_Observer String_Map
begin

text \<open>
  \<open>Context\<close> of stimulus.js: the object that holds a controller with its two observers, and calls
  the controller's life-cycle methods so that an exception in one of them is logged and nothing
  else is lost.
\<close>

section \<open>The context\<close>

datatype hook = InitializeHook | ConnectHook | DisconnectHook

text \<open>
  What happens to the controller, in order: the calls of its methods, and the errors handed to the
  application (the exception, the message; the details are the identifier, the controller and the
  element of the context).
\<close>

datatype context_event = HookCalled hook | ValueCallback changed_call | ErrorHandled string string ctx

record context_state =
  cx_context :: ctx
  cx_bindings :: binding_observer
  cx_values :: value_observer
  cx_log :: "context_event list"

definition Context_handleError :: "string \<Rightarrow> string \<Rightarrow> context_state \<Rightarrow> context_state" where
  "Context_handleError error message cx =
     cx\<lparr>cx_log := cx_log cx @ [ErrorHandled error (''Error '' @ message) (cx_context cx)]\<rparr>"

text \<open>The controller's own code is the parameter \<open>thrown\<close>: what each method throws, if it does.\<close>

definition call_hook :: "(hook \<Rightarrow> string option) \<Rightarrow> hook \<Rightarrow> string \<Rightarrow> context_state \<Rightarrow> context_state" where
  "call_hook thrown h message cx =
     (let cx = cx\<lparr>cx_log := cx_log cx @ [HookCalled h]\<rparr>
      in case thrown h of None \<Rightarrow> cx | Some error \<Rightarrow> Context_handleError error message cx)"

definition new_Context :: "dom \<Rightarrow> receiver \<Rightarrow> (hook \<Rightarrow> string option) \<Rightarrow> (string, value_descriptor) jsmap \<Rightarrow>
    dispatcher \<Rightarrow> ctx \<Rightarrow> context_state" where
  "new_Context d rcv thrown vdm dp c =
     (let (vo, calls) = new_ValueObserver d (ctx_scope c) vdm rcv
      in call_hook thrown InitializeHook ''initializing controller''
           \<lparr>cx_context = c, cx_bindings = new_BindingObserver c dp, cx_values = vo, cx_log = map ValueCallback calls\<rparr>)"

definition Context_connect :: "dom \<Rightarrow> receiver \<Rightarrow> (hook \<Rightarrow> string option) \<Rightarrow> context_state \<Rightarrow> context_state" where
  "Context_connect d rcv thrown cx =
     (let cx = cx\<lparr>cx_bindings := BindingObserver_start d (cx_bindings cx)\<rparr>;
          (vo, calls) = ValueObserver_start d rcv (cx_values cx);
          cx = cx\<lparr>cx_values := vo, cx_log := cx_log cx @ map ValueCallback calls\<rparr>
      in call_hook thrown ConnectHook ''connecting controller'' cx)"

definition Context_disconnect :: "(hook \<Rightarrow> string option) \<Rightarrow> context_state \<Rightarrow> context_state" where
  "Context_disconnect thrown cx =
     (let cx = call_hook thrown DisconnectHook ''disconnecting controller'' cx;
          cx = cx\<lparr>cx_values := ValueObserver_stop (cx_values cx)\<rparr>
      in cx\<lparr>cx_bindings := BindingObserver_stop (cx_bindings cx)\<rparr>)"

definition cx_dispatcher :: "context_state \<Rightarrow> dispatcher" where
  "cx_dispatcher cx = bs_dispatcher (bo_system (cx_bindings cx))"

section \<open>Errors do not stop a context\<close>

definition hook_events :: "(hook \<Rightarrow> string option) \<Rightarrow> hook \<Rightarrow> string \<Rightarrow> ctx \<Rightarrow> context_event list" where
  "hook_events thrown h message c = HookCalled h #
     (case thrown h of None \<Rightarrow> [] | Some error \<Rightarrow> [ErrorHandled error (''Error '' @ message) c])"

lemma call_hook_eq:
  "call_hook thrown h message cx = cx\<lparr>cx_log := cx_log cx @ hook_events thrown h message (cx_context cx)\<rparr>"
  by (simp add: call_hook_def Context_handleError_def hook_events_def split: option.split)


lemma holds_fold_disconnected:
  "holds (fold Dispatcher_bindingDisconnected bs dp) b \<longleftrightarrow> b \<notin> set bs \<and> holds dp b"
  by (induction bs arbitrary: dp) (auto simp: holds_at)

text \<open>
  C19: After a context is disconnected, whatever happened while it was connected, the dispatcher
  holds no binding of it, so no event calls a method of the controller any more; and the bindings
  of other contexts are as before.
\<close>

theorem disconnected_context_is_silent:
  fixes thrown :: "hook \<Rightarrow> string option"
  assumes "bo_run c ok s (cx_bindings cx)"
  defines "cx' \<equiv> Context_disconnect thrown cx"
  shows "(b_context b = c \<longrightarrow> \<not> holds (cx_dispatcher cx') b)
    \<and> (b_context b \<noteq> c \<longrightarrow> holds (cx_dispatcher cx') b = holds (cx_dispatcher cx) b)"
proof -
  have cx': "cx_bindings cx' = BindingObserver_stop (cx_bindings cx)"
    by (simp add: cx'_def Context_disconnect_def call_hook_eq Let_def)
  have inv: "bo_inv c ok s (cx_bindings cx)" by (rule bo_run_inv [OF assms(1)])
  have "bo_inv c ok (s\<lparr>records := [], transients := []\<rparr>) (cx_bindings cx')"
    unfolding cx' by (rule bo_run_inv [OF bo_run.stop [OF assms(1)]])
  moreover have "bindingsByAction (bo_system (cx_bindings cx')) = []"
    using inv by (auto simp: cx' BindingObserver_stop_def disconnectAllActions_def bo_inv_def split: option.splits)
  ultimately have none: "\<not> holds (cx_dispatcher cx') \<lparr>b_context = c, b_action = a\<rparr>" for a
    by (simp add: bo_inv_def bindings_ok_def cx_dispatcher_def)
  have "b_context b' = c" if "b' \<in> snd ` set (bindingsByAction (bo_system (cx_bindings cx)))" for b'
  proof -
    have ok: "bindings_ok c (bo_system (cx_bindings cx))" using inv by (simp add: bo_inv_def)
    with that obtain a where "map_of (bindingsByAction (bo_system (cx_bindings cx))) a = Some b'"
      by (auto simp: bindings_ok_def map_wf_mem_iff)
    with ok have "b' = \<lparr>b_context = c, b_action = a\<rparr>" by (simp add: bindings_ok_def)
    then show ?thesis by simp
  qed
  moreover have "holds (cx_dispatcher cx') b \<longleftrightarrow>
      b \<notin> snd ` set (bindingsByAction (bo_system (cx_bindings cx))) \<and> holds (cx_dispatcher cx) b"
    using inv by (cases "bo_valueListObserver (cx_bindings cx)")
      (simp_all add: cx_dispatcher_def cx' BindingObserver_stop_def disconnectAllActions_def holds_fold_disconnected bo_inv_def)
  moreover have "b = \<lparr>b_context = c, b_action = b_action b\<rparr>" if "b_context b = c" using that by simp
  ultimately show ?thesis using none [of "b_action b"] by metis
qed

definition button_context :: context_state where
  "button_context = Context_connect button_doc ab_receiver (\<lambda>h. None)
     (new_Context button_doc ab_receiver (\<lambda>h. None) [] new_Dispatcher button_ctx)"

theorem disconnected_context_is_silent_witness:
  "let b = hd (map snd (bindingsByAction (bo_system (cx_bindings button_context))))
   in b_context b = button_ctx \<and> holds (cx_dispatcher button_context) b
      \<and> \<not> holds (cx_dispatcher (Context_disconnect (\<lambda>h. Some ''x'') button_context)) b"
proof -
  let ?s = "\<lparr>doc = button_doc, records = [], transients = []\<rparr>"
  let ?bs = "bo_system (cx_bindings button_context)"
  let ?b = "hd (map snd (bindingsByAction ?bs))"
  have ok: "dom_ok button_doc" by (auto simp: dom_ok_def dom_wf_def button_doc_def document_root_def)
  have "bo_run button_ctx True ?s (new_BindingObserver button_ctx new_Dispatcher)"
    by (rule bo_run.created [OF ok]) (simp_all add: button_doc_def button_ctx_def holds_def listener_at_def new_Dispatcher_def)
  from bo_run.start [OF this] have run: "bo_run button_ctx True ?s (cx_bindings button_context)"
    by (simp add: button_context_def Context_connect_def new_Context_def new_ValueObserver_def call_hook_eq case_prod_unfold Let_def)
  have b: "b_context ?b = button_ctx" and l: "map_option (\<lambda>l. ?b \<in> set (unorderedBindings l))
      (listener_at (cx_dispatcher button_context) (b_target ?b) (b_key ?b)) = Some True" by code_simp+
  from l have "holds (cx_dispatcher button_context) ?b" by (auto simp: holds_def)
  with disconnected_context_is_silent [OF run, of ?b "\<lambda>h. Some ''x''"] b show ?thesis unfolding Let_def by blast
qed

end
