(* ===== verification/Viz.thy ===== *)
theory Viz
  imports Json_Parse
begin

text \<open>
  viz.js: the front end of Graphviz. Two wrappers run the renderer, in a web worker
  (\<open>WorkerWrapper\<close>, requests and answers matched by a number) or in the page (\<open>ModuleWrapper\<close>);
  \<open>Viz\<close> chooses one and offers the four render methods. The renderer itself
  (viz.lite.render.js, Graphviz compiled by emscripten), the parser of the browser and its images
  are parameters.
\<close>

section \<open>Requests\<close>

record viz_file =
  file_path :: string
  file_data :: string

record viz_image =
  image_path :: string
  image_width :: string
  image_height :: string

text \<open>The options of a caller; \<open>None\<close> is an option that is not given (or \<open>undefined\<close>).\<close>

record viz_options =
  o_format :: "string option"
  o_engine :: "string option"
  o_files :: "viz_file list option"
  o_images :: "viz_image list option"
  o_yInvert :: "bool option"
  o_nop :: "int option"

definition no_options :: viz_options where
  "no_options = \<lparr>o_format = None, o_engine = None, o_files = None, o_images = None, o_yInvert = None, o_nop = None\<rparr>"

text \<open>What is handed to the renderer.\<close>

record viz_request =
  rq_format :: string
  rq_engine :: string
  rq_files :: "viz_file list"
  rq_images :: "viz_image list"
  rq_yInvert :: bool
  rq_nop :: int

definition dquote :: string where
  "dquote = [CHR 0x22]"

definition image_file :: "viz_image \<Rightarrow> viz_file" where
  "image_file img = \<lparr>file_path = image_path img,
     file_data = ''<?xml version='' @ dquote @ ''1.0'' @ dquote @ '' encoding='' @ dquote @ ''UTF-8'' @ dquote
       @ '' standalone='' @ dquote @ ''no'' @ dquote @ ''?>'' @ nl
       @ ''<!DOCTYPE svg PUBLIC '' @ dquote @ ''-//W3C//DTD SVG 1.1//EN'' @ dquote @ '' ''
       @ dquote @ ''http://www.w3.org/Graphics/SVG/1.1/DTD/svg11.dtd'' @ dquote @ ''>'' @ nl
       @ ''<svg width='' @ dquote @ image_width img @ dquote @ '' height='' @ dquote @ image_height img @ dquote @ ''></svg>''\<rparr>"

definition or_default :: "'a \<Rightarrow> 'a option \<Rightarrow> 'a" where
  "or_default v x = (case x of None \<Rightarrow> v | Some y \<Rightarrow> y)"

text \<open>
  The request that \<open>renderString\<close> makes, and the options after the call: the loop pushes into the
  array \<open>files\<close> of the caller.
\<close>

definition make_request :: "viz_options \<Rightarrow> viz_request \<times> viz_options" where
  "make_request opts =
     (let images = or_default [] (o_images opts);
          files = fold (\<lambda>img files. files @ [image_file img]) images (or_default [] (o_files opts))
      in (\<lparr>rq_format = or_default ''svg'' (o_format opts), rq_engine = or_default ''dot'' (o_engine opts), rq_files = files,
            rq_images = images, rq_yInvert = or_default False (o_yInvert opts), rq_nop = or_default 0 (o_nop opts)\<rparr>,
          case o_files opts of None \<Rightarrow> opts | Some _ \<Rightarrow> opts\<lparr>o_files := Some files\<rparr>))"

section \<open>The wrappers\<close>

text \<open>
  A promise is known by a number; \<open>settled\<close> is what became of it, and a second call of its
  \<open>resolve\<close> or \<open>reject\<close> has no effect. A rejection is known by the message of its error: in the page
  this is the error that was thrown, with a worker a new one with the message of that error.
\<close>

datatype outcome = Resolved string | Rejected string

record worker_wrapper =
  w_listeners :: "(nat, nat) jsmap" \<comment> \<open>request number to promise\<close>
  w_nextId :: nat
  w_posted :: "(nat \<times> string \<times> viz_request) list" \<comment> \<open>messages to the worker, in order\<close>
  w_settled :: "(nat, outcome) jsmap"

definition new_WorkerWrapper :: worker_wrapper where
  "new_WorkerWrapper = \<lparr>w_listeners = [], w_nextId = 0, w_posted = [], w_settled = []\<rparr>"

definition settle_promise :: "nat \<Rightarrow> outcome \<Rightarrow> (nat, outcome) jsmap \<Rightarrow> (nat, outcome) jsmap" where
  "settle_promise p r m = (if map_of m p = None then AList.update p r m else m)"

definition WorkerWrapper_render :: "nat \<Rightarrow> string \<Rightarrow> viz_request \<Rightarrow> worker_wrapper \<Rightarrow> worker_wrapper" where
  "WorkerWrapper_render promise src options w =
     (let i = w_nextId w
      in w\<lparr>w_nextId := Suc i, w_listeners := AList.update i promise (w_listeners w),
           w_posted := w_posted w @ [(i, src, options)]\<rparr>)"

text \<open>
  A message of the worker: the error (its message) or the result. Without a listener the call
  throws, and nothing is changed.
\<close>

definition WorkerWrapper_message :: "nat \<Rightarrow> string option \<Rightarrow> string \<Rightarrow> worker_wrapper \<Rightarrow> string + worker_wrapper" where
  "WorkerWrapper_message i err result w =
     (case map_of (w_listeners w) i of
        None \<Rightarrow> Inl ''TypeError: _this.listeners[id] is not a function''
      | Some promise \<Rightarrow>
          let r = (case err of Some e \<Rightarrow> Rejected e | None \<Rightarrow> Resolved result)
          in Inr (w\<lparr>w_settled := settle_promise promise r (w_settled w), w_listeners := AList.delete i (w_listeners w)\<rparr>))"

definition ModuleWrapper_render :: "(string \<Rightarrow> viz_request \<Rightarrow> string + string) \<Rightarrow> string \<Rightarrow> viz_request \<Rightarrow> outcome" where
  "ModuleWrapper_render render src options =
     (case render src options of Inl e \<Rightarrow> Rejected e | Inr s \<Rightarrow> Resolved s)"

section \<open>Viz\<close>

text \<open>Which of the options of the constructor are given, and whether the class has a renderer itself.\<close>

record viz_config =
  c_workerURL :: bool
  c_worker :: bool
  c_Module :: bool
  c_render :: bool
  c_own_Module :: bool
  c_own_render :: bool

datatype wrapper_choice = NewWorker | GivenWorker | GivenModule | OwnModule

definition new_Viz :: "viz_config \<Rightarrow> string + wrapper_choice" where
  "new_Viz c =
     (if c_workerURL c then Inr NewWorker
      else if c_worker c then Inr GivenWorker
      else if c_Module c \<and> c_render c then Inr GivenModule
      else if c_own_Module c \<and> c_own_render c then Inr OwnModule
      else Inl (''Must specify workerURL or worker option, Module and render options, or include one of ''
        @ ''full.render.js or lite.render.js after viz.js.''))"

text \<open>
  The render methods, over the wrapper's \<open>render\<close> (a request becomes the outcome of its promise);
  the options are those of the caller after the call.
\<close>

definition renderString :: "(string \<Rightarrow> viz_request \<Rightarrow> outcome) \<Rightarrow> string \<Rightarrow> viz_options \<Rightarrow> outcome \<times> viz_options" where
  "renderString render src opts = (let (rq, opts) = make_request opts in (render src rq, opts))"

text \<open>
  \<open>_extends({}, options, { format: f })\<close> is a copy with another format, but the array of files is
  the caller's.
\<close>

definition render_as :: "string \<Rightarrow> (string \<Rightarrow> viz_request \<Rightarrow> outcome) \<Rightarrow> string \<Rightarrow> viz_options \<Rightarrow> outcome \<times> viz_options" where
  "render_as f render src opts =
     (let (r, copy) = renderString render src (opts\<lparr>o_format := Some f\<rparr>) in (r, opts\<lparr>o_files := o_files copy\<rparr>))"

datatype 'a promised = Fulfilled 'a | Failed string

fun promise_then :: "outcome \<Rightarrow> (string \<Rightarrow> 'a promised) \<Rightarrow> 'a promised" where
  "promise_then (Resolved s) f = f s"
| "promise_then (Rejected e) f = Failed e"

definition renderSVGElement :: "(string \<Rightarrow> 'el) \<Rightarrow> (string \<Rightarrow> viz_request \<Rightarrow> outcome) \<Rightarrow> string \<Rightarrow> viz_options \<Rightarrow>
    'el promised \<times> viz_options" where
  "renderSVGElement parse_svg render src opts =
     (let (r, opts) = render_as ''svg'' render src opts in (promise_then r (\<lambda>str. Fulfilled (parse_svg str)), opts))"

definition json_promise :: "string \<Rightarrow> json_result promised" where
  "json_promise str = (case json_parse str of SyntaxError \<Rightarrow> Failed ''SyntaxError'' | r \<Rightarrow> Fulfilled r)"

definition renderJSONObject :: "(string \<Rightarrow> viz_request \<Rightarrow> outcome) \<Rightarrow> string \<Rightarrow> viz_options \<Rightarrow>
    json_result promised \<times> viz_options" where
  "renderJSONObject render src opts =
     (let format = o_format opts;
          format = (if format \<noteq> Some ''json'' \<or> format \<noteq> Some ''json0'' then Some ''json'' else format);
          (r, opts) = render_as (the format) render src opts
      in (promise_then r json_promise, opts))"

section \<open>Answers reach their callers\<close>

text \<open>
  Runs of a wrapper with a worker that computes \<open>f\<close> and answers every request at most once, in any
  order: the calls made so far (promise, source, options), the numbers of the answered ones, and
  the state. Each call has a new promise.
\<close>

definition reply :: "string + string \<Rightarrow> string option \<times> string" where
  "reply r = (case r of Inl e \<Rightarrow> (Some e, []) | Inr s \<Rightarrow> (None, s))"

definition deliver_reply :: "(string \<Rightarrow> viz_request \<Rightarrow> string + string) \<Rightarrow> nat \<times> string \<times> viz_request \<Rightarrow>
    worker_wrapper \<Rightarrow> string + worker_wrapper" where
  "deliver_reply f = (\<lambda>(i, src, rq) w. WorkerWrapper_message i (fst (reply (f src rq))) (snd (reply (f src rq))) w)"

inductive worker_run :: "(string \<Rightarrow> viz_request \<Rightarrow> string + string) \<Rightarrow> (nat \<times> string \<times> viz_request) list \<Rightarrow>
    nat set \<Rightarrow> worker_wrapper \<Rightarrow> bool" for f where
  created: "worker_run f [] {} new_WorkerWrapper"
| call: "worker_run f calls answered w \<Longrightarrow> p \<notin> fst ` set calls \<Longrightarrow>
    worker_run f (calls @ [(p, src, rq)]) answered (WorkerWrapper_render p src rq w)"
| answer: "worker_run f calls answered w \<Longrightarrow> (i, src, rq) \<in> set (w_posted w) \<Longrightarrow> i \<notin> answered \<Longrightarrow>
    deliver_reply f (i, src, rq) w = Inr w' \<Longrightarrow> worker_run f calls (insert i answered) w'"

definition worker_inv :: "(string \<Rightarrow> viz_request \<Rightarrow> string + string) \<Rightarrow> (nat \<times> string \<times> viz_request) list \<Rightarrow>
    nat set \<Rightarrow> worker_wrapper \<Rightarrow> bool" where
  "worker_inv f calls answered w \<longleftrightarrow> w_nextId w = length calls \<and> distinct (map fst calls)
     \<and> w_posted w = zip [0..<length calls] (map snd calls) \<and> answered \<subseteq> {..<length calls}
     \<and> (\<forall>i. map_of (w_listeners w) i = (if i < length calls \<and> i \<notin> answered then Some (fst (calls ! i)) else None))
     \<and> (\<forall>p. p \<notin> fst ` set calls \<longrightarrow> map_of (w_settled w) p = None)
     \<and> (\<forall>i < length calls. map_of (w_settled w) (fst (calls ! i)) =
          (if i \<in> answered then Some (ModuleWrapper_render f (fst (snd (calls ! i))) (snd (snd (calls ! i)))) else None))"

lemma worker_inv_call:
  assumes "worker_inv f calls answered w" and "p \<notin> fst ` set calls"
  shows "worker_inv f (calls @ [(p, src, rq)]) answered (WorkerWrapper_render p src rq w)"
  using assms by (auto simp: worker_inv_def WorkerWrapper_render_def Let_def nth_append less_Suc_eq)

lemma posted_at:
  "worker_inv f calls answered w \<Longrightarrow> (i, src, rq) \<in> set (w_posted w) \<Longrightarrow> i < length calls \<and> calls ! i = (fst (calls ! i), src, rq)"
  by (auto simp: worker_inv_def in_set_zip prod_eq_iff)

lemma deliver_reply_pending:
  assumes inv: "worker_inv f calls answered w" and posted: "(i, src, rq) \<in> set (w_posted w)" and "i \<notin> answered"
  shows "deliver_reply f (i, src, rq) w = Inr (w\<lparr>w_settled := AList.update (fst (calls ! i)) (ModuleWrapper_render f src rq) (w_settled w),
    w_listeners := AList.delete i (w_listeners w)\<rparr>)"
proof -
  note at = posted_at [OF inv posted]
  have "map_of (w_listeners w) i = Some (fst (calls ! i))" "map_of (w_settled w) (fst (calls ! i)) = None"
    using inv at assms(3) by (simp_all add: worker_inv_def)
  then show ?thesis
    by (simp add: deliver_reply_def WorkerWrapper_message_def reply_def ModuleWrapper_render_def settle_promise_def split: sum.splits)
qed

lemma worker_inv_answer:
  assumes inv: "worker_inv f calls answered w" and posted: "(i, src, rq) \<in> set (w_posted w)" and "i \<notin> answered"
    and "deliver_reply f (i, src, rq) w = Inr w'"
  shows "worker_inv f calls (insert i answered) w'"
proof -
  note at = posted_at [OF inv posted]
  have w': "w' = w\<lparr>w_settled := AList.update (fst (calls ! i)) (ModuleWrapper_render f src rq) (w_settled w),
      w_listeners := AList.delete i (w_listeners w)\<rparr>"
    using deliver_reply_pending [OF assms(1-3)] assms(4) by simp
  have "fst (calls ! j) = fst (calls ! i) \<longleftrightarrow> j = i" if "j < length calls" for j
    using inv that at by (auto simp: worker_inv_def distinct_conv_nth)
  moreover have "fst (snd (calls ! i)) = src" "snd (snd (calls ! i)) = rq" "fst (calls ! i) \<in> fst ` set calls"
    using at by (metis fst_conv snd_conv, metis snd_conv, simp)
  ultimately show ?thesis using inv at by (auto simp: worker_inv_def w')
qed

lemma worker_run_inv: "worker_run f calls answered w \<Longrightarrow> worker_inv f calls answered w"
proof (induction rule: worker_run.induct)
  case created
  show ?case by (simp add: worker_inv_def new_WorkerWrapper_def)
qed (auto intro: worker_inv_call worker_inv_answer)

text \<open>
  C10: Rendering in a worker gives every caller what rendering in the page would give: whatever the
  order in which the worker answers, the promise of a call is settled when the call is answered,
  with the outcome of its own source and options, and not before. The first answer to a request
  always finds its listener, a second one throws, and when all are answered no listener is left.
\<close>

theorem worker_matches_module:
  assumes run: "worker_run f calls answered w" and i: "i < length calls" and call: "calls ! i = (p, src, rq)"
  shows "map_of (w_settled w) p = (if i \<in> answered then Some (ModuleWrapper_render f src rq) else None)
    \<and> ((\<exists>w'. deliver_reply f (i, src, rq) w = Inr w') \<longleftrightarrow> i \<notin> answered)
    \<and> (answered = {..<length calls} \<longrightarrow> w_listeners w = [])"
proof -
  have inv: "worker_inv f calls answered w" by (rule worker_run_inv [OF run])
  have "(i, src, rq) \<in> set (w_posted w)"
    using inv i call by (auto simp: worker_inv_def in_set_zip intro!: exI [of _ i])
  note pend = deliver_reply_pending [OF inv this]
  have "map_of (w_listeners w) i = None" if "i \<in> answered" using inv that by (simp add: worker_inv_def)
  then have "\<not> (\<exists>w'. deliver_reply f (i, src, rq) w = Inr w')" if "i \<in> answered"
    using that by (simp add: deliver_reply_def WorkerWrapper_message_def)
  moreover have "w_listeners w = []" if "answered = {..<length calls}"
  proof -
    have "map_of (w_listeners w) = Map.empty" using inv that by (auto simp: worker_inv_def fun_eq_iff)
    then show ?thesis by simp
  qed
  moreover have "map_of (w_settled w) p = (if i \<in> answered then Some (ModuleWrapper_render f src rq) else None)"
    using inv i call by (auto simp: worker_inv_def dest!: spec [of _ i])
  ultimately show ?thesis using pend by blast
qed

definition echo :: "string \<Rightarrow> viz_request \<Rightarrow> string + string" where
  "echo src rq = (if src = [] then Inl ''syntax error'' else Inr (''<svg>'' @ src))"

theorem worker_matches_module_witness:
  "let rq = fst (make_request no_options); calls = [(7, ''a'', rq), (5, [], rq)];
       w0 = WorkerWrapper_render 5 [] rq (WorkerWrapper_render 7 ''a'' rq new_WorkerWrapper);
       w1 = projr (deliver_reply echo (1, [], rq) w0)
   in worker_run echo calls {1} w1 \<and> map_of (w_settled w1) 5 = Some (Rejected ''syntax error'')
      \<and> map_of (w_settled w1) 7 = None"
proof -
  let ?rq = "fst (make_request no_options)"
  let ?calls = "[(7, ''a'', ?rq), (5, [], ?rq)]"
  let ?w0 = "WorkerWrapper_render 5 [] ?rq (WorkerWrapper_render 7 ''a'' ?rq new_WorkerWrapper)"
  let ?w1 = "projr (deliver_reply echo (1, [], ?rq) ?w0)"
  have "worker_run echo ([] @ [(7, ''a'', ?rq)]) {} (WorkerWrapper_render 7 ''a'' ?rq new_WorkerWrapper)"
    by (intro worker_run.intros) simp
  from worker_run.call [OF this, of 5 "[]" ?rq] have "worker_run echo ?calls {} ?w0" by simp
  moreover have "(1, [], ?rq) \<in> set (w_posted ?w0)" by (simp add: WorkerWrapper_render_def new_WorkerWrapper_def)
  moreover have "deliver_reply echo (1, [], ?rq) ?w0 = Inr ?w1"
    by (simp add: deliver_reply_def WorkerWrapper_message_def WorkerWrapper_render_def new_WorkerWrapper_def)
  ultimately have run: "worker_run echo ?calls {1} ?w1" using worker_run.answer [of echo ?calls "{}" ?w0 1 "[]" ?rq ?w1] by simp
  have "ModuleWrapper_render echo [] ?rq = Rejected ''syntax error''" by (simp add: ModuleWrapper_render_def echo_def)
  with worker_matches_module [OF run, of 1 5 "[]" ?rq] worker_matches_module [OF run, of 0 7 "''a''" ?rq] run
  show ?thesis unfolding Let_def by simp
qed

section \<open>The options of the caller\<close>

lemma image_files: "fold (\<lambda>img files. files @ [image_file img]) images files = files @ map image_file images"
  by (induction images arbitrary: files) simp_all

text \<open>
  A caller that keeps its options and renders \<open>n\<close> more times hands the renderer \<open>n + 1\<close> stubs for
  each image when it gave an array of files, because each call pushes the stubs into that array; it
  is one stub each time when it gave none.
\<close>

theorem image_stubs_pile_up:
  "rq_files (fst (make_request (((snd \<circ> make_request) ^^ n) opts))) =
     (case o_files opts of
        Some files \<Rightarrow> files @ concat (replicate (Suc n) (map image_file (or_default [] (o_images opts))))
      | None \<Rightarrow> map image_file (or_default [] (o_images opts)))"
proof -
  let ?stubs = "map image_file (or_default [] (o_images opts))"
  have "((snd \<circ> make_request) ^^ n) opts =
      (case o_files opts of None \<Rightarrow> opts | Some files \<Rightarrow> opts\<lparr>o_files := Some (files @ concat (replicate n ?stubs))\<rparr>)"
  proof (induction n)
    case (Suc n)
    have "concat (replicate n ?stubs) @ ?stubs = ?stubs @ concat (replicate n ?stubs)"
      by (induction n) simp_all
    with Suc show ?case
      by (auto simp: make_request_def image_files or_default_def Let_def split: option.splits)
  qed (simp split: option.split)
  moreover have "concat (replicate n ?stubs) @ ?stubs = ?stubs @ concat (replicate n ?stubs)"
    by (induction n) simp_all
  ultimately show ?thesis
    by (auto simp: make_request_def image_files or_default_def Let_def split: option.splits)
qed

text \<open>
  \<open>renderJSONObject\<close> asks for the format \<open>json\<close> whatever format the caller wants, \<open>json0\<close> included:
  its test for the two formats is always true.
\<close>

theorem json_format_is_ignored:
  "fst (renderJSONObject render src opts) =
     promise_then (render src (fst (make_request (opts\<lparr>o_format := Some ''json''\<rparr>)))) json_promise"
  by (simp add: renderJSONObject_def render_as_def renderString_def case_prod_unfold Let_def)

end
