(* ===== verification/Viz_Image.thy ===== *)
theory Viz_Image
  imports Complex_Main "HOL-Library.Word" Viz
begin

text \<open>
  The images of viz.js: \<open>renderImageElement\<close> draws the SVG text of a graph into a canvas, through an
  image of the browser whose address carries the text in base 64, or through the Fabric library.
\<close>

section \<open>The address of the SVG text\<close>

text \<open>
  A string of the language is a list of code units of 16 bits; a code point beyond them is a pair of
  surrogates. \<open>code_points\<close> is \<open>None\<close> for a text with a surrogate that has no partner.
\<close>

type_synonym code_units = "16 word list"

definition units :: "string \<Rightarrow> code_units" where
  "units s = map of_char s"

definition high_surrogate :: "16 word \<Rightarrow> bool" where
  "high_surrogate u \<longleftrightarrow> 0xD800 \<le> unat u \<and> unat u < 0xDC00"

definition low_surrogate :: "16 word \<Rightarrow> bool" where
  "low_surrogate u \<longleftrightarrow> 0xDC00 \<le> unat u \<and> unat u < 0xE000"

definition code_point :: "16 word \<Rightarrow> 16 word \<Rightarrow> nat" where
  "code_point h l = 0x10000 + (unat h - 0xD800) * 1024 + (unat l - 0xDC00)"

fun code_points :: "code_units \<Rightarrow> nat list option" where
  "code_points [] = Some []"
| "code_points [u] = (if high_surrogate u \<or> low_surrogate u then None else Some [unat u])"
| "code_points (u # v # us) =
     (if high_surrogate u then
        (if low_surrogate v then map_option (Cons (code_point u v)) (code_points us) else None)
      else if low_surrogate u then None else map_option (Cons (unat u)) (code_points (v # us)))"

text \<open>The bytes of UTF-8 of a code point.\<close>

definition utf8_bytes :: "nat \<Rightarrow> string" where
  "utf8_bytes n = map char_of
     (if n < 0x80 then [n]
      else if n < 0x800 then [192 + n div 64, 128 + n mod 64]
      else if n < 0x10000 then [224 + n div 4096, 128 + n div 64 mod 64, 128 + n mod 64]
      else [240 + n div 262144, 128 + n div 4096 mod 64, 128 + n div 64 mod 64, 128 + n mod 64])"

definition unreserved :: "char \<Rightarrow> bool" where
  "unreserved c \<longleftrightarrow> is_upper c \<or> is_lower c \<or> is_digit 10 c \<or> c \<in> set (''-_.!~*()'' @ [CHR 0x27])"

definition hex_upper :: "nat \<Rightarrow> char" where
  "hex_upper d = (if d < 10 then char_of (48 + d) else char_of (55 + d))"

definition percent :: "char \<Rightarrow> string" where
  "percent b = [CHR ''%'', hex_upper (of_char b div 16), hex_upper (of_char b mod 16)]"

definition encode_point :: "nat \<Rightarrow> string" where
  "encode_point n = (if n < 128 \<and> unreserved (char_of n) then [char_of n] else concat (map percent (utf8_bytes n)))"

text \<open>\<open>encodeURIComponent\<close>; \<open>None\<close> is the exception \<open>URIError\<close>.\<close>

definition encodeURIComponent :: "code_units \<Rightarrow> string option" where
  "encodeURIComponent s = map_option (\<lambda>ns. concat (map encode_point ns)) (code_points s)"

text \<open>\<open>replace(/%([0-9A-F]{2})/g, ...)\<close> with \<open>String.fromCharCode('0x' + p1)\<close>.\<close>

definition is_hex_upper :: "char \<Rightarrow> bool" where
  "is_hex_upper c \<longleftrightarrow> is_digit 16 c \<and> \<not> is_lower c"

fun replace_escapes :: "string \<Rightarrow> string" where
  "replace_escapes (p # h # l # rest) =
     (if p = CHR ''%'' \<and> is_hex_upper h \<and> is_hex_upper l
      then char_of (the (hex_byte h l)) # replace_escapes rest else p # replace_escapes (h # l # rest))"
| "replace_escapes s = s"

text \<open>\<open>btoa\<close>.\<close>

definition b64_alphabet :: string where
  "b64_alphabet = ''ABCDEFGHIJKLMNOPQRSTUVWXYZabcdefghijklmnopqrstuvwxyz0123456789+/''"

definition b64_char :: "nat \<Rightarrow> char" where
  "b64_char n = b64_alphabet ! n"

fun btoa :: "string \<Rightarrow> string" where
  "btoa [] = []"
| "btoa [a] = (let n = of_char a * 16 in [b64_char (n div 64), b64_char (n mod 64)] @ ''=='')"
| "btoa [a, b] = (let n = (of_char a * 256 + of_char b) * 4
     in [b64_char (n div 4096), b64_char (n div 64 mod 64), b64_char (n mod 64)] @ ''='')"
| "btoa (a # b # c # s) = (let n = (of_char a * 256 + of_char b) * 256 + of_char c
     in [b64_char (n div 262144), b64_char (n div 4096 mod 64), b64_char (n div 64 mod 64), b64_char (n mod 64)] @ btoa s)"

definition b64EncodeUnicode :: "code_units \<Rightarrow> string option" where
  "b64EncodeUnicode str = map_option (\<lambda>s. btoa (replace_escapes s)) (encodeURIComponent str)"

section \<open>Images\<close>

record image_options =
  i_scale :: "rat option"
  i_mimeType :: "string option"
  i_quality :: "rat option"

text \<open>What the browser makes of the address of an image, and the image that is handed out.\<close>

datatype image_load = ImageLoaded nat nat | ImageError "string option"

record image_element =
  im_canvas :: "nat \<times> nat"
  im_mimeType :: string
  im_quality :: rat
  im_width :: nat
  im_height :: nat

definition defaultScale :: "rat option \<Rightarrow> rat" where
  "defaultScale devicePixelRatio =
     (case devicePixelRatio of Some r \<Rightarrow> if r > 1 then r else 1 | None \<Rightarrow> 1)"

text \<open>An exception in the function that is given to \<open>new Promise\<close> rejects the promise.\<close>

definition svgXmlToImageElement :: "rat option \<Rightarrow> (string \<Rightarrow> image_load) \<Rightarrow> code_units \<Rightarrow> image_options \<Rightarrow>
    image_element promised" where
  "svgXmlToImageElement devicePixelRatio load svgXml opts =
     (let scale = (case i_scale opts of None \<Rightarrow> defaultScale devicePixelRatio | Some s \<Rightarrow> s);
          mimeType = or_default ''image/png'' (i_mimeType opts);
          quality = or_default 1 (i_quality opts)
      in case b64EncodeUnicode svgXml of
           None \<Rightarrow> Failed ''URIError: URI malformed''
         | Some code \<Rightarrow> (case load (''data:image/svg+xml;base64,'' @ code) of
             ImageLoaded w h \<Rightarrow> Fulfilled \<lparr>im_canvas = (nat \<lfloor>of_nat w * scale\<rfloor>, nat \<lfloor>of_nat h * scale\<rfloor>),
               im_mimeType = mimeType, im_quality = quality, im_width = w, im_height = h\<rparr>
           | ImageError (Some e) \<Rightarrow> Failed e
           | ImageError None \<Rightarrow> Failed ''Error loading SVG''))"

text \<open>Fabric: the number of objects it read and the size of the drawing.\<close>

record fabric_image =
  fi_format :: "string option"
  fi_multiplier :: rat
  fi_quality :: rat
  fi_width :: nat
  fi_height :: nat

definition svgXmlToImageElementFabric :: "rat option \<Rightarrow> (string \<Rightarrow> nat \<times> nat \<times> nat) \<Rightarrow> string \<Rightarrow> image_options \<Rightarrow>
    fabric_image promised" where
  "svgXmlToImageElementFabric devicePixelRatio loadSVG svgXml opts =
     (let scale = (case i_scale opts of None \<Rightarrow> defaultScale devicePixelRatio | Some s \<Rightarrow> s);
          mimeType = or_default ''image/png'' (i_mimeType opts);
          quality = or_default 1 (i_quality opts);
          format = (if mimeType = ''image/jpeg'' then Some ''jpeg'' else if mimeType = ''image/png'' then Some ''png'' else None);
          (objects, w, h) = loadSVG svgXml
      in if objects = 0 then Failed ''Error loading SVG with Fabric''
         else Fulfilled \<lparr>fi_format = format, fi_multiplier = scale, fi_quality = quality, fi_width = w, fi_height = h\<rparr>)"

datatype rendered_image = CanvasImage image_element | FabricImage fabric_image

fun map_promised :: "('a \<Rightarrow> 'b) \<Rightarrow> 'a promised \<Rightarrow> 'b promised" where
  "map_promised f (Fulfilled x) = Fulfilled (f x)"
| "map_promised f (Failed e) = Failed e"

definition renderImageElement :: "rat option \<Rightarrow> (string \<Rightarrow> image_load) \<Rightarrow> (string \<Rightarrow> nat \<times> nat \<times> nat) option \<Rightarrow>
    (string \<Rightarrow> viz_request \<Rightarrow> outcome) \<Rightarrow> string \<Rightarrow> viz_options \<Rightarrow> image_options \<Rightarrow> rendered_image promised \<times> viz_options" where
  "renderImageElement devicePixelRatio load fabric render src opts iopts =
     (let (r, opts) = render_as ''svg'' render src opts
      in (promise_then r (\<lambda>str. case fabric of
            Some loadSVG \<Rightarrow> map_promised FabricImage (svgXmlToImageElementFabric devicePixelRatio loadSVG str iopts)
          | None \<Rightarrow> map_promised CanvasImage (svgXmlToImageElement devicePixelRatio load (units str) iopts)), opts))"

section \<open>The text arrives\<close>

text \<open>The readers of the address: base 64, the bytes of UTF-8, and the code units of a code point.\<close>

definition b64_index :: "char \<Rightarrow> nat" where
  "b64_index c = the (map_of (zip b64_alphabet [0..<64]) c)"

fun atob :: "string \<Rightarrow> string" where
  "atob (a # b # c # d # s) =
     (if c = CHR ''='' then [char_of ((b64_index a * 64 + b64_index b) div 16)]
      else if d = CHR ''='' then
        (let n = ((b64_index a * 64 + b64_index b) * 64 + b64_index c) div 4 in [char_of (n div 256), char_of (n mod 256)])
      else (let n = ((b64_index a * 64 + b64_index b) * 64 + b64_index c) * 64 + b64_index d
            in [char_of (n div 65536), char_of (n div 256 mod 256), char_of (n mod 256)] @ atob s))"
| "atob s = []"

definition tail_bits :: "char \<Rightarrow> nat" where
  "tail_bits c = of_char c - 128"

fun utf8_decode :: "string \<Rightarrow> nat list" where
  "utf8_decode [] = []"
| "utf8_decode (a # s) = (let n = of_char a in
     if n < 128 then n # utf8_decode s
     else case s of
       b # s1 \<Rightarrow>
         if n < 224 then ((n - 192) * 64 + tail_bits b) # utf8_decode s1
         else (case s1 of
           c # s2 \<Rightarrow>
             if n < 240 then (((n - 224) * 64 + tail_bits b) * 64 + tail_bits c) # utf8_decode s2
             else (case s2 of
               d # s3 \<Rightarrow> ((((n - 240) * 64 + tail_bits b) * 64 + tail_bits c) * 64 + tail_bits d) # utf8_decode s3
             | [] \<Rightarrow> [])
         | [] \<Rightarrow> [])
     | [] \<Rightarrow> [])"

definition utf16 :: "nat \<Rightarrow> code_units" where
  "utf16 n = (if n < 0x10000 then [of_nat n]
     else [of_nat (0xD800 + (n - 0x10000) div 1024), of_nat (0xDC00 + (n - 0x10000) mod 1024)])"

text \<open>A surrogate without its partner.\<close>

definition lone_surrogate :: "code_units \<Rightarrow> nat \<Rightarrow> bool" where
  "lone_surrogate s i \<longleftrightarrow> high_surrogate (s ! i) \<and> (length s \<le> Suc i \<or> \<not> low_surrogate (s ! Suc i))
     \<or> low_surrogate (s ! i) \<and> (i = 0 \<or> \<not> high_surrogate (s ! (i - 1)))"

lemma b64_distinct: "distinct b64_alphabet" and b64_length: "length b64_alphabet = 64"
  by code_simp+

lemma b64_index_char: "n < 64 \<Longrightarrow> b64_index (b64_char n) = n"
  using map_of_zip_nth [of b64_alphabet "[0..<64]" n] b64_distinct b64_length by (simp add: b64_index_def b64_char_def)

lemma b64_char_no_pad: "n < 64 \<Longrightarrow> b64_char n \<noteq> CHR ''=''"
proof -
  assume "n < 64"
  then have "b64_char n \<in> set b64_alphabet" using b64_length by (simp add: b64_char_def)
  moreover have "CHR ''='' \<notin> set b64_alphabet" by code_simp
  ultimately show ?thesis by metis
qed

lemma b64_digits:
  "n div 64 * 64 + n mod 64 = n" "(n div 4096 * 64 + n div 64 mod 64) * 64 + n mod 64 = n"
  "((n div 262144 * 64 + n div 4096 mod 64) * 64 + n div 64 mod 64) * 64 + n mod 64 = n" for n :: nat
proof -
  have a: "n div 4096 = n div 64 div 64" and b: "n div 262144 = n div 64 div 64 div 64"
    using div_mult2_eq [of n 64 64] div_mult2_eq [of n 4096 64] by simp_all
  show "n div 64 * 64 + n mod 64 = n" "(n div 4096 * 64 + n div 64 mod 64) * 64 + n mod 64 = n"
    "((n div 262144 * 64 + n div 4096 mod 64) * 64 + n div 64 mod 64) * 64 + n mod 64 = n"
    unfolding a b by (simp_all only: div_mult_mod_eq)
qed

lemma byte_digits:
  fixes x y z :: nat
  assumes "x < 256" "y < 256" "z < 256"
  shows "x * 16 div 64 < 64" "(x * 256 + y) * 4 div 4096 < 64" "((x * 256 + y) * 256 + z) div 262144 < 64"
    "x * 16 div 16 = x" "(x * 256 + y) * 4 div 4 div 256 = x" "(x * 256 + y) * 4 div 4 mod 256 = y"
    "((x * 256 + y) * 256 + z) div 65536 = x" "((x * 256 + y) * 256 + z) div 256 mod 256 = y"
    "((x * 256 + y) * 256 + z) mod 256 = z"
proof -
  have n: "(x * 256 + y) * 256 + z = x * 65536 + (y * 256 + z)" by simp
  have "y * 256 + z < 65536" using assms by simp
  then show "((x * 256 + y) * 256 + z) div 65536 = x" unfolding n by simp
  show "x * 16 div 64 < 64" "(x * 256 + y) * 4 div 4096 < 64" "((x * 256 + y) * 256 + z) div 262144 < 64"
    using assms by (intro less_mult_imp_div_less, simp)+
  show "((x * 256 + y) * 256 + z) div 256 mod 256 = y" "((x * 256 + y) * 256 + z) mod 256 = z"
    using div_mult_self3 [of 256 "x * 256 + y" z] assms by (simp_all only: mod_mult_self3 zero_neq_numeral not_False_eq_True
      simp_thms div_less mod_less add_0_right)
qed (use assms in simp_all)

lemmas char_digits = byte_digits [OF nat_of_char_less_256 nat_of_char_less_256 nat_of_char_less_256]

lemma atob_btoa: "atob (btoa s) = s"
proof (induction s rule: btoa.induct)
  case (2 a)
  note b = byte_digits(1,4) [of "of_char a" 0 0, simplified]
  show ?case using b64_digits(1) [of "of_char a * 16"] b by (simp add: b64_index_char Let_def)
next
  case (3 a b)
  let ?n = "(of_char a * 256 + of_char b) * 4 :: nat"
  note b = char_digits(2,5,6) [of a b]
  have "atob (btoa [a, b]) = (let n = ((?n div 4096 * 64 + ?n div 64 mod 64) * 64 + ?n mod 64) div 4
      in [char_of (n div 256), char_of (n mod 256)])"
    using b by (simp add: b64_index_char b64_char_no_pad Let_def)
  also have "\<dots> = [a, b]" unfolding b64_digits(2) Let_def b by (simp only: char_of_char)
  finally show ?case .
next
  case (4 a b c s)
  let ?n = "(of_char a * 256 + of_char b) * 256 + of_char c :: nat"
  note b = char_digits(3,7,8,9) [of a b c]
  have "atob (btoa (a # b # c # s)) = (let n = ((?n div 262144 * 64 + ?n div 4096 mod 64) * 64 + ?n div 64 mod 64) * 64 + ?n mod 64
      in [char_of (n div 65536), char_of (n div 256 mod 256), char_of (n mod 256)] @ atob (btoa s))"
    using b by (simp add: b64_index_char b64_char_no_pad Let_def)
  also have "\<dots> = a # b # c # s" unfolding b64_digits(3) Let_def b using 4 by (simp only: char_of_char append.simps Let_def)
  finally show ?case .
qed simp

lemma replace_plain: "c \<noteq> CHR ''%'' \<Longrightarrow> replace_escapes (c # s) = c # replace_escapes s"
  by (cases s rule: replace_escapes.cases) auto

lemma hex_upper_digit:
  "d < 16 \<Longrightarrow> digit_val (hex_upper d) = Some d \<and> \<not> is_lower (hex_upper d)"
  by (auto simp: digit_val_def hex_upper_def is_lower_def of_char_of Let_def)

lemma replace_percent: "replace_escapes (percent b @ s) = b # replace_escapes s"
proof -
  have "of_char b div 16 < (16 :: nat)" "of_char b mod 16 < (16 :: nat)"
    using less_mult_imp_div_less [of "of_char b" 16 16] by simp_all
  note d = this this [THEN hex_upper_digit]
  have "hex_byte (hex_upper (of_char b div 16)) (hex_upper (of_char b mod 16)) = Some (of_char b)"
    using d by (simp add: hex_byte_def is_digit_def)
  with d show ?thesis by (simp add: percent_def is_hex_upper_def is_digit_def)
qed

lemma unreserved_plain: "unreserved c \<Longrightarrow> c \<noteq> CHR ''%''"
  by (auto simp: unreserved_def is_upper_def is_lower_def is_digit_def digit_val_def Let_def split: if_splits)

lemma replace_encode: "replace_escapes (concat (map encode_point ns)) = concat (map utf8_bytes ns)"
proof (induction ns)
  case (Cons n ns)
  have bytes: "replace_escapes (concat (map percent bs) @ r) = bs @ replace_escapes r" for bs r
    by (induction bs) (simp_all add: replace_percent)
  show ?case
  proof (cases "n < 128 \<and> unreserved (char_of n)")
    case True
    with Cons unreserved_plain [of "char_of n"] show ?thesis by (simp add: encode_point_def replace_plain utf8_bytes_def)
  next
    case False
    then have "encode_point n = concat (map percent (utf8_bytes n))" by (auto simp: encode_point_def)
    with Cons bytes show ?thesis by simp
  qed
qed simp

lemma char_byte: "n < 256 \<Longrightarrow> of_char (char_of n :: char) = (n :: nat)"
  by (simp add: of_char_of)

lemma tail_bits_char: "k < 64 \<Longrightarrow> tail_bits (char_of (128 + k)) = k"
  by (simp add: tail_bits_def char_byte)

lemma utf8_decode_sequence:
  assumes "b < 64" "c < 64" "d < 64"
  shows "a < 32 \<Longrightarrow> utf8_decode (char_of (192 + a) # char_of (128 + b) # s) = (a * 64 + b) # utf8_decode s"
    and "a < 16 \<Longrightarrow> utf8_decode (char_of (224 + a) # char_of (128 + b) # char_of (128 + c) # s) =
      ((a * 64 + b) * 64 + c) # utf8_decode s"
    and "a < 8 \<Longrightarrow> utf8_decode (char_of (240 + a) # char_of (128 + b) # char_of (128 + c) # char_of (128 + d) # s) =
      (((a * 64 + b) * 64 + c) * 64 + d) # utf8_decode s"
  using assms by (simp_all add: char_byte tail_bits_char)

lemma utf8_decode_bytes:
  assumes "n < 0x110000"
  shows "utf8_decode (utf8_bytes n @ s) = n # utf8_decode s"
proof -
  have m: "n mod 64 < 64" "n div 64 mod 64 < 64" "n div 4096 mod 64 < 64" by simp_all
  note seq = utf8_decode_sequence
  consider "n < 0x80" | "0x80 \<le> n" "n < 0x800" | "0x800 \<le> n" "n < 0x10000" | "0x10000 \<le> n" by linarith
  then show ?thesis
  proof cases
    case 1
    then show ?thesis by (simp add: utf8_bytes_def char_byte)
  next
    case 2
    then have "utf8_bytes n @ s = char_of (192 + n div 64) # char_of (128 + n mod 64) # s"
      by (simp only: utf8_bytes_def not_less [symmetric] if_False if_True list.map append.simps)
    moreover have "n div 64 < 32" using 2 by (intro less_mult_imp_div_less) simp
    ultimately show ?thesis using seq(1) [OF m(1) m(1) m(1)] by (simp only: b64_digits)
  next
    case 3
    then have "\<not> n < 0x80" by simp
    with 3 have "utf8_bytes n @ s =
        char_of (224 + n div 4096) # char_of (128 + n div 64 mod 64) # char_of (128 + n mod 64) # s"
      by (simp only: utf8_bytes_def not_less [symmetric] if_False if_True list.map append.simps)
    moreover have "n div 4096 < 16" using 3 by (intro less_mult_imp_div_less) simp
    ultimately show ?thesis using seq(2) [OF m(2) m(1) m(1)] by (simp only: b64_digits)
  next
    case 4
    then have "\<not> n < 0x80" "\<not> n < 0x800" by simp_all
    with 4 have "utf8_bytes n @ s = char_of (240 + n div 262144) # char_of (128 + n div 4096 mod 64) #
        char_of (128 + n div 64 mod 64) # char_of (128 + n mod 64) # s"
      by (simp only: utf8_bytes_def not_less [symmetric] if_False list.map append.simps)
    moreover have "n div 262144 < 8" using assms by (intro less_mult_imp_div_less) simp
    ultimately show ?thesis using seq(3) [OF m(3) m(2) m(1)] by (simp only: b64_digits)
  qed
qed

lemma utf16_pair:
  assumes "high_surrogate h" and "low_surrogate l"
  shows "utf16 (code_point h l) = [h, l]" and "code_point h l < 0x110000"
proof -
  let ?a = "unat h - 0xD800" and ?b = "unat l - 0xDC00"
  have b: "?b < 1024" "?a < 1024" using assms by (auto simp: high_surrogate_def low_surrogate_def)
  then have "(code_point h l - 0x10000) div 1024 = ?a" "(code_point h l - 0x10000) mod 1024 = ?b"
    by (simp_all add: code_point_def)
  moreover have "0xD800 + ?a = unat h" "0xDC00 + ?b = unat l"
    using assms by (auto simp: high_surrogate_def low_surrogate_def)
  ultimately show "utf16 (code_point h l) = [h, l]" by (simp add: utf16_def code_point_def)
  show "code_point h l < 0x110000" using b by (simp add: code_point_def)
qed

lemma utf16_unit: "utf16 (unat u) = [u]" "unat u < 0x110000" for u :: "16 word"
proof -
  have "unat u < 2 ^ LENGTH(16)" by (rule unsigned_less)
  then have "unat u < 0x10000" by simp
  then show "utf16 (unat u) = [u]" "unat u < 0x110000" by (simp_all add: utf16_def)
qed

lemma code_points_units:
  "code_points s = Some ns \<Longrightarrow> concat (map utf16 ns) = s \<and> (\<forall>n \<in> set ns. n < 0x110000)"
proof (induction s arbitrary: ns rule: code_points.induct)
  case (2 u)
  then show ?case using utf16_unit [of u] by (auto split: if_splits)
next
  case (3 u v us)
  then show ?case using utf16_unit [of u] utf16_pair [of u v] by (auto split: if_splits)
qed simp

lemma lone_Cons:
  "\<not> high_surrogate u \<Longrightarrow> lone_surrogate (u # s) (Suc i) \<longleftrightarrow> lone_surrogate s i"
  by (cases i) (auto simp: lone_surrogate_def)

lemma surrogates_differ: "high_surrogate u \<Longrightarrow> \<not> low_surrogate u"
  by (auto simp: high_surrogate_def low_surrogate_def)

lemma lone_pair:
  "high_surrogate u \<Longrightarrow> low_surrogate v \<Longrightarrow> lone_surrogate (u # v # s) (Suc (Suc i)) \<longleftrightarrow> lone_surrogate s i"
  using surrogates_differ [of v] by (cases i) (auto simp: lone_surrogate_def)

lemma ex_less_Suc: "(\<exists>i < Suc n. P i) \<longleftrightarrow> P 0 \<or> (\<exists>i < n. P (Suc i))"
  using less_Suc_eq_0_disj by auto

lemma code_points_None: "code_points s = None \<longleftrightarrow> (\<exists>i < length s. lone_surrogate s i)"
proof (induction s rule: code_points.induct)
  case (2 u)
  then show ?case by (auto simp: lone_surrogate_def)
next
  case (3 u v us)
  consider (pair) "high_surrogate u" "low_surrogate v" | (high) "high_surrogate u" "\<not> low_surrogate v"
    | (low) "\<not> high_surrogate u" "low_surrogate u" | (plain) "\<not> high_surrogate u" "\<not> low_surrogate u" by blast
  then show ?case
  proof cases
    case pair
    then have "\<not> lone_surrogate (u # v # us) 0" "\<not> lone_surrogate (u # v # us) 1"
      using surrogates_differ by (auto simp: lone_surrogate_def)
    with pair 3 show ?thesis by (simp add: ex_less_Suc lone_pair)
  next
    case plain
    then have "\<not> lone_surrogate (u # v # us) 0" by (simp add: lone_surrogate_def)
    with plain 3 show ?thesis by (simp add: ex_less_Suc [of "Suc (length us)"] lone_Cons)
  qed (auto simp: lone_surrogate_def)
qed simp

text \<open>
  C32: The address that \<open>svgXmlToImageElement\<close> gives its image carries the SVG text, for every text of
  code units: reading its base 64 part, the UTF-8 bytes in it and the code points in them gives the
  text back; only for a text with a surrogate that has no partner there is no address, because
  \<open>encodeURIComponent\<close> throws.
\<close>

theorem svg_address_round_trip:
  "map_option (\<lambda>code. concat (map utf16 (utf8_decode (atob code)))) (b64EncodeUnicode svgXml) =
     (if list_ex (lone_surrogate svgXml) [0..<length svgXml] then None else Some svgXml)"
proof (cases "code_points svgXml")
  case None
  then show ?thesis using code_points_None [of svgXml] by (auto simp: b64EncodeUnicode_def encodeURIComponent_def list_ex_iff)
next
  case (Some ns)
  note cp = code_points_units [OF Some]
  have "utf8_decode (concat (map utf8_bytes ns)) = ns" if "\<forall>n \<in> set ns. n < 0x110000" for ns
    using that by (induction ns) (simp_all add: utf8_decode_bytes)
  with cp Some have "map_option (\<lambda>code. concat (map utf16 (utf8_decode (atob code)))) (b64EncodeUnicode svgXml) = Some svgXml"
    by (simp add: b64EncodeUnicode_def encodeURIComponent_def atob_btoa replace_encode)
  moreover have "\<not> list_ex (lone_surrogate svgXml) [0..<length svgXml]"
    using code_points_None [of svgXml] Some by (auto simp: list_ex_iff)
  ultimately show ?thesis by simp
qed

text \<open>The texts that the renderer hands over in this model have no surrogates.\<close>

lemma units_encoded: "\<exists>code. b64EncodeUnicode (units s) = Some code"
proof -
  have below: "\<not> high_surrogate u \<and> \<not> low_surrogate u" if "unat u < 0xD800" for u
    using that by (simp add: high_surrogate_def low_surrogate_def)
  have "unat (of_char c :: 16 word) = of_char c" for c
  proof -
    have "(of_char c :: 16 word) = of_nat (of_char c)" by (cases c) simp
    moreover have "of_char c < (2 :: nat) ^ LENGTH(16)" by (rule less_trans [OF nat_of_char_less_256]) simp
    ultimately show ?thesis by (simp only: unat_of_nat mod_less)
  qed
  moreover have "of_char c < (0xD800 :: nat)" for c by (rule less_trans [OF nat_of_char_less_256]) simp
  ultimately have n: "\<not> high_surrogate (of_char c)" "\<not> low_surrogate (of_char c)" for c
    using below [of "of_char c"] by simp_all
  have "code_points (units s) \<noteq> None"
    unfolding code_points_None by (auto simp: lone_surrogate_def units_def n)
  then show ?thesis by (auto simp: b64EncodeUnicode_def encodeURIComponent_def)
qed

section \<open>The size of an image\<close>

lemma defaultScale_ge: "1 \<le> defaultScale r"
  by (simp add: defaultScale_def split: option.split)

lemma scaled_pixels:
  fixes scale :: rat
  assumes "1 \<le> scale"
  shows "n \<le> nat \<lfloor>of_nat n * scale\<rfloor>" and "of_nat (nat \<lfloor>of_nat n * scale\<rfloor>) \<le> of_nat n * scale"
proof -
  have "of_nat n * 1 \<le> of_nat n * scale" using assms by (intro mult_left_mono) simp_all
  then have n: "int n \<le> \<lfloor>of_nat n * scale\<rfloor>" by (simp add: le_floor_iff)
  then show "n \<le> nat \<lfloor>of_nat n * scale\<rfloor>" by simp
  show "of_nat (nat \<lfloor>of_nat n * scale\<rfloor>) \<le> of_nat n * scale"
  proof -
    have "(of_nat (nat \<lfloor>of_nat n * scale\<rfloor>) :: rat) = of_int \<lfloor>of_nat n * scale\<rfloor>" using n by (intro of_nat_nat) linarith
    then show ?thesis using of_int_floor_le [of "of_nat n * scale"] by simp
  qed
qed

text \<open>
  Unless the caller gives a scale, the canvas of an image has at least one pixel for each pixel
  of the drawing in both directions, and no more than the ratio of the device asks for, whatever
  that ratio is; the image that is handed out has the size of the drawing.
\<close>

theorem canvas_bounds:
  assumes "i_scale opts = None" and "b64EncodeUnicode svgXml = Some code"
    and "load (''data:image/svg+xml;base64,'' @ code) = ImageLoaded w h"
  shows "\<exists>im. svgXmlToImageElement r load svgXml opts = Fulfilled im \<and> im_width im = w \<and> im_height im = h
    \<and> w \<le> fst (im_canvas im) \<and> of_nat (fst (im_canvas im)) \<le> of_nat w * defaultScale r
    \<and> h \<le> snd (im_canvas im) \<and> of_nat (snd (im_canvas im)) \<le> of_nat h * defaultScale r"
  using assms scaled_pixels [OF defaultScale_ge [of r]] by (simp add: svgXmlToImageElement_def Let_def)

definition fixed_size :: "string \<Rightarrow> image_load" where
  "fixed_size url = ImageLoaded 5 3"

theorem canvas_bounds_witness:
  "let opts = \<lparr>i_scale = None, i_mimeType = None, i_quality = None\<rparr>
   in \<exists>im. svgXmlToImageElement (Some (3 / 2)) fixed_size (units ''<svg/>'') opts = Fulfilled im \<and> im_canvas im = (7, 4)
      \<and> 5 \<le> fst (im_canvas im) \<and> 3 \<le> snd (im_canvas im)"
proof -
  let ?opts = "\<lparr>i_scale = None, i_mimeType = None, i_quality = None\<rparr>"
  obtain code where b: "b64EncodeUnicode (units ''<svg/>'') = Some code" using units_encoded by blast
  have l: "fixed_size (''data:image/svg+xml;base64,'' @ code) = ImageLoaded 5 3" by (simp add: fixed_size_def)
  have c: "svgXmlToImageElement (Some (3 / 2)) fixed_size (units ''<svg/>'') ?opts =
      Fulfilled \<lparr>im_canvas = (7, 4), im_mimeType = ''image/png'', im_quality = 1, im_width = 5, im_height = 3\<rparr>"
  proof -
    have "\<lfloor>15 / 2 :: rat\<rfloor> = 7" "\<lfloor>9 / 2 :: rat\<rfloor> = 4" by (simp_all add: floor_eq_iff)
    then show ?thesis using b l by (simp add: svgXmlToImageElement_def defaultScale_def or_default_def)
  qed
  from canvas_bounds [of ?opts "units ''<svg/>''" code fixed_size 5 3 "Some (3 / 2)"] b l c show ?thesis unfolding Let_def by auto
qed

end
