(* ===== verification/Application.thy ===== *)
theory Application
  imports Value_List Router
begin

text \<open>
  \<open>ScopeObserver\<close> and \<open>Application\<close> of stimulus.js: the chain from mutation records over
  elements, tokens and scopes to the controllers of the registered modules, and the theorem
  that the controllers follow the document.
\<close>

section \<open>ScopeObserver\<close>

record scope_system =
  scopesByIdentifierByElement :: "(nat, (string, scope) jsmap) jsmap"
  scopeReferenceCounts :: "(scope, nat) jsmap"
  router_st :: router

definition fetchScopesByIdentifierForElement ::
  "nat \<Rightarrow> scope_system \<Rightarrow> (string, scope) jsmap \<times> scope_system" where
  "fetchScopesByIdentifierForElement element sy =
     (case map_of (scopesByIdentifierByElement sy) element of
        Some m \<Rightarrow> (m, sy)
      | None \<Rightarrow> ([], sy\<lparr>scopesByIdentifierByElement :=
          AList.update element [] (scopesByIdentifierByElement sy)\<rparr>))"

definition createScopeForElementAndIdentifier :: "nat \<Rightarrow> string \<Rightarrow> scope" where
  "createScopeForElementAndIdentifier element identifier =
     \<lparr>scope_element = element, scope_identifier = identifier\<rparr>"

definition ScopeObserver_parseValueForToken ::
  "token \<Rightarrow> scope_system \<Rightarrow> scope parse_result \<times> scope_system" where
  "ScopeObserver_parseValueForToken tok sy =
     (let element = tok_element tok;
          identifier = tok_content tok;
          (m, sy) = fetchScopesByIdentifierForElement element sy
      in case map_of m identifier of
           Some sc \<Rightarrow> (Inr (Some sc), sy)
         | None \<Rightarrow> (let sc = createScopeForElementAndIdentifier element identifier
             in (Inr (Some sc), sy\<lparr>scopesByIdentifierByElement :=
                  AList.update element (AList.update identifier sc m) (scopesByIdentifierByElement sy)\<rparr>)))"

definition ScopeObserver_elementMatchedValue :: "nat \<Rightarrow> scope \<Rightarrow> scope_system \<Rightarrow> scope_system" where
  "ScopeObserver_elementMatchedValue element v sy =
     (let referenceCount = (case map_of (scopeReferenceCounts sy) v of None \<Rightarrow> 0 | Some n \<Rightarrow> n) + 1;
          sy = sy\<lparr>scopeReferenceCounts := AList.update v referenceCount (scopeReferenceCounts sy)\<rparr>
      in if referenceCount = 1 then sy\<lparr>router_st := scopeConnected v (router_st sy)\<rparr> else sy)"

definition ScopeObserver_elementUnmatchedValue :: "nat \<Rightarrow> scope \<Rightarrow> scope_system \<Rightarrow> scope_system" where
  "ScopeObserver_elementUnmatchedValue element v sy =
     (case map_of (scopeReferenceCounts sy) v of
        None \<Rightarrow> sy
      | Some referenceCount \<Rightarrow>
          if referenceCount = 0 then sy
          else
            (let sy = sy\<lparr>scopeReferenceCounts :=
               AList.update v (referenceCount - 1) (scopeReferenceCounts sy)\<rparr>
             in if referenceCount = 1 then sy\<lparr>router_st := scopeDisconnected v (router_st sy)\<rparr> else sy))"

definition scope_delegate :: "(scope_system, scope) value_delegate" where
  "scope_delegate = \<lparr>parseValueForToken = ScopeObserver_parseValueForToken,
     elementMatchedValue = ScopeObserver_elementMatchedValue,
     elementUnmatchedValue = ScopeObserver_elementUnmatchedValue\<rparr>"

section \<open>ScopeObserver counts the tokens of a scope\<close>

definition scope_count :: "scope_system \<Rightarrow> scope \<Rightarrow> nat" where
  "scope_count sy v = (case map_of (scopeReferenceCounts sy) v of None \<Rightarrow> 0 | Some n \<Rightarrow> n)"

text \<open>The router knows a scope exactly while its count is positive.\<close>

definition scopes_ok :: "scope_system \<Rightarrow> bool" where
  "scopes_ok sy \<longleftrightarrow> router_ok (router_st sy)
     \<and> (\<forall>e m i sc. map_of (scopesByIdentifierByElement sy) e = Some m \<longrightarrow> map_of m i = Some sc \<longrightarrow>
          sc = \<lparr>scope_element = e, scope_identifier = i\<rparr>)
     \<and> (\<forall>sc. sc \<in> set (scopes_at (router_st sy) (scope_identifier sc)) \<longleftrightarrow> 0 < scope_count sy sc)"

definition scope_spec :: "token \<Rightarrow> scope parse_result \<Rightarrow> bool" where
  "scope_spec tok r \<longleftrightarrow>
     r = Inr (Some \<lparr>scope_element = tok_element tok, scope_identifier = tok_content tok\<rparr>)"

lemma scopes_ok_parse:
  assumes ok: "scopes_ok sy" and p: "ScopeObserver_parseValueForToken tok sy = (r, sy')"
  shows "scopes_ok sy' \<and> scope_count sy' = scope_count sy \<and> scope_spec tok r"
proof -
  let ?e = "tok_element tok" and ?i = "tok_content tok"
  obtain m sy1 where f: "fetchScopesByIdentifierForElement ?e sy = (m, sy1)" by fastforce
  have sy1: "map_of (scopesByIdentifierByElement sy1) = (map_of (scopesByIdentifierByElement sy))(?e \<mapsto> m)"
    "router_st sy1 = router_st sy" "scopeReferenceCounts sy1 = scopeReferenceCounts sy"
    using f by (auto simp: fetchScopesByIdentifierForElement_def split: option.splits)
  have m: "map_of m i = Some sc \<Longrightarrow> sc = \<lparr>scope_element = ?e, scope_identifier = i\<rparr>" for i sc
    using ok f by (auto simp: fetchScopesByIdentifierForElement_def scopes_ok_def split: option.splits)
  define sc where "sc = \<lparr>scope_element = ?e, scope_identifier = ?i\<rparr>"
  define m' where "m' = (if map_of m ?i = None then AList.update ?i sc m else m)"
  have r: "r = Inr (Some sc)"
    and cache: "map_of (scopesByIdentifierByElement sy') = (map_of (scopesByIdentifierByElement sy))(?e \<mapsto> m')"
    and rest: "router_st sy' = router_st sy" "scopeReferenceCounts sy' = scopeReferenceCounts sy"
    using p m [of ?i] sy1 unfolding ScopeObserver_parseValueForToken_def
    by (auto simp: f Let_def createScopeForElementAndIdentifier_def sc_def m'_def split: option.splits)
  have m': "map_of m' i = map_of m i \<or> (i = ?i \<and> map_of m' i = Some sc)" for i
    by (simp add: m'_def)
  have "x = \<lparr>scope_element = e, scope_identifier = i\<rparr>"
    if "map_of (scopesByIdentifierByElement sy') e = Some mm" "map_of mm i = Some x" for e mm i x
  proof (cases "e = ?e")
    case True
    with that cache have "mm = m'" by simp
    with m' [of i] m [of i x] that(2) True show ?thesis by (auto simp: sc_def)
  next
    case False
    with that cache ok show ?thesis by (simp add: scopes_ok_def)
  qed
  with ok rest r show ?thesis by (auto simp: scopes_ok_def scope_count_def scope_spec_def sc_def fun_eq_iff)
qed

lemma scopes_ok_matched:
  assumes ok: "scopes_ok sy"
  shows "scopes_ok (ScopeObserver_elementMatchedValue e v sy)
    \<and> scope_count (ScopeObserver_elementMatchedValue e v sy) = (scope_count sy)(v := Suc (scope_count sy v))"
proof -
  let ?sy = "ScopeObserver_elementMatchedValue e v sy"
  have r: "router_st ?sy = (if scope_count sy v = 0 then scopeConnected v (router_st sy) else router_st sy)"
    and c: "scope_count ?sy = (scope_count sy)(v := Suc (scope_count sy v))"
    and s: "scopesByIdentifierByElement ?sy = scopesByIdentifierByElement sy"
    by (auto simp: ScopeObserver_elementMatchedValue_def scope_count_def Let_def fun_eq_iff)
  have rok: "router_ok (router_st sy)" and known: "\<And>sc. sc \<in> set (scopes_at (router_st sy) (scope_identifier sc)) \<longleftrightarrow> 0 < scope_count sy sc"
    using ok by (auto simp: scopes_ok_def)
  have "router_ok (router_st ?sy) \<and> (\<forall>sc. sc \<in> set (scopes_at (router_st ?sy) (scope_identifier sc)) \<longleftrightarrow> 0 < scope_count ?sy sc)"
  proof (cases "scope_count sy v = 0")
    case True
    then have "v \<notin> set (scopes_at (router_st sy) (scope_identifier v))" using known by simp
    note sc = scopeConnected_ok [OF rok this]
    from True sc show ?thesis by (auto simp: r c scopes_at_add known [symmetric])
  next
    case False
    with rok known show ?thesis by (auto simp: r c)
  qed
  with ok s c show ?thesis by (simp add: scopes_ok_def)
qed

lemma scopes_ok_unmatched:
  assumes ok: "scopes_ok sy" and pos: "0 < scope_count sy v"
  shows "scopes_ok (ScopeObserver_elementUnmatchedValue e v sy)
    \<and> scope_count (ScopeObserver_elementUnmatchedValue e v sy) = (scope_count sy)(v := scope_count sy v - 1)"
proof -
  let ?sy = "ScopeObserver_elementUnmatchedValue e v sy"
  have r: "router_st ?sy = (if scope_count sy v = 1 then scopeDisconnected v (router_st sy) else router_st sy)"
    and c: "scope_count ?sy = (scope_count sy)(v := scope_count sy v - 1)"
    and s: "scopesByIdentifierByElement ?sy = scopesByIdentifierByElement sy"
    using pos
    by (auto simp: ScopeObserver_elementUnmatchedValue_def scope_count_def Let_def fun_eq_iff split: option.splits)
  have rok: "router_ok (router_st sy)" and known: "\<And>sc. sc \<in> set (scopes_at (router_st sy) (scope_identifier sc)) \<longleftrightarrow> 0 < scope_count sy sc"
    using ok by (auto simp: scopes_ok_def)
  have "router_ok (router_st ?sy) \<and> (\<forall>sc. sc \<in> set (scopes_at (router_st ?sy) (scope_identifier sc)) \<longleftrightarrow> 0 < scope_count ?sy sc)"
  proof (cases "scope_count sy v = 1")
    case True
    have "v \<in> set (scopes_at (router_st sy) (scope_identifier v))" using known pos by simp
    note sc = scopeDisconnected_ok [OF rok this]
    from True sc show ?thesis by (auto simp: r c scopes_at_delete known [symmetric])
  next
    case False
    with rok known pos show ?thesis by (auto simp: r c)
  qed
  with ok s c show ?thesis by (simp add: scopes_ok_def)
qed

interpretation so: counting_delegate scope_delegate scope_count scopes_ok scope_spec True
  by unfold_locales (simp_all add: scope_delegate_def scopes_ok_parse scopes_ok_matched scopes_ok_unmatched)

section \<open>Application\<close>

definition controllerAttribute :: string where
  "controllerAttribute = ''data-controller''"

record application =
  ap_elements :: element_observer
  ap_tokens :: token_list_observer
  ap_values :: "scope value_list_observer"
  ap_scopes :: scope_system

definition new_Application :: application where
  "new_Application = \<lparr>ap_elements = new_ElementObserver document_root,
     ap_tokens = new_TokenListObserver controllerAttribute,
     ap_values = new_ValueListObserver,
     ap_scopes = \<lparr>scopesByIdentifierByElement = [], scopeReferenceCounts = [], router_st = new_Router\<rparr>\<rparr>"

definition Application_register :: "string \<Rightarrow> application \<Rightarrow> application" where
  "Application_register identifier app = app\<lparr>ap_scopes := (ap_scopes app)
     \<lparr>router_st := loadDefinition identifier (router_st (ap_scopes app))\<rparr>\<rparr>"

definition Application_unload :: "string \<Rightarrow> application \<Rightarrow> application" where
  "Application_unload identifier app = app\<lparr>ap_scopes := (ap_scopes app)
     \<lparr>router_st := unloadIdentifier identifier (router_st (ap_scopes app))\<rparr>\<rparr>"

text \<open>\<open>load\<close> and \<open>unload\<close> with several arguments or an array go through them in order.\<close>

definition Application_load :: "string list \<Rightarrow> application \<Rightarrow> application" where
  "Application_load definitions app = fold Application_register definitions app"

definition Application_unload_all :: "string list \<Rightarrow> application \<Rightarrow> application" where
  "Application_unload_all identifiers app = fold Application_unload identifiers app"

definition Application_controllers :: "application \<Rightarrow> ctx list" where
  "Application_controllers app = Router_contexts (router_st (ap_scopes app))"

text \<open>The calls of the token list go through the value list to the scope observer.\<close>

definition Application_tokens ::
  "element_observer \<times> token_list_observer \<times> token_call list \<Rightarrow> application \<Rightarrow> application" where
  "Application_tokens = (\<lambda>(eo, tlo, calls) app.
     let (vl, sy) = fold (ValueListObserver_call scope_delegate) calls (ap_values app, ap_scopes app)
     in \<lparr>ap_elements = eo, ap_tokens = tlo, ap_values = vl, ap_scopes = sy\<rparr>)"

text \<open>The part of \<open>start\<close> after \<open>domReady\<close> that starts the router.\<close>

definition Application_start :: "dom \<Rightarrow> application \<Rightarrow> application" where
  "Application_start d app = Application_tokens
     (start_tokens d controllerAttribute (ap_elements app) (ap_tokens app)) app"

text \<open>The browser delivers mutation records.\<close>

definition Application_deliver :: "dom \<Rightarrow> mutation list \<Rightarrow> application \<Rightarrow> application" where
  "Application_deliver d ms app = Application_tokens
     (deliver_tokens d controllerAttribute ms (ap_elements app) (ap_tokens app)) app"

text \<open>Records that are pending when the application stops are dropped by the observer.\<close>

definition Application_stop :: "application \<Rightarrow> application" where
  "Application_stop app = app\<lparr>ap_elements := ElementObserver_stop (ap_elements app)\<rparr>"

definition getControllerForElementAndIdentifier :: "application \<Rightarrow> nat \<Rightarrow> string \<Rightarrow> ctx option" where
  "getControllerForElementAndIdentifier app element identifier =
     getContextForElementAndIdentifier (router_st (ap_scopes app)) element identifier"

definition registered :: "application \<Rightarrow> string set" where
  "registered app = fst ` set (modulesByIdentifier (router_st (ap_scopes app)))"

section \<open>Runs\<close>

text \<open>
  Everything that can happen to an application and its document: definitions come and go, the
  application is started and stopped, the document changes with or without the observers hearing of
  it, records are delivered. Stopping drops the records that are pending. The set holds the elements
  that the application knows and whose attribute it may not have read since: the attribute was changed
  while the application was stopped, or the record of the change was dropped by a stop, and no record
  of the attribute was delivered afterwards.
\<close>

definition missed :: "application \<Rightarrow> dom \<Rightarrow> dom \<Rightarrow> nat set" where
  "missed app d d' = {e \<in> set (eo_elements (ap_elements app)).
     getAttribute d' e controllerAttribute \<noteq> getAttribute d e controllerAttribute}"

inductive app_run :: "observed \<Rightarrow> application \<Rightarrow> nat set \<Rightarrow> bool" where
  created: "dom_ok d \<Longrightarrow> document_root \<in> set (ids d) \<Longrightarrow>
    app_run \<lparr>doc = d, records = [], transients = []\<rparr> new_Application {}"
| register: "app_run s app S \<Longrightarrow> app_run s (Application_register i app) S"
| unload: "app_run s app S \<Longrightarrow> app_run s (Application_unload i app) S"
| start: "app_run s app S \<Longrightarrow> \<not> eo_started (ap_elements app) \<Longrightarrow>
    app_run s (Application_start (doc s) app) S"
| stop: "app_run s app S \<Longrightarrow> eo_started (ap_elements app) \<Longrightarrow>
    app_run (s\<lparr>records := [], transients := []\<rparr>) (Application_stop app) (S \<union> due controllerAttribute (records s))"
| change: "app_run s app S \<Longrightarrow> eo_started (ap_elements app) \<Longrightarrow>
    app_run (apply_change document_root c s) app S"
| unseen: "app_run s app S \<Longrightarrow> \<not> eo_started (ap_elements app) \<Longrightarrow> d = doc (apply_change document_root c s) \<Longrightarrow>
    app_run (s\<lparr>doc := d\<rparr>) app (S \<union> missed app (doc s) d)"
| deliver: "app_run s app S \<Longrightarrow>
    app_run (s\<lparr>records := [], transients := []\<rparr>) (Application_deliver (doc s) (records s) app)
      (S - due controllerAttribute (records s))"

text \<open>The invariants of the layers, put together.\<close>

definition app_inv :: "observed \<Rightarrow> application \<Rightarrow> nat set \<Rightarrow> bool" where
  "app_inv s app S \<longleftrightarrow> eo_inv controllerAttribute document_root s (ap_elements app)
     \<and> tok_inv controllerAttribute (doc s) (due controllerAttribute (records s) \<union> S)
         (set (eo_elements (ap_elements app))) (ap_tokens app)
     \<and> (\<exists>n. so.vl_inv (ap_values app, ap_scopes app) (all_tokens (ap_tokens app), n)
            \<and> n \<le> next_token (ap_tokens app))"

lemma app_inv_mono: "app_inv s app S \<Longrightarrow> S \<subseteq> S' \<Longrightarrow> app_inv s app S'"
  by (auto simp: app_inv_def intro: tok_inv_mono)

lemma lower_controllerAttribute: "lower controllerAttribute = controllerAttribute"
  by (simp add: controllerAttribute_def lower_def lower_char_def is_upper_def)

lemma app_inv_router:
  assumes "app_inv s app S" and "router_ok r" and "scopesByIdentifier r = scopesByIdentifier (router_st (ap_scopes app))"
  shows "app_inv s (app\<lparr>ap_scopes := (ap_scopes app)\<lparr>router_st := r\<rparr>\<rparr>) S"
proof -
  have "scopes_ok ((ap_scopes app)\<lparr>router_st := r\<rparr>) \<and>
      scope_count ((ap_scopes app)\<lparr>router_st := r\<rparr>) = scope_count (ap_scopes app)" if "scopes_ok (ap_scopes app)"
    using that assms(2,3) by (simp add: scopes_ok_def scope_count_def fun_eq_iff)
  with assms(1) show ?thesis by (auto simp: app_inv_def so.vl_inv_def)
qed

lemma app_inv_ok: "app_inv s app S \<Longrightarrow> scopes_ok (ap_scopes app)"
  by (auto simp: app_inv_def so.vl_inv_def)

lemma Application_tokens_inv:
  assumes vl: "so.vl_inv (ap_values app, ap_scopes app) (T, n)"
    and rep: "token_replay calls (T, n) = Some (all_tokens tlo, n')" "n' \<le> next_token tlo"
    and eo: "eo_inv controllerAttribute document_root s eo"
    and tok: "tok_inv controllerAttribute (doc s) (due controllerAttribute (records s) \<union> S) (set (eo_elements eo)) tlo"
  shows "app_inv s (Application_tokens (eo, tlo, calls) app) S"
proof -
  obtain vl' sy' where f: "fold (ValueListObserver_call scope_delegate) calls (ap_values app, ap_scopes app) = (vl', sy')"
    by fastforce
  from so.vl_inv_calls [OF vl rep(1)] f have "so.vl_inv (vl', sy') (all_tokens tlo, n')" by simp
  with rep(2) eo tok show ?thesis by (auto simp: app_inv_def Application_tokens_def f)
qed

lemma app_inv_created:
  assumes "dom_ok d" and "document_root \<in> set (ids d)"
  shows "app_inv \<lparr>doc = d, records = [], transients = []\<rparr> new_Application {}"
proof -
  let ?s = "\<lparr>doc = d, records = [], transients = []\<rparr>"
  have "eo_inv controllerAttribute document_root ?s (new_ElementObserver document_root)"
    using assms by (intro eo_inv_empty) (simp_all add: new_ElementObserver_def)
  moreover have "so.vl_inv (new_ValueListObserver, ap_scopes new_Application) ({}, 0)"
    by (rule so.vl_inv_new)
      (auto simp: new_Application_def scopes_ok_def scope_count_def new_Router_def getValuesForKey_def
        new_Multimap_def router_ok_new [unfolded new_Router_def new_Multimap_def])
  ultimately show ?thesis
    using tok_inv_new by (auto simp: app_inv_def new_Application_def new_ElementObserver_def)
qed

lemma app_inv_definitions:
  assumes inv: "app_inv s app S"
  shows "app_inv s (Application_register i app) S" "app_inv s (Application_unload i app) S"
proof -
  have ok: "router_ok (router_st (ap_scopes app))" using app_inv_ok [OF inv] by (simp add: scopes_ok_def)
  show "app_inv s (Application_register i app) S" unfolding Application_register_def
    by (rule app_inv_router [OF inv]) (simp_all add: loadDefinition_ok [OF ok])
  show "app_inv s (Application_unload i app) S" unfolding Application_unload_def
    by (rule app_inv_router [OF inv]) (simp_all add: unloadIdentifier_ok [OF ok])
qed

lemma app_inv_start:
  assumes app: "app_inv s app S" and stopped: "\<not> eo_started (ap_elements app)"
  shows "app_inv s (Application_start (doc s) app) S"
proof -
  from assms have inv: "eo_inv controllerAttribute document_root s (ap_elements app)"
    and tok: "tok_inv controllerAttribute (doc s) (due controllerAttribute (records s) \<union> S)
      (set (eo_elements (ap_elements app))) (ap_tokens app)" by (auto simp: app_inv_def)
  obtain eo tlo' calls where st: "(eo, tlo', calls) = start_tokens (doc s) controllerAttribute (ap_elements app) (ap_tokens app)"
    by (metis surj_pair)
  from app obtain n where vl: "so.vl_inv (ap_values app, ap_scopes app) (all_tokens (ap_tokens app), n)"
    "n \<le> next_token (ap_tokens app)" by (auto simp: app_inv_def)
  note i = start_tokens_inv [OF inv stopped tok st]
  from i(4) [OF vl(2)] obtain n' where "token_replay calls (all_tokens (ap_tokens app), n) = Some (all_tokens tlo', n')"
    "n' \<le> next_token tlo'" by blast
  from Application_tokens_inv [OF vl(1) this i(1,3)] show ?thesis
    unfolding Application_start_def st [symmetric] .
qed

lemma app_inv_stop:
  assumes app: "app_inv s app S"
  shows "app_inv (s\<lparr>records := [], transients := []\<rparr>) (Application_stop app) (S \<union> due controllerAttribute (records s))"
proof -
  have "eo_inv controllerAttribute document_root (s\<lparr>records := [], transients := []\<rparr>) (ElementObserver_stop (ap_elements app))"
    using app by (intro eo_inv_empty) (simp_all add: app_inv_def eo_inv_def ElementObserver_stop_def split: if_splits)
  then show ?thesis using app by (auto simp: app_inv_def Application_stop_def ElementObserver_stop_def Un_commute)
qed

lemma app_inv_change:
  assumes app: "app_inv s app S" and started: "eo_started (ap_elements app)"
  shows "app_inv (apply_change document_root c s) app S"
proof -
  from assms have inv: "eo_inv controllerAttribute document_root s (ap_elements app)"
    and tok: "tok_inv controllerAttribute (doc s) (due controllerAttribute (records s) \<union> S)
      (set (eo_elements (ap_elements app))) (ap_tokens app)"
    by (auto simp: app_inv_def)
  with assms tok_inv_change [OF inv started lower_controllerAttribute tok, of c]
    eo_inv_change [OF inv started eo_inv_apart [OF inv started]]
  show ?thesis by (simp add: app_inv_def)
qed

lemma app_inv_unseen:
  assumes app: "app_inv s app S" and stopped: "\<not> eo_started (ap_elements app)" and d: "d = doc (apply_change document_root c s)"
  shows "app_inv (s\<lparr>doc := d\<rparr>) app (S \<union> missed app (doc s) d)"
proof -
  from app have inv: "eo_inv controllerAttribute document_root s (ap_elements app)" by (simp add: app_inv_def)
  have "tok_inv controllerAttribute d (due controllerAttribute (records s) \<union> (S \<union> missed app (doc s) d))
      (set (eo_elements (ap_elements app))) (ap_tokens app)"
    using app attr_words_update [of d _ controllerAttribute "doc s"] by (auto simp: app_inv_def tok_inv_def missed_def)
  with app eo_inv_unseen [OF inv stopped, of c] show ?thesis by (simp add: app_inv_def d)
qed

lemma app_inv_deliver:
  assumes app: "app_inv s app S"
  shows "app_inv (s\<lparr>records := [], transients := []\<rparr>) (Application_deliver (doc s) (records s) app)
    (S - due controllerAttribute (records s))"
proof -
  from app have inv: "eo_inv controllerAttribute document_root s (ap_elements app)" by (simp add: app_inv_def)
  obtain eo tlo calls where st: "(eo, tlo, calls) = deliver_tokens (doc s) controllerAttribute (records s)
      (ap_elements app) (ap_tokens app)" by (metis surj_pair)
  let ?s = "s\<lparr>records := [], transients := []\<rparr>"
  have eo: "eo_inv controllerAttribute document_root ?s eo"
    using eo_inv_deliver [OF inv] deliver_tokens_elements [OF st] by simp
  show ?thesis
  proof (cases "eo_started (ap_elements app)")
    case True
    from app obtain n where vl: "so.vl_inv (ap_values app, ap_scopes app) (all_tokens (ap_tokens app), n)"
      "n \<le> next_token (ap_tokens app)" by (auto simp: app_inv_def)
    have "tok_inv controllerAttribute (doc s) (due controllerAttribute (records s) \<union> S)
        (set (eo_elements (ap_elements app))) (ap_tokens app)" using app by (simp add: app_inv_def)
    note del = tok_inv_deliver [OF True this st vl(2)]
    then obtain n' where rep: "token_replay calls (all_tokens (ap_tokens app), n) = Some (all_tokens tlo, n')"
      "n' \<le> next_token tlo" by blast
    have "(due controllerAttribute (records s) \<union> S) - due controllerAttribute (records s) = S - due controllerAttribute (records s)"
      by blast
    with del Application_tokens_inv [OF vl(1) rep eo] show ?thesis
      unfolding Application_deliver_def st [symmetric] by simp
  next
    case False
    then have r: "records s = []" using inv by (simp add: eo_inv_def)
    have "Application_deliver (doc s) (records s) app = app"
      using False by (simp add: Application_deliver_def deliver_tokens_def processMutations_def attribute_calls_def Application_tokens_def)
    with app r eo deliver_tokens_elements [OF st] False show ?thesis by (simp add: app_inv_def processMutations_def)
  qed
qed

lemmas app_inv_steps = app_inv_created app_inv_definitions app_inv_start app_inv_stop app_inv_change app_inv_unseen app_inv_deliver

lemma app_run_inv: "app_run s app S \<Longrightarrow> app_inv s app S"
  by (induction rule: app_run.induct) (simp_all add: app_inv_steps)

end
