(* ===== verification/Controllers.thy ===== *)
theory Controllers
  imports Application
begin

text \<open>
  What the chain of observers of stimulus.js gives the application: the controllers that exist
  are the ones the document asks for, and each goes through its life in the right order. A last
  section shows the case the chain misses: a change of an attribute while it is stopped.
\<close>

section \<open>Controllers follow the document\<close>

lemma count_positive:
  assumes vl: "so.vl_inv (vl, sy) (T, n)"
  shows "0 < scope_count sy sc \<longleftrightarrow>
    (\<exists>t \<in> T. tok_element t = scope_element sc \<and> tok_content t = scope_identifier sc)"
proof -
  have fin: "finite {t \<in> T. so.token_value vl t = Some sc}"
    and c: "scope_count sy sc = card {t \<in> T. so.token_value vl t = Some sc}"
    using vl by (auto simp: so.vl_inv_def)
  have val: "so.token_value vl t = Some \<lparr>scope_element = tok_element t, scope_identifier = tok_content t\<rparr>"
    if "t \<in> T" for t
    using vl that by (force simp: so.vl_inv_def so.token_value_def scope_spec_def)
  have "{t \<in> T. so.token_value vl t = Some sc} =
      {t \<in> T. tok_element t = scope_element sc \<and> tok_content t = scope_identifier sc}"
    by (cases sc) (auto simp: val)
  with fin c show ?thesis by (auto simp: card_gt_0_iff)
qed

lemma app_inv_controller:
  assumes inv: "app_inv s app S"
  shows "(\<exists>c. getControllerForElementAndIdentifier app e i = Some c) \<longleftrightarrow>
    i \<in> registered app \<and> (\<exists>t \<in> all_tokens (ap_tokens app). tok_element t = e \<and> tok_content t = i)"
proof -
  let ?r = "router_st (ap_scopes app)"
  let ?sc = "\<lparr>scope_element = e, scope_identifier = i\<rparr>"
  obtain n where vl: "so.vl_inv (ap_values app, ap_scopes app) (all_tokens (ap_tokens app), n)"
    using inv by (auto simp: app_inv_def)
  have ok: "router_ok ?r" and known: "?sc \<in> set (scopes_at ?r i) \<longleftrightarrow> 0 < scope_count (ap_scopes app) ?sc"
    using app_inv_ok [OF inv] scopes_ok_def by (auto simp: scopes_ok_def dest: spec [of _ ?sc])
  show ?thesis
    using count_positive [OF vl, of ?sc] known
    by (auto simp: getControllerForElementAndIdentifier_def getContext_Some [OF ok] registered_def dom_map_of_conv_image_fst [symmetric])
qed

lemma tokens_present:
  assumes "tok_inv an d P E tlo"
  shows "e \<notin> P \<Longrightarrow> (\<exists>t \<in> all_tokens tlo. tok_element t = e \<and> tok_content t = i) \<longleftrightarrow> e \<in> E \<and> i \<in> set (attr_words d an e)"
    and "t \<in> all_tokens tlo \<Longrightarrow> tok_element t \<in> E"
proof -
  have "(\<exists>t \<in> all_tokens tlo. tok_element t = e \<and> tok_content t = i) \<longleftrightarrow>
      i \<in> set (map tok_content (tokens_of tlo e))"
    using assms by (fastforce simp: all_tokens_def tok_inv_def tl_wf_def)
  moreover have "map tok_content (tokens_of tlo e) = (if e \<in> E then attr_words d an e else [])" if "e \<notin> P"
    using assms that by (auto simp: tok_inv_def)
  ultimately show "e \<notin> P \<Longrightarrow> (\<exists>t \<in> all_tokens tlo. tok_element t = e \<and> tok_content t = i) \<longleftrightarrow> e \<in> E \<and> i \<in> set (attr_words d an e)"
    by simp
  show "t \<in> all_tokens tlo \<Longrightarrow> tok_element t \<in> E"
    using assms by (fastforce simp: all_tokens_def tok_inv_def tl_wf_def)
qed

lemma words_attribute: "i \<in> set (attr_words d an e) \<Longrightarrow> hasAttribute d e an"
  by (cases "getAttribute d e an") (auto simp: attr_words_def hasAttribute_def)

lemma delivered_controllers:
  assumes inv: "app_inv s app S" and started: "eo_started (ap_elements app)"
    and app': "app' = Application_deliver (doc s) (records s) app"
  shows "e \<notin> S \<or> e \<in> due controllerAttribute (records s) \<Longrightarrow>
      (\<exists>c. getControllerForElementAndIdentifier app' e i = Some c) \<longleftrightarrow>
        contains (doc s) document_root e \<and> i \<in> set (attr_words (doc s) controllerAttribute e) \<and> i \<in> registered app'"
    and "getControllerForElementAndIdentifier app' e i = Some c \<Longrightarrow>
        contains (doc s) document_root e \<and> hasAttribute (doc s) e controllerAttribute \<and> i \<in> registered app'"
proof -
  let ?s = "s\<lparr>records := [], transients := []\<rparr>"
  let ?eo = "fst (processMutations (doc s) controllerAttribute (records s) (ap_elements app))"
  have inv': "app_inv ?s app' (S - due controllerAttribute (records s))" using app_inv_deliver [OF inv] app' by simp
  have ok: "dom_ok (doc s)" and eo: "eo_inv controllerAttribute document_root s (ap_elements app)"
    using inv by (auto simp: app_inv_def eo_inv_def)
  have eo': "ap_elements app' = ?eo"
    by (simp add: app' Application_deliver_def Application_tokens_def deliver_tokens_def Let_def case_prod_unfold)
  have tok: "tok_inv controllerAttribute (doc s) (S - due controllerAttribute (records s)) (set (eo_elements ?eo)) (ap_tokens app')"
    using inv' by (simp add: app_inv_def eo')
  note elements = eo_inv_deliver_elements [OF eo started] contains_below [OF ok]
  show "(\<exists>c. getControllerForElementAndIdentifier app' e i = Some c) \<longleftrightarrow>
      contains (doc s) document_root e \<and> i \<in> set (attr_words (doc s) controllerAttribute e) \<and> i \<in> registered app'"
    if "e \<notin> S \<or> e \<in> due controllerAttribute (records s)"
    using that words_attribute [of i "doc s" controllerAttribute e] tokens_present(1) [OF tok, of e i]
    by (auto simp: app_inv_controller [OF inv'] elements)
  show "contains (doc s) document_root e \<and> hasAttribute (doc s) e controllerAttribute \<and> i \<in> registered app'"
    if "getControllerForElementAndIdentifier app' e i = Some c"
    using that app_inv_controller [OF inv', of e i] tokens_present(2) [OF tok] by (auto simp: elements)
qed


section \<open>The life of a controller\<close>

text \<open>
  C12: In every run each context is initialised once, before anything else; \<open>connect\<close> and
  \<open>disconnect\<close> then take turns, \<open>connect\<close> first; and the contexts that are connected are exactly the
  ones the application finds for their element and identifier, so no two of them share both.
\<close>

theorem lifecycles_in_order:
  assumes "app_run s app S"
  shows "life_of (lifecycles (router_st (ap_scopes app))) c \<noteq> None
    \<and> (life_of (lifecycles (router_st (ap_scopes app))) c = Some Connected \<longleftrightarrow>
        getControllerForElementAndIdentifier app (scope_element (ctx_scope c))
          (scope_identifier (ctx_scope c)) = Some c)"
proof -
  let ?r = "router_st (ap_scopes app)"
  have ok: "router_ok ?r" using app_inv_ok [OF app_run_inv [OF assms]] by (simp add: scopes_ok_def)
  show ?thesis using router_connected [OF ok, of c] ok
    by (simp add: getControllerForElementAndIdentifier_def router_ok_def)
qed

section \<open>Concrete runs\<close>

text \<open>
  A page with one element. Its attribute changes from \<open>x\<close> to \<open>y x\<close> while the application runs:
  the controller of \<open>x\<close> is disconnected and connected again with its new position.
\<close>

definition page_doc :: "string \<Rightarrow> dom" where
  "page_doc v = [El 0 ''html'' [] [El 1 ''p'' [(''data-controller'', v)] []]]"

definition page_app :: application where
  "page_app = Application_start (page_doc ''x'') (Application_register ''x'' new_Application)"

abbreviation page_at :: "string \<Rightarrow> mutation list \<Rightarrow> observed" where
  "page_at v ms \<equiv> \<lparr>doc = page_doc v, records = ms, transients = []\<rparr>"

lemma page_run: "app_run (page_at ''x'' []) page_app {}"
proof -
  have ok: "dom_ok (page_doc ''x'')" by (auto simp: dom_ok_def dom_wf_def page_doc_def document_root_def)
  have "app_run (page_at ''x'' []) new_Application {}"
    by (rule app_run.created [OF ok]) (simp add: page_doc_def document_root_def)
  then have "app_run (page_at ''x'' []) (Application_register ''x'' new_Application) {}" by (rule app_run.register)
  from app_run.start [OF this] show ?thesis
    by (simp add: page_app_def Application_register_def new_Application_def new_ElementObserver_def)
qed

lemma page_change: "apply_change document_root (SetAttribute 1 ''data-controller'' ''y x'') (page_at ''x'' [])
   = page_at ''y x'' [AttributesMutation 1 ''data-controller'']"
  by code_simp

lemma page_app_eval: "ap_elements page_app = \<lparr>eo_element = 0, eo_started = True, eo_elements = [1]\<rparr>"
  by code_simp

lemma page_found: "getControllerForElementAndIdentifier page_app 1 ''x'' = Some \<lparr>ctx_module = 0, ctx_scope = \<lparr>scope_element = 1, scope_identifier = ''x''\<rparr>\<rparr>"
  by code_simp


theorem lifecycles_in_order_witness:
  "\<exists>c. app_run (page_at ''x'' []) page_app {}
     \<and> life_of (lifecycles (router_st (ap_scopes page_app))) c = Some Connected
     \<and> getControllerForElementAndIdentifier page_app 1 ''x'' = Some c"
  using lifecycles_in_order [OF page_run, of "\<lparr>ctx_module = 0, ctx_scope = \<lparr>scope_element = 1, scope_identifier = ''x''\<rparr>\<rparr>"]
    page_run page_found by auto

section \<open>A change the chain misses\<close>

text \<open>
  When an element's \<open>data-controller\<close> attribute gets a new value while the application is
  stopped, starting it again does not read the value: the controller of the old value stays
  connected and the one the document asks for is not created, although both are registered. The
  set of elements is refreshed, but an element that is in it already is not read again.
\<close>

theorem restart_misses_attribute_changes:
  "let app = Application_register ''y'' page_app;
       app' = Application_start (page_doc ''y'') (Application_stop app)
   in registered app' = {''x'', ''y''}
      \<and> attr_words (page_doc ''y'') controllerAttribute 1 = [''y'']
      \<and> getControllerForElementAndIdentifier app' 1 ''x'' \<noteq> None
      \<and> getControllerForElementAndIdentifier app' 1 ''y'' = None"
  by code_simp

end
