(* ===== verification/Start_Order.thy ===== *)
theory Start_Order
  imports Controllers
begin

text \<open>
  The order in which an application starts its controllers. Definitions are registered first, as
  the page does it; when the router starts, the controllers are initialised and connected one
  after the other in the order of their elements in the document, and for one element in the
  order of its \<open>data-controller\<close> attribute.
\<close>

section \<open>Elements and tokens\<close>

lemma subtree_distinct: "dom_wf d \<Longrightarrow> distinct (subtree d n)"
proof -
  have "find_tree n d = Some t \<Longrightarrow> distinct (ids d) \<Longrightarrow> distinct (ids [t])" for t
    by (induction n d rule: find_tree.induct) (auto split: if_splits option.splits)
  then show "dom_wf d \<Longrightarrow> distinct (subtree d n)" by (auto simp: subtree_def dom_wf_def split: option.split)
qed

lemma subtree_head: "subtree d n = [] \<or> (\<exists>rest. subtree d n = n # rest)"
proof -
  have "find_tree n d = Some t \<Longrightarrow> \<exists>rest. ids [t] = n # rest" for t
    by (induction n d rule: find_tree.induct) (auto split: if_splits option.splits)
  then show ?thesis by (auto simp: subtree_def split: option.split)
qed

lemma matches_distinct: "dom_wf d \<Longrightarrow> distinct (AttributeObserver_matchElementsInTree d an n)"
  using subtree_distinct [of d n] subtree_head [of d n]
  by (auto simp: AttributeObserver_matchElementsInTree_def querySelectorAll_def Let_def)

lemma matches_active:
  assumes "document_root \<in> set (ids d)" and "dom_ok d" and "e \<in> set (AttributeObserver_matchElementsInTree d an document_root)"
  shows "contains d document_root e"
proof (cases "e = document_root")
  case True
  with assms(1,2) show ?thesis by (simp add: contains_below below_refl)
next
  case False
  with assms(3) have "e \<in> set (tl (subtree d document_root))"
    by (auto simp: AttributeObserver_matchElementsInTree_def querySelectorAll_def Let_def split: if_splits)
  then show ?thesis by (cases "subtree d document_root") (auto simp: contains_def)
qed

lemma add_all_elements:
  assumes "distinct es" and "\<And>e. e \<in> set es \<Longrightarrow> e \<notin> set (eo_elements eo) \<and> elementIsActive d eo e"
  shows "each (addElement d) es eo = (eo\<lparr>eo_elements := eo_elements eo @ es\<rparr>, map ElementMatched es)"
  using assms
proof (induction es arbitrary: eo)
  case (Cons e es)
  let ?eo = "eo\<lparr>eo_elements := eo_elements eo @ [e]\<rparr>"
  have active: "elementIsActive d ?eo = elementIsActive d eo" by (simp add: fun_eq_iff elementIsActive_def)
  have one: "addElement d e eo = (?eo, [ElementMatched e])"
    using Cons.prems(2) [of e] by (simp add: addElement_def set_add_def)
  have "each (addElement d) es ?eo = (?eo\<lparr>eo_elements := eo_elements ?eo @ es\<rparr>, map ElementMatched es)"
    using Cons.prems by (intro Cons.IH) (simp_all add: active, blast)
  then show ?case by (simp add: one)
qed simp

lemma start_elements:
  assumes ok: "dom_ok d" and root: "document_root \<in> set (ids d)"
  shows "snd (ElementObserver_start d an (new_ElementObserver document_root)) =
    map ElementMatched (AttributeObserver_matchElementsInTree d an document_root)"
proof -
  let ?eo = "\<lparr>eo_element = document_root, eo_started = True, eo_elements = []\<rparr>"
  let ?ms = "AttributeObserver_matchElementsInTree d an document_root"
  have "contains d document_root document_root" using ok root by (simp add: contains_below below_refl)
  then have "elementIsActive d ?eo e" if "e \<in> set ?ms" for e
    using matches_active [OF root ok that] by (simp add: elementIsActive_def isConnected_def)
  moreover have "distinct ?ms" using ok by (simp add: matches_distinct dom_ok_def)
  ultimately have "each (addElement d) ?ms ?eo = (?eo\<lparr>eo_elements := eo_elements ?eo @ ?ms\<rparr>, map ElementMatched ?ms)"
    by (intro add_all_elements) simp_all
  with \<open>distinct ?ms\<close> show ?thesis
    by (simp add: ElementObserver_start_def ElementObserver_refresh_def new_ElementObserver_def set_from_id Let_def)
qed

text \<open>The element and the word of each token, in the order in which the tokens are reported.\<close>

definition document_scopes :: "dom \<Rightarrow> scope list" where
  "document_scopes d = concat (map (\<lambda>e. map (\<lambda>i. \<lparr>scope_element = e, scope_identifier = i\<rparr>) (attr_words d controllerAttribute e))
     (AttributeObserver_matchElementsInTree d controllerAttribute document_root))"

definition scope_of :: "token \<Rightarrow> scope" where
  "scope_of t = \<lparr>scope_element = tok_element t, scope_identifier = tok_content t\<rparr>"

lemma tokensMatched_frame:
  "snd (tokensMatched toks tlo) = map TokenMatched toks" "tl_attributeName (fst (tokensMatched toks tlo)) = tl_attributeName tlo"
  unfolding tokensMatched_def
  by (induction toks arbitrary: tlo) (simp_all add: Let_def case_prod_unfold tokenMatched_def)

lemma read_tokens:
  "map scope_of (fst (readTokensForElement d e tlo)) =
     map (\<lambda>i. \<lparr>scope_element = e, scope_identifier = i\<rparr>) (attr_words d (tl_attributeName tlo) e)"
  "tl_attributeName (snd (readTokensForElement d e tlo)) = tl_attributeName tlo"
proof -
  have none: "token_words [] = []" by code_simp
  have "map (scope_of \<circ> (\<lambda>(index, content). \<lparr>tok_id = n + index, tok_element = e, tok_attributeName = an,
      tok_content = content, tok_index = index\<rparr>)) (enumerate k ws) = map (\<lambda>i. \<lparr>scope_element = e, scope_identifier = i\<rparr>) ws"
    for k n an ws by (induction ws arbitrary: k) (simp_all add: scope_of_def)
  then show "map scope_of (fst (readTokensForElement d e tlo)) =
     map (\<lambda>i. \<lparr>scope_element = e, scope_identifier = i\<rparr>) (attr_words d (tl_attributeName tlo) e)"
    by (simp add: readTokensForElement_def parseTokenString_def attr_words_def none Let_def split: option.split)
qed (simp add: readTokensForElement_def Let_def)

lemma matched_calls:
  "\<exists>toks. snd (each (TokenListObserver_call d) (map ElementMatchedAttribute es) tlo) = map TokenMatched toks
     \<and> map scope_of toks = concat (map (\<lambda>e. map (\<lambda>i. \<lparr>scope_element = e, scope_identifier = i\<rparr>)
         (attr_words d (tl_attributeName tlo) e)) es)"
proof (induction es arbitrary: tlo)
  case (Cons e es)
  let ?toks = "fst (readTokensForElement d e tlo)"
  let ?tlo = "fst (tokensMatched ?toks (snd (readTokensForElement d e tlo)))"
  have an: "tl_attributeName ?tlo = tl_attributeName tlo" by (simp add: tokensMatched_frame read_tokens)
  from Cons.IH [of ?tlo] obtain toks where "snd (each (TokenListObserver_call d) (map ElementMatchedAttribute es) ?tlo) = map TokenMatched toks"
    "map scope_of toks = concat (map (\<lambda>e. map (\<lambda>i. \<lparr>scope_element = e, scope_identifier = i\<rparr>)
         (attr_words d (tl_attributeName tlo) e)) es)" by (auto simp: an)
  then show ?case
    by (intro exI [of _ "?toks @ toks"]) (simp add: Let_def case_prod_unfold tokensMatched_frame read_tokens)
qed simp

lemma start_calls:
  assumes "dom_ok d" and "document_root \<in> set (ids d)"
  shows "\<exists>toks. snd (snd (start_tokens d controllerAttribute (new_ElementObserver document_root)
      (new_TokenListObserver controllerAttribute))) = map TokenMatched toks \<and> map scope_of toks = document_scopes d"
proof -
  have "attribute_calls an (map ElementMatched es) = map ElementMatchedAttribute es" for an es by (induction es) simp_all
  with matched_calls [of d "AttributeObserver_matchElementsInTree d controllerAttribute document_root"
      "new_TokenListObserver controllerAttribute"] start_elements [OF assms, of controllerAttribute]
  show ?thesis by (simp add: start_tokens_def case_prod_unfold Let_def document_scopes_def new_TokenListObserver_def)
qed

section \<open>Scopes\<close>

text \<open>What the router writes to its log when a new scope comes.\<close>

definition module_number :: "router \<Rightarrow> string \<Rightarrow> nat option" where
  "module_number r i = map_option module_id (map_of (modulesByIdentifier r) i)"

definition opened :: "(string \<Rightarrow> nat option) \<Rightarrow> scope \<Rightarrow> lifecycle list" where
  "opened numbers sc = (case numbers (scope_identifier sc) of
     None \<Rightarrow> []
   | Some k \<Rightarrow> [Initialize \<lparr>ctx_module = k, ctx_scope = sc\<rparr>, Connect \<lparr>ctx_module = k, ctx_scope = sc\<rparr>])"

definition opened_all :: "router \<Rightarrow> scope list \<Rightarrow> router \<Rightarrow> bool" where
  "opened_all r0 scs r \<longleftrightarrow> module_number r = module_number r0
     \<and> (\<forall>i m sc. map_of (modulesByIdentifier r) i = Some m \<longrightarrow> map_of (contextsByScope m) sc \<noteq> None \<longrightarrow> sc \<in> set scs)
     \<and> lifecycles r = lifecycles r0 @ concat (map (opened (module_number r0)) (set_from scs))"

lemma opened_all_old: "opened_all r0 scs r \<Longrightarrow> sc \<in> set scs \<Longrightarrow> opened_all r0 (scs @ [sc]) r"
  by (auto simp: opened_all_def set_from_def set_add_def set_fold_set_add)

lemma opened_all_new:
  assumes op: "opened_all r0 scs r" and new: "sc \<notin> set scs"
  shows "opened_all r0 (scs @ [sc]) (scopeConnected sc r)"
proof -
  have sf: "set_from (scs @ [sc]) = set_from scs @ [sc]"
    using new by (simp add: set_from_def set_add_def set_fold_set_add)
  show ?thesis
  proof (cases "map_of (modulesByIdentifier r) (scope_identifier sc)")
    case None
    then have "module_number r (scope_identifier sc) = None" by (simp add: module_number_def)
    with op have "module_number r0 (scope_identifier sc) = None" by (simp add: opened_all_def)
    with op None show ?thesis
      by (auto simp: opened_all_def scopeConnected_def sf opened_def module_number_def [abs_def])
  next
    case (Some m)
    let ?c = "\<lparr>ctx_module = module_id m, ctx_scope = sc\<rparr>"
    have "map_of (contextsByScope m) sc = None" using op new Some unfolding opened_all_def by blast
    then have con: "connectContextForScope sc m = (m\<lparr>contextsByScope := AList.update sc ?c (contextsByScope m),
        connectedContexts := set_add ?c (connectedContexts m)\<rparr>, [Initialize ?c, Connect ?c])"
      by (simp add: connectContextForScope_def fetchContextForScope_def Let_def)
    have "module_number r (scope_identifier sc) = Some (module_id m)" by (simp add: module_number_def Some)
    with op have "module_number r0 (scope_identifier sc) = Some (module_id m)" by (simp add: opened_all_def)
    moreover have "module_number (scopeConnected sc r) = module_number r"
      by (auto simp: scopeConnected_def Some con module_number_def fun_eq_iff)
    moreover have "sc' \<in> set scs" if "map_of (contextsByScope m) sc' = Some c" for sc' c
      using op Some that unfolding opened_all_def by blast
    ultimately show ?thesis
      using op by (auto simp: opened_all_def scopeConnected_def Some con sf opened_def split: if_splits)
  qed
qed

lemma parse_router: "router_st (snd (ScopeObserver_parseValueForToken tok sy)) = router_st sy"
  by (auto simp: ScopeObserver_parseValueForToken_def fetchScopesByIdentifierForElement_def Let_def split: option.splits)

lemma token_matched_router:
  assumes inv: "so.vl_inv (vl, sy) (T, n)" and fresh: "n \<le> tok_id t"
  shows "router_st (snd (ValueListObserver_tokenMatched scope_delegate t (vl, sy))) =
    (if 0 < scope_count sy (scope_of t) then router_st sy else scopeConnected (scope_of t) (router_st sy))"
proof -
  have "map_of (parseResultsByToken vl) i \<noteq> None \<longrightarrow> i < n" for i using inv by (simp add: so.vl_inv_def)
  from this [of "tok_id t"] fresh have none: "map_of (parseResultsByToken vl) (tok_id t) = None" by linarith
  obtain r sy1 where p: "ScopeObserver_parseValueForToken t sy = (r, sy1)" by fastforce
  have "scopes_ok sy" using inv by (simp add: so.vl_inv_def)
  note ps = scopes_ok_parse [OF this p]
  have rt: "router_st sy1 = router_st sy" using parse_router [of t sy] p by simp
  have "fst (fetchParseResultForToken scope_delegate t (vl, sy)) = Inr (Some (scope_of t))"
    "snd (snd (fetchParseResultForToken scope_delegate t (vl, sy))) = sy1"
    using ps by (simp_all add: fetchParseResultForToken_def none scope_delegate_def p scope_spec_def scope_of_def)
  then have "snd (ValueListObserver_tokenMatched scope_delegate t (vl, sy)) =
      ScopeObserver_elementMatchedValue (tok_element t) (scope_of t) sy1"
    by (simp add: so.matched_result) (simp add: scope_delegate_def)
  moreover have "scope_count sy1 (scope_of t) = scope_count sy (scope_of t)" using ps by simp
  ultimately show ?thesis
    by (auto simp: ScopeObserver_elementMatchedValue_def scope_count_def rt Let_def split: option.splits)
qed

lemma tokens_open_scopes:
  assumes "so.vl_inv s (T, n)" and "token_replay (map TokenMatched toks) (T, n) = Some Tn"
    and "opened_all r0 (map scope_of done) (router_st (snd s))" and "T = set done"
  shows "opened_all r0 (map scope_of (done @ toks))
    (router_st (snd (fold (ValueListObserver_call scope_delegate) (map TokenMatched toks) s)))"
  using assms
proof (induction toks arbitrary: s T n "done")
  case (Cons t toks)
  obtain vl sy where s: "s = (vl, sy)" by fastforce
  from Cons.prems(2) have fresh: "n \<le> tok_id t" and rep: "token_replay (map TokenMatched toks) (insert t T, Suc (tok_id t)) = Some Tn"
    by (auto split: if_splits)
  let ?s = "ValueListObserver_tokenMatched scope_delegate t s"
  have inv: "so.vl_inv ?s (insert t T, Suc (tok_id t))"
    using so.vl_inv_matched [of vl sy T n t] Cons.prems(1) fresh by (simp add: s)
  have "so.vl_inv (vl, sy) (T, n)" using Cons.prems(1) by (simp add: s)
  from count_positive [OF this, of "scope_of t"] Cons.prems(4)
  have "0 < scope_count sy (scope_of t) \<longleftrightarrow> scope_of t \<in> set (map scope_of done)"
    by (simp add: scope_of_def image_iff) metis
  then have "opened_all r0 (map scope_of (done @ [t])) (router_st (snd ?s))"
    using token_matched_router [of vl sy T n t] Cons.prems(1,3) fresh opened_all_old opened_all_new by (simp add: s)
  from Cons.IH [OF inv rep this] Cons.prems(4) show ?case by simp
qed simp

section \<open>Registering and starting\<close>

lemma load_fresh:
  assumes none: "map_of (modulesByIdentifier r) i = None" and empty: "scopesByIdentifier r = new_Multimap"
  shows "loadDefinition i r = r\<lparr>modulesByIdentifier := modulesByIdentifier r @ [(i, new_Module (next_module r) i)],
    next_module := Suc (next_module r)\<rparr>"
proof -
  have upd: "map_of xs i = None \<Longrightarrow> AList.update i v xs = xs @ [(i, v)]" for xs and v :: module
    by (induction xs) (auto split: if_splits)
  have twice: "map_of xs i = None \<Longrightarrow> AList.update i v (xs @ [(i, w)]) = xs @ [(i, v)]" for xs and v w :: module
    by (induction xs) (auto split: if_splits)
  have "getValuesForKey (scopesByIdentifier r) i = []" by (simp add: empty getValuesForKey_def new_Multimap_def)
  then show ?thesis using none
    by (simp add: loadDefinition_def unloadIdentifier_def connectModule_def Let_def new_Module_def upd twice)
qed

lemma register_all:
  assumes "distinct is"
  shows "fold Application_register is new_Application = new_Application\<lparr>ap_scopes := (ap_scopes new_Application)
    \<lparr>router_st := \<lparr>scopesByIdentifier = new_Multimap, modulesByIdentifier = map (\<lambda>(k, i). (i, new_Module k i)) (enumerate 0 is),
      next_module = length is, lifecycles = []\<rparr>\<rparr>\<rparr>"
  using assms
proof (induction "is" rule: rev_induct)
  case (snoc i "is")
  let ?ms = "map (\<lambda>(k, i). (i, new_Module k i)) (enumerate 0 is)"
  have keys: "map fst ?ms = is" by (simp add: comp_def case_prod_unfold)
  then have none: "map_of ?ms i = None" using snoc.prems map_of_eq_None_iff [of ?ms i] set_map [of fst ?ms] by simp
  have "fold Application_register (is @ [i]) new_Application = Application_register i (fold Application_register is new_Application)"
    by simp
  also have "\<dots> = Application_register i (new_Application\<lparr>ap_scopes := (ap_scopes new_Application)
    \<lparr>router_st := \<lparr>scopesByIdentifier = new_Multimap, modulesByIdentifier = ?ms, next_module = length is, lifecycles = []\<rparr>\<rparr>\<rparr>)"
    using snoc by simp
  finally have "fold Application_register (is @ [i]) new_Application = \<dots>" .
  then show ?case using none unfolding Application_register_def [of i] by (simp add: load_fresh enumerate_append_eq)
qed (simp add: new_Application_def new_Router_def)

lemma registered_run:
  assumes "dom_ok d" and "document_root \<in> set (ids d)"
  shows "app_run \<lparr>doc = d, records = [], transients = []\<rparr> (fold Application_register is new_Application) {}"
    "distinct is \<Longrightarrow> ap_elements (fold Application_register is new_Application) = new_ElementObserver document_root"
    "distinct is \<Longrightarrow> ap_tokens (fold Application_register is new_Application) = new_TokenListObserver controllerAttribute"
proof -
  show "app_run \<lparr>doc = d, records = [], transients = []\<rparr> (fold Application_register is new_Application) {}"
    by (induction "is" rule: rev_induct) (auto intro: app_run.register app_run.created assms)
qed (simp_all only: register_all, simp_all add: new_Application_def)

lemma module_number_registered:
  "module_number \<lparr>scopesByIdentifier = sc, modulesByIdentifier = map (\<lambda>(k, i). (i, new_Module k i)) (enumerate n is),
     next_module = next, lifecycles = log\<rparr> = map_of (zip is [n..<n + length is])"
proof
  fix x
  show "module_number \<lparr>scopesByIdentifier = sc, modulesByIdentifier = map (\<lambda>(k, i). (i, new_Module k i)) (enumerate n is),
     next_module = next, lifecycles = log\<rparr> x = map_of (zip is [n..<n + length is]) x"
  proof (induction "is" arbitrary: n)
    case (Cons i "is")
    have "[n..<n + length (i # is)] = n # [Suc n..<Suc n + length is]" by (subst upt_conv_Cons) simp_all
    with Cons [of "Suc n"] show ?case by (simp add: module_number_def new_Module_def)
  qed (simp add: module_number_def)
qed

lemma start_log:
  assumes "dom_ok d" and "document_root \<in> set (ids d)" and "distinct is"
  shows "lifecycles (router_st (ap_scopes (Application_start d (fold Application_register is new_Application)))) =
    concat (map (opened (map_of (zip is [0..<length is]))) (set_from (document_scopes d)))"
proof -
  let ?app = "fold Application_register is new_Application"
  let ?r = "router_st (ap_scopes ?app)"
  let ?s = "\<lparr>doc = d, records = [], transients = []\<rparr>"
  note reg = register_all [OF assms(3)]
  note run = registered_run(1) [OF assms(1,2), of "is"] and eo = registered_run(2,3) [OF assms]
  then have stopped: "\<not> eo_started (ap_elements ?app)" "eo_elements (ap_elements ?app) = []"
    by (simp_all add: new_ElementObserver_def)
  obtain eo tlo calls where st: "(eo, tlo, calls) = start_tokens d controllerAttribute (ap_elements ?app)
      (new_TokenListObserver controllerAttribute)" by (metis surj_pair)
  have inv: "app_inv ?s ?app {}" by (rule app_run_inv [OF run])
  then have "eo_inv controllerAttribute document_root ?s (ap_elements ?app)" by (simp add: app_inv_def)
  from start_tokens_new(4) [OF this stopped, of eo tlo calls] st obtain n' where rep: "token_replay calls ({}, 0) = Some (all_tokens tlo, n')"
    by auto
  have vl: "so.vl_inv (ap_values ?app, ap_scopes ?app) ({}, 0)"
    using inv stopped(1) by (auto simp: app_inv_def eo all_tokens_def new_TokenListObserver_def [of controllerAttribute]
      getValuesForKey_def new_Multimap_def)
  from start_calls [OF assms(1,2)] st obtain toks where toks: "calls = map TokenMatched toks"
    "map scope_of toks = document_scopes d" by (metis eo(1) snd_conv)
  have "opened_all ?r (map scope_of []) ?r"
    by (auto simp: opened_all_def set_from_def reg new_Module_def dest!: map_of_SomeD)
  from tokens_open_scopes [OF vl rep [unfolded toks(1)], of ?r "[]"] this toks
  have "opened_all ?r (document_scopes d) (router_st (ap_scopes (Application_start d ?app)))"
    by (simp add: Application_start_def eo(2) st [symmetric] Application_tokens_def case_prod_unfold Let_def)
  then show ?thesis by (simp add: opened_all_def reg module_number_registered [where n = 0, simplified])
qed

text \<open>Which controllers exist after the start.\<close>

lemma opened_life:
  assumes "distinct scs"
  shows "life_of (concat (map (opened numbers) scs)) c =
    Some (if ctx_scope c \<in> set scs \<and> numbers (scope_identifier (ctx_scope c)) = Some (ctx_module c) then Connected else Fresh)"
  using assms
proof (induction scs rule: rev_induct)
  case (snoc sc scs)
  then show ?case by (cases c) (auto simp: life_of_append opened_def split: option.splits)
qed simp

lemma start_controllers:
  assumes "dom_ok d" and "document_root \<in> set (ids d)" and "distinct is"
  shows "getControllerForElementAndIdentifier (Application_start d (fold Application_register is new_Application)) e i = Some c \<longleftrightarrow>
    ctx_scope c = \<lparr>scope_element = e, scope_identifier = i\<rparr> \<and> \<lparr>scope_element = e, scope_identifier = i\<rparr> \<in> set (document_scopes d)
    \<and> map_of (zip is [0..<length is]) i = Some (ctx_module c)"
proof -
  let ?app = "Application_start d (fold Application_register is new_Application)"
  let ?r = "router_st (ap_scopes ?app)"
  let ?s = "\<lparr>doc = d, records = [], transients = []\<rparr>"
  from app_run.start [OF registered_run(1) [OF assms(1,2)], of "is"] have "app_run ?s ?app {}"
    using registered_run(2) [OF assms] by (simp add: new_ElementObserver_def)
  then have ok: "router_ok ?r" using app_inv_ok [OF app_run_inv] by (simp add: scopes_ok_def)
  have "ctx_scope c = \<lparr>scope_element = e, scope_identifier = i\<rparr>" if "getContextForElementAndIdentifier ?r e i = Some c"
    using that by (auto simp: getContext_Some [OF ok])
  then show ?thesis
    using router_connected [OF ok, of c] opened_life [of "set_from (document_scopes d)" "map_of (zip is [0..<length is])" c]
    by (auto simp: getControllerForElementAndIdentifier_def start_log [OF assms] split: if_splits)
qed

text \<open>
  C15: An application whose definitions are registered before it starts initialises and connects its
  controllers in the order of the document: element by element, and for each element in the order
  of the words of its \<open>data-controller\<close> attribute, once for each different pair; a word without a
  definition is passed over. Each \<open>connect\<close> follows its \<open>initialize\<close> at once.
\<close>

theorem starts_in_document_order:
  assumes "dom_ok d" and "document_root \<in> set (ids d)" and "distinct is"
  shows "lifecycles (router_st (ap_scopes (Application_start d (fold Application_register is new_Application)))) =
    concat (map (opened (map_of (zip is [0..<length is]))) (set_from (document_scopes d)))"
  by (rule start_log [OF assms])

definition two_elements :: dom where
  "two_elements = [El 0 ''html'' [] [El 2 ''p'' [(''data-controller'', ''b a b'')] [El 1 ''p'' [(''data-controller'', ''c a'')] []]]]"

theorem starts_in_document_order_witness:
  "let log = lifecycles (router_st (ap_scopes (Application_start two_elements
         (fold Application_register [''a'', ''b''] new_Application))));
       at = (\<lambda>k e i. [Initialize \<lparr>ctx_module = k, ctx_scope = \<lparr>scope_element = e, scope_identifier = i\<rparr>\<rparr>,
         Connect \<lparr>ctx_module = k, ctx_scope = \<lparr>scope_element = e, scope_identifier = i\<rparr>\<rparr>])
   in dom_ok two_elements \<and> log = at 1 2 ''b'' @ at 0 2 ''a'' @ at 0 1 ''a''"
proof -
  have ok: "dom_ok two_elements" by (auto simp: dom_ok_def dom_wf_def two_elements_def document_root_def)
  have "document_root \<in> set (ids two_elements)" by code_simp
  note order = starts_in_document_order [OF ok this, of "[''a'', ''b'']"]
  have "map (opened (map_of (zip [''a'', ''b''] [0..<2]))) (set_from (document_scopes two_elements)) =
      map (opened (map_of (zip [''a'', ''b''] [0..<2]))) [\<lparr>scope_element = 2, scope_identifier = ''b''\<rparr>,
        \<lparr>scope_element = 2, scope_identifier = ''a''\<rparr>, \<lparr>scope_element = 1, scope_identifier = ''c''\<rparr>,
        \<lparr>scope_element = 1, scope_identifier = ''a''\<rparr>]"
    by (rule arg_cong [where f = "map _"]) code_simp
  with order ok show ?thesis by (simp add: opened_def numeral_2_eq_2 upt_rec Let_def)
qed

end
