(* ===== verification/Document_Walk.thy ===== *)
theory Document_Walk
  imports Start_Order Scope_Targets
begin

text \<open>
  Reading a document in one walk: the elements of a tree with their ancestors, and the words of an
  attribute in document order. The look-ups of stimulus.js (\<open>closest\<close>, the targets of a scope, the
  scopes of a document) are expressed by walks, so that they can be evaluated on the document of a
  whole page.
\<close>

section \<open>Documents of one tree\<close>

lemma single_tree_ok:
  assumes "distinct (ids [El document_root t a ks])"
  shows "dom_ok [El document_root t a ks]"
  using assms below_ids [of _ document_root ks] by (auto simp: dom_ok_def dom_wf_def)

lemma single_tree_subtree: "subtree [El document_root t a ks] document_root = ids [El document_root t a ks]"
  by (simp add: subtree_def)

lemma node_attrs: "distinct (ids d) \<Longrightarrow> (i, t, a) \<in> set (nodes d) \<Longrightarrow> attrs d i = a"
  by (simp add: attrs_def ids_def)

text \<open>The words of an attribute, with their elements.\<close>

definition attribute_words :: "dom \<Rightarrow> string \<Rightarrow> (nat \<times> string) list" where
  "attribute_words d an = concat (map (\<lambda>(i, t, a). case map_of a an of None \<Rightarrow> [] | Some v \<Rightarrow> map (Pair i) (token_words v)) (nodes d))"

lemma attribute_words_ids:
  assumes "distinct (ids d)" and "lower an = an"
  shows "concat (map (\<lambda>e. map (Pair e) (attr_words d an e)) (ids d)) = attribute_words d an"
proof -
  have "map (\<lambda>e. map (Pair e) (attr_words d an e)) (ids d) =
      map (\<lambda>(i, t, a). case map_of a an of None \<Rightarrow> [] | Some v \<Rightarrow> map (Pair i) (token_words v)) (nodes d)"
    unfolding ids_def map_map
    by (rule map_cong) (auto simp: attr_words_def getAttribute_def assms(2) node_attrs [OF assms(1)] split: option.split)
  then show ?thesis by (simp add: attribute_words_def)
qed

lemma single_tree_scopes:
  assumes d: "d = [El document_root t a ks]" and dist: "distinct (ids d)"
  shows "document_scopes d = map (\<lambda>(e, i). \<lparr>scope_element = e, scope_identifier = i\<rparr>) (attribute_words d ''data-controller'')"
proof -
  have ms: "AttributeObserver_matchElementsInTree d controllerAttribute document_root =
      filter (\<lambda>e. hasAttribute d e controllerAttribute) (ids d)"
    using single_tree_subtree [of t a ks] unfolding d
    by (simp add: AttributeObserver_matchElementsInTree_def AttributeObserver_matchElement_def querySelectorAll_def cong: filter_cong)
  have skip: "concat (map f (filter P xs)) = concat (map f xs)" if "\<And>x. x \<in> set xs \<Longrightarrow> \<not> P x \<Longrightarrow> f x = []"
    for f :: "nat \<Rightarrow> scope list" and P xs using that by (induction xs) auto
  have "document_scopes d = concat (map (\<lambda>e. map (\<lambda>i. \<lparr>scope_element = e, scope_identifier = i\<rparr>)
      (attr_words d controllerAttribute e)) (ids d))"
    unfolding document_scopes_def ms by (rule skip) (simp add: hasAttribute_def attr_words_def)
  also have "\<dots> = map (\<lambda>(e, i). \<lparr>scope_element = e, scope_identifier = i\<rparr>)
      (concat (map (\<lambda>e. map (Pair e) (attr_words d controllerAttribute e)) (ids d)))"
    by (simp add: map_concat comp_def)
  also have "\<dots> = map (\<lambda>(e, i). \<lparr>scope_element = e, scope_identifier = i\<rparr>) (attribute_words d controllerAttribute)"
    unfolding attribute_words_ids [OF dist lower_controllerAttribute] ..
  finally show ?thesis by (simp add: controllerAttribute_def)
qed

section \<open>Ancestors\<close>

text \<open>Each element with its attributes, followed by its ancestors with theirs.\<close>

fun walk :: "(nat \<times> (string, string) jsmap) list \<Rightarrow> dom \<Rightarrow> (nat \<times> (string, string) jsmap) list list" where
  "walk up [] = []"
| "walk up (El i t a ks # ts) = ((i, a) # up) # walk ((i, a) # up) ks @ walk up ts"

lemma walk_up:
  "p \<in> set (walk up d) \<Longrightarrow> \<exists>q. p = q @ up \<and> q \<noteq> [] \<and> fst (hd q) \<in> set (ids d) \<and> (\<forall>(i, a) \<in> set q. \<exists>t. (i, t, a) \<in> set (nodes d))"
proof (induction up d arbitrary: p rule: walk.induct)
  case (2 up i t a ks ts)
  from 2(3) consider "p = (i, a) # up" | "p \<in> set (walk ((i, a) # up) ks)" | "p \<in> set (walk up ts)" by auto
  then show ?case
  proof cases
    case 1
    then show ?thesis by (intro exI [of _ "[(i, a)]"]) auto
  next
    case 2
    with "2.IH"(1) obtain q where "p = q @ (i, a) # up" "q \<noteq> []" "fst (hd q) \<in> set (ids ks)"
      "\<forall>(i, a) \<in> set q. \<exists>t. (i, t, a) \<in> set (nodes ks)" by blast
    then show ?thesis by (intro exI [of _ "q @ [(i, a)]"]) auto
  next
    case 3
    with "2.IH"(2) obtain q where "p = q @ up" "q \<noteq> []" "fst (hd q) \<in> set (ids ts)"
      "\<forall>(i, a) \<in> set q. \<exists>t. (i, t, a) \<in> set (nodes ts)" by blast
    then show ?thesis by (intro exI [of _ q]) auto
  qed
qed simp

lemma walk_path:
  "distinct (ids d) \<Longrightarrow> p \<in> set (walk up d) \<Longrightarrow> map fst p = path (fst (hd p)) d @ map fst up"
proof (induction up d arbitrary: p rule: walk.induct)
  case (2 up i t a ks ts)
  from 2(4) consider "p = (i, a) # up" | "p \<in> set (walk ((i, a) # up) ks)" | "p \<in> set (walk up ts)" by auto
  then show ?case
  proof cases
    case 2
    with walk_up [OF this] have e: "fst (hd p) \<in> set (ids ks)" by auto
    then have "fst (hd p) \<noteq> i" "path (fst (hd p)) ks \<noteq> []" using "2.prems"(1) by (auto simp: path_Nil)
    with 2 "2.IH"(1) [of p] "2.prems"(1) show ?thesis by simp
  next
    case 3
    with walk_up [OF this] have e: "fst (hd p) \<in> set (ids ts)" by auto
    then have "fst (hd p) \<noteq> i" "path (fst (hd p)) ks = []" using "2.prems"(1) by (auto simp: path_Nil)
    with 3 "2.IH"(2) [of p] "2.prems"(1) show ?thesis by simp
  qed simp
qed simp

definition lists_word :: "string \<Rightarrow> string \<Rightarrow> (string, string) jsmap \<Rightarrow> bool" where
  "lists_word an w a \<longleftrightarrow> (case map_of a an of None \<Rightarrow> False | Some v \<Rightarrow> w \<in> set (html_words v))"

lemma walk_matches:
  assumes "distinct (ids d)" and "p \<in> set (walk [] d)" and "(i, a) \<in> set p"
  shows "matches d (AttrToken name w) i \<longleftrightarrow> lists_word (lower name) w a"
proof -
  from walk_up [OF assms(2)] assms(3) obtain t where "(i, t, a) \<in> set (nodes d)" by fastforce
  then show ?thesis using node_attrs [OF assms(1)] by (simp add: getAttribute_def lists_word_def split: option.split)
qed

text \<open>The element whose controller of an identifier an element belongs to.\<close>

definition owner :: "string \<Rightarrow> (nat \<times> (string, string) jsmap) list \<Rightarrow> nat option" where
  "owner i p = map_option fst (find (\<lambda>(e, a). lists_word ''data-controller'' i a) p)"

lemma walk_closest:
  assumes "distinct (ids d)" and "p \<in> set (walk [] d)"
  shows "closest d (fst (hd p)) (controllerSelector \<lparr>scope_element = e, scope_identifier = i\<rparr>) = owner i p"
proof -
  have low: "lower ''data-controller'' = ''data-controller''" by code_simp
  let ?sel = "controllerSelector \<lparr>scope_element = e, scope_identifier = i\<rparr>"
  have "find (matches d ?sel) (map fst q) = map_option fst (find (\<lambda>(e, a). lists_word ''data-controller'' i a) q)"
    if "set q \<subseteq> set p" for q
    using that
  proof (induction q)
    case (Cons x q)
    obtain y b where x: "x = (y, b)" by fastforce
    with Cons.prems have "matches d ?sel y \<longleftrightarrow> lists_word ''data-controller'' i b"
      using walk_matches [OF assms, of y b "''data-controller''" i] by (simp add: controllerSelector_def attributeValueContainsToken_def low)
    with Cons show ?case by (simp add: x)
  qed simp
  from this [of p] show ?thesis using walk_path [OF assms] by (simp add: closest_def owner_def)
qed

text \<open>The targets of an identifier: the owner and each word of the target attribute.\<close>

definition owned_targets :: "dom \<Rightarrow> string \<Rightarrow> (nat option \<times> nat \<times> string) list" where
  "owned_targets d i = concat (map (\<lambda>p. case map_of (snd (hd p)) (lower (''data-'' @ i @ ''-target'')) of
     None \<Rightarrow> []
   | Some v \<Rightarrow> map (\<lambda>w. (owner i p, fst (hd p), w)) (html_words v)) (walk [] d))"

lemma owned_target_found:
  assumes dist: "distinct (ids d)" and own: "(Some e, x, n) \<in> set (owned_targets d i)"
  shows "findTarget d \<lparr>scope_element = e, scope_identifier = i\<rparr> n \<noteq> None"
proof -
  let ?sc = "\<lparr>scope_element = e, scope_identifier = i\<rparr>"
  let ?sel = "getSelectorForTargetName ?sc n"
  from own obtain p v where p: "p \<in> set (walk [] d)" and x: "x = fst (hd p)" and e: "owner i p = Some e"
    and v: "map_of (snd (hd p)) (lower (''data-'' @ i @ ''-target'')) = Some v" "n \<in> set (html_words v)"
    by (force simp: owned_targets_def split: option.splits)
  from walk_up [OF p] have ne: "p \<noteq> []" by auto
  then have hd: "(x, snd (hd p)) \<in> set p" by (simp add: x)
  have m: "matches d ?sel x"
    using walk_matches [OF dist p hd, of "''data-'' @ i @ ''-target''" n] v
    by (simp add: getSelectorForTargetName_def attributeValueContainsToken_def lists_word_def)
  have c: "containsElement d ?sc x" using walk_closest [OF dist p, of e i] e by (simp add: containsElement_def x)
  have "e \<in> set (map fst p)" using e by (auto simp: owner_def find_Some_iff) (metis fst_conv image_iff nth_mem)
  then have "(e, x) \<in> below d" using walk_path [OF dist p] dist path_below [of d e x] by (simp add: dom_wf_def x)
  then have "x \<in> set (subtree d e)" using dist by (simp add: subtree_below dom_wf_def)
  with subtree_head [of d e] have "x = e \<or> x \<in> set (tl (subtree d e))" by auto
  moreover have "find P xs \<noteq> None" if "x \<in> set xs" "P x" for P xs using that by (auto simp: find_None_iff)
  ultimately show ?thesis using m c by (auto simp: findTarget_def findElement_def queryElements_def querySelectorAll_def)
qed

end
