(* ===== verification/Collapsible.thy ===== *)
theory Collapsible
  imports Dom
begin

text \<open>
  The sections of the page that fold (\<open>initCollapsible\<close> of main.js): a click on a title shows or
  hides the element after it and keeps the class \<open>active\<close> on the title.
\<close>

section \<open>Classes and siblings\<close>

text \<open>\<open>classList\<close>, an ordered set that is written back to the attribute.\<close>

definition classList :: "dom \<Rightarrow> nat \<Rightarrow> string list" where
  "classList d e = (case getAttribute d e ''class'' of None \<Rightarrow> [] | Some v \<Rightarrow> set_from (html_words v))"

definition write_classes :: "dom \<Rightarrow> nat \<Rightarrow> string list \<Rightarrow> dom" where
  "write_classes d e cs =
     (if getAttribute d e ''class'' = None \<and> cs = [] then d else update_attrs e (AList.update ''class'' (join '' '' cs)) d)"

definition getElementsByClassName :: "dom \<Rightarrow> string \<Rightarrow> nat list" where
  "getElementsByClassName d c = filter (\<lambda>e. c \<in> set (classList d e)) (subtree d document_root)"

text \<open>The trees of a document are no siblings of each other.\<close>

fun nexts :: "dom \<Rightarrow> (nat \<times> nat) list" where
  "nexts [] = []"
| "nexts [El i t a ks] = nexts ks"
| "nexts (El i t a ks # El j u b ls # ts) = (i, j) # nexts ks @ nexts (El j u b ls # ts)"

fun sibling_pairs :: "dom \<Rightarrow> (nat \<times> nat) list" where
  "sibling_pairs [] = []"
| "sibling_pairs (El i t a ks # ts) = nexts ks @ sibling_pairs ts"

definition nextElementSibling :: "dom \<Rightarrow> nat \<Rightarrow> nat option" where
  "nextElementSibling d e = map_of (sibling_pairs d) e"

section \<open>initCollapsible\<close>

text \<open>The document, the property \<open>style.display\<close> of elements, and the elements that listen to clicks.\<close>

record folding =
  fo_doc :: dom
  fo_display :: "(nat, string) jsmap"
  fo_listening :: "nat list"

definition is_active :: "folding \<Rightarrow> nat \<Rightarrow> bool" where
  "is_active v e \<longleftrightarrow> ''active'' \<in> set (classList (fo_doc v) e)"

definition no_sibling :: string where
  "no_sibling = ''TypeError: content is null''"

fun collapsible_each :: "nat list \<Rightarrow> folding \<Rightarrow> string + folding" where
  "collapsible_each [] v = Inr v"
| "collapsible_each (e # es) v =
     (let v = v\<lparr>fo_listening := fo_listening v @ [e]\<rparr>
      in case nextElementSibling (fo_doc v) e of
           None \<Rightarrow> Inl no_sibling
         | Some content \<Rightarrow> collapsible_each es
             (v\<lparr>fo_display := AList.update content (if is_active v e then ''block'' else ''none'') (fo_display v)\<rparr>))"

definition initCollapsible :: "dom \<Rightarrow> string + folding" where
  "initCollapsible d =
     collapsible_each (getElementsByClassName d ''collapsible'') \<lparr>fo_doc = d, fo_display = [], fo_listening = []\<rparr>"

definition collapsible_click :: "nat \<Rightarrow> folding \<Rightarrow> string + folding" where
  "collapsible_click e v =
     (if e \<notin> set (fo_listening v) then Inr v
      else case nextElementSibling (fo_doc v) e of
             None \<Rightarrow> Inl no_sibling
           | Some content \<Rightarrow>
               let cs = classList (fo_doc v) e
               in if is_active v e
                  then Inr (v\<lparr>fo_display := AList.update content ''none'' (fo_display v),
                              fo_doc := write_classes (fo_doc v) e (set_delete ''active'' cs)\<rparr>)
                  else Inr (v\<lparr>fo_display := AList.update content ''block'' (fo_display v),
                              fo_doc := write_classes (fo_doc v) e (set_add ''active'' cs)\<rparr>))"

fun collapsible_clicks :: "nat list \<Rightarrow> folding \<Rightarrow> string + folding" where
  "collapsible_clicks [] v = Inr v"
| "collapsible_clicks (e # es) v = (case collapsible_click e v of Inl err \<Rightarrow> Inl err | Inr v \<Rightarrow> collapsible_clicks es v)"

section \<open>Siblings\<close>

lemma nexts_ids: "snd ` set (nexts d) \<subseteq> set (tl (ids d))"
proof (induction d rule: nexts.induct)
  case (2 i t a ks)
  then show ?case by (cases "ids ks") auto
next
  case (3 i t a ks j u b ls ts)
  then show ?case by (cases "ids ks") auto
qed simp

lemma nexts_distinct: "distinct (ids d) \<Longrightarrow> distinct (map snd (nexts d))"
proof (induction d rule: nexts.induct)
  case (3 i t a ks j u b ls ts)
  have sub: "snd ` set (nexts ks) \<subseteq> set (ids ks)" "snd ` set (nexts (El j u b ls # ts)) \<subseteq> set (ids ls @ ids ts)"
    using nexts_ids [of ks] nexts_ids [of "El j u b ls # ts"] by (cases "ids ks"; auto)+
  with 3 show ?case by auto
qed simp_all

lemma sibling_ids: "snd ` set (sibling_pairs d) \<subseteq> set (ids d)"
proof (induction d rule: sibling_pairs.induct)
  case (2 i t a ks ts)
  with nexts_ids [of ks] show ?case by (cases "ids ks") auto
qed simp

lemma siblings_distinct: "distinct (ids d) \<Longrightarrow> distinct (map snd (sibling_pairs d))"
proof (induction d rule: sibling_pairs.induct)
  case (2 i t a ks ts)
  have "snd ` set (nexts ks) \<subseteq> set (ids ks)" using nexts_ids [of ks] by (cases "ids ks") auto
  with 2 sibling_ids [of ts] nexts_distinct [of ks] show ?case by auto
qed simp

lemma next_sibling_inj:
  assumes "dom_wf d" and "nextElementSibling d e = Some c" and "nextElementSibling d e' = Some c"
  shows "e = e'"
proof -
  have "(e, c) \<in> set (sibling_pairs d)" "(e', c) \<in> set (sibling_pairs d)"
    using assms(2,3) by (auto simp: nextElementSibling_def dest: map_of_SomeD)
  moreover have "inj_on snd (set (sibling_pairs d))"
    using siblings_distinct assms(1) by (simp add: dom_wf_def distinct_map)
  ultimately show ?thesis using inj_onD [of snd "set (sibling_pairs d)" "(e, c)" "(e', c)"] by simp
qed

lemma update_attrs_siblings [simp]: "nextElementSibling (update_attrs n f d) = nextElementSibling d"
proof -
  have n: "nexts (update_attrs n f d) = nexts d" for d
    by (induction d rule: nexts.induct) simp_all
  have "sibling_pairs (update_attrs n f d) = sibling_pairs d"
    by (induction d rule: sibling_pairs.induct) (simp_all add: n)
  then show ?thesis by (simp add: fun_eq_iff nextElementSibling_def)
qed

section \<open>Writing classes\<close>

definition class_word :: "string \<Rightarrow> bool" where
  "class_word w \<longleftrightarrow> w \<noteq> [] \<and> (\<forall>c \<in> set w. \<not> is_html_ws c)"

lemma pieces_no_ws: "p \<in> set (html_pieces s) \<Longrightarrow> c \<in> set p \<Longrightarrow> \<not> is_html_ws c"
  by (induction s arbitrary: p) (fastforce split: if_splits list.splits)+

lemma words_are_words: "w \<in> set (html_words s) \<Longrightarrow> class_word w"
  using pieces_no_ws by (auto simp: html_words_def class_word_def)

lemma pieces_word:
  assumes "\<forall>c \<in> set w. \<not> is_html_ws c"
  shows "html_pieces w = [w]" "html_pieces (w @ CHR '' '' # s) = w # html_pieces s"
  using assms by (induction w) (simp_all add: is_html_ws_def)

lemma words_join: "\<forall>w \<in> set ws. class_word w \<Longrightarrow> html_words (join '' '' ws) = ws"
proof (induction "'' ''" ws rule: join.induct)
  case (3 p q ps)
  then show ?case by (simp add: html_words_def class_word_def pieces_word del: join.simps) (simp add: pieces_word class_word_def)
qed (simp_all add: html_words_def class_word_def pieces_word)

lemma classes_written:
  assumes "e \<in> set (ids d)" and "\<forall>w \<in> set cs. class_word w" and "distinct cs"
  shows "classList (write_classes d e cs) e' = (if e' = e then cs else classList d e')"
proof -
  have "lower ''class'' = ''class''" by code_simp
  moreover have "set_from cs = cs" using assms(3) by (rule set_from_id)
  ultimately show ?thesis using assms(1,2)
    by (auto simp: classList_def write_classes_def getAttribute_def update_attrs_attrs words_join)
qed

lemma write_classes_frame [simp]:
  "ids (write_classes d e cs) = ids d" "nextElementSibling (write_classes d e cs) = nextElementSibling d"
  by (simp_all add: write_classes_def)

lemma classList_words: "distinct (classList d e)" "w \<in> set (classList d e) \<Longrightarrow> class_word w"
  using words_are_words by (auto simp: classList_def split: option.splits)

section \<open>The state that is shown\<close>

text \<open>The element after the title is shown exactly while the title is active.\<close>

definition shows_state :: "folding \<Rightarrow> nat \<Rightarrow> bool" where
  "shows_state v e \<longleftrightarrow> (\<exists>c. nextElementSibling (fo_doc v) e = Some c
     \<and> map_of (fo_display v) c = Some (if is_active v e then ''block'' else ''none''))"

lemma shows_state_update:
  assumes "dom_wf (fo_doc v)" and "nextElementSibling (fo_doc v) e = Some c" and "shows_state v e'" and "e' \<noteq> e"
    and "nextElementSibling (fo_doc v') = nextElementSibling (fo_doc v)" and "is_active v' e' = is_active v e'"
    and "fo_display v' = AList.update c s (fo_display v)"
  shows "shows_state v' e'"
  using assms next_sibling_inj [of "fo_doc v" e c e'] by (auto simp: shows_state_def)

lemma each_shows:
  assumes "dom_wf (fo_doc v)" and "\<forall>e \<in> set es. nextElementSibling (fo_doc v) e \<noteq> None"
  shows "\<exists>v'. collapsible_each es v = Inr v' \<and> fo_doc v' = fo_doc v \<and> fo_listening v' = fo_listening v @ es
    \<and> (\<forall>e. shows_state v e \<or> e \<in> set es \<longrightarrow> shows_state v' e)"
  using assms
proof (induction es arbitrary: v)
  case (Cons e es)
  from Cons.prems obtain c where c: "nextElementSibling (fo_doc v) e = Some c" by auto
  let ?v = "v\<lparr>fo_listening := fo_listening v @ [e],
    fo_display := AList.update c (if is_active v e then ''block'' else ''none'') (fo_display v)\<rparr>"
  have "shows_state ?v e" using c by (simp add: shows_state_def is_active_def)
  moreover have "shows_state ?v e'" if "shows_state v e'" "e' \<noteq> e" for e'
    using shows_state_update [OF Cons.prems(1) c that, of ?v] by (simp add: is_active_def)
  ultimately have "shows_state v e' \<or> e' = e \<Longrightarrow> shows_state ?v e'" for e' by blast
  moreover from Cons.IH [of ?v] Cons.prems obtain v' where "collapsible_each es ?v = Inr v'" "fo_doc v' = fo_doc v"
    "fo_listening v' = fo_listening v @ e # es" "\<forall>e. shows_state ?v e \<or> e \<in> set es \<longrightarrow> shows_state v' e" by auto
  ultimately show ?case using c by (auto simp: is_active_def Let_def)
qed simp

lemma sibling_known: "nextElementSibling d e = Some c \<Longrightarrow> e \<in> set (ids d)"
proof -
  have n: "fst ` set (nexts d) \<subseteq> set (ids d)" for d
    by (induction d rule: nexts.induct) auto
  have "fst ` set (sibling_pairs d) \<subseteq> set (ids d)"
  proof (induction d rule: sibling_pairs.induct)
    case (2 i t a ks ts)
    with n [of ks] show ?case by auto
  qed simp
  then show "nextElementSibling d e = Some c \<Longrightarrow> e \<in> set (ids d)"
    by (force simp: nextElementSibling_def dest: map_of_SomeD)
qed

lemma click_shows:
  assumes wf: "dom_wf (fo_doc v)" and sib: "\<forall>e \<in> set (fo_listening v). nextElementSibling (fo_doc v) e \<noteq> None"
  shows "\<exists>v'. collapsible_click e v = Inr v' \<and> ids (fo_doc v') = ids (fo_doc v)
    \<and> nextElementSibling (fo_doc v') = nextElementSibling (fo_doc v) \<and> fo_listening v' = fo_listening v
    \<and> (\<forall>e'. is_active v' e' \<longleftrightarrow> (is_active v e' \<noteq> (e' = e \<and> e \<in> set (fo_listening v))))
    \<and> (\<forall>e'. shows_state v e' \<longrightarrow> shows_state v' e')"
proof (cases "e \<in> set (fo_listening v)")
  case True
  with sib obtain c where c: "nextElementSibling (fo_doc v) e = Some c" by auto
  let ?cs = "classList (fo_doc v) e"
  let ?new = "if is_active v e then set_delete ''active'' ?cs else set_add ''active'' ?cs"
  let ?v = "v\<lparr>fo_display := AList.update c (if is_active v e then ''none'' else ''block'') (fo_display v),
    fo_doc := write_classes (fo_doc v) e ?new\<rparr>"
  have click: "collapsible_click e v = Inr ?v" using True c by (simp add: collapsible_click_def Let_def)
  have "class_word ''active''" by code_simp
  then have "\<forall>w \<in> set ?new. class_word w" "distinct ?new" using classList_words(1) [of "fo_doc v" e] classList_words(2) [of _ "fo_doc v" e] by auto
  note classes = classes_written [OF sibling_known [OF c] this]
  then have act: "is_active ?v e' \<longleftrightarrow> (is_active v e' \<noteq> (e' = e))" for e' by (auto simp: is_active_def)
  have "shows_state ?v e" using c act [of e] by (simp add: shows_state_def)
  moreover have "shows_state ?v e'" if "shows_state v e'" "e' \<noteq> e" for e'
    using shows_state_update [OF wf c that, of ?v] act [of e'] that(2) by simp
  ultimately have "\<forall>e'. shows_state v e' \<longrightarrow> shows_state ?v e'" by blast
  with click act True show ?thesis by simp
qed (simp add: collapsible_click_def)

lemma clicks_show:
  assumes "dom_wf (fo_doc v)" and "\<forall>e \<in> set (fo_listening v). nextElementSibling (fo_doc v) e \<noteq> None"
  shows "\<exists>v'. collapsible_clicks es v = Inr v' \<and> nextElementSibling (fo_doc v') = nextElementSibling (fo_doc v)
    \<and> (\<forall>e \<in> set (fo_listening v). (is_active v' e \<longleftrightarrow> (is_active v e \<noteq> odd (count_list es e))))
    \<and> (\<forall>e. shows_state v e \<longrightarrow> shows_state v' e)"
  using assms
proof (induction es arbitrary: v)
  case (Cons e es)
  from click_shows [OF Cons.prems, of e] obtain v1 where v1: "collapsible_click e v = Inr v1" "ids (fo_doc v1) = ids (fo_doc v)"
    "nextElementSibling (fo_doc v1) = nextElementSibling (fo_doc v)" "fo_listening v1 = fo_listening v"
    "\<forall>e'. is_active v1 e' \<longleftrightarrow> (is_active v e' \<noteq> (e' = e \<and> e \<in> set (fo_listening v)))"
    "\<forall>e'. shows_state v e' \<longrightarrow> shows_state v1 e'" by blast
  with Cons.IH [of v1] Cons.prems obtain v' where v': "collapsible_clicks es v1 = Inr v'"
    "nextElementSibling (fo_doc v') = nextElementSibling (fo_doc v)"
    "\<forall>e \<in> set (fo_listening v). (is_active v' e \<longleftrightarrow> (is_active v1 e \<noteq> odd (count_list es e)))"
    "\<forall>e. shows_state v1 e \<longrightarrow> shows_state v' e" by (auto simp: dom_wf_def)
  with v1 show ?case by (intro exI [of _ v']) auto
qed simp

text \<open>
  C23: When every title has an element after it, \<open>initCollapsible\<close> and all clicks on titles end
  without an exception, and after them each title is active exactly when it was active at the
  beginning and was clicked an even number of times, or the other way round, and the element after
  it is displayed exactly when it is active.
\<close>

theorem collapsibles_toggle:
  assumes "dom_wf d" and "\<forall>e \<in> set (getElementsByClassName d ''collapsible''). nextElementSibling d e \<noteq> None"
  shows "\<exists>v v'. initCollapsible d = Inr v \<and> collapsible_clicks es v = Inr v'
    \<and> (\<forall>e \<in> set (getElementsByClassName d ''collapsible''). \<forall>c. nextElementSibling d e = Some c \<longrightarrow>
        (is_active v' e \<longleftrightarrow> (''active'' \<in> set (classList d e)) \<noteq> odd (count_list es e))
        \<and> map_of (fo_display v') c = Some (if is_active v' e then ''block'' else ''none''))"
proof -
  let ?v0 = "\<lparr>fo_doc = d, fo_display = [], fo_listening = []\<rparr>"
  from each_shows [of ?v0 "getElementsByClassName d ''collapsible''"] assms obtain v where v: "initCollapsible d = Inr v"
    "fo_doc v = d" "fo_listening v = getElementsByClassName d ''collapsible''"
    "\<forall>e \<in> set (getElementsByClassName d ''collapsible''). shows_state v e"
    by (auto simp: initCollapsible_def)
  from clicks_show [of v es] v assms obtain v' where v': "collapsible_clicks es v = Inr v'"
    "nextElementSibling (fo_doc v') = nextElementSibling d"
    "\<forall>e \<in> set (getElementsByClassName d ''collapsible''). (is_active v' e \<longleftrightarrow> (is_active v e \<noteq> odd (count_list es e)))"
    "\<forall>e \<in> set (getElementsByClassName d ''collapsible''). shows_state v' e" by auto
  with v(1,2) show ?thesis by (intro exI [of _ v] exI [of _ v']) (auto simp: shows_state_def is_active_def)
qed

definition two_titles :: dom where
  "two_titles = [El 0 ''html'' [] [El 1 ''p'' [(''class'', ''collapsible'')] [], El 2 ''div'' [] [],
     El 3 ''p'' [(''class'', ''active collapsible'')] [], El 4 ''div'' [] []]]"

theorem collapsibles_toggle_witness:
  "\<exists>v v'. initCollapsible two_titles = Inr v \<and> collapsible_clicks [1, 3, 3] v = Inr v'
     \<and> map_of (fo_display v') 2 = Some ''block'' \<and> map_of (fo_display v') 4 = Some ''block''"
proof -
  have wf: "dom_wf two_titles" by (simp add: dom_wf_def two_titles_def)
  have titles: "getElementsByClassName two_titles ''collapsible'' = [1, 3]" by code_simp
  have sib: "nextElementSibling two_titles 1 = Some 2" "nextElementSibling two_titles 3 = Some 4" by code_simp+
  have act: "''active'' \<notin> set (classList two_titles 1)" "''active'' \<in> set (classList two_titles 3)" by code_simp+
  from collapsibles_toggle [OF wf, unfolded titles, of "[1, 3, 3]"] sib
  obtain v v' where "initCollapsible two_titles = Inr v" "collapsible_clicks [1, 3, 3] v = Inr v'"
    "\<forall>e \<in> {1, 3}. \<forall>c. nextElementSibling two_titles e = Some c \<longrightarrow>
        (is_active v' e \<longleftrightarrow> (''active'' \<in> set (classList two_titles e)) \<noteq> odd (count_list [1, 3, 3] e))
        \<and> map_of (fo_display v') c = Some (if is_active v' e then ''block'' else ''none'')" by auto
  with sib act show ?thesis by (intro exI [of _ v] exI [of _ v']) simp
qed

end
