(* ===== verification/Page_Main.thy ===== *)
theory Page_Main
  imports Document_Walk Collapsible Dispatch_Order Gui_Run
begin

text \<open>
  How the page comes up: \<open>main\<close> of main.js on the document of node.html. The theorems put the parts
  together: every controller of the page is started, in an order in which those that use another
  find it, every target that a class declares is in the document, and every button leads to a
  method of the page model.
\<close>

section \<open>The document\<close>

text \<open>
  node.html as the browser parses it, without the texts, the drawings inside the buttons and the
  attributes that no script reads.
\<close>

definition node_doc :: dom where
  "node_doc = [
     El 0 ''html'' [] [
      El 1 ''head'' [] [
       El 2 ''title'' [] [],
       El 3 ''link'' [] [],
       El 4 ''meta'' [] []],
      El 5 ''body'' [] [
       El 6 ''div'' [(''data-controller'', ''flash''), (''id'', ''flash''), (''class'', ''flash'')] [
        El 7 ''div'' [(''data-flash-target'', ''wrapper''), (''id'', ''flash-wrapper'')] []],
       El 8 ''h1'' [] [
        El 9 ''sup'' [] []],
       El 10 ''table'' [(''data-controller'', ''peerInfo''), (''id'', ''peerInfo''), (''class'', ''peer-info'')] [
        El 11 ''tbody'' [] [
         El 12 ''tr'' [] [
          El 13 ''td'' [] [],
          El 14 ''td'' [(''data-peerinfo-target'', ''peerAddr'')] []],
         El 15 ''tr'' [] [
          El 16 ''td'' [] [],
          El 17 ''td'' [(''data-peerinfo-target'', ''socketAddr'')] []]]],
       El 18 ''div'' [(''data-controller'', ''messaging''), (''id'', ''messaging''), (''class'', ''messaging'')] [
        El 19 ''h2'' [(''class'', ''collapsible'')] [],
        El 20 ''div'' [(''data-messaging-target'', ''holder''), (''class'', ''holder'')] [
         El 21 ''div'' [(''data-messaging-target'', ''messages''), (''class'', ''chat-messages'')] []]],
       El 22 ''div'' [(''class'', ''unicast''), (''data-controller'', ''unicast'')] [
        El 23 ''h2'' [(''class'', ''collapsible'')] [],
        El 24 ''div'' [] [
         El 25 ''h3'' [] [],
         El 26 ''div'' [(''class'', ''unicast-chat-form'')] [
          El 27 ''textarea'' [(''data-unicast-target'', ''message''), (''name'', ''message'')] [],
          El 28 ''div'' [(''class'', ''message'')] [
           El 29 ''input'' [(''data-unicast-target'', ''destination''), (''name'', ''destination'')] [],
           El 30 ''button'' [(''data-action'', ''click->unicast#send'')] [
            El 31 ''svg'' [] []]]]]],
       El 32 ''div'' [(''data-controller'', ''broadcast''), (''class'', ''broadcast'')] [
        El 33 ''h2'' [(''class'', ''collapsible'')] [],
        El 34 ''div'' [] [
         El 35 ''div'' [] [
          El 36 ''h3'' [] [],
          El 37 ''div'' [(''class'', ''broadcast-chat-form'')] [
           El 38 ''textarea'' [(''data-broadcast-target'', ''chatMessage''), (''name'', ''message'')] [],
           El 39 ''button'' [(''data-action'', ''click->broadcast#sendChat'')] [
            El 40 ''svg'' [] []]]],
         El 41 ''div'' [] [
          El 42 ''h3'' [] [],
          El 43 ''div'' [(''class'', ''broadcast-chat-form'')] [
           El 44 ''textarea'' [(''data-broadcast-target'', ''privateMessage''), (''name'', ''message'')] [],
           El 45 ''div'' [(''class'', ''message'')] [
            El 46 ''input'' [(''data-broadcast-target'', ''privateRecipients''), (''name'', ''recipients'')] [],
            El 47 ''button'' [(''data-action'', ''click->broadcast#sendPrivate'')] [
             El 48 ''svg'' [] []]]]]]],
       El 49 ''div'' [(''data-controller'', ''routing''), (''class'', ''routing'')] [
        El 50 ''h2'' [(''class'', ''collapsible'')] [],
        El 51 ''div'' [] [
         El 52 ''table'' [] [
          El 53 ''thead'' [] [
           El 54 ''tr'' [] [
            El 55 ''th'' [] [],
            El 56 ''th'' [] []]],
          El 57 ''tbody'' [(''data-routing-target'', ''table'')] []],
         El 58 ''p'' [(''class'', ''collapsible sub'')] [],
         El 59 ''div'' [(''data-routing-target'', ''graphviz''), (''class'', ''graphviz'')] [],
         El 60 ''button'' [(''data-action'', ''click->routing#update'')] [
          El 61 ''svg'' [] []],
         El 62 ''h3'' [] [],
         El 63 ''div'' [(''class'', ''add-peer'')] [
          El 64 ''input'' [(''data-routing-target'', ''peer''), (''name'', ''peer'')] [],
          El 65 ''button'' [(''data-action'', ''click->routing#addPeer'')] [
           El 66 ''svg'' [] []]],
         El 67 ''h3'' [] [],
         El 68 ''div'' [(''class'', ''set-entry'')] [
          El 69 ''input'' [(''data-routing-target'', ''origin''), (''name'', ''origin'')] [],
          El 70 ''input'' [(''data-routing-target'', ''relay''), (''name'', ''relay'')] [],
          El 71 ''button'' [(''data-action'', ''click->routing#setEntry'')] [
           El 72 ''svg'' [] []]]]],
       El 73 ''div'' [(''data-controller'', ''catalog''), (''class'', ''catalog'')] [
        El 74 ''h2'' [(''class'', ''collapsible'')] [],
        El 75 ''div'' [] [
         El 76 ''div'' [(''data-catalog-target'', ''content''), (''class'', ''content'')] [],
         El 77 ''button'' [(''data-action'', ''click->catalog#update'')] [
          El 78 ''svg'' [] []],
         El 79 ''h3'' [] [],
         El 80 ''div'' [(''class'', ''add-catalog-entry'')] [
          El 81 ''input'' [(''data-catalog-target'', ''key''), (''name'', ''key'')] [],
          El 82 ''input'' [(''data-catalog-target'', ''value''), (''name'', ''value'')] [],
          El 83 ''button'' [(''data-action'', ''click->catalog#add'')] [
           El 84 ''svg'' [] []]]]],
       El 85 ''div'' [(''data-controller'', ''dataSharing''), (''class'', ''data'')] [
        El 86 ''h2'' [(''class'', ''collapsible'')] [],
        El 87 ''div'' [] [
         El 88 ''h3'' [] [],
         El 89 ''div'' [(''data-datasharing-target'', ''uploadResult''), (''class'', ''upload-result'')] [],
         El 90 ''input'' [(''data-datasharing-target'', ''fileUpload'')] [],
         El 91 ''button'' [(''data-action'', ''click->dataSharing#upload'')] [
          El 92 ''svg'' [] []],
         El 93 ''h3'' [] [],
         El 94 ''input'' [(''data-datasharing-target'', ''downloadMetahash'')] [],
         El 95 ''button'' [(''data-action'', ''click->dataSharing#download'')] [
          El 96 ''svg'' [] []]]],
       El 97 ''div'' [(''data-controller'', ''search''), (''class'', ''search'')] [
        El 98 ''h2'' [(''class'', ''collapsible'')] [],
        El 99 ''div'' [] [
         El 100 ''h3'' [] [],
         El 101 ''div'' [(''data-search-target'', ''searchAllResult''), (''class'', ''search-all-result'')] [],
         El 102 ''input'' [(''data-search-target'', ''searchAllPattern''), (''name'', ''pattern'')] [],
         El 103 ''input'' [(''data-search-target'', ''searchAllBudget''), (''name'', ''budget'')] [],
         El 104 ''input'' [(''data-search-target'', ''searchAllTimeout''), (''name'', ''timeout'')] [],
         El 105 ''button'' [(''data-action'', ''click->search#searchAll'')] [
          El 106 ''svg'' [] []],
         El 107 ''h3'' [] [],
         El 108 ''div'' [(''data-search-target'', ''searchFirstResult''), (''class'', ''search-first-result'')] [],
         El 109 ''input'' [(''data-search-target'', ''searchFirstPattern''), (''name'', ''pattern'')] [],
         El 110 ''input'' [(''data-search-target'', ''searchFirstInitialBudget''), (''name'', ''budget'')] [],
         El 111 ''input'' [(''data-search-target'', ''searchFirstFactor''), (''name'', ''factor'')] [],
         El 112 ''input'' [(''data-search-target'', ''searchFirstRetry''), (''name'', ''retry'')] [],
         El 113 ''input'' [(''data-search-target'', ''searchFirstTimeout''), (''name'', ''timeout'')] [],
         El 114 ''button'' [(''data-action'', ''click->search#searchFirst'')] [
          El 115 ''svg'' [] []]]],
       El 116 ''div'' [(''data-controller'', ''naming''), (''class'', ''naming'')] [
        El 117 ''h2'' [(''class'', ''collapsible'')] [],
        El 118 ''div'' [] [
         El 119 ''h3'' [] [],
         El 120 ''div'' [(''data-naming-target'', ''resolveResult''), (''class'', ''result'')] [],
         El 121 ''input'' [(''data-naming-target'', ''resolveFilename''), (''name'', ''filename'')] [],
         El 122 ''button'' [(''data-action'', ''click->naming#resolve'')] [
          El 123 ''svg'' [] []],
         El 124 ''h3'' [] [],
         El 125 ''input'' [(''data-naming-target'', ''tagFilename''), (''name'', ''filename'')] [],
         El 126 ''input'' [(''data-naming-target'', ''tagMetahash''), (''name'', ''metahash'')] [],
         El 127 ''button'' [(''data-action'', ''click->naming#tag'')] [
          El 128 ''svg'' [] []]]],
       El 129 ''div'' [(''data-controller'', ''packets''), (''class'', ''packets-holder'')] [
        El 130 ''h2'' [(''class'', ''active collapsible'')] [],
        El 131 ''div'' [(''class'', ''checkbox'')] [
         El 132 ''input'' [(''data-packets-target'', ''follow''), (''id'', ''follow-checkbox'')] [],
         El 133 ''label'' [] []],
        El 134 ''div'' [] [
         El 135 ''div'' [(''data-packets-target'', ''holder''), (''class'', ''packets-top-scroll-holder'')] [
          El 136 ''div'' [(''data-packets-target'', ''scroll'')] []],
         El 137 ''div'' [(''data-packets-target'', ''packets''), (''class'', ''packets'')] []]],
       El 138 ''script'' [] [],
       El 139 ''script'' [] [],
       El 140 ''script'' [] [],
       El 141 ''script'' [] [],
       El 142 ''script'' [] []]]
    ]"

section \<open>The classes of main.js\<close>

definition Flash_targets :: "string list" where
  "Flash_targets = [''wrapper'']"

definition PeerInfo_targets :: "string list" where
  "PeerInfo_targets = [''peerAddr'', ''socketAddr'']"

definition Messaging_targets :: "string list" where
  "Messaging_targets = [''holder'', ''messages'']"

definition Unicast_targets :: "string list" where
  "Unicast_targets = [''message'', ''destination'']"

definition Routing_targets :: "string list" where
  "Routing_targets = [''table'', ''graphviz'', ''peer'', ''origin'', ''relay'']"

definition Packets_targets :: "string list" where
  "Packets_targets = [''follow'', ''holder'', ''scroll'', ''packets'']"

definition Broadcast_targets :: "string list" where
  "Broadcast_targets = [''chatMessage'', ''privateMessage'', ''privateRecipients'']"

definition Catalog_targets :: "string list" where
  "Catalog_targets = [''content'', ''key'', ''value'']"

definition DataSharing_targets :: "string list" where
  "DataSharing_targets = [''uploadResult'', ''fileUpload'', ''downloadMetahash'']"

definition Search_targets :: "string list" where
  "Search_targets = [''searchAllResult'', ''searchAllPattern'', ''searchAllBudget'', ''searchAllTimeout'',
     ''searchFirstResult'', ''searchFirstPattern'', ''searchFirstInitialBudget'',
     ''searchFirstFactor'', ''searchFirstRetry'', ''searchFirstTimeout'']"

definition Naming_targets :: "string list" where
  "Naming_targets = [''resolveResult'', ''resolveFilename'', ''tagFilename'', ''tagMetahash'']"

text \<open>The registrations of \<open>main\<close>: identifier and class, the class by its targets.\<close>

definition registrations :: "(string \<times> string list) list" where
  "registrations = [(''flash'', Flash_targets), (''peerInfo'', PeerInfo_targets), (''messaging'', Messaging_targets),
     (''unicast'', Unicast_targets), (''routing'', Routing_targets), (''packets'', Packets_targets),
     (''broadcast'', Broadcast_targets), (''catalog'', Catalog_targets), (''dataSharing'', DataSharing_targets),
     (''search'', Search_targets), (''naming'', Naming_targets)]"

text \<open>The getters by which controllers find each other.\<close>

definition getElementById :: "dom \<Rightarrow> string \<Rightarrow> nat option" where
  "getElementById d i = find (\<lambda>e. getAttribute d e ''id'' = Some i) (subtree d document_root)"

definition controller_by_id :: "dom \<Rightarrow> application \<Rightarrow> string \<Rightarrow> ctx option" where
  "controller_by_id d app i = (case getElementById d i of
     None \<Rightarrow> None
   | Some element \<Rightarrow> getControllerForElementAndIdentifier app element i)"

definition BaseElement_flash :: "dom \<Rightarrow> application \<Rightarrow> ctx option" where
  "BaseElement_flash d app = controller_by_id d app ''flash''"

definition BaseElement_peerInfo :: "dom \<Rightarrow> application \<Rightarrow> ctx option" where
  "BaseElement_peerInfo d app = controller_by_id d app ''peerInfo''"

definition PeerInfo_flash :: "dom \<Rightarrow> application \<Rightarrow> ctx option" where
  "PeerInfo_flash d app = controller_by_id d app ''flash''"

definition Unicast_messagingController :: "dom \<Rightarrow> application \<Rightarrow> ctx option" where
  "Unicast_messagingController d app = controller_by_id d app ''messaging''"

definition Packets_messagingController :: "dom \<Rightarrow> application \<Rightarrow> ctx option" where
  "Packets_messagingController d app = controller_by_id d app ''messaging''"

section \<open>main\<close>

text \<open>
  \<open>Application.start\<close> is asynchronous: it waits for \<open>domReady\<close>, and what follows runs as a
  microtask, after \<open>main\<close> has returned. The script of node.html runs while the document is
  loading. An exception in \<open>initCollapsible\<close> leaves \<open>main\<close> but not the waiting start.
\<close>

record booting =
  bt_app :: application
  bt_folding :: "string + folding"
  bt_loading :: bool
  bt_waiting :: bool

definition Application_begin :: "bool \<Rightarrow> booting" where
  "Application_begin loading =
     \<lparr>bt_app = new_Application, bt_folding = Inl [], bt_loading = loading, bt_waiting = True\<rparr>"

definition main :: "bool \<Rightarrow> dom \<Rightarrow> booting" where
  "main loading d =
     (let b = Application_begin loading;
          b = b\<lparr>bt_app := fold Application_register (map fst registrations) (bt_app b)\<rparr>
      in b\<lparr>bt_folding := initCollapsible d\<rparr>)"

definition domReady :: "booting \<Rightarrow> bool" where
  "domReady b \<longleftrightarrow> \<not> bt_loading b"

datatype boot_event = DOMContentLoaded | Microtasks

fun boot :: "dom \<Rightarrow> boot_event \<Rightarrow> booting \<Rightarrow> booting" where
  "boot d DOMContentLoaded b = b\<lparr>bt_loading := False\<rparr>"
| "boot d Microtasks b =
     (if bt_waiting b \<and> domReady b then b\<lparr>bt_app := Application_start d (bt_app b), bt_waiting := False\<rparr> else b)"

section \<open>The document, evaluated\<close>

lemma node_ids: "ids node_doc = [0..<143]"
  by code_simp

lemma node_tree: "\<exists>t a ks. node_doc = [El document_root t a ks]"
  by (simp add: node_doc_def document_root_def)

lemma node_ok: "dom_ok node_doc" "document_root \<in> set (ids node_doc)" "distinct (ids node_doc)"
proof -
  show "distinct (ids node_doc)" by (simp add: node_ids)
  with node_tree single_tree_ok show "dom_ok node_doc" by metis
  show "document_root \<in> set (ids node_doc)" by (simp add: node_ids document_root_def)
qed

definition node_controllers :: "(nat \<times> string) list" where
  "node_controllers = [(6, ''flash''), (10, ''peerInfo''), (18, ''messaging''), (22, ''unicast''), (32, ''broadcast''),
     (49, ''routing''), (73, ''catalog''), (85, ''dataSharing''), (97, ''search''), (116, ''naming''), (129, ''packets'')]"

lemma node_scopes:
  "document_scopes node_doc = map (\<lambda>(e, i). \<lparr>scope_element = e, scope_identifier = i\<rparr>) node_controllers"
proof -
  have "attribute_words node_doc ''data-controller'' = node_controllers" by code_simp
  with node_tree single_tree_scopes node_ok(3) show ?thesis by metis
qed

lemma node_by_id: "getElementById node_doc ''flash'' = Some 6" "getElementById node_doc ''peerInfo'' = Some 10"
  "getElementById node_doc ''messaging'' = Some 18"
  by code_simp+

section \<open>Coming up\<close>

text \<open>Whether the waiting start goes on during a sequence of events.\<close>

fun start_runs :: "bool \<Rightarrow> boot_event list \<Rightarrow> bool" where
  "start_runs loading [] = False"
| "start_runs loading (DOMContentLoaded # evs) = start_runs False evs"
| "start_runs loading (Microtasks # evs) = (\<not> loading \<or> start_runs loading evs)"

lemma boot_all:
  "bt_app (fold (boot d) evs b) = (if bt_waiting b \<and> start_runs (bt_loading b) evs then Application_start d (bt_app b) else bt_app b)"
proof (induction evs arbitrary: b)
  case (Cons ev evs)
  have over: "bt_app (fold (boot d) evs b) = bt_app b" if "\<not> bt_waiting b" for b evs
    using that
  proof (induction evs arbitrary: b)
    case (Cons ev evs)
    then show ?case by (cases ev) simp_all
  qed simp
  show ?case
  proof (cases ev)
    case Microtasks
    with Cons over show ?thesis by (auto simp: domReady_def)
  qed (use Cons in simp)
qed simp

abbreviation node_app :: "bool \<Rightarrow> boot_event list \<Rightarrow> application" where
  "node_app loading evs \<equiv> bt_app (fold (boot node_doc) evs (main loading node_doc))"

definition module_at :: "string \<Rightarrow> nat option" where
  "module_at = map_of (zip (map fst registrations) [0..<length registrations])"

definition context_at :: "nat \<times> string \<Rightarrow> ctx" where
  "context_at = (\<lambda>(e, i). \<lparr>ctx_module = the (module_at i), ctx_scope = \<lparr>scope_element = e, scope_identifier = i\<rparr>\<rparr>)"

lemma registrations_distinct: "distinct (map fst registrations)"
  by code_simp

lemma node_app_start:
  "start_runs loading evs \<Longrightarrow>
    node_app loading evs = Application_start node_doc (fold Application_register (map fst registrations) new_Application)"
  by (simp add: boot_all main_def Application_begin_def)

lemma node_log:
  assumes "start_runs loading evs"
  shows "lifecycles (router_st (ap_scopes (node_app loading evs))) =
    concat (map (\<lambda>x. [Initialize (context_at x), Connect (context_at x)]) node_controllers)"
proof -
  have dist: "distinct (document_scopes node_doc)"
    unfolding node_scopes by (simp add: node_controllers_def)
  have "opened module_at \<lparr>scope_element = e, scope_identifier = i\<rparr> = [Initialize (context_at (e, i)), Connect (context_at (e, i))]"
    if "(e, i) \<in> set node_controllers" for e i
  proof -
    have "list_all (\<lambda>(e, i). module_at i \<noteq> None) node_controllers" by code_simp
    with that have "module_at i \<noteq> None" by (auto simp: list_all_iff)
    then show ?thesis by (auto simp: opened_def context_at_def)
  qed
  then have "map (opened module_at) (document_scopes node_doc) =
      map (\<lambda>x. [Initialize (context_at x), Connect (context_at x)]) node_controllers"
    by (auto simp: node_scopes)
  then show ?thesis
    unfolding node_app_start [OF assms] start_log [OF node_ok(1,2) registrations_distinct]
    using set_from_id [OF dist] by (simp add: module_at_def)
qed

lemma node_controller:
  assumes "start_runs loading evs"
  shows "getControllerForElementAndIdentifier (node_app loading evs) e i = (if (e, i) \<in> set node_controllers then Some (context_at (e, i)) else None)"
proof -
  have c: "getControllerForElementAndIdentifier (node_app loading evs) e i = Some c \<longleftrightarrow>
      ctx_scope c = \<lparr>scope_element = e, scope_identifier = i\<rparr> \<and> (e, i) \<in> set node_controllers \<and> module_at i = Some (ctx_module c)" for c
    unfolding node_app_start [OF assms] start_controllers [OF node_ok(1,2) registrations_distinct] node_scopes
    by (auto simp: module_at_def)
  have "list_all (\<lambda>(e, i). module_at i \<noteq> None) node_controllers" by code_simp
  then have m: "(e, i) \<in> set node_controllers \<Longrightarrow> module_at i = Some (ctx_module (context_at (e, i)))"
    by (auto simp: list_all_iff context_at_def)
  show ?thesis
  proof (cases "(e, i) \<in> set node_controllers")
    case True
    moreover have "ctx_scope (context_at (e, i)) = \<lparr>scope_element = e, scope_identifier = i\<rparr>" by (simp add: context_at_def)
    ultimately have "getControllerForElementAndIdentifier (node_app loading evs) e i = Some (context_at (e, i))"
      unfolding c using m by blast
    with True show ?thesis by simp
  next
    case False
    with c show ?thesis by (metis not_None_eq)
  qed
qed

lemma node_titles: "getElementsByClassName node_doc ''collapsible'' = [19, 23, 33, 50, 58, 74, 86, 98, 117, 130]"
proof -
  let ?listed = "\<lambda>(i, t, a). case map_of a ''class'' of None \<Rightarrow> False | Some v \<Rightarrow> ''collapsible'' \<in> set (html_words v)"
  have low: "lower ''class'' = ''class''" by code_simp
  have "''collapsible'' \<in> set (classList node_doc i) \<longleftrightarrow> ?listed (i, t, a)" if "(i, t, a) \<in> set (nodes node_doc)" for i t a
    using node_attrs [OF node_ok(3) that] by (cases "map_of a ''class''") (simp_all add: classList_def getAttribute_def low)
  then have "filter (\<lambda>e. ''collapsible'' \<in> set (classList node_doc e)) (ids node_doc) = map fst (filter ?listed (nodes node_doc))"
    unfolding ids_def filter_map by (intro arg_cong [where f = "map fst"] filter_cong) auto
  moreover have "map fst (filter ?listed (nodes node_doc)) = [19, 23, 33, 50, 58, 74, 86, 98, 117, 130]" by code_simp
  moreover have "subtree node_doc document_root = ids node_doc" using node_tree single_tree_subtree by metis
  ultimately show ?thesis by (simp add: getElementsByClassName_def)
qed

lemma node_siblings:
  "map (nextElementSibling node_doc) [19, 23, 33, 50, 58, 74, 86, 98, 117, 130] = map Some [20, 24, 34, 51, 59, 75, 87, 99, 118, 131]"
  by (simp add: node_doc_def nextElementSibling_def)

lemma node_folds: "\<exists>v. bt_folding (main loading node_doc) = Inr v"
proof -
  have "\<forall>e \<in> set (getElementsByClassName node_doc ''collapsible''). nextElementSibling node_doc e \<noteq> None"
    unfolding node_titles using node_siblings by simp
  with each_shows [of "\<lparr>fo_doc = node_doc, fo_display = [], fo_listening = []\<rparr>" "getElementsByClassName node_doc ''collapsible''"] node_ok(3)
  show ?thesis by (auto simp: main_def initCollapsible_def dom_wf_def Let_def)
qed

lemma life_of_others: "\<forall>ev \<in> set evs. ev \<noteq> Initialize c \<and> ev \<noteq> Connect c \<and> ev \<noteq> Disconnect c \<Longrightarrow> life_of (log @ evs) c = life_of log c"
  unfolding life_of_append
proof (induction evs rule: rev_induct)
  case (snoc ev evs)
  then show ?case by (cases ev) auto
qed simp

lemma life_at_split:
  assumes "log @ rest = log1 @ log2" and "\<forall>ev \<in> set rest. ev \<noteq> Initialize c \<and> ev \<noteq> Connect c \<and> ev \<noteq> Disconnect c"
    and "length log \<le> length log1"
  shows "life_of log1 c = life_of log c"
proof -
  from assms(1,3) obtain evs where "log1 = log @ evs" "rest = evs @ log2" by (auto simp: append_eq_append_conv2)
  with assms(2) show ?thesis by (simp add: life_of_others)
qed

lemma node_order:
  assumes run: "start_runs loading evs" and log: "lifecycles (router_st (ap_scopes (node_app loading evs))) = log1 @ Initialize c # log2"
    and c: "scope_identifier (ctx_scope c) \<notin> {''flash'', ''peerInfo''}"
  shows "life_of log1 (context_at (6, ''flash'')) = Some Connected" "life_of log1 (context_at (10, ''peerInfo'')) = Some Connected"
proof -
  let ?f = "context_at (6, ''flash'')" and ?p = "context_at (10, ''peerInfo'')"
  let ?first = "[Initialize ?f, Connect ?f, Initialize ?p, Connect ?p]"
  let ?rest = "concat (map (\<lambda>x. [Initialize (context_at x), Connect (context_at x)]) (drop 2 node_controllers))"
  have split: "?first @ ?rest = log1 @ Initialize c # log2"
    unfolding log [symmetric] node_log [OF run] by (simp add: node_controllers_def)
  have ids: "scope_identifier (ctx_scope ?f) = ''flash''" "scope_identifier (ctx_scope ?p) = ''peerInfo''"
    by (simp_all add: context_at_def)
  have "length ?first \<le> length log1"
  proof (rule ccontr)
    assume "\<not> length ?first \<le> length log1"
    then have "length log1 < length ?first" by (simp only: not_le)
    from this nth_mem [OF this] have "(?first @ ?rest) ! length log1 \<in> set ?first" by (simp only: nth_append if_True)
    moreover have "(?first @ ?rest) ! length log1 = Initialize c" unfolding split by simp
    ultimately show False using c ids by auto
  qed
  note at = life_at_split [OF split _ this]
  have others: "\<forall>ev \<in> set ?rest. \<exists>x. scope_identifier (ctx_scope x) \<notin> {''flash'', ''peerInfo''} \<and> (ev = Initialize x \<or> ev = Connect x)"
    by (auto simp: node_controllers_def context_at_def intro: exI)
  have neq: "?f \<noteq> ?p" by (simp add: context_at_def)
  show "life_of log1 ?f = Some Connected" using at [of ?f] others ids neq by (fastforce simp: life_of_def)
  show "life_of log1 ?p = Some Connected" using at [of ?p] others ids neq by (fastforce simp: life_of_def)
qed

text \<open>
  C4: The page comes up. Whether the script runs while the document is loading or after, once the
  waiting start of the application has run: \<open>main\<close> ended without an exception; the controllers of
  node.html exist, each for its element, and no others; the getters by which controllers find the
  flash messages, the peer information and the chat find them; and whenever a controller other than
  \<open>flash\<close> and \<open>peerInfo\<close> is initialised, which for \<open>routing\<close>, \<open>packets\<close> and \<open>catalog\<close> uses
  \<open>this.peerInfo\<close>, these two are connected. Before the start has run there is no controller.
\<close>

theorem page_comes_up:
  assumes "start_runs loading evs"
  shows "(\<exists>v. bt_folding (main loading node_doc) = Inr v)
    \<and> (\<forall>e i. (\<exists>c. getControllerForElementAndIdentifier (node_app loading evs) e i = Some c) \<longleftrightarrow> (e, i) \<in> set node_controllers)
    \<and> BaseElement_flash node_doc (node_app loading evs) = Some (context_at (6, ''flash''))
    \<and> BaseElement_peerInfo node_doc (node_app loading evs) = Some (context_at (10, ''peerInfo''))
    \<and> PeerInfo_flash node_doc (node_app loading evs) = Some (context_at (6, ''flash''))
    \<and> Unicast_messagingController node_doc (node_app loading evs) = Some (context_at (18, ''messaging''))
    \<and> Packets_messagingController node_doc (node_app loading evs) = Some (context_at (18, ''messaging''))
    \<and> (\<forall>log1 c log2. lifecycles (router_st (ap_scopes (node_app loading evs))) = log1 @ Initialize c # log2 \<longrightarrow>
        scope_identifier (ctx_scope c) \<notin> {''flash'', ''peerInfo''} \<longrightarrow>
        life_of log1 (context_at (6, ''flash'')) = Some Connected \<and> life_of log1 (context_at (10, ''peerInfo'')) = Some Connected)
    \<and> (\<forall>evs' e i. \<not> start_runs loading evs' \<longrightarrow> getControllerForElementAndIdentifier (node_app loading evs') e i = None)"
proof (intro conjI allI impI)
  fix evs' e i assume "\<not> start_runs loading evs'"
  then have "node_app loading evs' = fold Application_register (map fst registrations) new_Application"
    by (simp add: boot_all main_def Application_begin_def)
  then show "getControllerForElementAndIdentifier (node_app loading evs') e i = None"
    unfolding register_all [OF registrations_distinct]
    by (auto simp: getControllerForElementAndIdentifier_def getContextForElementAndIdentifier_def new_Module_def
        dest!: map_of_SomeD split: option.split)
next
  show "\<exists>v. bt_folding (main loading node_doc) = Inr v" by (rule node_folds)
next
  fix e i
  show "(\<exists>c. getControllerForElementAndIdentifier (node_app loading evs) e i = Some c) \<longleftrightarrow> (e, i) \<in> set node_controllers"
    by (simp add: node_controller [OF assms])
next
  fix log1 c log2
  assume "lifecycles (router_st (ap_scopes (node_app loading evs))) = log1 @ Initialize c # log2"
    "scope_identifier (ctx_scope c) \<notin> {''flash'', ''peerInfo''}"
  note o = node_order [OF assms this]
  show "life_of log1 (context_at (6, ''flash'')) = Some Connected" by (rule o)
  show "life_of log1 (context_at (10, ''peerInfo'')) = Some Connected" by (rule o)
qed (simp_all add: BaseElement_flash_def BaseElement_peerInfo_def PeerInfo_flash_def Unicast_messagingController_def
  Packets_messagingController_def controller_by_id_def node_by_id node_controller [OF assms], simp_all add: node_controllers_def)

theorem page_comes_up_witness:
  "start_runs True [Microtasks, DOMContentLoaded, Microtasks]
   \<and> (\<exists>c. getControllerForElementAndIdentifier (node_app True [Microtasks, DOMContentLoaded, Microtasks]) 49 ''routing'' = Some c)
   \<and> getControllerForElementAndIdentifier (node_app True [Microtasks]) 49 ''routing'' = None"
proof -
  have run: "start_runs True [Microtasks, DOMContentLoaded, Microtasks]" and wait: "\<not> start_runs True [Microtasks]" by simp_all
  have "(49, ''routing'') \<in> set node_controllers" by (simp add: node_controllers_def)
  with page_comes_up [OF run] wait run show ?thesis by blast
qed

section \<open>Targets and buttons\<close>

text \<open>The methods of the classes that node.html names in its actions.\<close>

definition handlers :: "((string \<times> string) \<times> Gui_Run.action) list" where
  "handlers = [((''unicast'', ''send''), ActUnicastSend), ((''broadcast'', ''sendChat''), ActSendChat),
     ((''broadcast'', ''sendPrivate''), ActSendPrivate), ((''routing'', ''update''), ActRoutingUpdate),
     ((''routing'', ''addPeer''), ActAddPeer), ((''routing'', ''setEntry''), ActSetEntry),
     ((''catalog'', ''update''), ActCatalogUpdate), ((''catalog'', ''add''), ActCatalogAdd),
     ((''dataSharing'', ''upload''), ActUpload), ((''dataSharing'', ''download''), ActDownload),
     ((''search'', ''searchAll''), ActSearchAll), ((''search'', ''searchFirst''), ActSearchFirst),
     ((''naming'', ''resolve''), ActResolve), ((''naming'', ''tag''), ActTag)]"

definition page_actions :: "dom \<Rightarrow> (string + Action.action) list" where
  "page_actions d = concat (map (\<lambda>e. map (\<lambda>w. Action_forToken d \<lparr>tok_id = 0, tok_element = e,
     tok_attributeName = ''data-action'', tok_content = w, tok_index = 0\<rparr>) (attr_words d ''data-action'' e)) (ids d))"

definition button_of :: "string + Action.action \<Rightarrow> (nat \<times> string \<times> string \<times> string) option" where
  "button_of r = (case r of Inl err \<Rightarrow> None | Inr a \<Rightarrow> Some (act_element a, act_eventName a, act_identifier a, act_methodName a))"

definition node_buttons :: "(nat \<times> string \<times> string \<times> string) list" where
  "node_buttons = [(30, ''click'', ''unicast'', ''send''), (39, ''click'', ''broadcast'', ''sendChat''),
     (47, ''click'', ''broadcast'', ''sendPrivate''), (60, ''click'', ''routing'', ''update''), (65, ''click'', ''routing'', ''addPeer''),
     (71, ''click'', ''routing'', ''setEntry''), (77, ''click'', ''catalog'', ''update''), (83, ''click'', ''catalog'', ''add''),
     (91, ''click'', ''dataSharing'', ''upload''), (95, ''click'', ''dataSharing'', ''download''),
     (105, ''click'', ''search'', ''searchAll''), (114, ''click'', ''search'', ''searchFirst''),
     (122, ''click'', ''naming'', ''resolve''), (127, ''click'', ''naming'', ''tag'')]"

definition descriptor_text :: "nat \<times> string \<times> string \<times> string \<Rightarrow> string" where
  "descriptor_text = (\<lambda>(e, ev, i, m). ev @ ''->'' @ i @ ''#'' @ m)"

definition simple_descriptor :: "nat \<times> string \<times> string \<times> string \<Rightarrow> bool" where
  "simple_descriptor b = (case b of (e, ev, i, m) \<Rightarrow> ev \<noteq> [] \<and> i \<noteq> [] \<and> m \<noteq> []
     \<and> parseActionDescriptorString (descriptor_text b) = \<lparr>d_eventTarget = None, d_eventName = Some ev, d_eventOptions = [],
         d_identifier = Some i, d_methodName = Some m\<rparr>)"

lemma simple_button:
  "simple_descriptor b \<Longrightarrow> tok_element tok = fst b \<Longrightarrow> tok_content tok = descriptor_text b \<Longrightarrow>
    button_of (Action_forToken d tok) = Some b"
  by (auto simp: simple_descriptor_def Action_forToken_def new_Action_def or_else_def button_of_def split: prod.splits)

lemma node_descriptors: "attribute_words node_doc ''data-action'' = map (\<lambda>b. (fst b, descriptor_text b)) node_buttons"
  by code_simp

lemma node_buttons_simple: "list_all simple_descriptor node_buttons"
  by code_simp

lemma node_actions: "map button_of (page_actions node_doc) = map Some node_buttons"
proof -
  let ?act = "\<lambda>(e, w). Action_forToken node_doc \<lparr>tok_id = 0, tok_element = e, tok_attributeName = ''data-action'',
    tok_content = w, tok_index = 0\<rparr>"
  have low: "lower ''data-action'' = ''data-action''" by code_simp
  have "page_actions node_doc = map ?act (concat (map (\<lambda>e. map (Pair e) (attr_words node_doc ''data-action'' e)) (ids node_doc)))"
    by (simp add: page_actions_def map_concat comp_def)
  also have "\<dots> = map ?act (attribute_words node_doc ''data-action'')" unfolding attribute_words_ids [OF node_ok(3) low] ..
  finally have "map button_of (page_actions node_doc) =
      map (\<lambda>b. button_of (?act (fst b, descriptor_text b))) node_buttons" by (simp add: node_descriptors)
  also have "\<dots> = map Some node_buttons"
    using node_buttons_simple by (intro map_cong) (auto simp: list_all_iff simple_button)
  finally show ?thesis .
qed

text \<open>The elements of the controllers that the buttons belong to.\<close>

definition owned_buttons :: "dom \<Rightarrow> (nat \<times> (string \<times> nat option) list) list" where
  "owned_buttons d = map (\<lambda>p. (fst (hd p), map (\<lambda>(e, i). (i, owner i p)) node_controllers))
     (filter (\<lambda>p. map_of (snd (hd p)) ''data-action'' \<noteq> None) (walk [] d))"

lemma owned_button_contained:
  assumes "distinct (ids d)" and "(e, os) \<in> set (owned_buttons d)" and "(i, Some s) \<in> set os"
  shows "containsElement d \<lparr>scope_element = s, scope_identifier = i\<rparr> e"
proof -
  from assms(2,3) obtain p where "p \<in> set (walk [] d)" "e = fst (hd p)" "owner i p = Some s" by (auto simp: owned_buttons_def)
  then show ?thesis using walk_closest [OF assms(1), of p s i] by (simp add: containsElement_def)
qed

definition node_owners :: "(nat \<times> (string \<times> nat option) list) list" where
  "node_owners = [(30, [(''unicast'', Some 22)]), (39, [(''broadcast'', Some 32)]), (47, [(''broadcast'', Some 32)]),
     (60, [(''routing'', Some 49)]), (65, [(''routing'', Some 49)]), (71, [(''routing'', Some 49)]), (77, [(''catalog'', Some 73)]),
     (83, [(''catalog'', Some 73)]), (91, [(''dataSharing'', Some 85)]), (95, [(''dataSharing'', Some 85)]),
     (105, [(''search'', Some 97)]), (114, [(''search'', Some 97)]), (122, [(''naming'', Some 116)]), (127, [(''naming'', Some 116)])]"

lemma node_button_owners:
  "map (\<lambda>(e, os). (e, filter (\<lambda>(i, s). s \<noteq> None) os)) (owned_buttons node_doc) = node_owners"
  by code_simp

lemma node_button_scopes:
  assumes "(e, ev, i, m) \<in> set node_buttons"
  shows "\<exists>s. (s, i) \<in> set node_controllers \<and> containsElement node_doc \<lparr>scope_element = s, scope_identifier = i\<rparr> e"
proof -
  let ?fits = "\<lambda>(e, ev, i, m) (e', os). e = e' \<and> list_all (\<lambda>(j, s). j = i \<and> (the s, j) \<in> set node_controllers \<and> s \<noteq> None) os \<and> os \<noteq> []"
  have fits: "list_all2 ?fits node_buttons node_owners" by code_simp
  from assms obtain k where k: "k < length node_buttons" "node_buttons ! k = (e, ev, i, m)" by (auto simp: in_set_conv_nth)
  obtain e' os' where o: "node_owners ! k = (e', os')" by fastforce
  from list_all2_nthD [OF fits k(1)] have f: "e = e'" "list_all (\<lambda>(j, s). j = i \<and> (the s, j) \<in> set node_controllers \<and> s \<noteq> None) os'"
    "os' \<noteq> []" unfolding k(2) o by simp_all
  from f(3) obtain j s where "(j, s) \<in> set os'" by (cases os') auto
  moreover have "(e, os') \<in> set node_owners"
    using k(1) list_all2_lengthD [OF fits] o f(1) nth_mem [of k node_owners] by simp
  ultimately have os': "(e, os') \<in> set node_owners" "(j, s) \<in> set os'" "j = i" "(the s, j) \<in> set node_controllers" "s \<noteq> None"
    using f(2) by (auto simp: list_all_iff)
  then have "(e, os') \<in> set (map (\<lambda>(e, os). (e, filter (\<lambda>(i, s). s \<noteq> None) os)) (owned_buttons node_doc))"
    unfolding node_button_owners by blast
  then obtain os where "(e, os) \<in> set (owned_buttons node_doc)" "os' = filter (\<lambda>(i, s). s \<noteq> None) os" by auto
  with os' owned_button_contained [OF node_ok(3), of e os i "the s"] show ?thesis by auto
qed

lemma node_owned_targets:
  "owned_targets node_doc ''flash'' = map (\<lambda>(x, w). (Some 6, x, w)) (zip [7] Flash_targets)"
  "owned_targets node_doc ''peerInfo'' = map (\<lambda>(x, w). (Some 10, x, w)) (zip [14, 17] PeerInfo_targets)"
  "owned_targets node_doc ''messaging'' = map (\<lambda>(x, w). (Some 18, x, w)) (zip [20, 21] Messaging_targets)"
  "owned_targets node_doc ''unicast'' = map (\<lambda>(x, w). (Some 22, x, w)) (zip [27, 29] Unicast_targets)"
  "owned_targets node_doc ''broadcast'' = map (\<lambda>(x, w). (Some 32, x, w)) (zip [38, 44, 46] Broadcast_targets)"
  "owned_targets node_doc ''routing'' = map (\<lambda>(x, w). (Some 49, x, w)) (zip [57, 59, 64, 69, 70] Routing_targets)"
  "owned_targets node_doc ''catalog'' = map (\<lambda>(x, w). (Some 73, x, w)) (zip [76, 81, 82] Catalog_targets)"
  "owned_targets node_doc ''dataSharing'' = map (\<lambda>(x, w). (Some 85, x, w)) (zip [89, 90, 94] DataSharing_targets)"
  "owned_targets node_doc ''search'' = map (\<lambda>(x, w). (Some 97, x, w)) (zip [101, 102, 103, 104, 108, 109, 110, 111, 112, 113] Search_targets)"
  "owned_targets node_doc ''naming'' = map (\<lambda>(x, w). (Some 116, x, w)) (zip [120, 121, 125, 126] Naming_targets)"
  "owned_targets node_doc ''packets'' = map (\<lambda>(x, w). (Some 129, x, w)) (zip [132, 135, 136, 137] Packets_targets)"
  by code_simp+

lemma node_targets:
  assumes "(e, i) \<in> set node_controllers" and "n \<in> set (the (map_of registrations i))"
  shows "findTarget node_doc \<lparr>scope_element = e, scope_identifier = i\<rparr> n \<noteq> None"
proof -
  have "\<exists>x. (Some e, x, n) \<in> set (owned_targets node_doc i)"
    using assms unfolding node_controllers_def registrations_def
    by (auto simp: node_owned_targets Flash_targets_def PeerInfo_targets_def Messaging_targets_def Unicast_targets_def
        Routing_targets_def Packets_targets_def Broadcast_targets_def Catalog_targets_def DataSharing_targets_def
        Search_targets_def Naming_targets_def)
  with owned_target_found [OF node_ok(3)] show ?thesis by blast
qed

text \<open>
  C16: The page and its classes fit together. Every target that a class declares is found for its
  controller in node.html; every action descriptor of the page is well-formed, listens to clicks,
  lies in the scope of a controller with its identifier and names a method that the page model has,
  and in this way every action of the model has exactly one button.
\<close>

theorem page_is_wired:
  "(\<forall>(e, i) \<in> set node_controllers. \<forall>n \<in> set (the (map_of registrations i)).
      fst (TargetSet_find node_doc \<lparr>scope_element = e, scope_identifier = i\<rparr> [n] g) \<noteq> None)
   \<and> (\<forall>r \<in> set (page_actions node_doc). \<exists>a s. r = Inr a \<and> act_eventName a = ''click''
        \<and> (s, act_identifier a) \<in> set node_controllers
        \<and> containsElement node_doc \<lparr>scope_element = s, scope_identifier = act_identifier a\<rparr> (act_element a))
   \<and> map (\<lambda>r. case button_of r of None \<Rightarrow> None | Some (e, ev, i, m) \<Rightarrow> map_of handlers (i, m)) (page_actions node_doc) =
        map Some (map snd handlers)
   \<and> distinct (map snd handlers) \<and> (\<forall>h. h \<in> set (map snd handlers))"
proof (intro conjI allI ballI)
  fix x assume x: "x \<in> set node_controllers"
  show "case x of (e, i) \<Rightarrow> \<forall>n \<in> set (the (map_of registrations i)).
      fst (TargetSet_find node_doc \<lparr>scope_element = e, scope_identifier = i\<rparr> [n] g) \<noteq> None"
  proof (cases x)
    case (Pair e i)
    with x node_targets [of e i] show ?thesis by (simp add: TargetSet_find_def find_step_def)
  qed
next
  fix r assume "r \<in> set (page_actions node_doc)"
  then have "button_of r \<in> set (map button_of (page_actions node_doc))" by simp
  then obtain e ev i m where b: "button_of r = Some (e, ev, i, m)" "(e, ev, i, m) \<in> set node_buttons"
    unfolding node_actions by auto
  moreover have "ev = ''click''" using b(2) by (auto simp: node_buttons_def)
  ultimately show "\<exists>a s. r = Inr a \<and> act_eventName a = ''click'' \<and> (s, act_identifier a) \<in> set node_controllers
      \<and> containsElement node_doc \<lparr>scope_element = s, scope_identifier = act_identifier a\<rparr> (act_element a)"
    using node_button_scopes [OF b(2)] by (auto simp: button_of_def split: sum.splits)
next
  let ?h = "\<lambda>b. case b of None \<Rightarrow> None | Some (e :: nat, ev :: string, i, m) \<Rightarrow> map_of handlers (i, m)"
  have "map (?h \<circ> button_of) (page_actions node_doc) = map ?h (map button_of (page_actions node_doc))" by simp
  also have "\<dots> = map Some (map snd handlers)" unfolding node_actions by code_simp
  finally show "map (\<lambda>r. case button_of r of None \<Rightarrow> None | Some (e, ev, i, m) \<Rightarrow> map_of handlers (i, m)) (page_actions node_doc) =
      map Some (map snd handlers)" by (simp add: comp_def)
next
  show "distinct (map snd handlers)" by (simp add: handlers_def)
  fix h show "h \<in> set (map snd handlers)" by (cases h) (simp_all add: handlers_def)
qed

theorem page_is_wired_witness:
  "fst (TargetSet_find node_doc \<lparr>scope_element = 97, scope_identifier = ''search''\<rparr> [''searchFirstRetry''] new_Guide) \<noteq> None
   \<and> length (page_actions node_doc) = 14"
proof -
  note wired = page_is_wired [of new_Guide]
  have "(97, ''search'') \<in> set node_controllers" by (simp add: node_controllers_def)
  from bspec [OF conjunct1 [OF wired] this]
  have "\<forall>n \<in> set (the (map_of registrations ''search'')).
      fst (TargetSet_find node_doc \<lparr>scope_element = 97, scope_identifier = ''search''\<rparr> [n] new_Guide) \<noteq> None" by (simp only: case_prod_conv)
  moreover have "''searchFirstRetry'' \<in> set (the (map_of registrations ''search''))" by code_simp
  moreover have "length (page_actions node_doc) = 14"
    using arg_cong [OF conjunct1 [OF conjunct2 [OF conjunct2 [OF wired]]], of length] by (simp add: handlers_def)
  ultimately show ?thesis by blast
qed

end
