(* ===== verification/Generator.thy ===== *)
theory Generator
  imports Dispatch_Order Application
begin

text \<open>
  Asynchronous functions as the compiler writes them into stimulus.js: \<open>__generator\<close> runs a body that
  is cut into labelled parts, \<open>__awaiter\<close> makes a promise of it. The body of \<open>Application.start\<close> is
  the one that stimulus.js has. A body does not call its own generator, and delegation to another
  generator (operation 5, which stimulus.js does not have) is a result of its own.
\<close>

section \<open>The generator\<close>

text \<open>Values: undefined, numbers (labels), and the others.\<close>

datatype 'v gval = Undef | Num nat | Val 'v | TypeError

text \<open>An operation \<open>[code, value]\<close>, and a try region \<open>[start, catch, finally, end]\<close>.\<close>

datatype 'v gop = Op nat "'v gval"

record try_region =
  tr_start :: nat
  tr_catch :: "nat option"
  tr_finally :: "nat option"
  tr_end :: nat

record 'v generator =
  g_label :: nat
  g_trys :: "try_region list"
  g_ops :: "'v gop list"

definition new_generator :: "'v generator" where
  "new_generator = \<lparr>g_label = 0, g_trys = [], g_ops = []\<rparr>"

text \<open>The variable \<open>t\<close> when the body runs (\<open>t[0] & 1\<close> is oddness), and what \<open>sent\<close> gives (\<open>Inl\<close> when it throws).\<close>

datatype 'v gtemp = TOp "'v gop" | TRegion try_region | TFalse

definition number :: "nat option \<Rightarrow> 'v gval" where
  "number x = (case x of None \<Rightarrow> Undef | Some n \<Rightarrow> Num n)"

fun sent :: "'v gtemp \<Rightarrow> 'v gval + 'v gval" where
  "sent (TOp (Op c v)) = (if odd c then Inl v else Inr v)"
| "sent (TRegion r) = (if odd (tr_start r) then Inl (number (tr_catch r)) else Inr (number (tr_catch r)))"
| "sent TFalse = Inr Undef"

text \<open>A body reads \<open>sent\<close> and the generator, and throws or gives the next operation.\<close>

type_synonym ('v, 's) gbody = "'v gval + 'v gval \<Rightarrow> 'v generator \<Rightarrow> 's \<Rightarrow> ('v gval + 'v gop) \<times> 'v generator \<times> 's"

datatype ('v, 's) iteration =
    Continue "'v gop" "'v generator option" 's
  | Yields "'v gval" "'v generator" 's
  | Delegates "'v gval" "'v generator" 's

definition call_body :: "('v, 's) gbody \<Rightarrow> 'v gtemp \<Rightarrow> 'v generator \<Rightarrow> 's \<Rightarrow> ('v, 's) iteration" where
  "call_body body t g s = (case body (sent t) g s of
     (Inl e, g, s) \<Rightarrow> Continue (Op 6 e) (Some g) s
   | (Inr op, g, s) \<Rightarrow> Continue op (Some g) s)"

fun less_value :: "nat \<Rightarrow> nat option \<Rightarrow> bool" where
  "less_value n None = False"
| "less_value n (Some m) = (n < m)"

fun jumps_within :: "'v gval \<Rightarrow> try_region \<Rightarrow> bool" where
  "jumps_within (Num n) r = (n > tr_start r \<and> n < tr_end r)"
| "jumps_within _ r = False"

fun label_of :: "'v gval \<Rightarrow> nat" where
  "label_of (Num n) = n"
| "label_of _ = 0"

text \<open>One round of the loop of \<open>step\<close>.\<close>

definition iterate :: "('v, 's) gbody \<Rightarrow> 'v gop \<Rightarrow> 'v generator \<Rightarrow> 's \<Rightarrow> ('v, 's) iteration" where
  "iterate body op g s = (case op of Op c v \<Rightarrow>
     if c = 0 \<or> c = 1 then call_body body (TOp op) g s
     else if c = 4 then Yields v (g\<lparr>g_label := Suc (g_label g)\<rparr>) s
     else if c = 5 then Delegates v (g\<lparr>g_label := Suc (g_label g)\<rparr>) s
     else if c = 7 then
       Continue (if g_ops g = [] then Op 6 TypeError else last (g_ops g))
         (Some (g\<lparr>g_ops := butlast (g_ops g), g_trys := butlast (g_trys g)\<rparr>)) s
     else if g_trys g = [] \<and> (c = 6 \<or> c = 2) then Continue op None s
     else if c = 3 \<and> (g_trys g = [] \<or> jumps_within v (last (g_trys g))) then
       call_body body (if g_trys g = [] then TFalse else TRegion (last (g_trys g))) (g\<lparr>g_label := label_of v\<rparr>) s
     else if g_trys g = [] then Continue op (Some g) s
     else
       (let t = last (g_trys g)
        in if c = 6 \<and> less_value (g_label g) (tr_catch t) then
             call_body body (TOp op) (g\<lparr>g_label := the (tr_catch t)\<rparr>) s
           else if less_value (g_label g) (tr_finally t) then
             call_body body (TRegion t) (g\<lparr>g_label := the (tr_finally t), g_ops := g_ops g @ [op]\<rparr>) s
           else Continue op (Some (g\<lparr>g_ops := (if tr_finally t \<noteq> None \<and> tr_finally t \<noteq> Some 0 then butlast (g_ops g) else g_ops g),
                                    g_trys := butlast (g_trys g)\<rparr>)) s))"

datatype 'v gresult = GYield "'v gval" | GDelegate "'v gval" | GDone "'v gval" | GThrow "'v gval"

fun leave :: "'v gop \<Rightarrow> 'v gresult" where
  "leave (Op c v) = (if odd c \<or> odd (c div 4) then GThrow v else GDone (if c \<noteq> 0 then v else Undef))"

text \<open>\<open>step\<close>; a generator that has ended is \<open>None\<close>. The loop need not end.\<close>

partial_function (option) gen_step :: "('v, 's) gbody \<Rightarrow> 'v gop \<Rightarrow> 'v generator option \<Rightarrow> 's \<Rightarrow>
    ('v gresult \<times> 'v generator option \<times> 's) option" where
  "gen_step body op g s = (case g of
     None \<Rightarrow> Some (leave op, None, s)
   | Some g \<Rightarrow> (case iterate body op g s of
       Continue op g s \<Rightarrow> gen_step body op g s
     | Yields v g s \<Rightarrow> Some (GYield v, Some g, s)
     | Delegates v g s \<Rightarrow> Some (GDelegate v, Some g, s)))"

declare gen_step.simps [code]

section \<open>The promise of an asynchronous function\<close>

text \<open>
  What has become of the promise: it waits for a value (a promise that the body gave, or the promise
  of another value), it is resolved or rejected.
\<close>

datatype ('v, 'g) async = Waiting "'v gval" 'g | Resolved "'v gval" | Rejected "'v gval"

fun awaiter_step :: "'v gresult \<Rightarrow> 'g \<Rightarrow> ('v, 'g) async" where
  "awaiter_step (GDone v) g = Resolved v"
| "awaiter_step (GThrow e) g = Rejected e"
| "awaiter_step (GYield v) g = Waiting v g"
| "awaiter_step (GDelegate v) g = Waiting v g"

definition awaiter_op :: "('v, 's) gbody \<Rightarrow> 'v gop \<Rightarrow> 'v generator option \<Rightarrow> 's \<Rightarrow> (('v, 'v generator option) async \<times> 's) option" where
  "awaiter_op body op g s = (case gen_step body op g s of None \<Rightarrow> None | Some (r, g, s) \<Rightarrow> Some (awaiter_step r g, s))"

definition awaiter :: "('v, 's) gbody \<Rightarrow> 's \<Rightarrow> (('v, 'v generator option) async \<times> 's) option" where
  "awaiter body s = awaiter_op body (Op 0 Undef) (Some new_generator) s"

text \<open>The awaited promise settles: \<open>fulfilled\<close> and \<open>rejected\<close>. After the end nothing is awaited.\<close>

fun awaiter_settled :: "('v, 's) gbody \<Rightarrow> 'v gval + 'v gval \<Rightarrow> ('v, 'v generator option) async \<times> 's \<Rightarrow>
    (('v, 'v generator option) async \<times> 's) option" where
  "awaiter_settled body (Inr v) (Waiting p g, s) = awaiter_op body (Op 0 v) g s"
| "awaiter_settled body (Inl e) (Waiting p g, s) = awaiter_op body (Op 1 e) g s"
| "awaiter_settled body x (Resolved v, s) = Some (Resolved v, s)"
| "awaiter_settled body x (Rejected v, s) = Some (Rejected v, s)"

fun awaiter_run :: "('v, 's) gbody \<Rightarrow> ('v gval + 'v gval) list \<Rightarrow> ('v, 'v generator option) async \<times> 's \<Rightarrow>
    (('v, 'v generator option) async \<times> 's) option" where
  "awaiter_run body [] a = Some a"
| "awaiter_run body (x # xs) a = (case awaiter_settled body x a of None \<Rightarrow> None | Some a \<Rightarrow> awaiter_run body xs a)"

section \<open>Asynchronous functions without try\<close>

text \<open>
  A function is a list of segments, one up to each await and one for the rest. A segment gets the
  value of the await before it, and throws or gives the value to await or to return.
\<close>

type_synonym ('v, 's) segment = "'v gval \<Rightarrow> 's \<Rightarrow> ('v gval + 'v gval) \<times> 's"

text \<open>How the compiler writes it: a case for each label, all but the first begin with \<open>sent()\<close>.\<close>

definition compiled :: "('v, 's) segment list \<Rightarrow> ('v, 's) gbody" where
  "compiled segs x g s =
     (let i = g_label g
      in if length segs \<le> i then (Inr (Op 2 Undef), g, s)
         else case x of
           Inl e \<Rightarrow> (Inl e, g, s)
         | Inr v \<Rightarrow> (case (segs ! i) v s of
             (Inl e, s) \<Rightarrow> (Inl e, g, s)
           | (Inr w, s) \<Rightarrow> (Inr (Op (if Suc i < length segs then 4 else 2) w), g, s)))"

text \<open>What the language says: the segments that are left, run one after the other.\<close>

fun resume_async :: "'v gval + 'v gval \<Rightarrow> ('v, ('v, 's) segment list) async \<times> 's \<Rightarrow> ('v, ('v, 's) segment list) async \<times> 's" where
  "resume_async (Inl e) (Waiting p segs, s) = (Rejected e, s)"
| "resume_async (Inr v) (Waiting p (seg # segs), s) = (case seg v s of
     (Inl e, s) \<Rightarrow> (Rejected e, s)
   | (Inr w, s) \<Rightarrow> (if segs = [] then Resolved w else Waiting w segs, s))"
| "resume_async (Inr v) (Waiting p [], s) = (Resolved Undef, s)"
| "resume_async x (Resolved v, s) = (Resolved v, s)"
| "resume_async x (Rejected e, s) = (Rejected e, s)"

definition call_async :: "('v, 's) segment list \<Rightarrow> 's \<Rightarrow> ('v, ('v, 's) segment list) async \<times> 's" where
  "call_async segs s = resume_async (Inr Undef) (Waiting Undef segs, s)"

fun same_async :: "('v, 's) segment list \<Rightarrow> ('v, 'v generator option) async \<times> 's \<Rightarrow> ('v, ('v, 's) segment list) async \<times> 's \<Rightarrow> bool" where
  "same_async segs (Waiting v (Some g), s) (Waiting v' rest, s') \<longleftrightarrow> v = v' \<and> s = s' \<and> g_trys g = [] \<and> g_ops g = []
     \<and> g_label g < length segs \<and> rest = drop (g_label g) segs"
| "same_async segs (Resolved v, s) (Resolved v', s') \<longleftrightarrow> v = v' \<and> s = s'"
| "same_async segs (Rejected v, s) (Rejected v', s') \<longleftrightarrow> v = v' \<and> s = s'"
| "same_async segs _ _ \<longleftrightarrow> False"

lemma gen_yield: "gen_step body (Op 4 w) (Some g) s = Some (GYield w, Some (g\<lparr>g_label := Suc (g_label g)\<rparr>), s)"
  by (subst gen_step.simps) (simp add: iterate_def)

lemma gen_end: "g_trys g = [] \<Longrightarrow> c = 2 \<or> c = 6 \<Longrightarrow> gen_step body (Op c w) (Some g) s = Some (leave (Op c w), None, s)"
  by (subst gen_step.simps) (auto simp: iterate_def gen_step.simps [of body "Op c w" None])

lemma gen_resume:
  assumes "c = 0 \<or> c = 1"
  shows "gen_step body (Op c v) (Some g) s = (case body (if c = 1 then Inl v else Inr v) g s of
     (Inl e, g, s) \<Rightarrow> gen_step body (Op 6 e) (Some g) s
   | (Inr op, g, s) \<Rightarrow> gen_step body op (Some g) s)"
  using assms
  by (subst gen_step.simps) (auto simp: iterate_def call_body_def split: prod.split sum.split)

lemmas gen_rules = gen_resume gen_yield gen_end

lemma leave_simps: "leave (Op 2 w) = GDone w" "leave (Op 6 e) = GThrow e"
  by simp_all

lemma same_settled:
  assumes "same_async segs a b"
  shows "\<exists>a'. awaiter_settled (compiled segs) x a = Some a' \<and> same_async segs a' (resume_async x b)"
proof -
  obtain st s st' s' where ab: "a = (st, s)" "b = (st', s')" by (metis surj_pair)
  show ?thesis
  proof (cases st)
    case (Waiting v og)
    with assms ab obtain g where g: "og = Some g" "st' = Waiting v (drop (g_label g) segs)" "s' = s"
      "g_trys g = []" "g_ops g = []" "g_label g < length segs"
      by (cases og; cases st') auto
    have seg: "drop (g_label g) segs = segs ! g_label g # drop (Suc (g_label g)) segs" using g(6) by (rule Cons_nth_drop_Suc [symmetric])
    have rest: "drop (Suc (g_label g)) segs = [] \<longleftrightarrow> \<not> Suc (g_label g) < length segs" by auto
    show ?thesis
    proof (cases x)
      case (Inl e)
      with Waiting g ab show ?thesis by (simp add: awaiter_op_def gen_rules compiled_def leave_simps)
    next
      case (Inr w)
      obtain r s1 where r: "(segs ! g_label g) w s = (r, s1)" by fastforce
      show ?thesis
        using Inr Waiting g(1-6) ab rest
        by (cases r) (auto simp: awaiter_op_def gen_rules compiled_def leave_simps seg r Let_def)
    qed
  next
    case (Resolved v)
    with assms ab show ?thesis by (cases st') auto
  next
    case (Rejected e)
    with assms ab show ?thesis by (cases st') auto
  qed
qed

lemma same_called: "\<exists>a. awaiter (compiled segs) s = Some a \<and> same_async segs a (call_async segs s)"
proof (cases segs)
  case Nil
  then show ?thesis by (simp add: awaiter_def awaiter_op_def gen_rules compiled_def leave_simps call_async_def new_generator_def)
next
  case (Cons seg rest)
  have "same_async segs (Waiting Undef (Some new_generator), s) (Waiting Undef segs, s)"
    by (simp add: Cons new_generator_def)
  from same_settled [OF this, of "Inr Undef"] show ?thesis by (simp add: awaiter_def call_async_def)
qed

lemma same_run:
  "same_async segs a b \<Longrightarrow> \<exists>a'. awaiter_run (compiled segs) xs a = Some a' \<and> same_async segs a' (fold resume_async xs b)"
proof (induction xs arbitrary: a b)
  case (Cons x xs)
  from same_settled [OF Cons.prems, of x] obtain a1 where "awaiter_settled (compiled segs) x a = Some a1"
    "same_async segs a1 (resume_async x b)" by blast
  with Cons.IH [of a1] show ?case by simp
qed simp

text \<open>What can be seen of a promise: that it waits for a value, or its outcome.\<close>

definition seen :: "('v, 'g) async \<times> 's \<Rightarrow> ('v, unit) async \<times> 's" where
  "seen a = (map_async id (\<lambda>_. ()) (fst a), snd a)"

lemma same_seen: "same_async segs a b \<Longrightarrow> seen a = seen b"
  by (cases "(segs, a, b)" rule: same_async.cases) (simp_all add: seen_def)

text \<open>
  C21: The code that the compiler makes of an asynchronous function without \<open>try\<close> does what the
  language says: the promise of the call, the values it awaits and the effects of the segments are
  those of running the segments one after the other, for every sequence of fulfilments and
  rejections of the awaited promises; the loop of the generator ends each time.
\<close>

theorem async_functions_run:
  "map_option seen (Option.bind (awaiter (compiled segs) s) (awaiter_run (compiled segs) xs)) =
     Some (seen (fold resume_async xs (call_async segs s)))"
proof -
  from same_called [of segs s] obtain a where a: "awaiter (compiled segs) s = Some a" "same_async segs a (call_async segs s)" by blast
  from same_run [OF a(2), of xs] obtain a' where "awaiter_run (compiled segs) xs a = Some a'"
    "same_async segs a' (fold resume_async xs (call_async segs s))" by blast
  with a(1) same_seen [OF this(2)] show ?thesis by simp
qed

section \<open>Application.start\<close>

definition start_body :: "(string, dispatcher \<times> application \<times> dom) gbody" where
  "start_body x g s =
     (if g_label g = 0 then (Inr (Op 4 (Val ''domReady'')), g, s)
      else if g_label g = 1 then
        (case x of
           Inl e \<Rightarrow> (Inl e, g, s)
         | Inr v \<Rightarrow> (case s of (dp, app, d) \<Rightarrow>
             (Inr (Op 2 Undef), g, (Dispatcher_start dp, Application_start d app, d))))
      else (Inl TypeError, g, s))"

text \<open>
  Calling \<open>start\<close> changes nothing and waits for \<open>domReady\<close>; when the document is ready, whatever has
  been done to the application in between, the dispatcher and then the router are started, and the
  promise is resolved.
\<close>

lemma start_waits:
  "\<exists>g. awaiter start_body s = Some (Waiting (Val ''domReady'') g, s)
     \<and> awaiter_settled start_body (Inr v) (Waiting p g, (dp, app, d)) =
         Some (Resolved Undef, (Dispatcher_start dp, Application_start d app, d))
     \<and> awaiter_settled start_body (Inl e) (Waiting p g, (dp, app, d)) = Some (Rejected e, (dp, app, d))"
  by (simp add: awaiter_def awaiter_op_def gen_rules start_body_def leave_simps new_generator_def)

section \<open>Spreading arrays\<close>

text \<open>\<open>__spreadArrays\<close>: an array of the right size, filled element by element.\<close>

definition spread_one :: "'a list \<Rightarrow> nat \<times> 'a option list \<Rightarrow> nat \<times> 'a option list" where
  "spread_one a = fold (\<lambda>x (k, r). (Suc k, r[k := Some x])) a"

definition spreadArrays :: "'a list list \<Rightarrow> 'a option list" where
  "spreadArrays arrays = snd (fold spread_one arrays (0, replicate (sum_list (map length arrays)) None))"

lemma spread_one_filled:
  "spread_one a (length r, r @ replicate (length a + n) None) = (length r + length a, r @ map Some a @ replicate n None)"
proof (induction a arbitrary: r)
  case (Cons x a)
  have "spread_one (x # a) (length r, r @ replicate (length (x # a) + n) None) =
      spread_one a (length (r @ [Some x]), (r @ [Some x]) @ replicate (length a + n) None)"
    by (simp add: spread_one_def list_update_append)
  with Cons [of "r @ [Some x]"] show ?case by simp
qed (simp add: spread_one_def)

lemma spreadArrays_concat: "spreadArrays arrays = map Some (concat arrays)"
proof -
  have "fold spread_one arrays (length r, r @ replicate (sum_list (map length arrays)) None) =
      (length r + length (concat arrays), r @ map Some (concat arrays))" for r
  proof (induction arrays arbitrary: r)
    case (Cons a arrays)
    from Cons [of "r @ map Some a"] spread_one_filled [of a r "sum_list (map length arrays)"] show ?case by simp
  qed simp
  from this [of "[]"] show ?thesis by (simp add: spreadArrays_def)
qed

end
