(* ===== verification/Observer_Chain.thy ===== *)
theory Observer_Chain
  imports Controllers
begin

text \<open>
  The chain of observers below an application, as stimulus.js forwards \<open>start\<close>, \<open>stop\<close> and \<open>refresh\<close>
  through it: \<open>Router\<close>, \<open>ScopeObserver\<close>, \<open>ValueListObserver\<close>, \<open>TokenListObserver\<close>, \<open>AttributeObserver\<close> and
  \<open>ElementObserver\<close>. Starting and stopping an application is starting and stopping the chain, and a
  refresh right after a delivery finds nothing to do.
\<close>

section \<open>The observers\<close>

definition AttributeObserver_start :: "dom \<Rightarrow> string \<Rightarrow> element_observer \<Rightarrow> element_observer \<times> attribute_call list" where
  "AttributeObserver_start d an eo = map_prod id (attribute_calls an) (ElementObserver_start d an eo)"

definition AttributeObserver_stop :: "element_observer \<Rightarrow> element_observer" where
  "AttributeObserver_stop eo = ElementObserver_stop eo"

definition AttributeObserver_refresh :: "dom \<Rightarrow> string \<Rightarrow> element_observer \<Rightarrow> element_observer \<times> attribute_call list" where
  "AttributeObserver_refresh d an eo = map_prod id (attribute_calls an) (ElementObserver_refresh d an eo)"

text \<open>The calls of the attribute observer to its delegate, a token list.\<close>

definition to_tokens :: "dom \<Rightarrow> element_observer \<times> attribute_call list \<Rightarrow> token_list_observer \<Rightarrow>
    element_observer \<times> token_list_observer \<times> token_call list" where
  "to_tokens d = (\<lambda>(eo, cs) tlo. let (tlo, calls) = each (TokenListObserver_call d) cs tlo in (eo, tlo, calls))"

definition TokenListObserver_start :: "dom \<Rightarrow> string \<Rightarrow> element_observer \<Rightarrow> token_list_observer \<Rightarrow>
    element_observer \<times> token_list_observer \<times> token_call list" where
  "TokenListObserver_start d an eo tlo = to_tokens d (AttributeObserver_start d an eo) tlo"

definition TokenListObserver_stop :: "element_observer \<Rightarrow> element_observer" where
  "TokenListObserver_stop eo = AttributeObserver_stop eo"

definition TokenListObserver_refresh :: "dom \<Rightarrow> string \<Rightarrow> element_observer \<Rightarrow> token_list_observer \<Rightarrow>
    element_observer \<times> token_list_observer \<times> token_call list" where
  "TokenListObserver_refresh d an eo tlo = to_tokens d (AttributeObserver_refresh d an eo) tlo"

text \<open>The state of a value list with what is below it, and the state of its delegate.\<close>

type_synonym ('v, 'd) value_chain = "element_observer \<times> token_list_observer \<times> 'v value_list_observer \<times> 'd"

definition to_values :: "('d, 'v) value_delegate \<Rightarrow> element_observer \<times> token_list_observer \<times> token_call list \<Rightarrow>
    'v value_list_observer \<times> 'd \<Rightarrow> ('v, 'd) value_chain" where
  "to_values dlg = (\<lambda>(eo, tlo, calls) vs. (eo, tlo, fold (ValueListObserver_call dlg) calls vs))"

definition ValueListObserver_start :: "('d, 'v) value_delegate \<Rightarrow> dom \<Rightarrow> string \<Rightarrow> ('v, 'd) value_chain \<Rightarrow> ('v, 'd) value_chain" where
  "ValueListObserver_start dlg d an = (\<lambda>(eo, tlo, vs). to_values dlg (TokenListObserver_start d an eo tlo) vs)"

definition ValueListObserver_stop :: "('v, 'd) value_chain \<Rightarrow> ('v, 'd) value_chain" where
  "ValueListObserver_stop = (\<lambda>(eo, tlo, vs). (TokenListObserver_stop eo, tlo, vs))"

definition ValueListObserver_refresh :: "('d, 'v) value_delegate \<Rightarrow> dom \<Rightarrow> string \<Rightarrow> ('v, 'd) value_chain \<Rightarrow> ('v, 'd) value_chain" where
  "ValueListObserver_refresh dlg d an = (\<lambda>(eo, tlo, vs). to_values dlg (TokenListObserver_refresh d an eo tlo) vs)"

section \<open>The application\<close>

definition app_chain :: "application \<Rightarrow> (scope, scope_system) value_chain" where
  "app_chain app = (ap_elements app, ap_tokens app, ap_values app, ap_scopes app)"

definition with_chain :: "(scope, scope_system) value_chain \<Rightarrow> application" where
  "with_chain = (\<lambda>(eo, tlo, vl, sy). \<lparr>ap_elements = eo, ap_tokens = tlo, ap_values = vl, ap_scopes = sy\<rparr>)"

definition ScopeObserver_start :: "dom \<Rightarrow> application \<Rightarrow> application" where
  "ScopeObserver_start d app = with_chain (ValueListObserver_start scope_delegate d controllerAttribute (app_chain app))"

definition ScopeObserver_stop :: "application \<Rightarrow> application" where
  "ScopeObserver_stop app = with_chain (ValueListObserver_stop (app_chain app))"

definition Router_start :: "dom \<Rightarrow> application \<Rightarrow> application" where
  "Router_start d app = ScopeObserver_start d app"

definition Router_stop :: "application \<Rightarrow> application" where
  "Router_stop app = ScopeObserver_stop app"

lemma TokenListObserver_start_eq: "TokenListObserver_start d an eo tlo = start_tokens d an eo tlo"
  by (simp add: TokenListObserver_start_def to_tokens_def AttributeObserver_start_def start_tokens_def case_prod_unfold Let_def)

lemma start_is_forwarded: "Router_start d app = Application_start d app"
  by (simp add: Router_start_def ScopeObserver_start_def ValueListObserver_start_def to_values_def with_chain_def app_chain_def
      TokenListObserver_start_eq Application_start_def Application_tokens_def case_prod_unfold Let_def)

lemma stop_is_forwarded: "Router_stop app = Application_stop app"
  by (cases app) (simp add: Router_stop_def ScopeObserver_stop_def ValueListObserver_stop_def TokenListObserver_stop_def
      AttributeObserver_stop_def with_chain_def app_chain_def Application_stop_def)

section \<open>Refreshing\<close>

lemma each_idle: "(\<And>x. x \<in> set xs \<Longrightarrow> f x s = (s, [])) \<Longrightarrow> each f xs s = (s, [])"
  by (induction xs) auto

lemma refresh_idle:
  assumes "set (eo_elements eo) = set (AttributeObserver_matchElementsInTree d an (eo_element eo))"
  shows "ElementObserver_refresh d an eo = (eo, [])"
proof -
  let ?ms = "set_from (AttributeObserver_matchElementsInTree d an (eo_element eo))"
  have "each (\<lambda>element eo. if element \<notin> set ?ms then removeElement element eo else (eo, [])) (eo_elements eo) eo = (eo, [])"
    using assms by (intro each_idle) auto
  moreover have "each (addElement d) ?ms eo = (eo, [])"
    using assms by (intro each_idle) (auto simp: addElement_def)
  ultimately show ?thesis by (simp add: ElementObserver_refresh_def Let_def)
qed

lemma refresh_idle_chain:
  assumes "ElementObserver_refresh d an eo = (eo, [])"
  shows "ValueListObserver_refresh dlg d an (eo, tlo, vs) = (eo, tlo, vs)"
  using assms by (simp add: ValueListObserver_refresh_def TokenListObserver_refresh_def AttributeObserver_refresh_def
      to_values_def to_tokens_def attribute_calls_def)

text \<open>
  After the browser has delivered the pending records, refreshing the observers of a started
  application changes nothing and calls nobody.
\<close>

theorem refresh_after_delivery_is_idle:
  assumes inv: "app_inv s app S" and started: "eo_started (ap_elements app)"
  defines "app' \<equiv> Application_deliver (doc s) (records s) app"
  shows "ValueListObserver_refresh scope_delegate (doc s) controllerAttribute (app_chain app') = app_chain app'"
proof -
  let ?eo = "fst (processMutations (doc s) controllerAttribute (records s) (ap_elements app))"
  have eo: "eo_inv controllerAttribute document_root s (ap_elements app)" using inv by (simp add: app_inv_def)
  have eo': "ap_elements app' = ?eo"
    by (simp add: app'_def Application_deliver_def Application_tokens_def deliver_tokens_def Let_def case_prod_unfold)
  have "dom_ok (doc s)" "eo_element ?eo = document_root"
    using eo eo_inv_deliver [OF eo] by (auto simp: eo_inv_def)
  then have "set (eo_elements ?eo) = set (AttributeObserver_matchElementsInTree (doc s) controllerAttribute (eo_element ?eo))"
    using eo_inv_deliver_elements [OF eo started] set_matchElementsInTree [of "doc s"] by simp
  then show ?thesis by (simp add: app_chain_def eo' refresh_idle_chain [OF refresh_idle])
qed

end
