(* ===== verification/Follow.thy ===== *)
theory Follow
  imports Observer_Chain
begin

text \<open>
  The browser decides when it delivers mutation records. An observer that follows the document
  after every delivery therefore does not depend on it: what it shows after the last delivery is
  given by the final document. The locale \<open>following\<close> states what an observer promises; elements and
  controllers are its instances.
\<close>

section \<open>Schedules\<close>

datatype page_event = Change change | Deliver

definition change_doc :: "change \<Rightarrow> dom \<Rightarrow> dom" where
  "change_doc c d = doc (apply_change document_root c \<lparr>doc = d, records = [], transients = []\<rparr>)"

fun changes_of :: "page_event list \<Rightarrow> change list" where
  "changes_of [] = []"
| "changes_of (Change c # evs) = c # changes_of evs"
| "changes_of (Deliver # evs) = changes_of evs"

text \<open>One event: the page changes the document, or the browser delivers the records that are pending.\<close>

fun page_step :: "nat \<Rightarrow> (dom \<Rightarrow> mutation list \<Rightarrow> 'o \<Rightarrow> 'o) \<Rightarrow> page_event \<Rightarrow> observed \<times> 'o \<Rightarrow> observed \<times> 'o" where
  "page_step root deliver (Change c) (s, ob) = (apply_change root c s, ob)"
| "page_step root deliver Deliver (s, ob) = (s\<lparr>records := [], transients := []\<rparr>, deliver (doc s) (records s) ob)"

definition schedule :: "nat \<Rightarrow> (dom \<Rightarrow> mutation list \<Rightarrow> 'o \<Rightarrow> 'o) \<Rightarrow> page_event list \<Rightarrow> observed \<times> 'o \<Rightarrow> observed \<times> 'o" where
  "schedule root deliver evs so = fold (page_step root deliver) evs so"

text \<open>The observed element is apart from the removed nodes after every change of a schedule.\<close>

fun apart_schedule :: "nat \<Rightarrow> (dom \<Rightarrow> mutation list \<Rightarrow> 'o \<Rightarrow> 'o) \<Rightarrow> page_event list \<Rightarrow> observed \<times> 'o \<Rightarrow> bool" where
  "apart_schedule root deliver [] so \<longleftrightarrow> True"
| "apart_schedule root deliver (ev # evs) so \<longleftrightarrow>
     (case ev of Change c \<Rightarrow> apart root (apply_change root c (fst so)) | Deliver \<Rightarrow> True)
     \<and> apart_schedule root deliver evs (page_step root deliver ev so)"

lemma doc_record [simp]: "doc (record_mutation root t m s) = doc s"
  by (simp add: record_mutation_def)

lemma doc_apply_change: "doc (apply_change root c s) = change_doc c (doc s)"
  by (cases c) (auto simp: change_doc_def Let_def split: option.split)

lemma doc_schedule: "doc (fst (schedule root deliver evs so)) = fold change_doc (changes_of evs) (doc (fst so))"
proof (induction evs arbitrary: so)
  case (Cons ev evs)
  then show ?case by (cases so; cases ev) (simp_all add: schedule_def doc_apply_change)
qed (simp add: schedule_def)

section \<open>Observers that follow the document\<close>

locale following =
  fixes inv :: "observed \<Rightarrow> 'o \<Rightarrow> bool" and on :: "'o \<Rightarrow> bool" and root :: nat
    and deliver :: "dom \<Rightarrow> mutation list \<Rightarrow> 'o \<Rightarrow> 'o"
    and view :: "'o \<Rightarrow> 'v" and wanted :: "'o \<Rightarrow> dom \<Rightarrow> 'v"
  assumes inv_change: "inv s ob \<Longrightarrow> on ob \<Longrightarrow> apart root (apply_change root c s) \<Longrightarrow> inv (apply_change root c s) ob"
    and inv_deliver: "inv s ob \<Longrightarrow> inv (s\<lparr>records := [], transients := []\<rparr>) (deliver (doc s) (records s) ob)"
    and on_deliver: "on (deliver d ms ob) = on ob"
    and wanted_deliver: "wanted (deliver d ms ob) = wanted ob"
    and view_deliver: "inv s ob \<Longrightarrow> on ob \<Longrightarrow> view (deliver (doc s) (records s) ob) = wanted ob (doc s)"
begin

lemma inv_schedule:
  assumes "inv s ob" and "on ob" and "apart_schedule root deliver evs (s, ob)"
  shows "case schedule root deliver evs (s, ob) of (s', ob') \<Rightarrow> inv s' ob' \<and> on ob' \<and> wanted ob' = wanted ob"
  using assms
proof (induction evs arbitrary: s ob)
  case (Cons ev evs)
  then show ?case
    using Cons.IH [of "fst (page_step root deliver ev (s, ob))" "snd (page_step root deliver ev (s, ob))"]
    by (cases ev) (auto simp: schedule_def inv_change inv_deliver on_deliver wanted_deliver)
qed (simp add: schedule_def)

lemma follows:
  assumes "inv s ob" and "on ob" and "apart_schedule root deliver evs (s, ob)"
  shows "view (snd (schedule root deliver (evs @ [Deliver]) (s, ob))) = wanted ob (fold change_doc (changes_of evs) (doc s))"
proof -
  obtain s' ob' where so: "schedule root deliver evs (s, ob) = (s', ob')" by fastforce
  then have "inv s' ob'" "on ob'" "wanted ob' = wanted ob" using inv_schedule [OF assms] by auto
  moreover have "doc s' = fold change_doc (changes_of evs) (doc s)"
    using doc_schedule [of root deliver evs "(s, ob)"] so by simp
  ultimately show ?thesis using so view_deliver [of s' ob'] by (simp add: schedule_def)
qed

lemma schedules_agree:
  assumes "inv s ob" and "on ob" and "apart_schedule root deliver evs (s, ob)" and "apart_schedule root deliver evs' (s, ob)"
    and "changes_of evs = changes_of evs'"
  shows "view (snd (schedule root deliver (evs @ [Deliver]) (s, ob))) = view (snd (schedule root deliver (evs' @ [Deliver]) (s, ob)))"
  using assms by (simp add: follows)

end

section \<open>Elements and controllers\<close>

interpretation el: following "eo_inv an root" eo_started root "\<lambda>d ms eo. fst (processMutations d an ms eo)"
  "\<lambda>eo. set (eo_elements eo)" "\<lambda>_ d. {e. (root, e) \<in> below d \<and> hasAttribute d e an}" for an root
proof unfold_locales
  fix d ms eo
  have "eo_frame eo (fst (processMutations d an ms eo))" by simp
  then show "eo_started (fst (processMutations d an ms eo)) = eo_started eo" by (simp add: eo_frame_def)
qed (simp_all add: eo_inv_change eo_inv_deliver eo_inv_deliver_elements)

text \<open>The controllers, and those that the document asks for, of the elements outside a set.\<close>

definition controller_pairs :: "nat set \<Rightarrow> application \<Rightarrow> (nat \<times> string) set" where
  "controller_pairs S app = {(e, i). e \<notin> S \<and> (\<exists>c. getControllerForElementAndIdentifier app e i = Some c)}"

definition asked_pairs :: "nat set \<Rightarrow> application \<Rightarrow> dom \<Rightarrow> (nat \<times> string) set" where
  "asked_pairs S app d = {(e, i). e \<notin> S \<and> contains d document_root e \<and> i \<in> set (attr_words d controllerAttribute e)
     \<and> i \<in> registered app}"

text \<open>Scopes come and go without a change of the registered identifiers.\<close>

definition module_names :: "scope_system \<Rightarrow> string set" where
  "module_names sy = fst ` set (modulesByIdentifier (router_st sy))"

lemma scopeConnected_names:
  "fst ` set (modulesByIdentifier (scopeConnected sc r)) = fst ` set (modulesByIdentifier r)"
  "fst ` set (modulesByIdentifier (scopeDisconnected sc r)) = fst ` set (modulesByIdentifier r)"
  by (auto simp: scopeConnected_def scopeDisconnected_def dom_update Let_def case_prod_unfold
      split: option.split dest!: map_of_SomeD intro: rev_image_eqI)

lemma delegate_names:
  "module_names (snd (parseValueForToken scope_delegate tok sy)) = module_names sy"
  "module_names (elementMatchedValue scope_delegate e v sy) = module_names sy"
  "module_names (elementUnmatchedValue scope_delegate e v sy) = module_names sy"
  by (auto simp: scope_delegate_def ScopeObserver_parseValueForToken_def fetchScopesByIdentifierForElement_def
      ScopeObserver_elementMatchedValue_def ScopeObserver_elementUnmatchedValue_def module_names_def scopeConnected_names
      Let_def case_prod_unfold split: option.split)

lemma fetch_names:
  "module_names (snd (snd (fetchParseResultForToken scope_delegate tok s))) = module_names (snd s)"
  by (auto simp: fetchParseResultForToken_def delegate_names case_prod_unfold Let_def split: option.split)

lemma call_names: "module_names (snd (ValueListObserver_call scope_delegate c s)) = module_names (snd s)"
  by (cases c) (auto simp: ValueListObserver_tokenMatched_def ValueListObserver_tokenUnmatched_def fetch_names delegate_names
      case_prod_unfold Let_def split: option.split)

lemma calls_names: "module_names (snd (fold (ValueListObserver_call scope_delegate) calls s)) = module_names (snd s)"
  by (induction calls arbitrary: s) (simp_all add: call_names)

lemma registered_deliver: "registered (Application_deliver d ms app) = registered app"
  using calls_names [of _ "(ap_values app, ap_scopes app)"]
  by (simp add: registered_def Application_deliver_def Application_tokens_def module_names_def case_prod_unfold Let_def)

interpretation ctl: following "\<lambda>s app. app_inv s app S" "\<lambda>app. eo_started (ap_elements app)" document_root Application_deliver
  "controller_pairs S" "asked_pairs S" for S
proof unfold_locales
  fix d ms app
  have "eo_frame (ap_elements app) (ap_elements (Application_deliver d ms app))"
    by (simp add: Application_deliver_def Application_tokens_def deliver_tokens_def Let_def case_prod_unfold)
  then show "eo_started (ap_elements (Application_deliver d ms app)) = eo_started (ap_elements app)"
    by (simp add: eo_frame_def)
  show "asked_pairs S (Application_deliver d ms app) = asked_pairs S app"
    by (simp add: asked_pairs_def registered_deliver fun_eq_iff)
next
  fix s app
  assume inv: "app_inv s app S"
  then show "app_inv (s\<lparr>records := [], transients := []\<rparr>) (Application_deliver (doc s) (records s) app) S"
    using app_inv_deliver [OF inv] app_inv_mono [where S' = S] by blast
  assume "eo_started (ap_elements app)"
  note follow = delivered_controllers(1) [OF inv this refl, unfolded registered_deliver]
  show "controller_pairs S (Application_deliver (doc s) (records s) app) = asked_pairs S app (doc s)"
    unfolding controller_pairs_def asked_pairs_def using follow by blast
qed (simp_all add: app_inv_change)

lemma apart_app_schedule:
  "app_inv (fst so) (snd so) S \<Longrightarrow> eo_started (ap_elements (snd so)) \<Longrightarrow> apart_schedule document_root Application_deliver evs so"
proof (induction evs arbitrary: so)
  case (Cons ev evs)
  obtain s app where so: "so = (s, app)" by fastforce
  have "eo_inv controllerAttribute document_root s app_eo" if "app_eo = ap_elements app" for app_eo
    using Cons.prems(1) so that by (simp add: app_inv_def)
  with Cons so show ?case
    by (cases ev) (auto simp: eo_inv_apart app_inv_change ctl.inv_deliver ctl.on_deliver)
qed simp



end
