(* ===== verification/Blessing.thy ===== *)
theory Blessing
  imports Values
begin

text \<open>
  How stimulus.js equips a controller class with properties: the static definitions of a class and
  of its ancestors (\<open>readInheritableStaticArrayValues\<close>, \<open>readInheritableStaticObjectPairs\<close>), the
  blessings that make property descriptors out of them, and the shadow class that \<open>bless\<close> derives.
\<close>

section \<open>Static definitions\<close>

text \<open>
  A constructor is the list of its own static properties followed by those of its prototypes, the
  class itself first. A definition is an array, an object with its entries (type constants for
  \<open>values\<close>) or something else that has no entries; the keys of an object are no array indices.
\<close>

datatype 'a static_def = SArray "'a list" | SObject "(string \<times> 'a) list" | SOther

datatype blessing = ClassB | TargetB | ValueB | UserB nat

record class_level =
  st_blessings :: "blessing static_def option"
  st_classes :: "string static_def option"
  st_targets :: "string static_def option"
  st_values :: "type_constant static_def option"

text \<open>\<open>constructor[propertyName]\<close>; the name of the property is a selector of \<open>class_level\<close>.\<close>

fun static_get :: "('l \<Rightarrow> 'a static_def option) \<Rightarrow> 'l list \<Rightarrow> 'a static_def option" where
  "static_get prop [] = None"
| "static_get prop (c # cs) = (case prop c of None \<Rightarrow> static_get prop cs | Some def \<Rightarrow> Some def)"

fun collect_ancestors :: "'l list \<Rightarrow> 'l list list \<Rightarrow> 'l list list" where
  "collect_ancestors [] ancestors = ancestors"
| "collect_ancestors (c # cs) ancestors = collect_ancestors cs (ancestors @ [c # cs])"

definition getAncestorsForConstructor :: "'l list \<Rightarrow> 'l list list" where
  "getAncestorsForConstructor c = rev (collect_ancestors c [])"

definition getOwnStaticArrayValues :: "('l \<Rightarrow> 'a static_def option) \<Rightarrow> 'l list \<Rightarrow> 'a list" where
  "getOwnStaticArrayValues prop c = (case static_get prop c of Some (SArray xs) \<Rightarrow> xs | _ \<Rightarrow> [])"

definition getOwnStaticObjectPairs :: "('l \<Rightarrow> 'a static_def option) \<Rightarrow> 'l list \<Rightarrow> (string \<times> 'a) list" where
  "getOwnStaticObjectPairs prop c =
     (case static_get prop c of
        Some (SObject kvs) \<Rightarrow> kvs
      | Some (SArray xs) \<Rightarrow> zip (map nat_str [0..<length xs]) xs
      | _ \<Rightarrow> [])"

definition readInheritableStaticArrayValues :: "('l \<Rightarrow> 'a static_def option) \<Rightarrow> 'l list \<Rightarrow> 'a list" where
  "readInheritableStaticArrayValues prop c =
     foldl (\<lambda>vals c. fold set_add (getOwnStaticArrayValues prop c) vals) [] (getAncestorsForConstructor c)"

definition readInheritableStaticObjectPairs :: "('l \<Rightarrow> 'a static_def option) \<Rightarrow> 'l list \<Rightarrow> (string \<times> 'a) list" where
  "readInheritableStaticObjectPairs prop c =
     foldl (\<lambda>pairs c. pairs @ getOwnStaticObjectPairs prop c) [] (getAncestorsForConstructor c)"

section \<open>Property descriptors\<close>

text \<open>The accessor functions that the blessings create, by what they close over.\<close>

datatype getter =
    GetClass string | HasClass string
  | GetTarget string | GetTargets string | HasTarget string
  | GetValue value_descriptor | HasValue value_descriptor
  | GetDescriptorMap "(string \<times> type_constant) list"
  | UserGetter nat

datatype setter = SetValue value_descriptor | UserSetter nat

record prop_descriptor =
  pd_get :: "getter option"
  pd_set :: "setter option"

type_synonym props = "(string, prop_descriptor) jsmap"

definition getter_only :: "getter \<Rightarrow> prop_descriptor" where
  "getter_only g = \<lparr>pd_get = Some g, pd_set = None\<rparr>"

definition object_assign :: "('k, 'v) jsmap \<Rightarrow> ('k, 'v) jsmap \<Rightarrow> ('k, 'v) jsmap" where
  "object_assign target source = foldl (\<lambda>m (k, v). AList.update k v m) target source"

definition propertiesForClassDefinition :: "string \<Rightarrow> props" where
  "propertiesForClassDefinition key =
     (let name = key @ ''Class''
      in [(name, getter_only (GetClass key)), (''has'' @ capitalize name, getter_only (HasClass key))])"

definition ClassPropertiesBlessing :: "class_level list \<Rightarrow> props" where
  "ClassPropertiesBlessing c = foldl (\<lambda>properties classDefinition.
     object_assign properties (propertiesForClassDefinition classDefinition)) []
     (readInheritableStaticArrayValues st_classes c)"

definition propertiesForTargetDefinition :: "string \<Rightarrow> props" where
  "propertiesForTargetDefinition name =
     [(name @ ''Target'', getter_only (GetTarget name)),
      (name @ ''Targets'', getter_only (GetTargets name)),
      (''has'' @ capitalize name @ ''Target'', getter_only (HasTarget name))]"

definition TargetPropertiesBlessing :: "class_level list \<Rightarrow> props" where
  "TargetPropertiesBlessing c = foldl (\<lambda>properties targetDefinition.
     object_assign properties (propertiesForTargetDefinition targetDefinition)) []
     (readInheritableStaticArrayValues st_targets c)"

definition propertiesForValueDefinitionPair :: "string \<times> type_constant \<Rightarrow> string + props" where
  "propertiesForValueDefinitionPair pair =
     (case parseValueDefinitionPair pair of
        Inl e \<Rightarrow> Inl e
      | Inr def \<Rightarrow> Inr [(vd_name def, \<lparr>pd_get = Some (GetValue def), pd_set = Some (SetValue def)\<rparr>),
          (''has'' @ capitalize (vd_name def), getter_only (HasValue def))])"

fun value_properties :: "(string \<times> type_constant) list \<Rightarrow> props \<Rightarrow> string + props" where
  "value_properties [] properties = Inr properties"
| "value_properties (pair # pairs) properties =
     (case propertiesForValueDefinitionPair pair of
        Inl e \<Rightarrow> Inl e
      | Inr ps \<Rightarrow> value_properties pairs (object_assign properties ps))"

definition ValuePropertiesBlessing :: "class_level list \<Rightarrow> string + props" where
  "ValuePropertiesBlessing c =
     (let valueDefinitionPairs = readInheritableStaticObjectPairs st_values c
      in value_properties valueDefinitionPairs
           [(''valueDescriptorMap'', getter_only (GetDescriptorMap valueDefinitionPairs))])"

section \<open>The shadow class\<close>

text \<open>
  An own property of a prototype object is a data property or an accessor; a class has its own
  prototype object first, followed by the inherited ones. The blessings of an application itself
  are the parameter \<open>user\<close>.
\<close>

datatype own_prop = DataProp | Accessor prop_descriptor

record js_class =
  ctor_chain :: "class_level list"
  proto_chain :: "(string, own_prop) jsmap list"

fun run_blessing :: "(nat \<Rightarrow> class_level list \<Rightarrow> string + props) \<Rightarrow> blessing \<Rightarrow> class_level list \<Rightarrow> string + props" where
  "run_blessing user ClassB c = Inr (ClassPropertiesBlessing c)"
| "run_blessing user TargetB c = Inr (TargetPropertiesBlessing c)"
| "run_blessing user ValueB c = ValuePropertiesBlessing c"
| "run_blessing user (UserB n) c = user n c"

definition merge_descriptor :: "prop_descriptor \<Rightarrow> prop_descriptor \<Rightarrow> prop_descriptor" where
  "merge_descriptor descriptor source =
     \<lparr>pd_get = (case pd_get source of None \<Rightarrow> pd_get descriptor | g \<Rightarrow> g),
      pd_set = (case pd_set source of None \<Rightarrow> pd_set descriptor | s \<Rightarrow> s)\<rparr>"

definition merge_property :: "props \<Rightarrow> string \<times> prop_descriptor \<Rightarrow> props" where
  "merge_property blessedProperties kp =
     (let descriptor = (case map_of blessedProperties (fst kp) of None \<Rightarrow> \<lparr>pd_get = None, pd_set = None\<rparr> | Some p \<Rightarrow> p)
      in AList.update (fst kp) (merge_descriptor descriptor (snd kp)) blessedProperties)"

fun bless_from :: "(nat \<Rightarrow> class_level list \<Rightarrow> string + props) \<Rightarrow> blessing list \<Rightarrow> class_level list \<Rightarrow> props \<Rightarrow> string + props" where
  "bless_from user [] c blessedProperties = Inr blessedProperties"
| "bless_from user (b # bs) c blessedProperties =
     (case run_blessing user b c of
        Inl e \<Rightarrow> Inl e
      | Inr properties \<Rightarrow> bless_from user bs c (foldl merge_property blessedProperties properties))"

definition getBlessedProperties :: "(nat \<Rightarrow> class_level list \<Rightarrow> string + props) \<Rightarrow> class_level list \<Rightarrow> string + props" where
  "getBlessedProperties user c = bless_from user (readInheritableStaticArrayValues st_blessings c) c []"

definition own_properties :: "js_class \<Rightarrow> (string, own_prop) jsmap" where
  "own_properties c = (case proto_chain c of [] \<Rightarrow> [] | p # _ \<Rightarrow> p)"

definition getShadowedDescriptor :: "(string, own_prop) jsmap \<Rightarrow> string \<Rightarrow> prop_descriptor \<Rightarrow> prop_descriptor option" where
  "getShadowedDescriptor proto key descriptor =
     (case map_of proto key of
        Some DataProp \<Rightarrow> None
      | Some (Accessor shadowing) \<Rightarrow> Some \<lparr>pd_get = (case pd_get shadowing of None \<Rightarrow> pd_get descriptor | g \<Rightarrow> g),
          pd_set = (case pd_set shadowing of None \<Rightarrow> pd_set descriptor | s \<Rightarrow> s)\<rparr>
      | None \<Rightarrow> Some descriptor)"

definition getShadowProperties :: "(string, own_prop) jsmap \<Rightarrow> props \<Rightarrow> props" where
  "getShadowProperties proto properties = foldl (\<lambda>shadowProperties (key, descriptor).
     case getShadowedDescriptor proto key descriptor of
       None \<Rightarrow> shadowProperties
     | Some descriptor \<Rightarrow> AList.update key descriptor shadowProperties) [] properties"

definition empty_level :: class_level where
  "empty_level = \<lparr>st_blessings = None, st_classes = None, st_targets = None, st_values = None\<rparr>"

text \<open>The static properties of \<open>Controller\<close>; its prototypes have none of them.\<close>

definition Controller_statics :: class_level where
  "Controller_statics = \<lparr>st_blessings = Some (SArray [ClassB, TargetB, ValueB]), st_classes = None,
     st_targets = Some (SArray []), st_values = Some (SObject [])\<rparr>"

definition js_extend :: "js_class \<Rightarrow> js_class" where
  "js_extend c = \<lparr>ctor_chain = empty_level # ctor_chain c, proto_chain = [(''constructor'', DataProp)] # proto_chain c\<rparr>"

definition shadow :: "js_class \<Rightarrow> props \<Rightarrow> js_class" where
  "shadow c properties =
     (let shadowConstructor = js_extend c;
          shadowProperties = getShadowProperties (own_properties c) properties
      in shadowConstructor\<lparr>proto_chain :=
           object_assign (own_properties shadowConstructor) (map (\<lambda>(k, p). (k, Accessor p)) shadowProperties) # proto_chain c\<rparr>)"

definition bless :: "(nat \<Rightarrow> class_level list \<Rightarrow> string + props) \<Rightarrow> js_class \<Rightarrow> string + js_class" where
  "bless user c = map_sum id (shadow c) (getBlessedProperties user (ctor_chain c))"

text \<open>What the name of a property is, on an instance of a class.\<close>

fun find_prop :: "(string, own_prop) jsmap list \<Rightarrow> string \<Rightarrow> own_prop option" where
  "find_prop [] name = None"
| "find_prop (p # ps) name = (case map_of p name of None \<Rightarrow> find_prop ps name | Some q \<Rightarrow> Some q)"

text \<open>
  What a getter gives on a controller with the given scope; the getters of the application itself
  are the parameter \<open>user_get\<close>.
\<close>

datatype prop_result =
    PThrows string | PElement nat | PElements "nat list" | PBool bool | PText string | PRead read_result
  | PDescriptors "(string, value_descriptor) jsmap"

definition quoted :: "string \<Rightarrow> string" where
  "quoted s = [CHR 0x22] @ s @ [CHR 0x22]"

fun run_getter :: "(nat \<Rightarrow> prop_result) \<Rightarrow> dom \<Rightarrow> scope \<Rightarrow> getter \<Rightarrow> guide \<Rightarrow> prop_result \<times> guide" where
  "run_getter user_get d sc (GetClass key) g =
     (case ClassMap_get d sc key of
        Some s \<Rightarrow> (PText s, g)
      | None \<Rightarrow> (PThrows (''Error: Missing attribute '' @ quoted (ClassMap_getAttributeName sc key)), g))"
| "run_getter user_get d sc (HasClass key) g = (PBool (ClassMap_has d sc key), g)"
| "run_getter user_get d sc (GetTarget name) g =
     (let (target, g) = TargetSet_find d sc [name] g
      in (case target of
            Some e \<Rightarrow> (PElement e, g)
          | None \<Rightarrow> (PThrows (''Error: Missing target element '' @ quoted (scope_identifier sc @ ''.'' @ name)), g)))"
| "run_getter user_get d sc (GetTargets name) g =
     (let (targets, g) = TargetSet_findAll d sc [name] g in (PElements targets, g))"
| "run_getter user_get d sc (HasTarget name) g = (let (b, g) = TargetSet_has d sc name g in (PBool b, g))"
| "run_getter user_get d sc (GetValue def) g = (PRead (value_get d sc def), g)"
| "run_getter user_get d sc (HasValue def) g = (PBool (value_has d sc def), g)"
| "run_getter user_get d sc (GetDescriptorMap pairs) g =
     (case valueDescriptorMap sc pairs of Inl e \<Rightarrow> (PThrows e, g) | Inr vdm \<Rightarrow> (PDescriptors vdm, g))"
| "run_getter user_get d sc (UserGetter n) g = (user_get n, g)"

section \<open>Inherited definitions\<close>

lemma collect_ancestors_append: "collect_ancestors c acc = acc @ collect_ancestors c []"
proof (induction c arbitrary: acc)
  case (Cons x c)
  show ?case using Cons.IH [of "acc @ [x # c]"] Cons.IH [of "[x # c]"] by simp
qed simp

lemma ancestors_simps [simp]:
  "getAncestorsForConstructor [] = []"
  "getAncestorsForConstructor (c # cs) = getAncestorsForConstructor cs @ [c # cs]"
  using collect_ancestors_append [of cs "[c # cs]"] by (simp_all add: getAncestorsForConstructor_def)

definition own_array :: "('l \<Rightarrow> 'a static_def option) \<Rightarrow> 'l \<Rightarrow> 'a list" where
  "own_array prop c = (case prop c of Some (SArray xs) \<Rightarrow> xs | _ \<Rightarrow> [])"

lemma fold_set_add_present: "set xs \<subseteq> set acc \<Longrightarrow> fold set_add xs acc = acc"
  by (induction xs) auto

lemma read_array_Cons:
  "readInheritableStaticArrayValues prop (c # cs) =
     fold set_add (getOwnStaticArrayValues prop (c # cs)) (readInheritableStaticArrayValues prop cs)"
  by (simp add: readInheritableStaticArrayValues_def)

lemma read_array_own:
  "readInheritableStaticArrayValues prop c = set_from (concat (map (own_array prop) (rev c)))"
proof (induction c)
  case (Cons c cs)
  have sub: "set (getOwnStaticArrayValues prop cs) \<subseteq> set (readInheritableStaticArrayValues prop cs)"
    by (cases cs) (auto simp: read_array_Cons set_fold_set_add getOwnStaticArrayValues_def)
  show ?case
  proof (cases "prop c")
    case None
    then have "getOwnStaticArrayValues prop (c # cs) = getOwnStaticArrayValues prop cs" "own_array prop c = []"
      by (simp_all add: getOwnStaticArrayValues_def own_array_def)
    with sub Cons.IH show ?thesis by (simp add: read_array_Cons fold_set_add_present)
  next
    case (Some def)
    then have "getOwnStaticArrayValues prop (c # cs) = own_array prop c"
      by (simp add: getOwnStaticArrayValues_def own_array_def)
    with Cons.IH show ?thesis by (simp add: read_array_Cons set_from_def)
  qed
qed (simp add: readInheritableStaticArrayValues_def set_from_def)

text \<open>
  The targets, the classes and the blessings of a controller class are those that the class and
  its ancestors list themselves, the base class first, each once; that every ancestor is asked
  through its own inherited property adds nothing.
\<close>

theorem inherited_arrays:
  "readInheritableStaticArrayValues st_targets c = set_from (concat (map (own_array st_targets) (rev c)))
   \<and> readInheritableStaticArrayValues st_classes c = set_from (concat (map (own_array st_classes) (rev c)))
   \<and> readInheritableStaticArrayValues st_blessings c = set_from (concat (map (own_array st_blessings) (rev c)))"
  by (simp add: read_array_own)

definition own_pairs :: "('l \<Rightarrow> 'a static_def option) \<Rightarrow> 'l \<Rightarrow> (string \<times> 'a) list" where
  "own_pairs prop c = getOwnStaticObjectPairs prop [c]"

text \<open>The definition of a key in the nearest class that has one.\<close>

fun nearest :: "('l \<Rightarrow> 'a static_def option) \<Rightarrow> 'l list \<Rightarrow> string \<Rightarrow> 'a option" where
  "nearest prop [] key = None"
| "nearest prop (c # cs) key =
     (case map_of (rev (own_pairs prop c)) key of None \<Rightarrow> nearest prop cs key | Some v \<Rightarrow> Some v)"

lemma inherited_pairs: "map_of (rev (readInheritableStaticObjectPairs prop c)) key = nearest prop c key"
proof (induction c)
  case (Cons c cs)
  have near: "map_of (rev (getOwnStaticObjectPairs prop cs)) key = Some v \<Longrightarrow> nearest prop cs key = Some v" for v
  proof (induction cs)
    case (Cons x xs)
    then show ?case by (cases "prop x") (auto simp: own_pairs_def getOwnStaticObjectPairs_def)
  qed (simp add: getOwnStaticObjectPairs_def)
  have "readInheritableStaticObjectPairs prop (c # cs) =
      readInheritableStaticObjectPairs prop cs @ getOwnStaticObjectPairs prop (c # cs)"
    by (simp add: readInheritableStaticObjectPairs_def)
  then have step: "map_of (rev (readInheritableStaticObjectPairs prop (c # cs))) key =
      (case map_of (rev (getOwnStaticObjectPairs prop (c # cs))) key of None \<Rightarrow> nearest prop cs key | Some v \<Rightarrow> Some v)"
    using Cons.IH by (simp add: map_add_def split: option.split)
  show ?case
  proof (cases "prop c")
    case None
    then have "getOwnStaticObjectPairs prop (c # cs) = getOwnStaticObjectPairs prop cs" "own_pairs prop c = []"
      by (simp_all add: own_pairs_def getOwnStaticObjectPairs_def)
    with step near show ?thesis by (auto split: option.splits)
  next
    case (Some def)
    then have "getOwnStaticObjectPairs prop (c # cs) = own_pairs prop c" by (simp add: own_pairs_def getOwnStaticObjectPairs_def)
    with step show ?thesis by simp
  qed
qed (simp add: readInheritableStaticObjectPairs_def)

lemma find_append: "find P (xs @ ys) = (case find P xs of None \<Rightarrow> find P ys | Some x \<Rightarrow> Some x)"
  by (induction xs) auto

lemma valueDescriptorMap_types:
  "valueDescriptorMap sc pairs = Inr vdm \<Longrightarrow> (tok, tc) \<in> set pairs \<Longrightarrow> \<exists>ty. parseValueTypeConstant tc = Inr ty"
proof -
  have "valueDescriptorMap_from sc pairs acc = Inr vdm \<Longrightarrow> (tok, tc) \<in> set pairs \<Longrightarrow>
      \<exists>ty. parseValueTypeConstant tc = Inr ty" for acc
    by (induction pairs arbitrary: acc) (auto simp: parseValueDefinitionPair_def split: sum.splits)
  then show "valueDescriptorMap sc pairs = Inr vdm \<Longrightarrow> (tok, tc) \<in> set pairs \<Longrightarrow> ?thesis"
    by (simp add: valueDescriptorMap_def)
qed

lemma valueDescriptorMap_last:
  assumes "valueDescriptorMap sc pairs = Inr vdm"
  shows "map_of vdm an = Option.bind (find (\<lambda>(tok, tc). getAttributeNameForKey sc (dasherize tok @ ''-value'') = an) (rev pairs))
    (\<lambda>(tok, tc). case parseValueTypeConstant tc of Inl _ \<Rightarrow> None | Inr ty \<Rightarrow> Some (valueDescriptorForTokenAndType tok ty))"
proof -
  let ?at = "\<lambda>(tok, tc). getAttributeNameForKey sc (dasherize tok @ ''-value'') = an"
  let ?vd = "\<lambda>(tok, tc). case parseValueTypeConstant tc of Inl _ \<Rightarrow> None | Inr ty \<Rightarrow> Some (valueDescriptorForTokenAndType tok ty)"
  have "valueDescriptorMap_from sc pairs acc = Inr vdm \<Longrightarrow>
      map_of vdm an = (case find ?at (rev pairs) of None \<Rightarrow> map_of acc an | Some p \<Rightarrow> ?vd p)" for acc
  proof (induction pairs arbitrary: acc)
    case (Cons pair pairs)
    obtain tok tc where p: "pair = (tok, tc)" by fastforce
    from Cons.prems obtain ty where ty: "parseValueTypeConstant tc = Inr ty"
      and r: "valueDescriptorMap_from sc pairs (AList.update (getAttributeNameForKey sc (dasherize tok @ ''-value''))
          (valueDescriptorForTokenAndType tok ty) acc) = Inr vdm"
      by (auto simp: p parseValueDefinitionPair_def valueDescriptorForTokenAndType_def Let_def split: sum.splits)
    show ?case using Cons.IH [OF r] ty
      by (auto simp: p find_append split: option.splits)
  qed simp
  from this [of "[]"] assms show ?thesis by (simp add: valueDescriptorMap_def split: option.splits)
qed

abbreviation value_attribute :: "scope \<Rightarrow> string \<Rightarrow> string" where
  "value_attribute sc tok \<equiv> getAttributeNameForKey sc (dasherize tok @ ''-value'')"

text \<open>
  A value that several classes of a hierarchy declare has the type that the nearest class gives
  it: its descriptor is found under its attribute, although the definitions of an ancestor are
  read again for every class below that declares none (as long as no two declared names spell the
  same attribute).
\<close>

theorem inherited_values:
  assumes m: "valueDescriptorMap sc (readInheritableStaticObjectPairs st_values c) = Inr vdm"
    and near: "nearest st_values c tok = Some tc"
    and one: "\<forall>(tok', tc') \<in> set (readInheritableStaticObjectPairs st_values c).
      value_attribute sc tok' = value_attribute sc tok \<longrightarrow> tok' = tok"
  shows "\<exists>ty. parseValueTypeConstant tc = Inr ty
    \<and> map_of vdm (value_attribute sc tok) = Some (valueDescriptorForTokenAndType tok ty)"
proof -
  let ?pairs = "readInheritableStaticObjectPairs st_values c"
  have found: "map_of (rev ?pairs) tok = Some tc" using near by (simp add: inherited_pairs)
  then have "(tok, tc) \<in> set ?pairs" by (auto dest: map_of_SomeD)
  with m obtain ty where ty: "parseValueTypeConstant tc = Inr ty" using valueDescriptorMap_types by blast
  have "find (\<lambda>(tok', tc'). value_attribute sc tok' = value_attribute sc tok) ps = Some (tok, tc)"
    if "map_of ps tok = Some tc"
      "\<forall>(tok', tc') \<in> set ps. value_attribute sc tok' = value_attribute sc tok \<longrightarrow> tok' = tok" for ps
    using that
  proof (induction ps)
    case (Cons p ps)
    show ?case
    proof (cases "value_attribute sc (fst p) = value_attribute sc tok")
      case True
      with Cons.prems have "fst p = tok" by (simp add: case_prod_unfold)
      with Cons.prems(1) show ?thesis by (simp add: case_prod_unfold prod_eq_iff)
    next
      case False
      then have "fst p \<noteq> tok" by metis
      with Cons False show ?thesis by (simp add: case_prod_unfold)
    qed
  qed simp
  with found one have "find (\<lambda>(tok', tc'). value_attribute sc tok' = value_attribute sc tok) (rev ?pairs) = Some (tok, tc)"
    by simp
  then show ?thesis using valueDescriptorMap_last [OF m, of "value_attribute sc tok"] ty by simp
qed

definition base_class :: class_level where
  "base_class = empty_level\<lparr>st_values := Some (SObject [(''size'', StringC), (''open'', BooleanC)])\<rparr>"

definition derived_classes :: "class_level list" where
  "derived_classes = [empty_level, empty_level\<lparr>st_values := Some (SObject [(''size'', NumberC)])\<rparr>, empty_level, base_class, Controller_statics, empty_level]"

theorem inherited_values_witness:
  "let sc = \<lparr>scope_element = 0, scope_identifier = ''x''\<rparr>;
       vdm = [(''data-x-size-value'', valueDescriptorForTokenAndType ''size'' NumberT),
         (''data-x-open-value'', valueDescriptorForTokenAndType ''open'' BooleanT)]
   in valueDescriptorMap sc (readInheritableStaticObjectPairs st_values derived_classes) = Inr vdm
     \<and> (\<exists>ty. parseValueTypeConstant NumberC = Inr ty
        \<and> map_of vdm (value_attribute sc ''size'') = Some (valueDescriptorForTokenAndType ''size'' ty))"
proof -
  let ?sc = "\<lparr>scope_element = 0, scope_identifier = ''x''\<rparr>"
  let ?vdm = "[(''data-x-size-value'', valueDescriptorForTokenAndType ''size'' NumberT),
    (''data-x-open-value'', valueDescriptorForTokenAndType ''open'' BooleanT)]"
  have m: "valueDescriptorMap ?sc (readInheritableStaticObjectPairs st_values derived_classes) = Inr ?vdm"
    and n: "nearest st_values derived_classes ''size'' = Some NumberC"
    and o: "\<forall>(tok', tc') \<in> set (readInheritableStaticObjectPairs st_values derived_classes).
      value_attribute ?sc tok' = value_attribute ?sc ''size'' \<longrightarrow> tok' = ''size''" by code_simp+
  from inherited_values [OF m n o] m show ?thesis unfolding Let_def by blast
qed

section \<open>Shadow classes\<close>

lemma merge_property_wf: "map_wf m \<Longrightarrow> map_wf (merge_property m kp)"
  by (simp add: merge_property_def Let_def)

lemma blessed_wf: "getBlessedProperties user c = Inr props \<Longrightarrow> map_wf props"
proof -
  have merge: "map_wf m \<Longrightarrow> map_wf (foldl merge_property m ps)" for m ps
    by (induction ps arbitrary: m) (simp_all add: merge_property_wf)
  have "bless_from user bs c m = Inr props \<Longrightarrow> map_wf m \<Longrightarrow> map_wf props" for bs m
    by (induction bs arbitrary: m) (auto simp: merge split: sum.splits)
  then show "getBlessedProperties user c = Inr props \<Longrightarrow> ?thesis" by (auto simp: getBlessedProperties_def)
qed

lemma map_of_rev_wf: "map_wf m \<Longrightarrow> map_of (rev m) = map_of m"
  by (rule map_of_eqI) (auto simp: map_wf_def rev_map [symmetric] intro!: map_of_is_SomeI)

lemma map_of_object_assign: "map_of (object_assign m ps) k = (case map_of (rev ps) k of None \<Rightarrow> map_of m k | Some v \<Rightarrow> Some v)"
  by (induction ps arbitrary: m) (auto simp: object_assign_def map_add_def split: option.splits)

lemma shadow_properties:
  assumes "map_wf props"
  shows "map_of (getShadowProperties proto props) k = Option.bind (map_of props k) (getShadowedDescriptor proto k)"
    and "map_wf (getShadowProperties proto props)"
proof -
  let ?f = "\<lambda>m (key, descriptor). case getShadowedDescriptor proto key descriptor of None \<Rightarrow> m
    | Some descriptor \<Rightarrow> AList.update key descriptor m"
  have "map_of (foldl ?f m ps) k = (case Option.bind (map_of ps k) (getShadowedDescriptor proto k) of
      None \<Rightarrow> map_of m k | Some p \<Rightarrow> Some p)" if "distinct (map fst ps)" for m ps
    using that
  proof (induction ps arbitrary: m)
    case (Cons p ps)
    obtain key descriptor where p: "p = (key, descriptor)" by fastforce
    with Cons.prems have "map_of ps key = None" by (simp add: map_of_eq_None_iff)
    with Cons p show ?case by (auto split: option.splits)
  qed simp
  from this [of props "[]"] assms show "map_of (getShadowProperties proto props) k =
      Option.bind (map_of props k) (getShadowedDescriptor proto k)"
    by (simp add: getShadowProperties_def map_wf_def split: option.split)
  have "map_wf m \<Longrightarrow> map_wf (foldl ?f m ps)" for m ps
    by (induction ps arbitrary: m) (auto split: option.splits)
  then show "map_wf (getShadowProperties proto props)" by (simp add: getShadowProperties_def)
qed

text \<open>
  C34: On an instance of the blessed class, a property that a blessing offers is what the class has
  itself when that is a method or a field; it is the accessor of the class, completed by the parts
  it lacks, when the class has an accessor; and it is the accessor of the blessing otherwise. A
  name that no blessing offers means what it meant before.
\<close>

theorem own_properties_win:
  assumes bless: "bless user c = Inr c'" and props: "getBlessedProperties user (ctor_chain c) = Inr props"
    and name: "name \<noteq> ''constructor''"
  shows "find_prop (proto_chain c') name =
    (case map_of props name of
       None \<Rightarrow> find_prop (proto_chain c) name
     | Some p \<Rightarrow> (case map_of (own_properties c) name of
           None \<Rightarrow> Some (Accessor p)
         | Some DataProp \<Rightarrow> Some DataProp
         | Some (Accessor q) \<Rightarrow> Some (Accessor (merge_descriptor p q))))"
proof -
  let ?sh = "getShadowProperties (own_properties c) props"
  have wf: "map_wf props" by (rule blessed_wf [OF props])
  from bless props have c': "c' = shadow c props" by (simp add: bless_def)
  have "map_of (rev (map (\<lambda>(k, p). (k, Accessor p)) ?sh)) name = map_option Accessor (map_of ?sh name)"
    using map_of_rev_wf [OF shadow_properties(2) [OF wf]] by (simp add: rev_map map_of_map)
  then have "find_prop (proto_chain c') name = (case map_of ?sh name of
      None \<Rightarrow> find_prop (proto_chain c) name | Some p \<Rightarrow> Some (Accessor p))"
    using name by (simp add: c' shadow_def js_extend_def own_properties_def map_of_object_assign split: option.splits)
  moreover have "find_prop (proto_chain c) name = Some q" if "map_of (own_properties c) name = Some q" for q
    using that by (cases "proto_chain c") (simp_all add: own_properties_def)
  ultimately show ?thesis
    by (auto simp: shadow_properties(1) [OF wf] getShadowedDescriptor_def merge_descriptor_def
        split: option.splits own_prop.splits)
qed

definition list_class :: js_class where
  "list_class = \<lparr>ctor_chain = [empty_level\<lparr>st_targets := Some (SArray [''list''])\<rparr>, Controller_statics],
     proto_chain = [[(''constructor'', DataProp), (''listTarget'', DataProp)], []]\<rparr>"

definition no_user :: "nat \<Rightarrow> class_level list \<Rightarrow> string + props" where
  "no_user n c = Inr []"

theorem own_properties_win_witness:
  "let c' = projr (bless no_user list_class)
   in bless no_user list_class = Inr c' \<and> find_prop (proto_chain c') ''listTarget'' = Some DataProp
      \<and> find_prop (proto_chain c') ''listTargets'' = Some (Accessor (getter_only (GetTargets ''list'')))"
proof -
  let ?c' = "projr (bless no_user list_class)" and ?ps = "projr (getBlessedProperties no_user (ctor_chain list_class))"
  have p: "getBlessedProperties no_user (ctor_chain list_class) = Inr ?ps" by code_simp
  then have b: "bless no_user list_class = Inr ?c'" unfolding bless_def by (metis map_sum.simps(2) sum.sel(2))
  have m: "map_of ?ps ''listTarget'' = Some (getter_only (GetTarget ''list''))"
    "map_of ?ps ''listTargets'' = Some (getter_only (GetTargets ''list''))" by code_simp+
  have o: "map_of (own_properties list_class) ''listTarget'' = Some DataProp"
    "map_of (own_properties list_class) ''listTargets'' = None" by code_simp+
  from own_properties_win [OF b p, of "''listTarget''"] own_properties_win [OF b p, of "''listTargets''"] b m o
  show ?thesis unfolding Let_def by simp
qed

section \<open>Errors and the properties of targets and classes\<close>

lemma value_properties_error:
  "(\<exists>e. value_properties pairs ps = Inl e) \<longleftrightarrow> (\<exists>tok c. (tok, OtherC c) \<in> set pairs)"
proof (induction pairs arbitrary: ps)
  case (Cons pair pairs)
  obtain tok tc where p: "pair = (tok, tc)" by fastforce
  show ?case using Cons.IH by (cases tc) (auto simp: p propertiesForValueDefinitionPair_def parseValueDefinitionPair_def)
qed simp

lemma controller_blessings:
  assumes "ctor_chain c = subs @ Controller_statics # builtins" and "\<forall>l \<in> set (subs @ builtins). st_blessings l = None"
  shows "readInheritableStaticArrayValues st_blessings (ctor_chain c) = [ClassB, TargetB, ValueB]"
proof -
  have none: "concat (map (own_array st_blessings) ls) = []" if "\<forall>l \<in> set ls. st_blessings l = None" for ls
    using that by (auto simp: own_array_def)
  have "concat (map (own_array st_blessings) (rev (ctor_chain c))) = [ClassB, TargetB, ValueB]"
  proof -
    have "own_array st_blessings Controller_statics = [ClassB, TargetB, ValueB]" by (simp add: own_array_def Controller_statics_def)
    moreover have "concat (map (own_array st_blessings) (rev builtins)) = []" "concat (map (own_array st_blessings) (rev subs)) = []"
      using assms(2) by (intro none, simp)+
    ultimately show ?thesis by (simp only: assms(1) rev_append rev.simps map_append concat_append list.map concat.simps append.simps append_Nil2 append_Nil)
  qed
  then show ?thesis by (simp add: read_array_own set_from_def set_add_def)
qed

text \<open>
  C39: A class derived from \<open>Controller\<close> that adds no blessings is refused exactly when it or an
  ancestor declares a value whose type is none of the five type constants; so a controller of a
  registered class never meets an unknown type.
\<close>

theorem unknown_value_types_are_refused:
  assumes "ctor_chain c = subs @ Controller_statics # builtins" and "\<forall>l \<in> set (subs @ builtins). st_blessings l = None"
  shows "(\<exists>e. bless user c = Inl e) \<longleftrightarrow>
    (\<exists>tok x. (tok, OtherC x) \<in> set (readInheritableStaticObjectPairs st_values (ctor_chain c)))"
  unfolding bless_def getBlessedProperties_def controller_blessings [OF assms] value_properties_error [symmetric, where
      ps = "[(''valueDescriptorMap'', getter_only (GetDescriptorMap (readInheritableStaticObjectPairs st_values (ctor_chain c))))]"]
  by (auto simp: ValuePropertiesBlessing_def Let_def split: sum.splits)

theorem unknown_value_types_are_refused_witness:
  "let l = empty_level\<lparr>st_values := Some (SObject [(''when'', OtherC ''Date'')])\<rparr>;
       c = \<lparr>ctor_chain = [l, Controller_statics, empty_level], proto_chain = []\<rparr>
   in \<exists>e. bless no_user c = Inl e"
proof -
  let ?l = "empty_level\<lparr>st_values := Some (SObject [(''when'', OtherC ''Date'')])\<rparr>"
  let ?c = "\<lparr>ctor_chain = [?l, Controller_statics, empty_level], proto_chain = []\<rparr>"
  have c: "ctor_chain ?c = [?l] @ Controller_statics # [empty_level]" by simp
  have n: "\<forall>l \<in> set ([?l] @ [empty_level]). st_blessings l = None" by (simp add: empty_level_def)
  have "(''when'', OtherC ''Date'') \<in> set (readInheritableStaticObjectPairs st_values (ctor_chain ?c))" by code_simp
  then have "\<exists>tok x. (tok, OtherC x) \<in> set (readInheritableStaticObjectPairs st_values (ctor_chain ?c))" by blast
  with unknown_value_types_are_refused [OF c n, of no_user] show ?thesis unfolding Let_def by blast
qed

lemma single_target:
  "fst (TargetSet_find d sc [name] g) = first_of (fst (TargetSet_findAll d sc [name] g'))"
  using find_step_first [of d sc None g name g'] by (simp add: TargetSet_find_def TargetSet_findAll_def case_prod_unfold Let_def)

text \<open>
  The three properties of a target agree: when \<open>has...Target\<close> is true, \<open>...Target\<close> is the first
  element of \<open>...Targets\<close>; when it is false, \<open>...Target\<close> throws and \<open>...Targets\<close> is empty. In the
  same way \<open>has...Class\<close> says whether \<open>...Class\<close> can be read.
\<close>

theorem optional_properties_agree:
  "(\<exists>e es. fst (run_getter ug d sc (HasTarget n) g1) = PBool True
      \<and> fst (run_getter ug d sc (GetTarget n) g2) = PElement e
      \<and> fst (run_getter ug d sc (GetTargets n) g3) = PElements (e # es)
    \<or> fst (run_getter ug d sc (HasTarget n) g1) = PBool False
      \<and> fst (run_getter ug d sc (GetTarget n) g2)
          = PThrows (''Error: Missing target element '' @ quoted (scope_identifier sc @ ''.'' @ n))
      \<and> fst (run_getter ug d sc (GetTargets n) g3) = PElements [])
   \<and> (case fst (run_getter ug d sc (GetClass k) g1) of
        PText s \<Rightarrow> fst (run_getter ug d sc (HasClass k) g2) = PBool True \<and> ClassMap_get d sc k = Some s
      | PThrows e \<Rightarrow> fst (run_getter ug d sc (HasClass k) g2) = PBool False
      | _ \<Rightarrow> False)"
proof -
  have "ClassMap_has d sc k \<longleftrightarrow> ClassMap_get d sc k \<noteq> None"
    by (simp add: ClassMap_has_def ClassMap_get_def DataMap_has_get)
  then have "case fst (run_getter ug d sc (GetClass k) g1) of
      PText s \<Rightarrow> fst (run_getter ug d sc (HasClass k) g2) = PBool True \<and> ClassMap_get d sc k = Some s
    | PThrows e \<Rightarrow> fst (run_getter ug d sc (HasClass k) g2) = PBool False | _ \<Rightarrow> False"
    by (cases "ClassMap_get d sc k") auto
  moreover have "fst (TargetSet_find d sc [n] g) = first_of (fst (TargetSet_findAll d sc [n] g3))" for g
    by (rule single_target)
  ultimately show ?thesis
    by (cases "fst (TargetSet_findAll d sc [n] g3)")
      (auto simp: TargetSet_has_def first_of_def case_prod_unfold Let_def)
qed

end
