(* ===== verification/Js_Objects.thy ===== *)
theory Js_Objects
  imports Blessing
begin

text \<open>
  Classes as objects with prototypes: the helpers by which the compiled scripts derive classes.
  \<open>__extends\<close> and \<open>extend\<close> of stimulus.js, \<open>createClass\<close>, \<open>classCallCheck\<close> and \<open>_extends\<close> of
  viz.js work on a heap of objects; the theorems relate the heap to the lists of prototypes that
  the other theories use for a class.
\<close>

section \<open>Objects\<close>

datatype jsval = JUndefined | JNull | JText string | JRef nat

text \<open>
  An own property is a data property (value, writable, enumerable, configurable) or an accessor
  (getter, setter, enumerable, configurable). Its accessor functions are objects of the heap.
\<close>

datatype js_prop = DataP jsval bool bool bool | AccP "nat option" "nat option" bool bool

text \<open>
  What a function object does. The bodies that the scripts fix are those of \<open>Controller\<close> and of the
  two functions in \<open>testReflectExtension\<close>; others are numbered. A function is a function expression, a
  class without a base class, a derived class with the default constructor (which calls \<open>super\<close> with
  its arguments), or one of the two functions that \<open>extend\<close> makes around a constructor.
\<close>

datatype body = UserBody nat | ControllerBody | CallsA | EmptyBody

datatype code = Plain body | BaseClass body | DerivedClass | ReflectExt nat | Es5Ext nat

record obj =
  o_proto :: "nat option"
  o_props :: "(string, js_prop) jsmap"
  o_code :: "code option"

type_synonym heap = "obj list"

datatype exn = TypeErr | ReferenceErr | Thrown string

text \<open>
  The engine: whether \<open>Object.setPrototypeOf\<close>, the property \<open>__proto__\<close> and \<open>Reflect\<close> exist, the
  addresses of \<open>Function.prototype\<close> and \<open>Object.prototype\<close>, and the code that the heap only names:
  getters, setters, and bodies (which get \<open>this\<close> and the arguments).
\<close>

record engine =
  has_setPrototypeOf :: bool
  has_proto :: bool
  has_Reflect :: bool
  function_prototype :: nat
  object_prototype :: nat
  run_get :: "nat \<Rightarrow> nat \<Rightarrow> heap \<Rightarrow> jsval"
  run_set :: "nat \<Rightarrow> nat \<Rightarrow> jsval \<Rightarrow> heap \<Rightarrow> exn + heap"
  run_body :: "nat \<Rightarrow> jsval \<Rightarrow> jsval list \<Rightarrow> heap \<Rightarrow> exn + jsval \<times> heap"

definition alloc :: "obj \<Rightarrow> heap \<Rightarrow> nat \<times> heap" where
  "alloc ob h = (length h, h @ [ob])"

definition put_prop :: "nat \<Rightarrow> string \<Rightarrow> js_prop \<Rightarrow> heap \<Rightarrow> heap" where
  "put_prop r k p h = h[r := (h ! r)\<lparr>o_props := AList.update k p (o_props (h ! r))\<rparr>]"

text \<open>
  The prototypes of an object, itself first. A heap without cycles has at most as many objects on a
  chain as it has objects, so the first argument need not be larger.
\<close>

fun chain :: "nat \<Rightarrow> heap \<Rightarrow> nat option \<Rightarrow> nat list" where
  "chain (Suc n) h (Some r) = r # chain n h (o_proto (h ! r))"
| "chain _ h _ = []"

definition proto_list :: "heap \<Rightarrow> nat \<Rightarrow> nat list" where
  "proto_list h r = chain (length h) h (Some r)"

fun first_own :: "heap \<Rightarrow> nat list \<Rightarrow> string \<Rightarrow> (nat \<times> js_prop) option" where
  "first_own h [] k = None"
| "first_own h (r # rs) k = (case map_of (o_props (h ! r)) k of None \<Rightarrow> first_own h rs k | Some p \<Rightarrow> Some (r, p))"

definition js_get :: "engine \<Rightarrow> heap \<Rightarrow> nat \<Rightarrow> string \<Rightarrow> jsval" where
  "js_get E h r k =
     (case first_own h (proto_list h r) k of
        None \<Rightarrow> JUndefined
      | Some (_, DataP v _ _ _) \<Rightarrow> v
      | Some (_, AccP None _ _ _) \<Rightarrow> JUndefined
      | Some (_, AccP (Some g) _ _ _) \<Rightarrow> run_get E g r h)"

text \<open>An assignment in strict mode; every object is extensible.\<close>

definition js_set :: "engine \<Rightarrow> nat \<Rightarrow> string \<Rightarrow> jsval \<Rightarrow> heap \<Rightarrow> exn + heap" where
  "js_set E r k v h =
     (case first_own h (proto_list h r) k of
        None \<Rightarrow> Inr (put_prop r k (DataP v True True True) h)
      | Some (q, DataP _ w e c) \<Rightarrow>
          if \<not> w then Inl TypeErr
          else if q = r then Inr (put_prop r k (DataP v True e c) h)
          else Inr (put_prop r k (DataP v True True True) h)
      | Some (_, AccP _ None _ _) \<Rightarrow> Inl TypeErr
      | Some (_, AccP _ (Some s) _ _) \<Rightarrow> run_set E s r v h)"

definition is_ref :: "jsval \<Rightarrow> bool" where
  "is_ref v = (case v of JRef _ \<Rightarrow> True | _ \<Rightarrow> False)"

text \<open>\<open>Object.setPrototypeOf\<close>, which refuses to close a cycle.\<close>

definition set_proto :: "nat \<Rightarrow> nat option \<Rightarrow> heap \<Rightarrow> heap" where
  "set_proto d q h = h[d := (h ! d)\<lparr>o_proto := q\<rparr>]"

definition setPrototypeOf :: "nat \<Rightarrow> jsval \<Rightarrow> heap \<Rightarrow> exn + heap" where
  "setPrototypeOf d v h =
     (case v of
        JNull \<Rightarrow> Inr (set_proto d None h)
      | JRef q \<Rightarrow> if o_proto (h ! d) \<noteq> Some q \<and> d \<in> set (proto_list h q) then Inl TypeErr else Inr (set_proto d (Some q) h)
      | _ \<Rightarrow> Inl TypeErr)"

definition instance_of :: "engine \<Rightarrow> heap \<Rightarrow> jsval \<Rightarrow> nat \<Rightarrow> exn + bool" where
  "instance_of E h v f =
     (case v of
        JRef r \<Rightarrow> (case js_get E h f ''prototype'' of
            JRef q \<Rightarrow> Inr (q \<in> set (tl (proto_list h r)))
          | _ \<Rightarrow> Inl TypeErr)
      | _ \<Rightarrow> Inr False)"

text \<open>
  A function expression makes two objects: the function, whose property \<open>prototype\<close> may be assigned,
  and the object that it holds.
\<close>

definition function_props :: "nat \<Rightarrow> (string, js_prop) jsmap" where
  "function_props p = [(''length'', DataP (JText ''0'') False False True), (''name'', DataP (JText []) False False True),
     (''prototype'', DataP (JRef p) True False False)]"

definition new_function :: "engine \<Rightarrow> code \<Rightarrow> heap \<Rightarrow> nat \<times> heap" where
  "new_function E c h =
     (let (f, h) = alloc \<lparr>o_proto = Some (function_prototype E), o_props = function_props (Suc (length h)), o_code = Some c\<rparr> h;
          (p, h) = alloc \<lparr>o_proto = Some (object_prototype E),
             o_props = [(''constructor'', DataP (JRef f) True False True)], o_code = None\<rparr> h
      in (f, h))"

section \<open>The helpers\<close>

text \<open>The own enumerable properties of an object are copied by assignments (\<open>for ... in\<close> with \<open>hasOwnProperty\<close>).\<close>

definition is_enumerable :: "js_prop \<Rightarrow> bool" where
  "is_enumerable p = (case p of DataP _ _ e _ \<Rightarrow> e | AccP _ _ e _ \<Rightarrow> e)"

definition own_keys :: "heap \<Rightarrow> nat \<Rightarrow> string list" where
  "own_keys h r = map fst (filter (\<lambda>(_, p). is_enumerable p) (o_props (h ! r)))"

fun copy_keys :: "engine \<Rightarrow> nat \<Rightarrow> nat \<Rightarrow> string list \<Rightarrow> heap \<Rightarrow> exn + heap" where
  "copy_keys E d b [] h = Inr h"
| "copy_keys E d b (k # ks) h =
     (case js_set E d k (js_get E h b k) h of Inl e \<Rightarrow> Inl e | Inr h \<Rightarrow> copy_keys E d b ks h)"

definition copy_own :: "engine \<Rightarrow> nat \<Rightarrow> jsval \<Rightarrow> heap \<Rightarrow> exn + heap" where
  "copy_own E d v h = (case v of JRef b \<Rightarrow> copy_keys E d b (own_keys h b) h | _ \<Rightarrow> Inr h)"

fun object_extends :: "engine \<Rightarrow> nat \<Rightarrow> jsval list \<Rightarrow> heap \<Rightarrow> exn + heap" where
  "object_extends E target [] h = Inr h"
| "object_extends E target (source # sources) h =
     (case copy_own E target source h of Inl e \<Rightarrow> Inl e | Inr h \<Rightarrow> object_extends E target sources h)"

text \<open>Setting \<open>__proto__\<close> does nothing for a value that is neither an object nor null.\<close>

definition extendStatics :: "engine \<Rightarrow> nat \<Rightarrow> jsval \<Rightarrow> heap \<Rightarrow> exn + heap" where
  "extendStatics E d b h =
     (if has_setPrototypeOf E then setPrototypeOf d b h
      else if has_proto E then (if b = JNull \<or> is_ref b then setPrototypeOf d b h else Inr h)
      else copy_own E d b h)"

text \<open>
  The function \<open>__\<close> of \<open>js_extends\<close> is not an object of the heap: nothing refers to it afterwards. The
  base class \<open>b\<close> is an object or null; undefined has no property \<open>prototype\<close> to read.
\<close>

definition prototype_of :: "engine \<Rightarrow> heap \<Rightarrow> nat \<Rightarrow> nat" where
  "prototype_of E h f = (case js_get E h f ''prototype'' of JRef q \<Rightarrow> q | _ \<Rightarrow> object_prototype E)"

definition js_extends :: "engine \<Rightarrow> nat \<Rightarrow> jsval \<Rightarrow> heap \<Rightarrow> exn + heap" where
  "js_extends E d b h =
     (case extendStatics E d b h of
        Inl e \<Rightarrow> Inl e
      | Inr h \<Rightarrow>
          (case b of
             JRef b \<Rightarrow>
               (let (p, h) = alloc \<lparr>o_proto = Some (prototype_of E h b), o_props = [], o_code = None\<rparr> h
                in case js_set E p ''constructor'' (JRef d) h of
                     Inl e \<Rightarrow> Inl e
                   | Inr h \<Rightarrow> js_set E d ''prototype'' (JRef p) h)
           | JNull \<Rightarrow> (let (p, h) = alloc \<lparr>o_proto = None, o_props = [], o_code = None\<rparr> h
                       in js_set E d ''prototype'' (JRef p) h)
           | _ \<Rightarrow> Inl TypeErr))"

definition extendWithReflect :: "engine \<Rightarrow> nat \<Rightarrow> heap \<Rightarrow> exn + nat \<times> heap" where
  "extendWithReflect E ctor h =
     (let (extended, h) = new_function E (ReflectExt ctor) h
      in case (case js_get E h ctor ''prototype'' of JRef q \<Rightarrow> Some (Some q) | JNull \<Rightarrow> Some None | _ \<Rightarrow> None) of
           None \<Rightarrow> Inl TypeErr
         | Some q \<Rightarrow>
             (let (p, h) = alloc \<lparr>o_proto = q, o_props = [(''constructor'', DataP (JRef extended) False False False)], o_code = None\<rparr> h
              in case js_set E extended ''prototype'' (JRef p) h of
                   Inl e \<Rightarrow> Inl e
                 | Inr h \<Rightarrow>
                     if \<not> has_Reflect E then Inl ReferenceErr
                     else Inr (extended, case setPrototypeOf extended (JRef ctor) h of Inl _ \<Rightarrow> h | Inr h \<Rightarrow> h)))"

definition extendWithExtends :: "engine \<Rightarrow> nat \<Rightarrow> heap \<Rightarrow> exn + nat \<times> heap" where
  "extendWithExtends E ctor h =
     (let (extended, h) = new_function E (Es5Ext ctor) h
      in map_sum id (Pair extended) (js_extends E extended (JRef ctor) h))"

section \<open>Calls and construction\<close>

definition new_this :: "engine \<Rightarrow> nat \<Rightarrow> heap \<Rightarrow> nat \<times> heap" where
  "new_this E nt h = alloc \<lparr>o_proto = Some (prototype_of E h nt), o_props = [], o_code = None\<rparr> h"

text \<open>A construction gives the object that the function returns, or else the new one.\<close>

definition constructed :: "nat \<Rightarrow> exn + jsval \<times> heap \<Rightarrow> exn + jsval \<times> heap" where
  "constructed this res = map_sum id (\<lambda>(v, h). (if is_ref v then v else JRef this, h)) res"

definition truthy :: "jsval \<Rightarrow> bool" where
  "truthy v = (case v of JRef _ \<Rightarrow> True | JText s \<Rightarrow> s \<noteq> [] | _ \<Rightarrow> False)"

text \<open>\<open>_newTarget\<close> of the function \<open>extended\<close>: its argument \<open>this\<close> may be undefined.\<close>

definition newTarget :: "engine \<Rightarrow> heap \<Rightarrow> nat \<Rightarrow> jsval \<Rightarrow> exn + jsval" where
  "newTarget E h extended this =
     (if \<not> truthy this then Inr JUndefined
      else case instance_of E h this extended of
        Inl e \<Rightarrow> Inl e
      | Inr True \<Rightarrow> (case this of JRef r \<Rightarrow> Inr (js_get E h r ''constructor'') | _ \<Rightarrow> Inr JUndefined)
      | Inr False \<Rightarrow> Inr JUndefined)"

text \<open>The target of a construction has to be a function.\<close>

definition newTarget_ref :: "heap \<Rightarrow> jsval \<Rightarrow> nat option" where
  "newTarget_ref h t = (case t of JRef nt \<Rightarrow> if o_code (h ! nt) = None then None else Some nt | _ \<Rightarrow> None)"

text \<open>
  The internal methods \<open>[[Construct]]\<close> (with the class that \<open>new.target\<close> names) and \<open>[[Call]]\<close>, and the
  bodies of functions; \<open>run\<close> runs what they call. The number that \<open>execute\<close> gets bounds the depth of
  nested calls, None is that it was not enough.
\<close>

datatype task = Construct nat "jsval list" jsval | Call nat jsval "jsval list" | Body body jsval "jsval list"

type_synonym run_result = "(exn + jsval \<times> heap) option"

definition construct :: "engine \<Rightarrow> (task \<Rightarrow> heap \<Rightarrow> run_result) \<Rightarrow> nat \<Rightarrow> jsval list \<Rightarrow> jsval \<Rightarrow> heap \<Rightarrow> run_result" where
  "construct E run f args t h =
     (case newTarget_ref h t of
        None \<Rightarrow> Some (Inl TypeErr)
      | Some nt \<Rightarrow>
          (let (this, h') = new_this E nt h
           in case o_code (h ! f) of
                None \<Rightarrow> Some (Inl TypeErr)
              | Some (Plain b) \<Rightarrow> map_option (constructed this) (run (Body b (JRef this) args) h')
              | Some (BaseClass b) \<Rightarrow> map_option (constructed this) (run (Body b (JRef this) args) h')
              | Some DerivedClass \<Rightarrow>
                  (case o_proto (h ! f) of None \<Rightarrow> Some (Inl TypeErr) | Some b \<Rightarrow> run (Construct b args t) h)
              | Some (ReflectExt c) \<Rightarrow>
                  (case newTarget E h' f (JRef this) of
                     Inl e \<Rightarrow> Some (Inl e)
                   | Inr t \<Rightarrow> if \<not> has_Reflect E then Some (Inl ReferenceErr)
                             else map_option (constructed this) (run (Construct c args t) h'))
              | Some (Es5Ext b) \<Rightarrow>
                  map_option (constructed this) (run (Call b (JRef this) args) h')))"

definition call :: "engine \<Rightarrow> (task \<Rightarrow> heap \<Rightarrow> run_result) \<Rightarrow> nat \<Rightarrow> jsval \<Rightarrow> jsval list \<Rightarrow> heap \<Rightarrow> run_result" where
  "call E run f this args h =
     (case o_code (h ! f) of
        None \<Rightarrow> Some (Inl TypeErr)
      | Some (Plain b) \<Rightarrow> run (Body b this args) h
      | Some (BaseClass b) \<Rightarrow> Some (Inl TypeErr)
      | Some DerivedClass \<Rightarrow> Some (Inl TypeErr)
      | Some (ReflectExt c) \<Rightarrow>
          (case newTarget E h f this of
             Inl e \<Rightarrow> Some (Inl e)
           | Inr t \<Rightarrow> if \<not> has_Reflect E then Some (Inl ReferenceErr) else run (Construct c args t) h)
      | Some (Es5Ext b) \<Rightarrow>
          map_option (map_sum id (\<lambda>(v, h). (if truthy v then v else this, h))) (run (Call b this args) h))"

definition run_code :: "engine \<Rightarrow> (task \<Rightarrow> heap \<Rightarrow> run_result) \<Rightarrow> body \<Rightarrow> jsval \<Rightarrow> jsval list \<Rightarrow> heap \<Rightarrow> run_result" where
  "run_code E run b this args h =
     (case b of
        UserBody k \<Rightarrow> Some (run_body E k this args h)
      | EmptyBody \<Rightarrow> Some (Inr (JUndefined, h))
      | ControllerBody \<Rightarrow>
          (case this of
             JRef r \<Rightarrow> Some (map_sum id (Pair JUndefined) (js_set E r ''context'' (case args of [] \<Rightarrow> JUndefined | v # _ \<Rightarrow> v) h))
           | _ \<Rightarrow> Some (Inl TypeErr))
      | CallsA \<Rightarrow>
          (case this of
             JRef r \<Rightarrow> (case js_get E h r ''a'' of
                 JRef f \<Rightarrow> map_option (map_sum id (\<lambda>(_, h). (JUndefined, h))) (run (Call f this []) h)
               | _ \<Rightarrow> Some (Inl TypeErr))
           | _ \<Rightarrow> Some (Inl TypeErr)))"

primrec execute :: "engine \<Rightarrow> nat \<Rightarrow> task \<Rightarrow> heap \<Rightarrow> run_result" where
  "execute E 0 task h = None"
| "execute E (Suc n) task h =
     (case task of
        Construct f args t \<Rightarrow> construct E (execute E n) f args t h
      | Call f this args \<Rightarrow> call E (execute E n) f this args h
      | Body b this args \<Rightarrow> run_code E (execute E n) b this args h)"

definition testReflectExtension :: "engine \<Rightarrow> heap \<Rightarrow> run_result" where
  "testReflectExtension E h =
     (let (a, h) = new_function E (Plain CallsA) h
      in case extendWithReflect E a h of
           Inl e \<Rightarrow> Some (Inl e)
         | Inr (b, h) \<Rightarrow>
             (let (f, h) = new_function E (Plain EmptyBody) h
              in case js_get E h b ''prototype'' of
                   JRef p \<Rightarrow> (case js_set E p ''a'' (JRef f) h of
                       Inl e \<Rightarrow> Some (Inl e)
                     | Inr h \<Rightarrow> execute E 6 (Construct b [] (JRef b)) h)
                 | _ \<Rightarrow> Some (Inl TypeErr)))"

text \<open>The test runs once, on the heap \<open>h0\<close> that the script finds when it is loaded.\<close>

definition extend_class :: "engine \<Rightarrow> heap \<Rightarrow> nat \<Rightarrow> heap \<Rightarrow> exn + nat \<times> heap" where
  "extend_class E h0 = (case testReflectExtension E h0 of Some (Inr _) \<Rightarrow> extendWithReflect E | _ \<Rightarrow> extendWithExtends E)"

section \<open>Defining the methods of a class\<close>

record descriptor_object =
  d_key :: string
  d_enumerable :: "bool option"
  d_value :: "jsval option"
  d_get :: "nat option option"
  d_set :: "nat option option"

text \<open>
  \<open>Object.defineProperty\<close> with a descriptor that asks for a configurable property and, when it has a
  value, for a writable one: the fields it does not have keep what the property had.
\<close>

definition defineProperty :: "nat \<Rightarrow> descriptor_object \<Rightarrow> heap \<Rightarrow> exn + heap" where
  "defineProperty target ds h =
     (let old = map_of (o_props (h ! target)) (d_key ds);
          e = (case d_enumerable ds of None \<Rightarrow> False | Some e \<Rightarrow> e);
          accessor = (d_get ds \<noteq> None \<or> d_set ds \<noteq> None);
          (og, os) = (case old of Some (AccP g s _ _) \<Rightarrow> (g, s) | _ \<Rightarrow> (None, None))
      in if accessor \<and> d_value ds \<noteq> None then Inl TypeErr
         else case old of
           Some (DataP _ _ _ False) \<Rightarrow> Inl TypeErr
         | Some (AccP _ _ _ False) \<Rightarrow> Inl TypeErr
         | _ \<Rightarrow> Inr (put_prop target (d_key ds)
             (case d_value ds of
                Some v \<Rightarrow> DataP v True e True
              | None \<Rightarrow>
                  if accessor then AccP (case d_get ds of None \<Rightarrow> og | Some g \<Rightarrow> g) (case d_set ds of None \<Rightarrow> os | Some s \<Rightarrow> s) e True
                  else (case old of
                      Some (DataP v w _ _) \<Rightarrow> DataP v w e True
                    | Some (AccP g s _ _) \<Rightarrow> AccP g s e True
                    | None \<Rightarrow> DataP JUndefined False e True)) h))"

fun defineProperties :: "nat \<Rightarrow> descriptor_object list \<Rightarrow> heap \<Rightarrow> exn + heap" where
  "defineProperties target [] h = Inr h"
| "defineProperties target (ds # dss) h =
     (case defineProperty target ds h of Inl e \<Rightarrow> Inl e | Inr h \<Rightarrow> defineProperties target dss h)"

definition createClass :: "engine \<Rightarrow> nat \<Rightarrow> descriptor_object list option \<Rightarrow> descriptor_object list option \<Rightarrow> heap \<Rightarrow> exn + heap" where
  "createClass E ctor protoProps staticProps h =
     (case (case protoProps of
              None \<Rightarrow> Inr h
            | Some dss \<Rightarrow> (case js_get E h ctor ''prototype'' of
                JRef p \<Rightarrow> defineProperties p dss h
              | _ \<Rightarrow> if dss = [] then Inr h else Inl TypeErr)) of
        Inl e \<Rightarrow> Inl e
      | Inr h \<Rightarrow> (case staticProps of None \<Rightarrow> Inr h | Some dss \<Rightarrow> defineProperties ctor dss h))"

definition classCallCheck :: "engine \<Rightarrow> heap \<Rightarrow> jsval \<Rightarrow> nat \<Rightarrow> exn + unit" where
  "classCallCheck E h inst ctor =
     (case instance_of E h inst ctor of Inl e \<Rightarrow> Inl e | Inr b \<Rightarrow> if b then Inr () else Inl TypeErr)"

section \<open>Chains of prototypes\<close>

fun is_chain :: "heap \<Rightarrow> nat option \<Rightarrow> nat list \<Rightarrow> bool" where
  "is_chain h x [] \<longleftrightarrow> x = None"
| "is_chain h x (r # rs) \<longleftrightarrow> x = Some r \<and> r < length h \<and> is_chain h (o_proto (h ! r)) rs"

lemma is_chain_unique: "is_chain h x rs \<Longrightarrow> is_chain h x ss \<Longrightarrow> rs = ss"
proof (induction rs arbitrary: x ss)
  case Nil
  then show ?case by (cases ss) auto
next
  case (Cons r rs)
  then show ?case by (cases ss) auto
qed

lemma is_chain_append: "is_chain h x (rs @ r # ss) \<Longrightarrow> is_chain h (Some r) (r # ss)"
  by (induction rs arbitrary: x) auto

lemma is_chain_distinct: "is_chain h x rs \<Longrightarrow> distinct rs"
proof (induction rs arbitrary: x)
  case (Cons r rs)
  have "r \<notin> set rs"
  proof
    assume "r \<in> set rs"
    then obtain ps ss where rs: "rs = ps @ r # ss" by (auto dest: split_list)
    with Cons.prems have "is_chain h (Some r) (r # ss)" by (auto dest: is_chain_append)
    with Cons.prems have "rs = ss" by (auto dest: is_chain_unique)
    with rs show False by simp
  qed
  with Cons show ?case by auto
qed simp

lemma is_chain_bounded: "is_chain h x rs \<Longrightarrow> set rs \<subseteq> {..<length h}"
  by (induction rs arbitrary: x) auto

lemma is_chain_short: "is_chain h x rs \<Longrightarrow> length rs \<le> length h"
  using card_mono [of "{..<length h}" "set rs"] by (auto simp: distinct_card is_chain_distinct dest: is_chain_bounded)

lemma chain_eq: "is_chain h x rs \<Longrightarrow> length rs \<le> n \<Longrightarrow> chain n h x = rs"
proof (induction rs arbitrary: x n)
  case Nil
  then show ?case by simp
next
  case (Cons r rs)
  then show ?case by (cases n) auto
qed

lemma proto_list_eq: "is_chain h (Some r) rs \<Longrightarrow> proto_list h r = rs"
  by (simp add: proto_list_def chain_eq is_chain_short)

lemma is_chain_alloc [simp]: "is_chain h x rs \<Longrightarrow> is_chain (h @ obs) x rs"
  by (induction rs arbitrary: x) (auto simp: nth_append)

lemma is_chain_same_proto:
  "is_chain h x rs \<Longrightarrow> length h' = length h \<Longrightarrow> (\<And>r. r \<in> set rs \<Longrightarrow> o_proto (h' ! r) = o_proto (h ! r)) \<Longrightarrow> is_chain h' x rs"
  by (induction rs arbitrary: x) auto

lemma length_put_prop [simp]: "length (put_prop r k p h) = length h"
  by (simp add: put_prop_def)

lemma proto_put_prop [simp]: "o_proto (put_prop r k p h ! q) = o_proto (h ! q)"
  by (cases "r < length h") (auto simp: put_prop_def nth_list_update list_update_beyond)

lemma code_put_prop [simp]: "o_code (put_prop r k p h ! q) = o_code (h ! q)"
  by (cases "r < length h") (auto simp: put_prop_def nth_list_update list_update_beyond)

lemma props_put_prop [simp]:
  "r < length h \<Longrightarrow> o_props (put_prop r k p h ! q) = (if q = r then AList.update k p (o_props (h ! r)) else o_props (h ! q))"
  by (auto simp: put_prop_def nth_list_update)

lemma is_chain_put_prop [simp]: "is_chain (put_prop r k p h) x rs \<longleftrightarrow> is_chain h x rs"
  by (auto intro: is_chain_same_proto)

lemma chain_put_prop [simp]: "chain n (put_prop r k p h) x = chain n h x"
  by (induction n h x rule: chain.induct) simp_all

lemma is_chain_set_proto:
  "is_chain h (Some q) rs \<Longrightarrow> d < length h \<Longrightarrow> d \<notin> set rs \<Longrightarrow> is_chain (set_proto d (Some q) h) (Some d) (d # rs)"
  by (auto simp: set_proto_def nth_list_update intro!: is_chain_same_proto [where h = h])

lemma first_own_cong:
  "(\<And>r. r \<in> set rs \<Longrightarrow> o_props (h' ! r) = o_props (h ! r)) \<Longrightarrow> first_own h' rs k = first_own h rs k"
  by (induction rs) (auto split: option.split)

definition heap_ok :: "heap \<Rightarrow> bool" where
  "heap_ok h \<longleftrightarrow> (\<forall>r<length h. is_chain h (Some r) (proto_list h r))"

lemma heap_okD: "heap_ok h \<Longrightarrow> r < length h \<Longrightarrow> is_chain h (Some r) (proto_list h r)"
  by (simp add: heap_ok_def)

lemma proto_list_alloc: "heap_ok h \<Longrightarrow> r < length h \<Longrightarrow> proto_list (h @ obs) r = proto_list h r"
  by (rule proto_list_eq) (simp add: heap_okD)

lemma proto_list_bounded: "heap_ok h \<Longrightarrow> r < length h \<Longrightarrow> q \<in> set (proto_list h r) \<Longrightarrow> q < length h"
  by (auto dest!: heap_okD is_chain_bounded)

lemma proto_list_head: "r < length h \<Longrightarrow> \<exists>rs. proto_list h r = r # rs"
  by (cases "length h") (auto simp: proto_list_def)

text \<open>New objects that point into the heap leave the old chains alone and have theirs.\<close>

lemma proto_list_new:
  assumes "heap_ok h" and "h' = h @ obs" and "r < length h'" and "o_proto (h' ! r) = Some q" and "q < length h"
  shows "proto_list h' r = r # proto_list h q" and "is_chain h' (Some r) (r # proto_list h q)"
proof -
  show chain: "is_chain h' (Some r) (r # proto_list h q)"
    using assms by (simp add: heap_okD)
  then show "proto_list h' r = r # proto_list h q" by (rule proto_list_eq)
qed

lemma heap_ok_alloc:
  assumes "heap_ok h" and "\<And>ob. ob \<in> set obs \<Longrightarrow> \<exists>q<length h. o_proto ob = Some q"
  shows "heap_ok (h @ obs)"
  unfolding heap_ok_def
proof (intro allI impI)
  fix r assume r: "r < length (h @ obs)"
  show "is_chain (h @ obs) (Some r) (proto_list (h @ obs) r)"
  proof (cases "r < length h")
    case True
    with assms(1) show ?thesis by (simp add: proto_list_alloc heap_okD)
  next
    case False
    with r have "(h @ obs) ! r \<in> set obs" by (auto simp: nth_append)
    with assms(2) obtain q where "q < length h" "o_proto ((h @ obs) ! r) = Some q" by blast
    with proto_list_new [OF assms(1) refl r] show ?thesis by simp
  qed
qed

end
