(* ===== verification/Js_Classes.thy ===== *)
theory Js_Classes
  imports Js_Objects
begin

text \<open>
  What the helpers of \<open>Js_Objects\<close> achieve: a derived class inherits the methods and the static
  properties of its base class, \<open>new\<close> makes an instance of it, and methods are found but not listed.
\<close>

section \<open>Deriving a class\<close>

text \<open>A constructor \<open>c\<close> with the prototype object \<open>q\<close>, and a property that may be assigned on a new object.\<close>

definition is_ctor :: "heap \<Rightarrow> nat \<Rightarrow> nat \<Rightarrow> bool" where
  "is_ctor h c q \<longleftrightarrow> c < length h \<and> q < length h \<and>
     (case map_of (o_props (h ! c)) ''prototype'' of Some (DataP v _ _ _) \<Rightarrow> v = JRef q | _ \<Rightarrow> False)"

fun may_set :: "(nat \<times> js_prop) option \<Rightarrow> bool" where
  "may_set None \<longleftrightarrow> True"
| "may_set (Some (_, DataP _ w _ _)) \<longleftrightarrow> w"
| "may_set (Some (_, AccP _ _ _ _)) \<longleftrightarrow> False"

definition settable :: "heap \<Rightarrow> nat \<Rightarrow> string \<Rightarrow> bool" where
  "settable h q k \<longleftrightarrow>
     may_set (first_own h (proto_list h q) k)"

lemma js_get_own:
  "r < length h \<Longrightarrow> map_of (o_props (h ! r)) k = Some (DataP v w e c) \<Longrightarrow> js_get E h r k = v"
  using proto_list_head [of r h] by (auto simp: js_get_def)

lemma ctor_prototype: "is_ctor h c q \<Longrightarrow> js_get E h c ''prototype'' = JRef q"
  by (auto simp: is_ctor_def intro: js_get_own split: option.splits js_prop.splits)

lemma ctor_alloc: "is_ctor h c q \<Longrightarrow> is_ctor (h @ obs) c q"
  by (simp add: is_ctor_def nth_append)

lemma js_set_own:
  "r < length h \<Longrightarrow> map_of (o_props (h ! r)) k = Some (DataP u True e c) \<Longrightarrow>
     js_set E r k v h = Inr (put_prop r k (DataP v True e c) h)"
  using proto_list_head [of r h] by (auto simp: js_set_def)

lemma js_set_new:
  assumes "proto_list h r = r # rs" and "map_of (o_props (h ! r)) k = None"
    and "may_set (first_own h rs k)" and "r \<notin> set rs"
  shows "js_set E r k v h = Inr (put_prop r k (DataP v True True True) h)"
proof -
  have "q \<in> set rs" if "first_own h rs k = Some (q, p)" for q p
    using that by (induction rs) (auto split: option.splits)
  with assms show ?thesis by (cases "first_own h rs k" rule: may_set.cases) (auto simp: js_set_def)
qed

text \<open>What both ways of \<open>extend\<close> leave behind: the new function, the object it was made with, and its prototype.\<close>

definition class_objects :: "engine \<Rightarrow> code \<Rightarrow> nat \<Rightarrow> nat \<Rightarrow> js_prop \<Rightarrow> nat \<Rightarrow> obj list" where
  "class_objects E cd c q con n =
     [\<lparr>o_proto = Some c, o_props = function_props (n + 2), o_code = Some cd\<rparr>,
      \<lparr>o_proto = Some (object_prototype E), o_props = [(''constructor'', DataP (JRef n) True False True)], o_code = None\<rparr>,
      \<lparr>o_proto = Some q, o_props = [(''constructor'', con)], o_code = None\<rparr>]"

lemma new_function_eq:
  "new_function E cd h = (length h, h @
     [\<lparr>o_proto = Some (function_prototype E), o_props = function_props (Suc (length h)), o_code = Some cd\<rparr>,
      \<lparr>o_proto = Some (object_prototype E), o_props = [(''constructor'', DataP (JRef (length h)) True False True)], o_code = None\<rparr>])"
  by (simp add: new_function_def alloc_def)

lemma setPrototypeOf_fresh:
  assumes "heap_ok h" and "c < length h" and "is_chain h' (Some c) (proto_list h c)"
  shows "setPrototypeOf (length h) (JRef c) h' = Inr (set_proto (length h) (Some c) h')"
proof -
  have "proto_list h' c = proto_list h c" using assms(3) by (rule proto_list_eq)
  with proto_list_bounded [OF assms(1,2)] have "length h \<notin> set (proto_list h' c)" by auto
  then show ?thesis by (simp add: setPrototypeOf_def)
qed

lemma extendWithReflect_eq:
  assumes "heap_ok h" and "is_ctor h c q" and "has_Reflect E"
  shows "extendWithReflect E c h = Inr (length h, h @ class_objects E (ReflectExt c) c q (DataP (JRef (length h)) False False False) (length h))"
proof -
  let ?n = "length h"
  define h1 where "h1 = h @ [\<lparr>o_proto = Some (function_prototype E), o_props = function_props (Suc ?n), o_code = Some (ReflectExt c)\<rparr>,
      \<lparr>o_proto = Some (object_prototype E), o_props = [(''constructor'', DataP (JRef ?n) True False True)], o_code = None\<rparr>]"
  define h2 where "h2 = h1 @ [\<lparr>o_proto = Some q, o_props = [(''constructor'', DataP (JRef ?n) False False False)], o_code = None\<rparr>]"
  define h3 where "h3 = put_prop ?n ''prototype'' (DataP (JRef (?n + 2)) True False False) h2"
  have get: "js_get E h1 c ''prototype'' = JRef q"
    unfolding h1_def by (rule ctor_prototype) (rule ctor_alloc [OF assms(2)])
  have set: "js_set E ?n ''prototype'' (JRef (?n + 2)) h2 = Inr h3"
    unfolding h3_def by (rule js_set_own [of _ _ _ "JRef (Suc ?n)"]) (simp_all add: h2_def h1_def nth_append function_props_def)
  have c: "c < ?n" using assms(2) by (simp add: is_ctor_def)
  have "is_chain h3 (Some c) (proto_list h c)"
    using heap_okD [OF assms(1) c] by (simp add: h3_def h2_def h1_def)
  then have proto: "setPrototypeOf ?n (JRef c) h3 = Inr (set_proto ?n (Some c) h3)"
    by (rule setPrototypeOf_fresh [OF assms(1) c])
  have "set_proto ?n (Some c) h3 = h @ class_objects E (ReflectExt c) c q (DataP (JRef ?n) False False False) ?n"
    by (simp add: h3_def h2_def h1_def set_proto_def put_prop_def class_objects_def function_props_def list_update_append nth_append)
  moreover have "new_function E (ReflectExt c) h = (?n, h1)" "alloc \<lparr>o_proto = Some q, o_props =
      [(''constructor'', DataP (JRef ?n) False False False)], o_code = None\<rparr> h1 = (?n + 2, h2)"
    by (simp_all add: new_function_eq alloc_def h1_def h2_def)
  ultimately show ?thesis
    using get set proto assms(3) by (simp add: extendWithReflect_def)
qed

lemma extendWithExtends_eq:
  assumes "heap_ok h" and "is_ctor h c q" and "settable h q ''constructor''" and "has_setPrototypeOf E \<or> has_proto E"
  shows "extendWithExtends E c h = Inr (length h, h @ class_objects E (Es5Ext c) c q (DataP (JRef (length h)) True True True) (length h))"
proof -
  let ?n = "length h"
  define h1 where "h1 = h @ [\<lparr>o_proto = Some (function_prototype E), o_props = function_props (Suc ?n), o_code = Some (Es5Ext c)\<rparr>,
      \<lparr>o_proto = Some (object_prototype E), o_props = [(''constructor'', DataP (JRef ?n) True False True)], o_code = None\<rparr>]"
  define h2 where "h2 = set_proto ?n (Some c) h1"
  define h3 where "h3 = h2 @ [\<lparr>o_proto = Some q, o_props = [], o_code = None\<rparr>]"
  define h4 where "h4 = put_prop (?n + 2) ''constructor'' (DataP (JRef ?n) True True True) h3"
  have c: "c < ?n" and q: "q < ?n" using assms(2) by (simp_all add: is_ctor_def)
  have "extendStatics E ?n (JRef c) h1 = setPrototypeOf ?n (JRef c) h1"
    using assms(4) by (auto simp: extendStatics_def is_ref_def)
  also have "\<dots> = Inr h2"
    unfolding h2_def by (rule setPrototypeOf_fresh [OF assms(1) c]) (simp add: h1_def heap_okD [OF assms(1) c])
  finally have statics: "extendStatics E ?n (JRef c) h1 = Inr h2" .
  have h2: "h2 = h @ [\<lparr>o_proto = Some c, o_props = function_props (Suc ?n), o_code = Some (Es5Ext c)\<rparr>,
      \<lparr>o_proto = Some (object_prototype E), o_props = [(''constructor'', DataP (JRef ?n) True False True)], o_code = None\<rparr>]"
    by (simp add: h2_def h1_def set_proto_def list_update_append)
  have "prototype_of E h2 c = q"
    using ctor_prototype [OF ctor_alloc [OF assms(2)]] by (simp add: prototype_of_def h2)
  then have p: "alloc \<lparr>o_proto = Some (prototype_of E h2 c), o_props = [], o_code = None\<rparr> h2 = (?n + 2, h3)"
    by (simp add: alloc_def h3_def) (simp add: h2)
  have "proto_list h3 (?n + 2) = (?n + 2) # proto_list h q"
    by (rule proto_list_new [OF assms(1)]) (auto simp: h3_def h2 q nth_append)
  moreover have "first_own h3 (proto_list h q) k = first_own h (proto_list h q) k" for k
    using proto_list_bounded [OF assms(1) q] by (intro first_own_cong) (simp add: h3_def h2 nth_append)
  ultimately have con: "js_set E (?n + 2) ''constructor'' (JRef ?n) h3 = Inr h4"
    unfolding h4_def using assms(3) proto_list_bounded [OF assms(1) q, of "?n + 2"]
    by (intro js_set_new) (auto simp: settable_def h3_def h2 nth_append)
  have "js_set E ?n ''prototype'' (JRef (?n + 2)) h4 = Inr (put_prop ?n ''prototype'' (DataP (JRef (?n + 2)) True False False) h4)"
    by (rule js_set_own [of _ _ _ "JRef (Suc ?n)"]) (simp_all add: h4_def h3_def h2 put_prop_def nth_append list_update_append function_props_def)
  also have "put_prop ?n ''prototype'' (DataP (JRef (?n + 2)) True False False) h4 =
      h @ class_objects E (Es5Ext c) c q (DataP (JRef ?n) True True True) ?n"
    by (simp add: h4_def h3_def h2 put_prop_def class_objects_def function_props_def list_update_append nth_append)
  finally show ?thesis
    using statics p con by (simp add: extendWithExtends_def js_extends_def new_function_eq h1_def [symmetric])
qed

text \<open>
  The class that a constructor stands for, as the theory of blessings has it: the static definitions
  along the constructors (\<open>lvl\<close> reads those of one), the properties along the prototypes.
\<close>

definition abs_prop :: "js_prop \<Rightarrow> own_prop" where
  "abs_prop p = (case p of DataP _ _ _ _ \<Rightarrow> DataProp
     | AccP g s _ _ \<Rightarrow> Accessor \<lparr>pd_get = map_option UserGetter g, pd_set = map_option UserSetter s\<rparr>)"

definition class_of :: "((string, js_prop) jsmap \<Rightarrow> class_level) \<Rightarrow> engine \<Rightarrow> heap \<Rightarrow> nat \<Rightarrow> js_class" where
  "class_of lvl E h c =
     \<lparr>ctor_chain = map (\<lambda>r. lvl (o_props (h ! r))) (proto_list h c),
      proto_chain = map (\<lambda>r. map (apsnd abs_prop) (o_props (h ! r))) (proto_list h (prototype_of E h c))\<rparr>"

lemma map_old_objects:
  "heap_ok h \<Longrightarrow> r < length h \<Longrightarrow> map (\<lambda>r. f ((h @ obs) ! r)) (proto_list h r) = map (\<lambda>r. f (h ! r)) (proto_list h r)"
  by (auto simp: nth_append dest: proto_list_bounded)

lemma class_objects_chains:
  fixes E :: engine and cd :: code and con :: js_prop
  assumes ok: "heap_ok h" and ctor: "is_ctor h c q" and op: "object_prototype E < length h"
  defines "h' \<equiv> h @ class_objects E cd c q con (length h)"
  shows "heap_ok h'" and "is_ctor h' (length h) (length h + 2)"
    and "proto_list h' (length h) = length h # proto_list h c"
    and "proto_list h' (length h + 2) = (length h + 2) # proto_list h q"
proof -
  have c: "c < length h" and q: "q < length h" using ctor by (simp_all add: is_ctor_def)
  show "heap_ok h'"
    unfolding h'_def using ok c q op by (intro heap_ok_alloc) (auto simp: class_objects_def)
  show "is_ctor h' (length h) (length h + 2)"
    by (simp add: is_ctor_def h'_def class_objects_def function_props_def nth_append)
  show "proto_list h' (length h) = length h # proto_list h c"
    using c by (intro proto_list_new [OF ok h'_def [THEN meta_eq_to_obj_eq]]) (auto simp: h'_def class_objects_def nth_append)
  show "proto_list h' (length h + 2) = (length h + 2) # proto_list h q"
    using q by (intro proto_list_new [OF ok h'_def [THEN meta_eq_to_obj_eq]]) (auto simp: h'_def class_objects_def nth_append)
qed

lemma prototype_of_ctor: "is_ctor h c q \<Longrightarrow> prototype_of E h c = q"
  by (simp add: prototype_of_def ctor_prototype)

lemma class_objects_derive:
  fixes E :: engine and cd :: code
  assumes ok: "heap_ok h" and ctor: "is_ctor h c q" and op: "object_prototype E < length h"
    and lvl: "\<And>p. lvl (function_props p) = empty_level" and con: "con = DataP v w e cf"
  defines "h' \<equiv> h @ class_objects E cd c q con (length h)"
  shows "class_of lvl E h' (length h) = js_extend (class_of lvl E h c)"
proof -
  let ?n = "length h"
  note chains = class_objects_chains [OF ok ctor op, of cd con, folded h'_def]
  have old: "map (\<lambda>r. f (h' ! r)) (proto_list h r) = map (\<lambda>r. f (h ! r)) (proto_list h r)" if "r < ?n" for f :: "obj \<Rightarrow> 'x" and r
    unfolding h'_def by (rule map_old_objects [OF ok that])
  have "o_props (h' ! ?n) = function_props (?n + 2)" "o_props (h' ! (?n + 2)) = [(''constructor'', con)]"
    by (simp_all add: h'_def class_objects_def nth_append)
  moreover have "c < ?n" "q < ?n" using ctor by (simp_all add: is_ctor_def)
  ultimately show ?thesis
    using old [of c "\<lambda>ob. lvl (o_props ob)"] old [of q "\<lambda>ob. map (apsnd abs_prop) (o_props ob)"]
    by (simp add: class_of_def js_extend_def prototype_of_ctor [OF ctor] prototype_of_ctor [OF chains(2)]
        chains(3) chains(4) [simplified] lvl con abs_prop_def)
qed

lemma reflect_needed: "testReflectExtension E h0 = Some (Inr x) \<Longrightarrow> has_Reflect E"
  by (auto simp: testReflectExtension_def extendWithReflect_def Let_def case_prod_unfold split: sum.splits jsval.splits option.splits if_splits)

section \<open>A small heap\<close>

text \<open>
  \<open>Object.prototype\<close>, \<open>Function.prototype\<close>, the function \<open>Controller\<close> with its prototype, and a class of the
  page that is derived from it, with a static getter \<open>targets\<close>.
\<close>

definition sample_engine :: engine where
  "sample_engine = \<lparr>has_setPrototypeOf = True, has_proto = True, has_Reflect = True, function_prototype = 1, object_prototype = 0,
     run_get = \<lambda>_ _ _. JUndefined, run_set = \<lambda>_ _ _ h. Inr h, run_body = \<lambda>_ _ _ h. Inr (JUndefined, h)\<rparr>"

definition sample_heap :: heap where
  "sample_heap =
     [\<lparr>o_proto = None, o_props = [], o_code = None\<rparr>,
      \<lparr>o_proto = Some 0, o_props = [], o_code = None\<rparr>,
      \<lparr>o_proto = Some 1, o_props = function_props 3, o_code = Some (Plain ControllerBody)\<rparr>,
      \<lparr>o_proto = Some 0, o_props = [(''constructor'', DataP (JRef 2) True False True)], o_code = None\<rparr>,
      \<lparr>o_proto = Some 2, o_props = [(''prototype'', DataP (JRef 5) False False False), (''targets'', AccP (Some 6) None False True)],
        o_code = Some DerivedClass\<rparr>,
      \<lparr>o_proto = Some 3, o_props = [(''constructor'', DataP (JRef 4) True False True)], o_code = None\<rparr>,
      \<lparr>o_proto = Some 1, o_props = [], o_code = Some (Plain EmptyBody)\<rparr>]"

definition sample_level :: "(string, js_prop) jsmap \<Rightarrow> class_level" where
  "sample_level ps = empty_level\<lparr>st_targets := if map_of ps ''targets'' = None then None else Some (SArray [''a''])\<rparr>"

lemma sample_heap_facts:
  "heap_ok sample_heap" "is_ctor sample_heap 4 5" "is_ctor sample_heap 2 3"
  "settable sample_heap 5 ''constructor''" "settable sample_heap 5 ''context''" "object_prototype sample_engine < length sample_heap"
  by code_simp+

text \<open>
  C14: Whichever way \<open>extend\<close> chooses when the script is loaded, it makes a new class that derives from the
  given one: its static properties and its prototypes are an empty level and a prototype with the
  property \<open>constructor\<close> in front of those of the class. No object that existed changes, and the
  prototypes stay free of cycles.
\<close>

theorem extend_derives_a_class:
  assumes "heap_ok h" and "is_ctor h c q" and "settable h q ''constructor''" and "object_prototype E < length h"
    and "has_setPrototypeOf E \<or> has_proto E" and "\<And>p. lvl (function_props p) = empty_level"
  shows "\<exists>x h'. extend_class E h0 c h = Inr (x, h') \<and> length h \<le> x \<and> heap_ok h'
    \<and> class_of lvl E h' x = js_extend (class_of lvl E h c) \<and> take (length h) h' = h"
proof -
  have "\<exists>cd v w e cf. extend_class E h0 c h = Inr (length h, h @ class_objects E cd c q (DataP v w e cf) (length h))"
  proof (cases "\<exists>x. testReflectExtension E h0 = Some (Inr x)")
    case True
    then have "has_Reflect E" by (auto dest: reflect_needed)
    then have "extendWithReflect E c h = Inr (length h,
        h @ class_objects E (ReflectExt c) c q (DataP (JRef (length h)) False False False) (length h))"
      by (rule extendWithReflect_eq [OF assms(1,2)])
    moreover have "extend_class E h0 c h = extendWithReflect E c h" using True by (auto simp: extend_class_def)
    ultimately show ?thesis by metis
  next
    case False
    then have "extend_class E h0 c h = extendWithExtends E c h"
      by (auto simp: extend_class_def split: option.split sum.split)
    with extendWithExtends_eq [OF assms(1-3,5)] show ?thesis by metis
  qed
  then obtain cd v w e cf where ext: "extend_class E h0 c h = Inr (length h, h @ class_objects E cd c q (DataP v w e cf) (length h))"
    by blast
  with class_objects_chains(1) [OF assms(1,2,4)] class_objects_derive [where lvl = lvl, OF assms(1,2,4,6) refl]
  show ?thesis by (intro exI conjI) (assumption | simp)+
qed

theorem extend_derives_a_class_witness:
  "\<exists>x h'. extend_class sample_engine sample_heap 4 sample_heap = Inr (x, h') \<and> 7 \<le> x \<and> heap_ok h'
    \<and> class_of sample_level sample_engine h' x = js_extend (class_of sample_level sample_engine sample_heap 4)
    \<and> take 7 h' = sample_heap"
proof -
  have "has_setPrototypeOf sample_engine \<or> has_proto sample_engine" by (simp add: sample_engine_def)
  moreover have "sample_level (function_props p) = empty_level" for p
    by (simp add: sample_level_def function_props_def empty_level_def)
  moreover have "length sample_heap = 7" by (simp add: sample_heap_def)
  ultimately show ?thesis
    using extend_derives_a_class [OF sample_heap_facts(1,2,4,6), of sample_level sample_heap] by simp
qed

section \<open>Instances of a derived class\<close>

text \<open>A class of main.js: derived classes with default constructors down to a function with a body.\<close>

fun native_class :: "heap \<Rightarrow> nat list \<Rightarrow> body \<Rightarrow> bool" where
  "native_class h [] b \<longleftrightarrow> False"
| "native_class h [c] b \<longleftrightarrow> c < length h \<and> (o_code (h ! c) = Some (Plain b) \<or> o_code (h ! c) = Some (BaseClass b))"
| "native_class h (c # d # cs) b \<longleftrightarrow>
     c < length h \<and> o_code (h ! c) = Some DerivedClass \<and> o_proto (h ! c) = Some d \<and> native_class h (d # cs) b"

lemma sample_native: "native_class sample_heap [4, 2] ControllerBody"
  by code_simp

lemma native_class_alloc: "native_class h cs b \<Longrightarrow> native_class (h @ obs) cs b"
  by (induction h cs b rule: native_class.induct) (auto simp: nth_append)

lemma construct_native:
  assumes "native_class h cs b" and "o_code (h ! nt) = Some cd"
  shows "execute E (length cs + n) (Construct (hd cs) args (JRef nt)) h =
     (let (this, h') = new_this E nt h in map_option (constructed this) (execute E n (Body b (JRef this) args) h'))"
  using assms
proof (induction h cs b rule: native_class.induct)
  case (2 h c b)
  then show ?case by (auto simp: construct_def newTarget_ref_def)
next
  case (3 h c d cs b)
  then show ?case by (simp add: construct_def newTarget_ref_def new_this_def alloc_def)
qed simp

text \<open>The new objects of a construction with the target \<open>x\<close>.\<close>

definition instance_obj :: "nat \<Rightarrow> obj" where
  "instance_obj p = \<lparr>o_proto = Some p, o_props = [], o_code = None\<rparr>"

lemma new_this_eq: "new_this E nt h = (length h, h @ [instance_obj (prototype_of E h nt)])"
  by (simp add: new_this_def alloc_def instance_obj_def)

lemma prototype_of_alloc: "is_ctor h x p \<Longrightarrow> prototype_of E (h @ obs) x = p"
  using ctor_prototype [OF ctor_alloc] by (simp add: prototype_of_def)

lemma instance_of_new:
  assumes "heap_ok h" and "is_ctor h x p" and "r < length (h @ obs)" and "o_proto ((h @ obs) ! r) = Some p"
  shows "instance_of E (h @ obs) (JRef r) x = Inr True"
proof -
  have p: "p < length h" using assms(2) by (simp add: is_ctor_def)
  have "proto_list (h @ obs) r = r # proto_list h p"
    by (rule proto_list_new [OF assms(1) refl assms(3,4) p])
  with proto_list_head [OF p] show ?thesis
    using ctor_prototype [OF ctor_alloc [OF assms(2)]] by (auto simp: instance_of_def)
qed

text \<open>
  A function that \<open>extendWithReflect\<close> made constructs its class with itself as the target: the
  object that it gets itself as \<open>this\<close> is dropped, and the object of the class gets its prototype.
\<close>

lemma construct_reflect_ext:
  assumes ok: "heap_ok h" and x: "is_ctor h x p" and code: "o_code (h ! x) = Some (ReflectExt (hd cs))"
    and con: "map_of (o_props (h ! p)) ''constructor'' = Some (DataP (JRef x) w e cf)"
    and cs: "native_class h cs b" and reflect: "has_Reflect E"
  shows "execute E (Suc (length cs + n)) (Construct x args (JRef x)) h =
     map_option (constructed (length h) \<circ> constructed (Suc (length h)))
       (execute E n (Body b (JRef (Suc (length h))) args) (h @ [instance_obj p, instance_obj p]))"
proof -
  let ?t = "length h" and ?h1 = "h @ [instance_obj p]"
  have xp: "x < ?t" "p < ?t" using x by (simp_all add: is_ctor_def)
  have inst: "instance_of E ?h1 (JRef ?t) x = Inr True"
    by (rule instance_of_new [OF ok x]) (simp_all add: instance_obj_def)
  have "proto_list ?h1 ?t = ?t # proto_list h p"
    by (rule proto_list_new [OF ok refl]) (simp_all add: instance_obj_def xp)
  with proto_list_head [OF xp(2)] con have "js_get E ?h1 ?t ''constructor'' = JRef x"
    by (auto simp: js_get_def instance_obj_def nth_append xp)
  with inst have target: "newTarget E ?h1 x (JRef ?t) = Inr (JRef x)"
    by (simp add: newTarget_def truthy_def)
  have "execute E (length cs + n) (Construct (hd cs) args (JRef x)) ?h1 =
      map_option (constructed (Suc ?t)) (execute E n (Body b (JRef (Suc ?t)) args) (?h1 @ [instance_obj p]))"
    using construct_native [OF native_class_alloc [OF cs], of "[instance_obj p]" x]
    by (simp add: nth_append xp code new_this_eq prototype_of_alloc [OF x])
  with target show ?thesis
    by (simp add: construct_def newTarget_ref_def code new_this_eq prototype_of_alloc [OF x, of _ "[]", simplified] reflect
        option.map_comp)
qed

text \<open>
  C31: A controller is made by \<open>new\<close> on the class that \<open>extendWithReflect\<close> derives from a class of the
  page, however many classes are between it and \<open>Controller\<close>: the result is a new object whose prototype
  is that of the derived class and whose only property is \<open>context\<close>, the argument.
\<close>

theorem derived_controllers_construct:
  assumes ok: "heap_ok h" and ctor: "is_ctor h (hd cs) q" and op: "object_prototype E < length h"
    and cs: "native_class h cs ControllerBody" and free: "settable h q ''context''"
    and reflect: "has_Reflect E" and ext: "extendWithReflect E (hd cs) h = Inr (x, h1)"
  shows "\<exists>r h2. execute E (length cs + 2) (Construct x [v] (JRef x)) h1 = Some (Inr (JRef r, h2))
      \<and> r \<ge> length h1 \<and> take (length h1) h2 = h1
      \<and> h2 ! r = \<lparr>o_proto = Some (prototype_of E h1 x), o_props = [(''context'', DataP v True True True)], o_code = None\<rparr>"
proof -
  let ?n = "length h" and ?c = "hd cs" and ?p = "length h + 2" and ?r = "Suc (length h1)"
  let ?con = "DataP (JRef ?n) False False False"
  have x: "x = ?n" and h1: "h1 = h @ class_objects E (ReflectExt ?c) ?c q ?con ?n"
    using extendWithReflect_eq [OF ok ctor reflect] ext by auto
  note chains = class_objects_chains [OF ok ctor op, of "ReflectExt ?c" ?con, folded h1]
  define h2 where "h2 = h1 @ [instance_obj ?p, instance_obj ?p]"
  have q: "q < ?n" and p: "?p < length h1" using ctor chains(2) by (simp_all add: is_ctor_def)
  have "proto_list h2 ?r = ?r # proto_list h1 ?p"
    by (rule proto_list_new [OF chains(1) h2_def]) (simp_all add: h2_def instance_obj_def nth_append p del: add_2_eq_Suc')
  moreover have "first_own h2 (proto_list h q) k = first_own h (proto_list h q) k" for k
    using proto_list_bounded [OF ok q] by (intro first_own_cong) (simp add: h2_def h1 nth_append)
  moreover have "o_props (h2 ! ?p) = [(''constructor'', ?con)]" by (simp add: h2_def h1 class_objects_def nth_append)
  moreover have "?r \<notin> set (proto_list h1 ?p)" using proto_list_bounded [OF chains(1) p, of ?r] by auto
  ultimately have "js_set E ?r ''context'' v h2 = Inr (put_prop ?r ''context'' (DataP v True True True) h2)"
    using free by (intro js_set_new [of _ _ "?p # proto_list h q"])
      (simp_all add: chains(4) [simplified] settable_def h2_def instance_obj_def nth_append)
  moreover have "execute E (length cs + 2) (Construct x [v] (JRef x)) h1 =
     map_option (constructed (length h1) \<circ> constructed ?r) (execute E 1 (Body ControllerBody (JRef ?r) [v]) h2)"
    using construct_reflect_ext [OF chains(1) chains(2) _ _ _ reflect, where cs = cs and n = 1 and w = False and e = False and cf = False]
      native_class_alloc [OF cs] by (simp add: x h1 h2_def class_objects_def nth_append)
  ultimately have "execute E (length cs + 2) (Construct x [v] (JRef x)) h1 =
      Some (Inr (JRef ?r, put_prop ?r ''context'' (DataP v True True True) h2))"
    by (simp add: run_code_def constructed_def is_ref_def)
  then show ?thesis
    by (intro exI conjI) (assumption | simp add: h2_def put_prop_def instance_obj_def nth_append list_update_append
        prototype_of_ctor [OF chains(2)] x)+
qed

theorem derived_controllers_construct_witness:
  "\<exists>x h1 r h2. extendWithReflect sample_engine 4 sample_heap = Inr (x, h1)
      \<and> execute sample_engine 4 (Construct x [JText ''context''] (JRef x)) h1 = Some (Inr (JRef r, h2))
      \<and> r \<ge> length h1 \<and> take (length h1) h2 = h1
      \<and> h2 ! r = \<lparr>o_proto = Some (prototype_of sample_engine h1 x), o_props = [(''context'', DataP (JText ''context'') True True True)],
          o_code = None\<rparr>"
proof -
  have reflect: "has_Reflect sample_engine" by (simp add: sample_engine_def)
  obtain x h1 where ext: "extendWithReflect sample_engine 4 sample_heap = Inr (x, h1)"
    using extendWithReflect_eq [OF sample_heap_facts(1,2) reflect] by blast
  with derived_controllers_construct [where cs = "[4, 2]" and E = sample_engine and v = "JText ''context''",
      OF sample_heap_facts(1) _ sample_heap_facts(6) sample_native sample_heap_facts(5) reflect] sample_heap_facts(2)
  show ?thesis by (simp add: eval_nat_numeral)
qed

text \<open>
  The other way of \<open>extend\<close> calls the class as a function, which a derived class of the language
  refuses: without \<open>Reflect\<close> no controller of the page could be made.
\<close>

lemma native_classes_need_reflect:
  assumes "heap_ok h" and "is_ctor h c q" and "settable h q ''constructor''" and "has_setPrototypeOf E \<or> has_proto E"
    and "o_code (h ! c) = Some DerivedClass" and "extendWithExtends E c h = Inr (x, h1)"
  shows "execute E (Suc (Suc n)) (Construct x args (JRef x)) h1 = Some (Inl TypeErr)"
proof -
  have "x = length h" and h1: "h1 = h @ class_objects E (Es5Ext c) c q (DataP (JRef (length h)) True True True) (length h)"
    using extendWithExtends_eq [OF assms(1-4)] assms(6) by auto
  moreover have "c < length h" using assms(2) by (simp add: is_ctor_def)
  ultimately show ?thesis
    using assms(5) by (simp add: construct_def newTarget_ref_def call_def new_this_eq class_objects_def nth_append constructed_def)
qed

text \<open>
  The test of \<open>extend\<close> passes whenever there is \<open>Reflect\<close> and \<open>Object.prototype\<close> has no property
  \<open>a\<close> that cannot be assigned.
\<close>

lemma test_extension_passes:
  assumes ok: "heap_ok h" and b: "is_ctor h b p" and a: "native_class h [a] CallsA"
    and code: "o_code (h ! b) = Some (ReflectExt a)" and con: "map_of (o_props (h ! p)) ''constructor'' = Some (DataP (JRef b) w e cf)"
    and f: "map_of (o_props (h ! p)) ''a'' = Some (DataP (JRef f) w' e' cf')" "f < length h" "o_code (h ! f) = Some (Plain EmptyBody)"
    and reflect: "has_Reflect E"
  shows "\<exists>x. execute E 6 (Construct b [] (JRef b)) h = Some (Inr x)"
proof -
  let ?r = "Suc (length h)" and ?h = "h @ [instance_obj p, instance_obj p]"
  have p: "p < length h" using b by (simp add: is_ctor_def)
  have run: "execute E 6 (Construct b [] (JRef b)) h =
      map_option (constructed (length h) \<circ> constructed ?r) (execute E 4 (Body CallsA (JRef ?r) []) ?h)"
    using construct_reflect_ext [OF ok b _ con a reflect, of 4 "[]"] code by (simp add: eval_nat_numeral)
  have "proto_list ?h ?r = ?r # proto_list h p"
    by (rule proto_list_new [OF ok refl]) (simp_all add: instance_obj_def nth_append p)
  then have "js_get E ?h ?r ''a'' = JRef f"
    using proto_list_head [OF p] f(1) p by (auto simp: js_get_def instance_obj_def nth_append)
  then have "execute E 4 (Body CallsA (JRef ?r) []) ?h = Some (Inr (JUndefined, ?h))"
    using f(2,3) by (simp add: eval_nat_numeral run_code_def call_def nth_append)
  with run show ?thesis by (simp add: constructed_def)
qed

lemma reflect_is_chosen:
  assumes ok: "heap_ok h" and fp: "function_prototype E < length h" and op: "object_prototype E < length h"
    and reflect: "has_Reflect E" and free: "settable h (object_prototype E) ''a''"
  shows "extend_class E h = extendWithReflect E"
proof -
  let ?a = "length h"
  define h1 where "h1 = snd (new_function E (Plain CallsA) h)"
  define b where "b = length h1"
  define h2 where "h2 = h1 @ class_objects E (ReflectExt ?a) ?a (Suc ?a) (DataP (JRef b) False False False) b"
  define f where "f = length h2"
  define h3 where "h3 = snd (new_function E (Plain EmptyBody) h2)"
  define h4 where "h4 = put_prop (b + 2) ''a'' (DataP (JRef f) True True True) h3"
  note h1 = h1_def [unfolded new_function_eq snd_conv] and h3 = h3_def [unfolded new_function_eq snd_conv]
  have calls_a: "new_function E (Plain CallsA) h = (?a, h1)" and empty_fn: "new_function E (Plain EmptyBody) h2 = (f, h3)"
    by (simp_all add: new_function_eq h1 h3 f_def)
  have b: "b = Suc (Suc ?a)" by (simp add: b_def h1)
  have f: "f = Suc (b + 2)" by (simp add: f_def h2_def class_objects_def b_def)
  have ok1: "heap_ok h1" unfolding h1 using ok fp op by (intro heap_ok_alloc) auto
  have a: "is_ctor h1 ?a (Suc ?a)" by (simp add: is_ctor_def h1 function_props_def nth_append)
  have op1: "object_prototype E < length h1" using op by (simp add: h1)
  have ext: "extendWithReflect E ?a h1 = Inr (b, h2)"
    using extendWithReflect_eq [OF ok1 a reflect] by (simp add: h2_def b_def)
  note chains = class_objects_chains [OF ok1 a op1, of "ReflectExt ?a" "DataP (JRef b) False False False", folded b_def, folded h2_def]
  have ok3: "heap_ok h3"
    unfolding h3 using chains(1) fp op f b by (intro heap_ok_alloc) (auto simp: f_def [symmetric])
  have b3: "is_ctor h3 b (b + 2)" unfolding h3 by (rule ctor_alloc [OF chains(2)])
  have "proto_list h3 (b + 2) = proto_list h2 (b + 2)"
    unfolding h3 by (rule proto_list_alloc [OF chains(1)]) (simp add: f_def [symmetric] f)
  also have "\<dots> = (b + 2) # proto_list h1 (Suc ?a)" by (rule chains(4))
  also have "proto_list h1 (Suc ?a) = Suc ?a # proto_list h (object_prototype E)"
    by (rule proto_list_new [OF ok h1 [THEN trans [OF _ refl]]]) (simp_all add: h1 op nth_append)
  finally have protos: "proto_list h3 (b + 2) = (b + 2) # Suc ?a # proto_list h (object_prototype E)" .
  moreover have "first_own h3 (proto_list h (object_prototype E)) k = first_own h (proto_list h (object_prototype E)) k" for k
    using proto_list_bounded [OF ok op] by (intro first_own_cong) (simp add: h3 h2_def h1 nth_append)
  moreover have "o_props (h3 ! (b + 2)) = [(''constructor'', DataP (JRef b) False False False)]"
    by (simp add: h3 h2_def class_objects_def nth_append b_def)
  moreover have "o_props (h3 ! Suc ?a) = [(''constructor'', DataP (JRef ?a) True False True)]"
    by (simp add: h3 h2_def h1 nth_append)
  ultimately have set: "js_set E (b + 2) ''a'' (JRef f) h3 = Inr h4"
    unfolding h4_def using free is_chain_distinct [OF heap_okD [OF ok3, of "b + 2"]] b3
    by (intro js_set_new) (auto simp: settable_def is_ctor_def)
  have "heap_ok h4" using ok3 by (auto simp: h4_def heap_ok_def proto_list_def chain_put_prop)
  moreover have "is_ctor h4 b (b + 2)" using b3 by (simp add: h4_def is_ctor_def)
  ultimately have "\<exists>x. execute E 6 (Construct b [] (JRef b)) h4 = Some (Inr x)"
    by (rule test_extension_passes [of _ _ _ ?a False False False f True True True])
      (simp_all add: h4_def h3 h2_def h1 class_objects_def nth_append b f reflect)
  moreover have "js_get E h3 b ''prototype'' = JRef (b + 2)" by (rule ctor_prototype [OF b3])
  ultimately have "\<exists>x. testReflectExtension E h = Some (Inr x)"
    using ext set by (simp add: testReflectExtension_def calls_a empty_fn)
  then show ?thesis by (auto simp: extend_class_def)
qed

section \<open>Methods of a class\<close>

definition method_descriptor :: "descriptor_object \<Rightarrow> bool" where
  "method_descriptor ds \<longleftrightarrow> d_value ds \<noteq> None \<and> d_get ds = None \<and> d_set ds = None \<and> d_enumerable ds = None"

definition redefinable :: "heap \<Rightarrow> nat \<Rightarrow> string \<Rightarrow> bool" where
  "redefinable h r k \<longleftrightarrow> (case map_of (o_props (h ! r)) k of
     Some (DataP _ _ _ c) \<Rightarrow> c | Some (AccP _ _ _ c) \<Rightarrow> c | None \<Rightarrow> True)"

definition put_methods :: "nat \<Rightarrow> descriptor_object list \<Rightarrow> heap \<Rightarrow> heap" where
  "put_methods r dss h = fold (\<lambda>ds. put_prop r (d_key ds) (DataP (the (d_value ds)) True False True)) dss h"

lemma defineProperty_method:
  "method_descriptor ds \<Longrightarrow> redefinable h r (d_key ds) \<Longrightarrow>
     defineProperty r ds h = Inr (put_prop r (d_key ds) (DataP (the (d_value ds)) True False True) h)"
  by (auto simp: defineProperty_def method_descriptor_def redefinable_def Let_def case_prod_unfold
      split: option.splits js_prop.splits bool.splits)

lemma redefinable_put:
  "r < length h \<Longrightarrow> redefinable h r k \<Longrightarrow> redefinable (put_prop r k' (DataP v w e True) h) r k"
  by (simp add: redefinable_def)

lemma defineProperties_methods:
  "r < length h \<Longrightarrow> (\<And>ds. ds \<in> set dss \<Longrightarrow> method_descriptor ds \<and> redefinable h r (d_key ds)) \<Longrightarrow>
     defineProperties r dss h = Inr (put_methods r dss h)"
proof (induction dss arbitrary: h)
  case (Cons ds dss)
  then show ?case by (simp add: defineProperty_method redefinable_put put_methods_def)
qed (simp add: put_methods_def)

lemma props_put_methods:
  "r < length h \<Longrightarrow> q \<noteq> r \<Longrightarrow> o_props (put_methods r dss h ! q) = o_props (h ! q)"
  "length (put_methods r dss h) = length h"
  "o_proto (put_methods r dss h ! q) = o_proto (h ! q)"
  by (induction dss arbitrary: h) (simp_all add: put_methods_def)

lemma methods_put:
  "r < length h \<Longrightarrow> distinct (map d_key dss) \<Longrightarrow> map_of (o_props (put_methods r dss h ! r)) k =
     (case find (\<lambda>ds. d_key ds = k) dss of None \<Rightarrow> map_of (o_props (h ! r)) k | Some ds \<Rightarrow> Some (DataP (the (d_value ds)) True False True))"
proof (induction dss arbitrary: h)
  case (Cons ds dss)
  have "find (\<lambda>ds'. d_key ds' = d_key ds) dss = None" using Cons.prems(2) by (auto simp: find_None_iff) (metis image_eqI)
  with Cons show ?case by (auto simp: put_methods_def split: option.split)
qed (simp add: put_methods_def)

lemma first_own_append:
  "first_own h (rs @ ss) k = (case first_own h rs k of None \<Rightarrow> first_own h ss k | Some x \<Rightarrow> Some x)"
  by (induction rs) (auto split: option.split)

lemma map_wf_put_methods:
  "r < length h \<Longrightarrow> map_wf (o_props (h ! r)) \<Longrightarrow> map_wf (o_props (put_methods r dss h ! r))"
  by (induction dss arbitrary: h) (simp_all add: put_methods_def)

lemma not_listed:
  "map_wf (o_props (h ! r)) \<Longrightarrow> map_of (o_props (h ! r)) k = Some (DataP v w False c) \<Longrightarrow> k \<notin> set (own_keys h r)"
  by (auto simp: own_keys_def is_enumerable_def map_wf_mem_iff split: js_prop.splits)

text \<open>
  \<open>createClass\<close> gives the instances of a class its methods: every object that has the prototype of
  the class in its chain, with no own or nearer property of the name, finds the method, and no
  loop over the properties of the prototype lists it. The check at the start of a constructor
  lets an instance pass and refuses a call of the class as a function.
\<close>

theorem classes_have_their_methods:
  assumes ok: "heap_ok h" and ctor: "is_ctor h c p" and cp: "c \<noteq> p" and wf: "map_wf (o_props (h ! p))"
    and keys: "distinct (map d_key dss)"
    and dss: "\<And>ds. ds \<in> set dss \<Longrightarrow> method_descriptor ds \<and> redefinable h p (d_key ds)"
    and ds: "ds \<in> set dss"
  shows "\<exists>h'. createClass E c (Some dss) None h = Inr h' \<and> d_key ds \<notin> set (own_keys h' p)
    \<and> (\<forall>r rs ss. r < length h \<and> proto_list h r = rs @ p # ss \<and> first_own h rs (d_key ds) = None \<longrightarrow>
        js_get E h' r (d_key ds) = the (d_value ds) \<and> (rs \<noteq> [] \<longrightarrow> classCallCheck E h' (JRef r) c = Inr ()))
    \<and> classCallCheck E h' JUndefined c = Inl TypeErr"
proof -
  let ?h = "put_methods p dss h" and ?k = "d_key ds"
  have p: "p < length h" using ctor by (simp add: is_ctor_def)
  have "find (\<lambda>ds'. d_key ds' = ?k) dss = Some ds"
    using keys ds by (induction dss) (auto simp: image_iff)
  then have own: "map_of (o_props (?h ! p)) ?k = Some (DataP (the (d_value ds)) True False True)"
    by (simp add: methods_put [OF p keys])
  have chain: "proto_list ?h r = proto_list h r" if "r < length h" for r
    using heap_okD [OF ok that] by (intro proto_list_eq) (auto intro: is_chain_same_proto simp: props_put_methods)
  have "is_ctor ?h c p" using ctor cp by (simp add: is_ctor_def props_put_methods)
  then have proto: "js_get E ?h c ''prototype'' = JRef p" by (rule ctor_prototype)
  have "js_get E ?h r ?k = the (d_value ds) \<and> (rs \<noteq> [] \<longrightarrow> classCallCheck E ?h (JRef r) c = Inr ())"
    if "r < length h" and rs: "proto_list h r = rs @ p # ss" and none: "first_own h rs ?k = None" for r rs ss
  proof -
    have "distinct (rs @ p # ss)" using is_chain_distinct [OF heap_okD [OF ok that(1)]] rs by simp
    then have "first_own ?h rs ?k = first_own h rs ?k"
      by (intro first_own_cong props_put_methods(1) [OF p]) auto
    with own none rs chain [OF that(1)] proto show ?thesis
      by (cases rs) (auto simp: js_get_def first_own_append classCallCheck_def instance_of_def split: option.splits)
  qed
  moreover have "createClass E c (Some dss) None h = Inr ?h"
    using defineProperties_methods [OF p dss] by (simp add: createClass_def ctor_prototype [OF ctor])
  moreover have "?k \<notin> set (own_keys ?h p)"
    using own by (intro not_listed [OF map_wf_put_methods [OF p wf]]) auto
  ultimately show ?thesis by (auto simp: classCallCheck_def instance_of_def)
qed

theorem classes_have_their_methods_witness:
  "\<exists>h'. createClass sample_engine 2 (Some [\<lparr>d_key = ''render'', d_enumerable = None, d_value = Some (JRef 6), d_get = None, d_set = None\<rparr>])
        None sample_heap = Inr h' \<and> js_get sample_engine h' 5 ''render'' = JRef 6 \<and> ''render'' \<notin> set (own_keys h' 3)
    \<and> classCallCheck sample_engine h' (JRef 5) 2 = Inr () \<and> classCallCheck sample_engine h' JUndefined 2 = Inl TypeErr"
proof -
  let ?ds = "\<lparr>d_key = ''render'', d_enumerable = None, d_value = Some (JRef 6), d_get = None, d_set = None\<rparr>"
  have "method_descriptor ?ds \<and> redefinable sample_heap 3 ''render''" "map_wf (o_props (sample_heap ! 3))"
    "5 < length sample_heap \<and> proto_list sample_heap 5 = [5] @ 3 # [0] \<and> first_own sample_heap [5] ''render'' = None"
    by code_simp+
  with classes_have_their_methods [OF sample_heap_facts(1,3), of "[?ds]" ?ds sample_engine]
  show ?thesis by fastforce
qed

end
