(* ===== verification/Object_Graph.thy ===== *)
theory Object_Graph
  imports Js_Objects Dispatcher
begin

text \<open>
  The objects of a running application and the references between them. Every constructor of
  stimulus.js is run on a store of objects, field by field in the order of its assignments, and the
  accessors that forward to another object follow the references; reading a field of undefined
  throws. The containers that the objects hold (sets, maps) belong to the theories of the components
  and are not fields here, except the map of value descriptors, which a constructor reads. The class
  of a controller is a field \<open>constructor\<close>, which the code finds on the prototype.
\<close>

section \<open>Objects with fields\<close>

datatype class_name =
    ApplicationC | DispatcherC | RouterC | ScopeObserverC | ModuleC | DefinitionC | ScopeC | TargetSetC | ClassMapC
  | DataMapC | GuideC | ContextC | ControllerC | BindingObserverC | ValueObserverC | StringMapObserverC | BindingC
  | ValueListObserverC | TokenListObserverC | AttributeObserverC | ElementObserverC | SchemaC

text \<open>A value of a field: the console, classes (by number) and actions are values of their own.\<close>

datatype fval =
    FUndefined | FRef nat | FElement nat | FStr string | FBool bool | FNat nat | FTarget event_target
  | FOptions "(string, bool) jsmap" | FAction action | FClass nat | FConsole
  | FDescriptors "(string, value_descriptor) jsmap"

record inst =
  i_class :: class_name
  i_fields :: "(string, fval) jsmap"

type_synonym graph = "inst list"

definition new_obj :: "class_name \<Rightarrow> graph \<Rightarrow> nat \<times> graph" where
  "new_obj c g = (length g, g @ [\<lparr>i_class = c, i_fields = []\<rparr>])"

definition put :: "nat \<Rightarrow> string \<Rightarrow> fval \<Rightarrow> graph \<Rightarrow> graph" where
  "put this k v g = g[this := (g ! this)\<lparr>i_fields := AList.update k v (i_fields (g ! this))\<rparr>]"

definition remove_field :: "nat \<Rightarrow> string \<Rightarrow> graph \<Rightarrow> graph" where
  "remove_field this k g = g[this := (g ! this)\<lparr>i_fields := AList.delete k (i_fields (g ! this))\<rparr>]"

definition action_field :: "action \<Rightarrow> string \<Rightarrow> fval" where
  "action_field a k =
     (if k = ''index'' then FNat (act_index a) else if k = ''eventTarget'' then FTarget (act_eventTarget a)
      else if k = ''eventOptions'' then FOptions (act_eventOptions a) else if k = ''eventName'' then FStr (act_eventName a)
      else if k = ''methodName'' then FStr (act_methodName a) else if k = ''identifier'' then FStr (act_identifier a)
      else if k = ''element'' then FElement (act_element a) else FUndefined)"

definition own_field :: "graph \<Rightarrow> nat \<Rightarrow> string \<Rightarrow> fval" where
  "own_field g r k = (case map_of (i_fields (g ! r)) k of None \<Rightarrow> FUndefined | Some v \<Rightarrow> v)"

fun get :: "graph \<Rightarrow> string \<Rightarrow> fval \<Rightarrow> exn + fval" where
  "get g k (FRef r) = Inr (own_field g r k)"
| "get g k (FAction a) = Inr (action_field a k)"
| "get g k FUndefined = Inl TypeErr"
| "get g k _ = Inr FUndefined"

fun bind_ok :: "exn + 'a \<Rightarrow> ('a \<Rightarrow> exn + 'b) \<Rightarrow> exn + 'b" where
  "bind_ok (Inl e) f = Inl e"
| "bind_ok (Inr x) f = f x"

section \<open>Accessors\<close>

definition Binding_index :: "graph \<Rightarrow> fval \<Rightarrow> exn + fval" where
  "Binding_index g b = bind_ok (get g ''action'' b) (get g ''index'')"

definition Binding_eventTarget :: "graph \<Rightarrow> fval \<Rightarrow> exn + fval" where
  "Binding_eventTarget g b = bind_ok (get g ''action'' b) (get g ''eventTarget'')"

definition Binding_eventOptions :: "graph \<Rightarrow> fval \<Rightarrow> exn + fval" where
  "Binding_eventOptions g b = bind_ok (get g ''action'' b) (get g ''eventOptions'')"

definition Binding_eventName :: "graph \<Rightarrow> fval \<Rightarrow> exn + fval" where
  "Binding_eventName g b = bind_ok (get g ''action'' b) (get g ''eventName'')"

definition Binding_methodName :: "graph \<Rightarrow> fval \<Rightarrow> exn + fval" where
  "Binding_methodName g b = bind_ok (get g ''action'' b) (get g ''methodName'')"

definition Module_identifier :: "graph \<Rightarrow> fval \<Rightarrow> exn + fval" where
  "Module_identifier g m = bind_ok (get g ''definition'' m) (get g ''identifier'')"

definition Module_controllerConstructor :: "graph \<Rightarrow> fval \<Rightarrow> exn + fval" where
  "Module_controllerConstructor g m = bind_ok (get g ''definition'' m) (get g ''controllerConstructor'')"

definition Context_application :: "graph \<Rightarrow> fval \<Rightarrow> exn + fval" where
  "Context_application g c = bind_ok (get g ''module'' c) (get g ''application'')"

definition Context_identifier :: "graph \<Rightarrow> fval \<Rightarrow> exn + fval" where
  "Context_identifier g c = bind_ok (get g ''module'' c) (Module_identifier g)"

definition Context_schema :: "graph \<Rightarrow> fval \<Rightarrow> exn + fval" where
  "Context_schema g c = bind_ok (Context_application g c) (get g ''schema'')"

definition Context_dispatcher :: "graph \<Rightarrow> fval \<Rightarrow> exn + fval" where
  "Context_dispatcher g c = bind_ok (Context_application g c) (get g ''dispatcher'')"

definition Context_element :: "graph \<Rightarrow> fval \<Rightarrow> exn + fval" where
  "Context_element g c = bind_ok (get g ''scope'' c) (get g ''element'')"

definition Context_parentElement :: "dom \<Rightarrow> graph \<Rightarrow> fval \<Rightarrow> exn + nat option" where
  "Context_parentElement d g c =
     bind_ok (Context_element g c) (\<lambda>v. case v of FElement e \<Rightarrow> Inr (parentElement d e) | _ \<Rightarrow> Inl TypeErr)"

definition Binding_identifier :: "graph \<Rightarrow> fval \<Rightarrow> exn + fval" where
  "Binding_identifier g b = bind_ok (get g ''context'' b) (Context_identifier g)"

definition Binding_controller :: "graph \<Rightarrow> fval \<Rightarrow> exn + fval" where
  "Binding_controller g b = bind_ok (get g ''context'' b) (get g ''controller'')"

definition Binding_scope :: "graph \<Rightarrow> fval \<Rightarrow> exn + fval" where
  "Binding_scope g b = bind_ok (get g ''context'' b) (get g ''scope'')"

definition Binding_element :: "graph \<Rightarrow> fval \<Rightarrow> exn + fval" where
  "Binding_element g b = bind_ok (Binding_scope g b) (get g ''element'')"

definition AttributeObserver_element :: "graph \<Rightarrow> fval \<Rightarrow> exn + fval" where
  "AttributeObserver_element g ob = bind_ok (get g ''elementObserver'' ob) (get g ''element'')"

definition AttributeObserver_selector :: "graph \<Rightarrow> fval \<Rightarrow> exn + fval" where
  "AttributeObserver_selector g ob =
     map_sum id (\<lambda>v. case v of FStr s \<Rightarrow> FStr (''['' @ s @ '']'') | _ \<Rightarrow> FStr ''[undefined]'') (get g ''attributeName'' ob)"

definition AttributeObserver_started :: "graph \<Rightarrow> fval \<Rightarrow> exn + fval" where
  "AttributeObserver_started g ob = bind_ok (get g ''elementObserver'' ob) (get g ''started'')"

definition TokenListObserver_started :: "graph \<Rightarrow> fval \<Rightarrow> exn + fval" where
  "TokenListObserver_started g ob = bind_ok (get g ''attributeObserver'' ob) (AttributeObserver_started g)"

definition TokenListObserver_element :: "graph \<Rightarrow> fval \<Rightarrow> exn + fval" where
  "TokenListObserver_element g ob = bind_ok (get g ''attributeObserver'' ob) (AttributeObserver_element g)"

definition TokenListObserver_attributeName :: "graph \<Rightarrow> fval \<Rightarrow> exn + fval" where
  "TokenListObserver_attributeName g ob = bind_ok (get g ''attributeObserver'' ob) (get g ''attributeName'')"

definition ValueListObserver_started :: "graph \<Rightarrow> fval \<Rightarrow> exn + fval" where
  "ValueListObserver_started g ob = bind_ok (get g ''tokenListObserver'' ob) (TokenListObserver_started g)"

definition ValueListObserver_element :: "graph \<Rightarrow> fval \<Rightarrow> exn + fval" where
  "ValueListObserver_element g ob = bind_ok (get g ''tokenListObserver'' ob) (TokenListObserver_element g)"

definition ValueListObserver_attributeName :: "graph \<Rightarrow> fval \<Rightarrow> exn + fval" where
  "ValueListObserver_attributeName g ob = bind_ok (get g ''tokenListObserver'' ob) (TokenListObserver_attributeName g)"

definition BindingObserver_element :: "graph \<Rightarrow> fval \<Rightarrow> exn + fval" where
  "BindingObserver_element g ob = bind_ok (get g ''context'' ob) (Context_element g)"

definition BindingObserver_identifier :: "graph \<Rightarrow> fval \<Rightarrow> exn + fval" where
  "BindingObserver_identifier g ob = bind_ok (get g ''context'' ob) (Context_identifier g)"

definition BindingObserver_schema :: "graph \<Rightarrow> fval \<Rightarrow> exn + fval" where
  "BindingObserver_schema g ob = bind_ok (get g ''context'' ob) (Context_schema g)"

definition BindingObserver_actionAttribute :: "graph \<Rightarrow> fval \<Rightarrow> exn + fval" where
  "BindingObserver_actionAttribute g ob = bind_ok (BindingObserver_schema g ob) (get g ''actionAttribute'')"

definition ValueObserver_element :: "graph \<Rightarrow> fval \<Rightarrow> exn + fval" where
  "ValueObserver_element g ob = bind_ok (get g ''context'' ob) (Context_element g)"

definition ValueObserver_controller :: "graph \<Rightarrow> fval \<Rightarrow> exn + fval" where
  "ValueObserver_controller g ob = bind_ok (get g ''context'' ob) (get g ''controller'')"

definition ClassMap_data :: "graph \<Rightarrow> fval \<Rightarrow> exn + fval" where
  "ClassMap_data g cm = bind_ok (get g ''scope'' cm) (get g ''data'')"

definition DataMap_element :: "graph \<Rightarrow> fval \<Rightarrow> exn + fval" where
  "DataMap_element g dm = bind_ok (get g ''scope'' dm) (get g ''element'')"

definition DataMap_identifier :: "graph \<Rightarrow> fval \<Rightarrow> exn + fval" where
  "DataMap_identifier g dm = bind_ok (get g ''scope'' dm) (get g ''identifier'')"

definition TargetSet_element :: "graph \<Rightarrow> fval \<Rightarrow> exn + fval" where
  "TargetSet_element g ts = bind_ok (get g ''scope'' ts) (get g ''element'')"

definition TargetSet_identifier :: "graph \<Rightarrow> fval \<Rightarrow> exn + fval" where
  "TargetSet_identifier g ts = bind_ok (get g ''scope'' ts) (get g ''identifier'')"

definition TargetSet_schema :: "graph \<Rightarrow> fval \<Rightarrow> exn + fval" where
  "TargetSet_schema g ts = bind_ok (get g ''scope'' ts) (get g ''schema'')"

definition TargetSet_guide :: "graph \<Rightarrow> fval \<Rightarrow> exn + fval" where
  "TargetSet_guide g ts = bind_ok (get g ''scope'' ts) (get g ''guide'')"

definition ScopeObserver_controllerAttribute :: "graph \<Rightarrow> fval \<Rightarrow> exn + fval" where
  "ScopeObserver_controllerAttribute g ob = bind_ok (get g ''schema'' ob) (get g ''controllerAttribute'')"

definition Router_element :: "graph \<Rightarrow> fval \<Rightarrow> exn + fval" where
  "Router_element g r = bind_ok (get g ''application'' r) (get g ''element'')"

definition Router_schema :: "graph \<Rightarrow> fval \<Rightarrow> exn + fval" where
  "Router_schema g r = bind_ok (get g ''application'' r) (get g ''schema'')"

definition Router_logger :: "graph \<Rightarrow> fval \<Rightarrow> exn + fval" where
  "Router_logger g r = bind_ok (get g ''application'' r) (get g ''logger'')"

definition Router_controllerAttribute :: "graph \<Rightarrow> fval \<Rightarrow> exn + fval" where
  "Router_controllerAttribute g r = bind_ok (Router_schema g r) (get g ''controllerAttribute'')"

definition Controller_application :: "graph \<Rightarrow> fval \<Rightarrow> exn + fval" where
  "Controller_application g k = bind_ok (get g ''context'' k) (Context_application g)"

definition Controller_scope :: "graph \<Rightarrow> fval \<Rightarrow> exn + fval" where
  "Controller_scope g k = bind_ok (get g ''context'' k) (get g ''scope'')"

definition Controller_element :: "graph \<Rightarrow> fval \<Rightarrow> exn + fval" where
  "Controller_element g k = bind_ok (Controller_scope g k) (get g ''element'')"

definition Controller_identifier :: "graph \<Rightarrow> fval \<Rightarrow> exn + fval" where
  "Controller_identifier g k = bind_ok (Controller_scope g k) (get g ''identifier'')"

definition Controller_targets :: "graph \<Rightarrow> fval \<Rightarrow> exn + fval" where
  "Controller_targets g k = bind_ok (Controller_scope g k) (get g ''targets'')"

definition Controller_classes :: "graph \<Rightarrow> fval \<Rightarrow> exn + fval" where
  "Controller_classes g k = bind_ok (Controller_scope g k) (get g ''classes'')"

definition Controller_data :: "graph \<Rightarrow> fval \<Rightarrow> exn + fval" where
  "Controller_data g k = bind_ok (Controller_scope g k) (get g ''data'')"

lemmas accessor_defs =
  Binding_index_def Binding_eventTarget_def Binding_eventOptions_def Binding_eventName_def Binding_methodName_def
  Module_identifier_def Module_controllerConstructor_def Context_application_def Context_identifier_def Context_schema_def
  Context_dispatcher_def Context_element_def Context_parentElement_def Binding_identifier_def Binding_controller_def
  Binding_scope_def Binding_element_def AttributeObserver_element_def AttributeObserver_selector_def
  AttributeObserver_started_def TokenListObserver_started_def TokenListObserver_element_def
  TokenListObserver_attributeName_def ValueListObserver_started_def ValueListObserver_element_def
  ValueListObserver_attributeName_def BindingObserver_element_def BindingObserver_identifier_def
  BindingObserver_schema_def BindingObserver_actionAttribute_def ValueObserver_element_def ValueObserver_controller_def
  ClassMap_data_def DataMap_element_def DataMap_identifier_def TargetSet_element_def TargetSet_identifier_def
  TargetSet_schema_def TargetSet_guide_def ScopeObserver_controllerAttribute_def Router_element_def Router_schema_def
  Router_logger_def Router_controllerAttribute_def Controller_application_def Controller_scope_def Controller_element_def
  Controller_identifier_def Controller_targets_def Controller_classes_def Controller_data_def

text \<open>The text that a value gives in a concatenation; the values that come here are strings.\<close>

definition text_of :: "fval \<Rightarrow> string" where
  "text_of v = (case v of FStr s \<Rightarrow> s | _ \<Rightarrow> ''undefined'')"

definition DataMap_getAttributeNameForKey :: "graph \<Rightarrow> fval \<Rightarrow> string \<Rightarrow> exn + string" where
  "DataMap_getAttributeNameForKey g dm key =
     bind_ok (DataMap_identifier g dm) (\<lambda>i. Inr (''data-'' @ text_of i @ ''-'' @ dasherize key))"

definition DataMap_has_obj :: "dom \<Rightarrow> graph \<Rightarrow> fval \<Rightarrow> string \<Rightarrow> exn + bool" where
  "DataMap_has_obj d g dm key =
     bind_ok (DataMap_getAttributeNameForKey g dm key) (\<lambda>name.
     bind_ok (DataMap_element g dm) (\<lambda>el. case el of FElement e \<Rightarrow> Inr (hasAttribute d e name) | _ \<Rightarrow> Inl TypeErr))"

text \<open>
  The getter \<open>valueDescriptorMap\<close> that blessing gives a class: \<open>values c\<close> are the pairs that the class
  \<open>c\<close> declares; each is parsed and put under the name that the data of the controller has for it.
\<close>

fun descriptors_from :: "graph \<Rightarrow> fval \<Rightarrow> (string \<times> type_constant) list \<Rightarrow> (string, value_descriptor) jsmap \<Rightarrow>
    exn + (string, value_descriptor) jsmap" where
  "descriptors_from g k [] result = Inr result"
| "descriptors_from g k (pair # pairs) result =
     (case parseValueDefinitionPair pair of
        Inl e \<Rightarrow> Inl (Thrown e)
      | Inr vd \<Rightarrow> bind_ok (Controller_data g k) (\<lambda>dm.
          bind_ok (DataMap_getAttributeNameForKey g dm (vd_key vd)) (\<lambda>attributeName.
            descriptors_from g k pairs (AList.update attributeName vd result))))"

definition Controller_valueDescriptorMap :: "(nat \<Rightarrow> (string \<times> type_constant) list) \<Rightarrow> graph \<Rightarrow> fval \<Rightarrow> exn + fval" where
  "Controller_valueDescriptorMap values g k =
     bind_ok (get g ''constructor'' k) (\<lambda>ctor. case ctor of
       FClass c \<Rightarrow> bind_ok (descriptors_from g k (values c) []) (\<lambda>vdm. Inr (FDescriptors vdm))
     | _ \<Rightarrow> Inr FUndefined)"

text \<open>
  What the code of a controller does while its context is made: whether it has a method, and whether
  reading the value for it and calling it returns or throws; and whether its \<open>initialize\<close> throws.
\<close>

datatype method_call = NoMethod | MReturns | MThrows string

record own_code =
  oc_method :: "string \<Rightarrow> method_call"
  oc_initialize :: "string option"

definition invokeChangedCallbackForValue_obj :: "own_code \<Rightarrow> graph \<Rightarrow> fval \<Rightarrow> string \<Rightarrow> exn + unit" where
  "invokeChangedCallbackForValue_obj oc g this name =
     (let methodName = name @ ''Changed''
      in bind_ok (bind_ok (get g ''receiver'' this) (get g methodName)) (\<lambda>_.
           case oc_method oc methodName of MThrows e \<Rightarrow> Inl (Thrown e) | _ \<Rightarrow> Inr ()))"

text \<open>\<open>Object.keys\<close> throws for a value that is not an object.\<close>

definition ValueObserver_valueDescriptors :: "graph \<Rightarrow> fval \<Rightarrow> exn + value_descriptor list" where
  "ValueObserver_valueDescriptors g this =
     bind_ok (get g ''valueDescriptorMap'' this) (\<lambda>v. case v of FDescriptors vdm \<Rightarrow> Inr (map snd vdm) | _ \<Rightarrow> Inl TypeErr)"

fun invoke_defaults :: "own_code \<Rightarrow> dom \<Rightarrow> graph \<Rightarrow> fval \<Rightarrow> value_descriptor list \<Rightarrow> exn + unit" where
  "invoke_defaults oc d g this [] = Inr ()"
| "invoke_defaults oc d g this (vd # vds) =
     bind_ok (ValueObserver_controller g this) (\<lambda>k.
     bind_ok (Controller_data g k) (\<lambda>dm.
     bind_ok (DataMap_has_obj d g dm (vd_key vd)) (\<lambda>has.
     bind_ok (if has then Inr () else invokeChangedCallbackForValue_obj oc g this (vd_name vd)) (\<lambda>_.
       invoke_defaults oc d g this vds))))"

definition invokeChangedCallbacksForDefaultValues_obj :: "own_code \<Rightarrow> dom \<Rightarrow> graph \<Rightarrow> fval \<Rightarrow> exn + unit" where
  "invokeChangedCallbacksForDefaultValues_obj oc d g this =
     bind_ok (ValueObserver_valueDescriptors g this) (invoke_defaults oc d g this)"

text \<open>\<open>handleError\<close> of a context and of its application: an entry in the console.\<close>

definition Application_handleError_obj :: "graph \<Rightarrow> fval \<Rightarrow> exn + unit" where
  "Application_handleError_obj g app =
     bind_ok (get g ''logger'' app) (\<lambda>l. if l = FConsole then Inr () else Inl TypeErr)"

definition Context_handleError_obj :: "graph \<Rightarrow> fval \<Rightarrow> exn + unit" where
  "Context_handleError_obj g this =
     bind_ok (Context_identifier g this) (\<lambda>_.
     bind_ok (get g ''controller'' this) (\<lambda>_.
     bind_ok (Context_element g this) (\<lambda>_.
     bind_ok (Context_application g this) (Application_handleError_obj g))))"

section \<open>Constructors\<close>

definition new_ElementObserver_obj :: "fval \<Rightarrow> fval \<Rightarrow> graph \<Rightarrow> nat \<times> graph" where
  "new_ElementObserver_obj element delegate g =
     (let (this, g) = new_obj ElementObserverC g;
          g = put this ''element'' element g;
          g = put this ''started'' (FBool False) g
      in (this, put this ''delegate'' delegate g))"

definition new_AttributeObserver_obj :: "fval \<Rightarrow> fval \<Rightarrow> fval \<Rightarrow> graph \<Rightarrow> nat \<times> graph" where
  "new_AttributeObserver_obj element attributeName delegate g =
     (let (this, g) = new_obj AttributeObserverC g;
          g = put this ''attributeName'' attributeName g;
          g = put this ''delegate'' delegate g;
          (eo, g) = new_ElementObserver_obj element (FRef this) g
      in (this, put this ''elementObserver'' (FRef eo) g))"

definition new_TokenListObserver_obj :: "fval \<Rightarrow> fval \<Rightarrow> fval \<Rightarrow> graph \<Rightarrow> nat \<times> graph" where
  "new_TokenListObserver_obj element attributeName delegate g =
     (let (this, g) = new_obj TokenListObserverC g;
          (ao, g) = new_AttributeObserver_obj element attributeName (FRef this) g;
          g = put this ''attributeObserver'' (FRef ao) g
      in (this, put this ''delegate'' delegate g))"

definition new_ValueListObserver_obj :: "fval \<Rightarrow> fval \<Rightarrow> fval \<Rightarrow> graph \<Rightarrow> nat \<times> graph" where
  "new_ValueListObserver_obj element attributeName delegate g =
     (let (this, g) = new_obj ValueListObserverC g;
          (tlo, g) = new_TokenListObserver_obj element attributeName (FRef this) g;
          g = put this ''tokenListObserver'' (FRef tlo) g
      in (this, put this ''delegate'' delegate g))"

definition new_ScopeObserver_obj :: "fval \<Rightarrow> fval \<Rightarrow> fval \<Rightarrow> graph \<Rightarrow> exn + nat \<times> graph" where
  "new_ScopeObserver_obj element schema delegate g =
     (let (this, g) = new_obj ScopeObserverC g;
          g = put this ''element'' element g;
          g = put this ''schema'' schema g;
          g = put this ''delegate'' delegate g
      in bind_ok (get g ''element'' (FRef this)) (\<lambda>el.
         bind_ok (ScopeObserver_controllerAttribute g (FRef this)) (\<lambda>attr.
           let (vlo, g) = new_ValueListObserver_obj el attr (FRef this) g
           in Inr (this, put this ''valueListObserver'' (FRef vlo) g))))"

definition new_Router_obj :: "fval \<Rightarrow> graph \<Rightarrow> exn + nat \<times> graph" where
  "new_Router_obj application g =
     (let (this, g) = new_obj RouterC g;
          g = put this ''application'' application g
      in bind_ok (Router_element g (FRef this)) (\<lambda>el.
         bind_ok (Router_schema g (FRef this)) (\<lambda>schema.
         bind_ok (new_ScopeObserver_obj el schema (FRef this) g) (\<lambda>(so, g).
           Inr (this, put this ''scopeObserver'' (FRef so) g)))))"

definition new_Dispatcher_obj :: "fval \<Rightarrow> graph \<Rightarrow> nat \<times> graph" where
  "new_Dispatcher_obj application g =
     (let (this, g) = new_obj DispatcherC g in (this, put this ''application'' application g))"

definition new_Application_obj :: "fval \<Rightarrow> fval \<Rightarrow> graph \<Rightarrow> exn + nat \<times> graph" where
  "new_Application_obj element schema g =
     (let (this, g) = new_obj ApplicationC g;
          g = put this ''logger'' FConsole g;
          g = put this ''element'' element g;
          g = put this ''schema'' schema g;
          (dp, g) = new_Dispatcher_obj (FRef this) g;
          g = put this ''dispatcher'' (FRef dp) g
      in bind_ok (new_Router_obj (FRef this) g) (\<lambda>(r, g).
           Inr (this, put this ''router'' (FRef r) g)))"

text \<open>\<open>bl\<close> is \<open>bless\<close> on classes: it gives the derived class or throws.\<close>

definition blessDefinition :: "(nat \<Rightarrow> string + nat) \<Rightarrow> string \<Rightarrow> nat \<Rightarrow> graph \<Rightarrow> exn + nat \<times> graph" where
  "blessDefinition bl identifier ctor g =
     (case bl ctor of
        Inl e \<Rightarrow> Inl (Thrown e)
      | Inr c \<Rightarrow> (let (this, g) = new_obj DefinitionC g;
                     g = put this ''identifier'' (FStr identifier) g
                 in Inr (this, put this ''controllerConstructor'' (FClass c) g)))"

definition new_Module_obj :: "(nat \<Rightarrow> string + nat) \<Rightarrow> fval \<Rightarrow> string \<Rightarrow> nat \<Rightarrow> graph \<Rightarrow> exn + nat \<times> graph" where
  "new_Module_obj bl application identifier ctor g =
     (let (this, g) = new_obj ModuleC g;
          g = put this ''application'' application g
      in bind_ok (blessDefinition bl identifier ctor g) (\<lambda>(d, g).
           Inr (this, put this ''definition'' (FRef d) g)))"

definition new_part :: "class_name \<Rightarrow> fval \<Rightarrow> graph \<Rightarrow> nat \<times> graph" where
  "new_part c scope g = (let (this, g) = new_obj c g in (this, put this ''scope'' scope g))"

definition new_Guide_obj :: "fval \<Rightarrow> graph \<Rightarrow> nat \<times> graph" where
  "new_Guide_obj logger g = (let (this, g) = new_obj GuideC g in (this, put this ''logger'' logger g))"

definition new_Scope_obj :: "fval \<Rightarrow> fval \<Rightarrow> fval \<Rightarrow> fval \<Rightarrow> graph \<Rightarrow> nat \<times> graph" where
  "new_Scope_obj schema element identifier logger g =
     (let (this, g) = new_obj ScopeC g;
          (t, g) = new_part TargetSetC (FRef this) g;
          g = put this ''targets'' (FRef t) g;
          (c, g) = new_part ClassMapC (FRef this) g;
          g = put this ''classes'' (FRef c) g;
          (d, g) = new_part DataMapC (FRef this) g;
          g = put this ''data'' (FRef d) g;
          g = put this ''schema'' schema g;
          g = put this ''element'' element g;
          g = put this ''identifier'' identifier g;
          (gu, g) = new_Guide_obj logger g
      in (this, put this ''guide'' (FRef gu) g))"

definition createScope_obj :: "fval \<Rightarrow> nat \<Rightarrow> string \<Rightarrow> graph \<Rightarrow> exn + nat \<times> graph" where
  "createScope_obj router element identifier g =
     bind_ok (Router_schema g router) (\<lambda>schema.
     bind_ok (Router_logger g router) (\<lambda>logger.
       Inr (new_Scope_obj schema (FElement element) (FStr identifier) logger g)))"

definition new_Controller_obj :: "nat \<Rightarrow> fval \<Rightarrow> graph \<Rightarrow> nat \<times> graph" where
  "new_Controller_obj c context g =
     (let (this, g) = new_obj ControllerC g;
          g = put this ''constructor'' (FClass c) g
      in (this, put this ''context'' context g))"

definition new_BindingObserver_obj :: "fval \<Rightarrow> fval \<Rightarrow> graph \<Rightarrow> nat \<times> graph" where
  "new_BindingObserver_obj context delegate g =
     (let (this, g) = new_obj BindingObserverC g;
          g = put this ''context'' context g
      in (this, put this ''delegate'' delegate g))"

definition new_StringMapObserver_obj :: "fval \<Rightarrow> fval \<Rightarrow> graph \<Rightarrow> nat \<times> graph" where
  "new_StringMapObserver_obj element delegate g =
     (let (this, g) = new_obj StringMapObserverC g;
          g = put this ''element'' element g;
          g = put this ''delegate'' delegate g
      in (this, put this ''started'' (FBool False) g))"

definition new_ValueObserver_obj :: "(nat \<Rightarrow> (string \<times> type_constant) list) \<Rightarrow> own_code \<Rightarrow> dom \<Rightarrow> fval \<Rightarrow> fval \<Rightarrow> graph \<Rightarrow>
    exn + nat \<times> graph" where
  "new_ValueObserver_obj values oc d context receiver g =
     (let (this, g) = new_obj ValueObserverC g;
          g = put this ''context'' context g;
          g = put this ''receiver'' receiver g
      in bind_ok (ValueObserver_element g (FRef this)) (\<lambda>el.
           let (smo, g) = new_StringMapObserver_obj el (FRef this) g;
               g = put this ''stringMapObserver'' (FRef smo) g
           in bind_ok (ValueObserver_controller g (FRef this)) (\<lambda>k.
              bind_ok (Controller_valueDescriptorMap values g k) (\<lambda>vdm.
                let g = put this ''valueDescriptorMap'' vdm g
                in bind_ok (invokeChangedCallbacksForDefaultValues_obj oc d g (FRef this)) (\<lambda>_. Inr (this, g))))))"

definition new_Context_obj :: "(nat \<Rightarrow> (string \<times> type_constant) list) \<Rightarrow> own_code \<Rightarrow> dom \<Rightarrow> fval \<Rightarrow> fval \<Rightarrow> graph \<Rightarrow>
    exn + nat \<times> graph" where
  "new_Context_obj values oc d module scope g =
     (let (this, g) = new_obj ContextC g;
          g = put this ''module'' module g;
          g = put this ''scope'' scope g
      in bind_ok (Module_controllerConstructor g module) (\<lambda>ctor.
           case ctor of
             FClass c \<Rightarrow>
               (let (k, g) = new_Controller_obj c (FRef this) g;
                    g = put this ''controller'' (FRef k) g
                in bind_ok (Context_dispatcher g (FRef this)) (\<lambda>dp.
                     let (bo, g) = new_BindingObserver_obj (FRef this) dp g;
                         g = put this ''bindingObserver'' (FRef bo) g
                     in bind_ok (get g ''controller'' (FRef this)) (\<lambda>receiver.
                        bind_ok (new_ValueObserver_obj values oc d (FRef this) receiver g) (\<lambda>(vo, g).
                          let g = put this ''valueObserver'' (FRef vo) g
                          in bind_ok (case oc_initialize oc of None \<Rightarrow> Inr () | Some _ \<Rightarrow> Context_handleError_obj g (FRef this))
                               (\<lambda>_. Inr (this, g))))))
           | _ \<Rightarrow> Inl TypeErr))"

definition new_Binding_obj :: "fval \<Rightarrow> action \<Rightarrow> graph \<Rightarrow> nat \<times> graph" where
  "new_Binding_obj context action g =
     (let (this, g) = new_obj BindingC g;
          g = put this ''context'' context g
      in (this, put this ''action'' (FAction action) g))"

definition connectAction_obj :: "nat \<Rightarrow> action \<Rightarrow> graph \<Rightarrow> nat \<times> graph" where
  "connectAction_obj ob action g = new_Binding_obj (own_field g ob ''context'') action g"

definition BindingObserver_start_obj :: "nat \<Rightarrow> graph \<Rightarrow> exn + graph" where
  "BindingObserver_start_obj this g =
     (if own_field g this ''valueListObserver'' = FUndefined then
        bind_ok (BindingObserver_element g (FRef this)) (\<lambda>el.
        bind_ok (BindingObserver_actionAttribute g (FRef this)) (\<lambda>attr.
          let (vlo, g) = new_ValueListObserver_obj el attr (FRef this) g
          in Inr (put this ''valueListObserver'' (FRef vlo) g)))
      else Inr g)"

definition BindingObserver_stop_obj :: "nat \<Rightarrow> graph \<Rightarrow> graph" where
  "BindingObserver_stop_obj this g =
     (if own_field g this ''valueListObserver'' = FUndefined then g else remove_field this ''valueListObserver'' g)"

section \<open>What the constructors leave behind\<close>

text \<open>
  An object that is built at the end of the store is out of the way of the objects before it: the
  assignments only touch new objects.
\<close>

lemma put_new [simp]: "put (length g) k v (g @ x # xs) = g @ x\<lparr>i_fields := AList.update k v (i_fields x)\<rparr> # xs"
  by (simp add: put_def list_update_append)

lemma own_field_old [simp]: "r < length g \<Longrightarrow> own_field (g @ xs) r k = own_field g r k"
  by (simp add: own_field_def nth_append)

lemma own_field_new [simp]:
  "own_field (g @ x # xs) (length g) k = (case map_of (i_fields x) k of None \<Rightarrow> FUndefined | Some v \<Rightarrow> v)"
  by (simp add: own_field_def)

lemma new_obj_eq: "new_obj c g = (length g, g @ [\<lparr>i_class = c, i_fields = []\<rparr>])"
  by (rule new_obj_def)

definition observer_objs :: "fval \<Rightarrow> fval \<Rightarrow> fval \<Rightarrow> nat \<Rightarrow> inst list" where
  "observer_objs element attr delegate n =
     [\<lparr>i_class = ValueListObserverC, i_fields = [(''tokenListObserver'', FRef (n + 1)), (''delegate'', delegate)]\<rparr>,
      \<lparr>i_class = TokenListObserverC, i_fields = [(''attributeObserver'', FRef (n + 2)), (''delegate'', FRef n)]\<rparr>,
      \<lparr>i_class = AttributeObserverC, i_fields = [(''attributeName'', attr), (''delegate'', FRef (n + 1)), (''elementObserver'', FRef (n + 3))]\<rparr>,
      \<lparr>i_class = ElementObserverC, i_fields = [(''element'', element), (''started'', FBool False), (''delegate'', FRef (n + 2))]\<rparr>]"

lemma new_ValueListObserver_obj_eq:
  "new_ValueListObserver_obj element attr delegate g = (length g, g @ observer_objs element attr delegate (length g))"
proof -
  have "new_ElementObserver_obj el dl g = (length g, g @ [\<lparr>i_class = ElementObserverC,
      i_fields = [(''element'', el), (''started'', FBool False), (''delegate'', dl)]\<rparr>])" for el dl g
    by (simp add: new_ElementObserver_obj_def new_obj_def)
  then have "new_AttributeObserver_obj el at dl g = (length g, g @ [\<lparr>i_class = AttributeObserverC,
      i_fields = [(''attributeName'', at), (''delegate'', dl), (''elementObserver'', FRef (length g + 1))]\<rparr>,
      \<lparr>i_class = ElementObserverC, i_fields = [(''element'', el), (''started'', FBool False), (''delegate'', FRef (length g))]\<rparr>])" for el at dl g
    by (simp add: new_AttributeObserver_obj_def new_obj_def)
  then have "new_TokenListObserver_obj el at (FRef (length g - 1)) g = (length g, g @ tl (observer_objs el at dl (length g - 1)))"
    if "0 < length g" for el at dl g
    using that by (simp add: new_TokenListObserver_obj_def new_obj_def observer_objs_def)
  from this [of "g @ [x]" for x] have "new_TokenListObserver_obj el at (FRef (length g)) (g @ [x]) =
      (Suc (length g), g @ x # tl (observer_objs el at dl (length g)))" for el at dl x
    by simp
  then show ?thesis
    by (simp add: new_ValueListObserver_obj_def new_obj_def observer_objs_def)
qed

definition router_objs :: "nat \<Rightarrow> fval \<Rightarrow> fval \<Rightarrow> fval \<Rightarrow> nat \<Rightarrow> inst list" where
  "router_objs app element schema attr n =
     [\<lparr>i_class = RouterC, i_fields = [(''application'', FRef app), (''scopeObserver'', FRef (n + 1))]\<rparr>,
      \<lparr>i_class = ScopeObserverC, i_fields = [(''element'', element), (''schema'', schema), (''delegate'', FRef n), (''valueListObserver'', FRef (n + 2))]\<rparr>]
     @ observer_objs element attr (FRef (n + 1)) (n + 2)"

definition application_objs :: "fval \<Rightarrow> nat \<Rightarrow> fval \<Rightarrow> nat \<Rightarrow> inst list" where
  "application_objs element sch attr n =
     [\<lparr>i_class = ApplicationC, i_fields = [(''logger'', FConsole), (''element'', element), (''schema'', FRef sch),
        (''dispatcher'', FRef (n + 1)), (''router'', FRef (n + 2))]\<rparr>,
      \<lparr>i_class = DispatcherC, i_fields = [(''application'', FRef n)]\<rparr>]
     @ router_objs n element (FRef sch) attr (n + 2)"

lemma new_Router_obj_eq:
  assumes "app < length g" and "own_field g app ''element'' = element" and "own_field g app ''schema'' = FRef sch" and "sch < length g"
  shows "new_Router_obj (FRef app) g =
    Inr (length g, g @ router_objs app element (FRef sch) (own_field g sch ''controllerAttribute'') (length g))"
  using assms
  by (simp add: new_Router_obj_def new_ScopeObserver_obj_def new_obj_def accessor_defs new_ValueListObserver_obj_eq router_objs_def)

lemma new_Application_obj_eq:
  assumes "sch < length g"
  shows "new_Application_obj element (FRef sch) g =
    Inr (length g, g @ application_objs element sch (own_field g sch ''controllerAttribute'') (length g))"
  using assms
  by (simp add: new_Application_obj_def new_Dispatcher_obj_def new_obj_def application_objs_def
      new_Router_obj_eq [where app = "length g" and sch = sch])

lemma new_Module_obj_eq:
  "new_Module_obj bl application identifier ctor g =
     (case bl ctor of
        Inl e \<Rightarrow> Inl (Thrown e)
      | Inr c \<Rightarrow> Inr (length g, g @
         [\<lparr>i_class = ModuleC, i_fields = [(''application'', application), (''definition'', FRef (length g + 1))]\<rparr>,
          \<lparr>i_class = DefinitionC, i_fields = [(''identifier'', FStr identifier), (''controllerConstructor'', FClass c)]\<rparr>]))"
  by (simp add: new_Module_obj_def blessDefinition_def new_obj_def put_def list_update_append nth_append split: sum.split)

definition scope_objs :: "fval \<Rightarrow> fval \<Rightarrow> fval \<Rightarrow> fval \<Rightarrow> nat \<Rightarrow> inst list" where
  "scope_objs schema element identifier logger n =
     [\<lparr>i_class = ScopeC, i_fields = [(''targets'', FRef (n + 1)), (''classes'', FRef (n + 2)), (''data'', FRef (n + 3)),
        (''schema'', schema), (''element'', element), (''identifier'', identifier), (''guide'', FRef (n + 4))]\<rparr>,
      \<lparr>i_class = TargetSetC, i_fields = [(''scope'', FRef n)]\<rparr>,
      \<lparr>i_class = ClassMapC, i_fields = [(''scope'', FRef n)]\<rparr>,
      \<lparr>i_class = DataMapC, i_fields = [(''scope'', FRef n)]\<rparr>,
      \<lparr>i_class = GuideC, i_fields = [(''logger'', logger)]\<rparr>]"

lemma new_Scope_obj_eq:
  "new_Scope_obj schema element identifier logger g = (length g, g @ scope_objs schema element identifier logger (length g))"
  by (simp add: new_Scope_obj_def new_part_def new_Guide_obj_def new_obj_def scope_objs_def)

text \<open>
  The getter and the announcement of default values are those of the theories of values, and the
  announcement stops at the first method that throws.
\<close>

fun default_throw :: "own_code \<Rightarrow> dom \<Rightarrow> scope \<Rightarrow> value_descriptor list \<Rightarrow> string option" where
  "default_throw oc d sc [] = None"
| "default_throw oc d sc (vd # vds) =
     (if DataMap_has d sc (vd_key vd) then default_throw oc d sc vds
      else case oc_method oc (vd_name vd @ ''Changed'') of MThrows e \<Rightarrow> Some e | _ \<Rightarrow> default_throw oc d sc vds)"

lemma default_throw_cause:
  "default_throw oc d sc vds = Some e \<Longrightarrow>
     \<exists>vd \<in> set vds. \<not> DataMap_has d sc (vd_key vd) \<and> oc_method oc (vd_name vd @ ''Changed'') = MThrows e"
  by (induction vds) (auto split: if_splits method_call.splits)

lemma descriptors_from_eq:
  assumes "Controller_data g k = Inr dm" and "DataMap_identifier g dm = Inr (FStr (scope_identifier sc))"
  shows "descriptors_from g k pairs result = map_sum Thrown id (valueDescriptorMap_from sc pairs result)"
  using assms
  by (induction pairs arbitrary: result)
    (auto simp: DataMap_getAttributeNameForKey_def getAttributeNameForKey_def text_of_def split: sum.split)

lemma invoke_defaults_eq:
  assumes "ValueObserver_controller g this = Inr k" and "Controller_data g k = Inr dm"
    and "DataMap_identifier g dm = Inr (FStr (scope_identifier sc))" and "DataMap_element g dm = Inr (FElement (scope_element sc))"
    and "get g ''receiver'' this = Inr (FRef r)"
  shows "invoke_defaults oc d g this vds = (case default_throw oc d sc vds of None \<Rightarrow> Inr () | Some e \<Rightarrow> Inl (Thrown e))"
  using assms
  by (induction vds)
    (auto simp: DataMap_has_obj_def DataMap_getAttributeNameForKey_def text_of_def DataMap_has_def getAttributeNameForKey_def
      invokeChangedCallbackForValue_obj_def Let_def split: method_call.split)

definition context_objs :: "nat \<Rightarrow> nat \<Rightarrow> nat \<Rightarrow> (string, value_descriptor) jsmap \<Rightarrow> fval \<Rightarrow> fval \<Rightarrow> nat \<Rightarrow> inst list" where
  "context_objs m s c vdm dp el n =
     [\<lparr>i_class = ContextC, i_fields = [(''module'', FRef m), (''scope'', FRef s), (''controller'', FRef (n + 1)),
        (''bindingObserver'', FRef (n + 2)), (''valueObserver'', FRef (n + 3))]\<rparr>,
      \<lparr>i_class = ControllerC, i_fields = [(''constructor'', FClass c), (''context'', FRef n)]\<rparr>,
      \<lparr>i_class = BindingObserverC, i_fields = [(''context'', FRef n), (''delegate'', dp)]\<rparr>,
      \<lparr>i_class = ValueObserverC, i_fields = [(''context'', FRef n), (''receiver'', FRef (n + 1)),
        (''stringMapObserver'', FRef (n + 4)), (''valueDescriptorMap'', FDescriptors vdm)]\<rparr>,
      \<lparr>i_class = StringMapObserverC, i_fields = [(''element'', el), (''delegate'', FRef (n + 3)), (''started'', FBool False)]\<rparr>]"

text \<open>The objects as they are when the observer of values is made.\<close>

definition half_context :: "nat \<Rightarrow> nat \<Rightarrow> nat \<Rightarrow> fval \<Rightarrow> nat \<Rightarrow> inst list" where
  "half_context m s c dp n =
     [\<lparr>i_class = ContextC, i_fields = [(''module'', FRef m), (''scope'', FRef s), (''controller'', FRef (n + 1)),
        (''bindingObserver'', FRef (n + 2))]\<rparr>,
      \<lparr>i_class = ControllerC, i_fields = [(''constructor'', FClass c), (''context'', FRef n)]\<rparr>,
      \<lparr>i_class = BindingObserverC, i_fields = [(''context'', FRef n), (''delegate'', dp)]\<rparr>]"

definition value_observer :: "nat \<Rightarrow> fval \<Rightarrow> (string \<times> fval) list \<Rightarrow> inst list" where
  "value_observer n el rest =
     [\<lparr>i_class = ValueObserverC, i_fields = [(''context'', FRef n), (''receiver'', FRef (n + 1)), (''stringMapObserver'', FRef (n + 4))] @ rest\<rparr>,
      \<lparr>i_class = StringMapObserverC, i_fields = [(''element'', el), (''delegate'', FRef (n + 3)), (''started'', FBool False)]\<rparr>]"

definition is_str :: "fval \<Rightarrow> bool" where
  "is_str v \<longleftrightarrow> (case v of FStr _ \<Rightarrow> True | _ \<Rightarrow> False)"

lemma value_observer_accessors:
  fixes g :: graph
  assumes "s < length g" and "own_field g s ''data'' = FRef dm" and "dm < length g" and "own_field g dm ''scope'' = FRef s"
    and "own_field g s ''element'' = FElement (scope_element sc)" and "own_field g s ''identifier'' = FStr (scope_identifier sc)"
    and h: "h = g @ half_context m s c dp (length g) @ value_observer (length g) (FElement (scope_element sc)) rest"
  shows "own_field h (Suc (length g)) ''constructor'' = FClass c"
    and "ValueObserver_controller h (FRef (length g + 3)) = Inr (FRef (Suc (length g)))"
    and "Controller_data h (FRef (Suc (length g))) = Inr (FRef dm)"
    and "DataMap_identifier h (FRef dm) = Inr (FStr (scope_identifier sc))"
    and "DataMap_element h (FRef dm) = Inr (FElement (scope_element sc))"
    and "get h ''receiver'' (FRef (length g + 3)) = Inr (FRef (Suc (length g)))"
  using assms by (simp_all add: half_context_def value_observer_def accessor_defs own_field_def nth_append)

lemma new_ValueObserver_obj_eq:
  assumes "s < length g" and "own_field g s ''data'' = FRef dm" and "dm < length g" and "own_field g dm ''scope'' = FRef s"
    and "own_field g s ''element'' = FElement (scope_element sc)" and "own_field g s ''identifier'' = FStr (scope_identifier sc)"
  shows "new_ValueObserver_obj values oc d (FRef (length g)) (FRef (Suc (length g))) (g @ half_context m s c dp (length g)) =
    (case valueDescriptorMap sc (values c) of
       Inl e \<Rightarrow> Inl (Thrown e)
     | Inr vdm \<Rightarrow> (case default_throw oc d sc (map snd vdm) of
         Some e \<Rightarrow> Inl (Thrown e)
       | None \<Rightarrow> Inr (length g + 3, g @ half_context m s c dp (length g) @
           value_observer (length g) (FElement (scope_element sc)) [(''valueDescriptorMap'', FDescriptors vdm)])))"
proof -
  let ?h = "\<lambda>rest. g @ half_context m s c dp (length g) @ value_observer (length g) (FElement (scope_element sc)) rest"
  let ?ob = "FRef (length g + 3)"
  note acc = value_observer_accessors [OF assms refl, of m c dp]
  have put_vdm: "put (length g + 3) ''valueDescriptorMap'' v (?h []) = ?h [(''valueDescriptorMap'', v)]" for v
    by (simp add: put_def value_observer_def half_context_def list_update_append nth_append)
  have calls: "invokeChangedCallbacksForDefaultValues_obj oc d (?h [(''valueDescriptorMap'', FDescriptors vdm)]) ?ob =
      (case default_throw oc d sc (map snd vdm) of None \<Rightarrow> Inr () | Some e \<Rightarrow> Inl (Thrown e))" for vdm
  proof -
    have "get (?h [(''valueDescriptorMap'', FDescriptors vdm)]) ''valueDescriptorMap'' ?ob = Inr (FDescriptors vdm)"
      by (simp add: half_context_def value_observer_def own_field_def nth_append)
    then show ?thesis
      unfolding invokeChangedCallbacksForDefaultValues_obj_def ValueObserver_valueDescriptors_def
      by (simp only: bind_ok.simps fval.case invoke_defaults_eq [OF acc(2-6)])
  qed
  have "new_ValueObserver_obj values oc d (FRef (length g)) (FRef (Suc (length g))) (g @ half_context m s c dp (length g)) =
      bind_ok (ValueObserver_controller (?h []) ?ob) (\<lambda>k.
      bind_ok (Controller_valueDescriptorMap values (?h []) k) (\<lambda>vdm.
        let h = put (length g + 3) ''valueDescriptorMap'' vdm (?h [])
        in bind_ok (invokeChangedCallbacksForDefaultValues_obj oc d h ?ob) (\<lambda>_. Inr (length g + 3, h))))"
    using assms by (simp add: new_ValueObserver_obj_def new_obj_def new_StringMapObserver_obj_def ValueObserver_element_def
        Context_element_def half_context_def value_observer_def own_field_def put_def list_update_append nth_append
        Let_def eval_nat_numeral)
  also have "\<dots> = bind_ok (map_sum Thrown id (valueDescriptorMap sc (values c))) (\<lambda>vdm.
      bind_ok (invokeChangedCallbacksForDefaultValues_obj oc d (?h [(''valueDescriptorMap'', FDescriptors vdm)]) ?ob)
        (\<lambda>_. Inr (length g + 3, ?h [(''valueDescriptorMap'', FDescriptors vdm)])))"
    by (cases "valueDescriptorMap sc (values c)")
      (simp_all add: acc Controller_valueDescriptorMap_def descriptors_from_eq [OF acc(3,4)] valueDescriptorMap_def put_vdm
        Let_def del: append_assoc)
  finally show ?thesis by (simp add: calls del: append_assoc split: sum.split option.split)
qed

lemma new_Context_obj_eq:
  assumes "m < length g" and "s < length g" and "own_field g m ''definition'' = FRef df" and "df < length g"
    and "own_field g df ''controllerConstructor'' = FClass c" and "own_field g m ''application'' = FRef app" and "app < length g"
    and "is_str (own_field g df ''identifier'')" and "own_field g app ''logger'' = FConsole"
    and "own_field g s ''data'' = FRef dm" and "dm < length g" and "own_field g dm ''scope'' = FRef s"
    and "own_field g s ''element'' = FElement (scope_element sc)" and "own_field g s ''identifier'' = FStr (scope_identifier sc)"
  shows "new_Context_obj values oc d (FRef m) (FRef s) g =
    (case valueDescriptorMap sc (values c) of
       Inl e \<Rightarrow> Inl (Thrown e)
     | Inr vdm \<Rightarrow> (case default_throw oc d sc (map snd vdm) of
         Some e \<Rightarrow> Inl (Thrown e)
       | None \<Rightarrow> Inr (length g, g @ context_objs m s c vdm (own_field g app ''dispatcher'') (own_field g s ''element'') (length g))))"
proof -
  let ?half = "half_context m s c (own_field g app ''dispatcher'') (length g)"
  let ?ctx = "\<lambda>vdm. g @ context_objs m s c vdm (own_field g app ''dispatcher'') (own_field g s ''element'') (length g)"
  have "new_Context_obj values oc d (FRef m) (FRef s) g =
      bind_ok (new_ValueObserver_obj values oc d (FRef (length g)) (FRef (Suc (length g))) (g @ ?half)) (\<lambda>(vo, h).
        let h = put (length g) ''valueObserver'' (FRef vo) h
        in bind_ok (case oc_initialize oc of None \<Rightarrow> Inr () | Some _ \<Rightarrow> Context_handleError_obj h (FRef (length g)))
             (\<lambda>_. Inr (length g, h)))"
    using assms(1-7)
    by (simp add: new_Context_obj_def new_Controller_obj_def new_BindingObserver_obj_def new_obj_def Module_controllerConstructor_def
        Context_dispatcher_def Context_application_def half_context_def)
  moreover have "put (length g) ''valueObserver'' (FRef (length g + 3))
      (g @ ?half @ value_observer (length g) (FElement (scope_element sc)) [(''valueDescriptorMap'', FDescriptors vdm)]) = ?ctx vdm" for vdm
    using assms(13) by (simp add: half_context_def value_observer_def context_objs_def)
  moreover have "Context_handleError_obj (?ctx vdm) (FRef (length g)) = Inr ()" for vdm
    using assms by (auto simp: Context_handleError_obj_def Application_handleError_obj_def accessor_defs context_objs_def)
  ultimately show ?thesis
    unfolding new_ValueObserver_obj_eq [OF assms(2,10-14)]
    by (simp add: Let_def split: sum.split option.split)
qed

section \<open>Objects are wired\<close>

text \<open>
  A field refers to an object of a class, and an object that is referred to refers back. With the
  application \<open>app\<close>, its schema \<open>sch\<close> and its element \<open>el\<close>, every object has the references of its class.
\<close>

definition points :: "graph \<Rightarrow> nat \<Rightarrow> string \<Rightarrow> class_name \<Rightarrow> bool" where
  "points g r k c \<longleftrightarrow> (case own_field g r k of FRef q \<Rightarrow> q < length g \<and> i_class (g ! q) = c | _ \<Rightarrow> False)"

definition points_back :: "graph \<Rightarrow> nat \<Rightarrow> string \<Rightarrow> string \<Rightarrow> bool" where
  "points_back g r k k' \<longleftrightarrow> (case own_field g r k of FRef q \<Rightarrow> own_field g q k' = FRef r | _ \<Rightarrow> False)"

definition is_element :: "fval \<Rightarrow> bool" where
  "is_element v \<longleftrightarrow> (case v of FElement _ \<Rightarrow> True | _ \<Rightarrow> False)"

definition is_class :: "fval \<Rightarrow> bool" where
  "is_class v \<longleftrightarrow> (case v of FClass _ \<Rightarrow> True | _ \<Rightarrow> False)"

definition is_descriptors :: "fval \<Rightarrow> bool" where
  "is_descriptors v \<longleftrightarrow> (case v of FDescriptors _ \<Rightarrow> True | _ \<Rightarrow> False)"

definition is_action :: "fval \<Rightarrow> bool" where
  "is_action v \<longleftrightarrow> (case v of FAction _ \<Rightarrow> True | _ \<Rightarrow> False)"

text \<open>The module and the scope of a context have the same identifier.\<close>

definition same_identifier :: "graph \<Rightarrow> nat \<Rightarrow> bool" where
  "same_identifier g c \<longleftrightarrow> (\<exists>m d s. own_field g c ''module'' = FRef m \<and> own_field g m ''definition'' = FRef d \<and> own_field g c ''scope'' = FRef s
     \<and> m < length g \<and> d < length g \<and> s < length g \<and> own_field g d ''identifier'' = own_field g s ''identifier'')"

fun conforms :: "class_name \<Rightarrow> nat \<Rightarrow> nat \<Rightarrow> nat \<Rightarrow> graph \<Rightarrow> nat \<Rightarrow> bool" where
  "conforms ApplicationC app sch el g r \<longleftrightarrow> r = app \<and> own_field g r ''logger'' = FConsole \<and> own_field g r ''element'' = FElement el
     \<and> own_field g r ''schema'' = FRef sch \<and> points g r ''dispatcher'' DispatcherC \<and> points g r ''router'' RouterC
     \<and> points_back g r ''dispatcher'' ''application'' \<and> points_back g r ''router'' ''application''"
| "conforms DispatcherC app sch el g r \<longleftrightarrow> own_field g r ''application'' = FRef app"
| "conforms RouterC app sch el g r \<longleftrightarrow> own_field g r ''application'' = FRef app \<and> points g r ''scopeObserver'' ScopeObserverC
     \<and> points_back g r ''scopeObserver'' ''delegate''"
| "conforms ScopeObserverC app sch el g r \<longleftrightarrow> own_field g r ''element'' = FElement el \<and> own_field g r ''schema'' = FRef sch
     \<and> points g r ''valueListObserver'' ValueListObserverC \<and> points_back g r ''valueListObserver'' ''delegate''"
| "conforms ModuleC app sch el g r \<longleftrightarrow> own_field g r ''application'' = FRef app \<and> points g r ''definition'' DefinitionC"
| "conforms DefinitionC app sch el g r \<longleftrightarrow> is_str (own_field g r ''identifier'') \<and> is_class (own_field g r ''controllerConstructor'')"
| "conforms ScopeC app sch el g r \<longleftrightarrow> own_field g r ''schema'' = FRef sch \<and> is_element (own_field g r ''element'')
     \<and> is_str (own_field g r ''identifier'') \<and> points g r ''guide'' GuideC
     \<and> points g r ''targets'' TargetSetC \<and> points_back g r ''targets'' ''scope''
     \<and> points g r ''classes'' ClassMapC \<and> points_back g r ''classes'' ''scope''
     \<and> points g r ''data'' DataMapC \<and> points_back g r ''data'' ''scope''"
| "conforms TargetSetC app sch el g r \<longleftrightarrow> points g r ''scope'' ScopeC \<and> points_back g r ''scope'' ''targets''"
| "conforms ClassMapC app sch el g r \<longleftrightarrow> points g r ''scope'' ScopeC \<and> points_back g r ''scope'' ''classes''"
| "conforms DataMapC app sch el g r \<longleftrightarrow> points g r ''scope'' ScopeC \<and> points_back g r ''scope'' ''data''"
| "conforms GuideC app sch el g r \<longleftrightarrow> own_field g r ''logger'' = FConsole"
| "conforms ContextC app sch el g r \<longleftrightarrow> points g r ''module'' ModuleC \<and> points g r ''scope'' ScopeC \<and> same_identifier g r
     \<and> points g r ''controller'' ControllerC \<and> points_back g r ''controller'' ''context''
     \<and> points g r ''bindingObserver'' BindingObserverC \<and> points_back g r ''bindingObserver'' ''context''
     \<and> points g r ''valueObserver'' ValueObserverC \<and> points_back g r ''valueObserver'' ''context''"
| "conforms ControllerC app sch el g r \<longleftrightarrow> is_class (own_field g r ''constructor'') \<and> points g r ''context'' ContextC
     \<and> points_back g r ''context'' ''controller''"
| "conforms BindingObserverC app sch el g r \<longleftrightarrow> points g r ''context'' ContextC \<and> points_back g r ''context'' ''bindingObserver''
     \<and> points g r ''delegate'' DispatcherC
     \<and> (own_field g r ''valueListObserver'' = FUndefined
        \<or> points g r ''valueListObserver'' ValueListObserverC \<and> points_back g r ''valueListObserver'' ''delegate'')"
| "conforms ValueObserverC app sch el g r \<longleftrightarrow> points g r ''context'' ContextC \<and> points_back g r ''context'' ''valueObserver''
     \<and> points g r ''receiver'' ControllerC \<and> points g r ''stringMapObserver'' StringMapObserverC
     \<and> points_back g r ''stringMapObserver'' ''delegate'' \<and> is_descriptors (own_field g r ''valueDescriptorMap'')"
| "conforms StringMapObserverC app sch el g r \<longleftrightarrow> is_element (own_field g r ''element'') \<and> points g r ''delegate'' ValueObserverC"
| "conforms BindingC app sch el g r \<longleftrightarrow> points g r ''context'' ContextC \<and> is_action (own_field g r ''action'')"
| "conforms ValueListObserverC app sch el g r \<longleftrightarrow> points g r ''tokenListObserver'' TokenListObserverC
     \<and> points_back g r ''tokenListObserver'' ''delegate''"
| "conforms TokenListObserverC app sch el g r \<longleftrightarrow> points g r ''attributeObserver'' AttributeObserverC
     \<and> points_back g r ''attributeObserver'' ''delegate''"
| "conforms AttributeObserverC app sch el g r \<longleftrightarrow> points g r ''elementObserver'' ElementObserverC
     \<and> points_back g r ''elementObserver'' ''delegate'' \<and> is_str (own_field g r ''attributeName'')"
| "conforms ElementObserverC app sch el g r \<longleftrightarrow> is_element (own_field g r ''element'')"
| "conforms SchemaC app sch el g r \<longleftrightarrow> r = sch \<and> is_str (own_field g r ''controllerAttribute'') \<and> is_str (own_field g r ''actionAttribute'')"

definition wired :: "nat \<Rightarrow> nat \<Rightarrow> nat \<Rightarrow> graph \<Rightarrow> bool" where
  "wired app sch el g \<longleftrightarrow> app < length g \<and> i_class (g ! app) = ApplicationC \<and> sch < length g \<and> i_class (g ! sch) = SchemaC
     \<and> (\<forall>r<length g. conforms (i_class (g ! r)) app sch el g r)"

lemma points_old: "r < length g \<Longrightarrow> points g r k c \<Longrightarrow> points (g @ xs) r k c"
  by (auto simp: points_def nth_append split: fval.splits)

lemma points_back_old: "r < length g \<Longrightarrow> points g r k c \<Longrightarrow> points_back g r k k' \<Longrightarrow> points_back (g @ xs) r k k'"
  by (auto simp: points_def points_back_def split: fval.splits)

lemma same_identifier_old: "r < length g \<Longrightarrow> same_identifier g r \<Longrightarrow> same_identifier (g @ xs) r"
  by (auto simp: same_identifier_def)

lemma conforms_old: "conforms c app sch el g r \<Longrightarrow> r < length g \<Longrightarrow> conforms c app sch el (g @ xs) r"
  by (cases c) (auto intro: points_old points_back_old same_identifier_old)

lemma wired_conforms: "wired app sch el g \<Longrightarrow> r < length g \<Longrightarrow> conforms (i_class (g ! r)) app sch el g r"
  by (simp add: wired_def)

text \<open>It is enough to look at the new objects.\<close>

lemma wired_extend:
  assumes "wired app sch el g"
    and "list_all (\<lambda>(r, x). conforms (i_class x) app sch el (g @ xs) r) (enumerate (length g) xs)"
  shows "wired app sch el (g @ xs)"
proof -
  have "conforms (i_class ((g @ xs) ! r)) app sch el (g @ xs) r" if "r < length (g @ xs)" for r
  proof (cases "r < length g")
    case True
    with assms(1) show ?thesis by (simp add: nth_append conforms_old wired_conforms)
  next
    case False
    with that have "(r, (g @ xs) ! r) \<in> set (enumerate (length g) xs)"
      by (auto simp: in_set_enumerate_eq nth_append)
    with assms(2) show ?thesis by (auto simp: list_all_iff)
  qed
  with assms(1) show ?thesis by (auto simp: wired_def nth_append)
qed

lemmas new_object_simps = points_def points_back_def is_element_def is_str_def is_class_def is_descriptors_def is_action_def own_field_def nth_append

lemma wired_application:
  assumes "is_str (own_field [schema] 0 ''controllerAttribute'')" and "is_str (own_field [schema] 0 ''actionAttribute'')"
    and "i_class schema = SchemaC"
  shows "wired 1 0 el (schema # application_objs (FElement el) 0 (own_field [schema] 0 ''controllerAttribute'') 1)"
proof -
  let ?g = "schema # application_objs (FElement el) 0 (own_field [schema] 0 ''controllerAttribute'') 1"
  have "\<forall>r\<in>set [0..<length ?g]. conforms (i_class (?g ! r)) 1 0 el ?g r"
    using assms by (simp add: application_objs_def router_objs_def observer_objs_def new_object_simps upt_rec)
  then have "\<forall>r<length ?g. conforms (i_class (?g ! r)) 1 0 el ?g r" by (metis atLeastLessThan_iff le0 set_upt)
  moreover have "1 < length ?g \<and> i_class (?g ! 1) = ApplicationC \<and> 0 < length ?g \<and> i_class (?g ! 0) = SchemaC"
    using assms(3) by (simp add: application_objs_def)
  ultimately show ?thesis unfolding wired_def by blast
qed

lemma wired_module:
  "wired app sch el g \<Longrightarrow> new_Module_obj bl (FRef app) identifier ctor g = Inr (m, g') \<Longrightarrow> wired app sch el g' \<and> i_class (g' ! m) = ModuleC"
  by (auto simp: new_Module_obj_eq new_object_simps split: sum.splits intro!: wired_extend)

lemma wired_scope:
  assumes "wired app sch el g" and "r < length g" and "i_class (g ! r) = RouterC"
  shows "\<exists>g'. createScope_obj (FRef r) element identifier g = Inr (length g, g') \<and> wired app sch el g' \<and> i_class (g' ! length g) = ScopeC"
proof -
  have "own_field g r ''application'' = FRef app" using wired_conforms [OF assms(1,2)] assms(3) by simp
  moreover have "own_field g app ''schema'' = FRef sch" "own_field g app ''logger'' = FConsole" "app < length g"
    using wired_conforms [OF assms(1), of app] assms(1) by (auto simp: wired_def)
  ultimately have "createScope_obj (FRef r) element identifier g =
      Inr (length g, g @ scope_objs (FRef sch) (FElement element) (FStr identifier) FConsole (length g))"
    by (simp add: createScope_obj_def accessor_defs new_Scope_obj_eq)
  moreover have "wired app sch el (g @ scope_objs (FRef sch) (FElement element) (FStr identifier) FConsole (length g))"
    by (rule wired_extend [OF assms(1)]) (simp add: scope_objs_def new_object_simps)
  ultimately show ?thesis by (simp add: scope_objs_def)
qed

text \<open>The scope that a scope object stands for.\<close>

definition abs_scope :: "graph \<Rightarrow> nat \<Rightarrow> scope" where
  "abs_scope g s = \<lparr>scope_element = (case own_field g s ''element'' of FElement e \<Rightarrow> e | _ \<Rightarrow> 0),
     scope_identifier = (case own_field g s ''identifier'' of FStr i \<Rightarrow> i | _ \<Rightarrow> [])\<rparr>"

text \<open>
  Making a context fails only where the class declares a type that is unknown or a method of the
  controller itself throws.
\<close>

lemma context_outcome:
  assumes "wired app sch el g" and "m < length g" and "i_class (g ! m) = ModuleC" and "s < length g" and "i_class (g ! s) = ScopeC"
  obtains c where "Module_controllerConstructor g (FRef m) = Inr (FClass c)"
    "is_element (own_field g s ''element'')" "points g app ''dispatcher'' DispatcherC" "app < length g"
    "new_Context_obj values oc d (FRef m) (FRef s) g =
    (case valueDescriptorMap (abs_scope g s) (values c) of
       Inl e \<Rightarrow> Inl (Thrown e)
     | Inr vdm \<Rightarrow> (case default_throw oc d (abs_scope g s) (map snd vdm) of
         Some e \<Rightarrow> Inl (Thrown e)
       | None \<Rightarrow> Inr (length g, g @ context_objs m s c vdm (own_field g app ''dispatcher'') (own_field g s ''element'') (length g))))"
proof -
  obtain df where df: "own_field g m ''definition'' = FRef df" "df < length g" "i_class (g ! df) = DefinitionC" and m: "own_field g m ''application'' = FRef app"
    using wired_conforms [OF assms(1,2)] assms(3) by (auto simp: points_def split: fval.splits)
  then obtain c where c: "own_field g df ''controllerConstructor'' = FClass c" "is_str (own_field g df ''identifier'')"
    using wired_conforms [OF assms(1), of df] by (auto simp: is_class_def split: fval.splits)
  have app: "app < length g" "points g app ''dispatcher'' DispatcherC" "own_field g app ''logger'' = FConsole"
    using wired_conforms [OF assms(1), of app] assms(1) by (auto simp: wired_def)
  obtain dm where dm: "own_field g s ''data'' = FRef dm" "dm < length g" "own_field g dm ''scope'' = FRef s"
    using wired_conforms [OF assms(1,4)] assms(5) by (auto simp: points_def points_back_def split: fval.splits)
  have el: "is_element (own_field g s ''element'')" using wired_conforms [OF assms(1,4)] assms(5) by simp
  then have sc: "own_field g s ''element'' = FElement (scope_element (abs_scope g s))"
    "own_field g s ''identifier'' = FStr (scope_identifier (abs_scope g s))"
    using wired_conforms [OF assms(1,4)] assms(5) by (auto simp: is_str_def is_element_def abs_scope_def split: fval.splits)
  show thesis
    by (rule that [OF _ el app(2,1) new_Context_obj_eq [OF assms(2,4) df(1,2) c(1) m app(1) c(2) app(3) dm sc]])
      (simp add: Module_controllerConstructor_def df(1) c(1))
qed

lemma wired_context:
  assumes "wired app sch el g" and "m < length g" and "i_class (g ! m) = ModuleC" and "s < length g" and "i_class (g ! s) = ScopeC"
    and "Module_identifier g (FRef m) = get g ''identifier'' (FRef s)"
    and "new_Context_obj values oc d (FRef m) (FRef s) g = Inr (k, g')"
  shows "k = length g \<and> wired app sch el g' \<and> i_class (g' ! k) = ContextC"
proof -
  obtain c where o: "is_element (own_field g s ''element'')" "points g app ''dispatcher'' DispatcherC" "app < length g"
    "new_Context_obj values oc d (FRef m) (FRef s) g =
    (case valueDescriptorMap (abs_scope g s) (values c) of
       Inl e \<Rightarrow> Inl (Thrown e)
     | Inr vdm \<Rightarrow> (case default_throw oc d (abs_scope g s) (map snd vdm) of
         Some e \<Rightarrow> Inl (Thrown e)
       | None \<Rightarrow> Inr (length g, g @ context_objs m s c vdm (own_field g app ''dispatcher'') (own_field g s ''element'') (length g))))"
    by (rule context_outcome [OF assms(1-5)])
  with assms(7) obtain vdm where g': "k = length g"
      "g' = g @ context_objs m s c vdm (own_field g app ''dispatcher'') (own_field g s ''element'') (length g)"
    by (auto split: sum.splits option.splits)
  have "same_identifier g' k"
    using assms(2,4,6) wired_conforms [OF assms(1,2)] assms(3) unfolding g'
    by (auto simp: same_identifier_def context_objs_def Module_identifier_def points_def split: fval.splits)
  then have "wired app sch el g'"
    using o(1-3) assms(2-5) unfolding g'
    by (intro wired_extend [OF assms(1)]) (auto simp: context_objs_def new_object_simps split: fval.splits)
  with g' show ?thesis by (simp add: context_objs_def)
qed

section \<open>Runs of an application\<close>

text \<open>
  The objects of one application: it is created with its schema, then definitions are loaded (a class
  that cannot be blessed is left out), scopes and contexts are created, and the observers of contexts
  are started and stopped and connect actions, in any order; \<open>vs\<close> are the values that the blessed
  classes declare, and the document and what the code of a controller does are arbitrary at each step.
\<close>

definition schema_obj :: "string \<Rightarrow> string \<Rightarrow> string \<Rightarrow> inst" where
  "schema_obj c a t = \<lparr>i_class = SchemaC, i_fields = [(''controllerAttribute'', FStr c), (''actionAttribute'', FStr a), (''targetAttribute'', FStr t)]\<rparr>"

inductive built :: "(nat \<Rightarrow> string + nat) \<Rightarrow> (nat \<Rightarrow> (string \<times> type_constant) list) \<Rightarrow> nat \<Rightarrow> nat \<Rightarrow> nat \<Rightarrow> graph \<Rightarrow> bool"
    for bl :: "nat \<Rightarrow> string + nat" and vs :: "nat \<Rightarrow> (string \<times> type_constant) list" and app sch el :: nat where
  app_made: "built bl vs app sch el g"
    if "sch = 0" and "new_Application_obj (FElement el) (FRef 0) [schema_obj c a t] = Inr (app, g)"
| def_loaded: "built bl vs app sch el g'"
    if "built bl vs app sch el g" and "new_Module_obj bl (FRef app) identifier ctor g = Inr (m, g')"
| scope_made: "built bl vs app sch el g'"
    if "built bl vs app sch el g" and "r < length g" and "i_class (g ! r) = RouterC" and "createScope_obj (FRef r) element identifier g = Inr (s, g')"
| ctx_made: "built bl vs app sch el g'"
    if "built bl vs app sch el g" and "m < length g" and "i_class (g ! m) = ModuleC" and "s < length g" and "i_class (g ! s) = ScopeC"
      and "Module_identifier g (FRef m) = get g ''identifier'' (FRef s)" and "new_Context_obj vs oc d (FRef m) (FRef s) g = Inr (c, g')"
| bo_start: "built bl vs app sch el g'"
    if "built bl vs app sch el g" and "r < length g" and "i_class (g ! r) = BindingObserverC" and "BindingObserver_start_obj r g = Inr g'"
| bo_stop: "built bl vs app sch el (BindingObserver_stop_obj r g)"
    if "built bl vs app sch el g" and "r < length g" and "i_class (g ! r) = BindingObserverC"
| act_connected: "built bl vs app sch el g'"
    if "built bl vs app sch el g" and "r < length g" and "i_class (g ! r) = BindingObserverC" and "connectAction_obj r act g = (b, g')"

text \<open>A field that no other object is judged by may change.\<close>

lemma own_field_put:
  "r < length g \<Longrightarrow> own_field (put r k v g) q k' = (if q = r \<and> k' = k then v else own_field g q k')"
  by (auto simp: own_field_def put_def nth_list_update)

lemma own_field_remove:
  "r < length g \<Longrightarrow> own_field (remove_field r k g) q k' = (if q = r \<and> k' = k then FUndefined else own_field g q k')"
  by (auto simp: own_field_def remove_field_def nth_list_update)

lemma put_frame [simp]:
  shows "length (put r k v g) = length g" and "i_class (put r k v g ! q) = i_class (g ! q)"
proof -
  show "i_class (put r k v g ! q) = i_class (g ! q)"
    by (cases "r < length g") (auto simp: put_def nth_list_update list_update_beyond)
qed (simp add: put_def)

lemma remove_frame [simp]:
  shows "length (remove_field r k g) = length g" and "i_class (remove_field r k g ! q) = i_class (g ! q)"
proof -
  show "i_class (remove_field r k g ! q) = i_class (g ! q)"
    by (cases "r < length g") (auto simp: remove_field_def nth_list_update list_update_beyond)
qed (simp add: remove_field_def)

lemma conforms_same:
  assumes "length g' = length g" and "\<And>q. i_class (g' ! q) = i_class (g ! q)"
    and "\<And>q k. k \<noteq> ''valueListObserver'' \<Longrightarrow> own_field g' q k = own_field g q k"
    and "i_class (g ! r) \<noteq> BindingObserverC \<Longrightarrow> own_field g' r ''valueListObserver'' = own_field g r ''valueListObserver''"
    and "i_class (g ! r) = BindingObserverC \<Longrightarrow> own_field g' r ''valueListObserver'' = FUndefined
      \<or> points g' r ''valueListObserver'' ValueListObserverC \<and> points_back g' r ''valueListObserver'' ''delegate''"
    and "conforms (i_class (g ! r)) app sch el g r"
  shows "conforms (i_class (g' ! r)) app sch el g' r"
proof -
  have same: "points g' q k c = points g q k c" if "own_field g' q k = own_field g q k" for q k c
    using that by (simp add: points_def assms(1,2) split: fval.split)
  have backs: "points_back g' q k k' = points_back g q k k'" if "own_field g' q k = own_field g q k" "k' \<noteq> ''valueListObserver''" for q k k'
    using that by (simp add: points_back_def assms(3) split: fval.split)
  have "same_identifier g' q = same_identifier g q" for q
    by (simp add: same_identifier_def assms(1,3))
  then show ?thesis
    using assms(2,4-6) by (cases "i_class (g ! r)") (use assms(3) same backs in simp_all, blast+)
qed

lemma wired_same:
  assumes "wired app sch el g" and "length g' = length g" and "\<And>q. i_class (g' ! q) = i_class (g ! q)"
    and "\<And>q k. k \<noteq> ''valueListObserver'' \<or> q \<noteq> r \<Longrightarrow> own_field g' q k = own_field g q k"
    and "i_class (g ! r) = BindingObserverC"
    and "own_field g' r ''valueListObserver'' = FUndefined
      \<or> points g' r ''valueListObserver'' ValueListObserverC \<and> points_back g' r ''valueListObserver'' ''delegate''"
  shows "wired app sch el g'"
proof -
  have "conforms (i_class (g' ! q)) app sch el g' q" if "q < length g" for q
  proof (cases "q = r")
    case True
    with assms show ?thesis by (intro conforms_same [OF assms(2,3) _ _ _ wired_conforms [OF assms(1) that]]) auto
  next
    case False
    then have f: "own_field g' q k = own_field g q k" for k using assms(4) by simp
    have "conforms BindingObserverC app sch el g q" if "i_class (g ! q) = BindingObserverC"
      using wired_conforms [OF assms(1) \<open>q < length g\<close>] that by simp
    then show ?thesis
      using assms(4) by (intro conforms_same [OF assms(2,3) _ _ _ wired_conforms [OF assms(1) that]])
        (auto simp: f points_def points_back_def assms(2,3) split: fval.splits)
  qed
  with assms(1-3) show ?thesis by (simp add: wired_def)
qed

lemma binding_observer_context:
  assumes "wired app sch el g" and "r < length g" and "i_class (g ! r) = BindingObserverC"
  obtains c where "own_field g r ''context'' = FRef c" "c < length g" "i_class (g ! c) = ContextC"
  using wired_conforms [OF assms(1,2)] assms(3) by (auto simp: points_def split: fval.splits)

text \<open>Where the references of a context lead.\<close>

lemma context_fields:
  assumes "wired app sch el g" and "c < length g" and "i_class (g ! c) = ContextC"
  obtains m s k d i e where "own_field g c ''module'' = FRef m" "own_field g c ''scope'' = FRef s" "own_field g c ''controller'' = FRef k"
    "m < length g" "s < length g" "k < length g" "i_class (g ! s) = ScopeC" "i_class (g ! k) = ControllerC"
    "own_field g k ''context'' = FRef c" "own_field g m ''application'' = FRef app" "own_field g m ''definition'' = FRef d"
    "own_field g d ''identifier'' = FStr i" "own_field g s ''element'' = FElement e" "own_field g s ''identifier'' = FStr i"
    "own_field g s ''schema'' = FRef sch"
proof -
  obtain m s k where c: "own_field g c ''module'' = FRef m" "own_field g c ''scope'' = FRef s" "own_field g c ''controller'' = FRef k"
      "m < length g" "s < length g" "k < length g" "i_class (g ! m) = ModuleC" "i_class (g ! s) = ScopeC" "i_class (g ! k) = ControllerC"
      "own_field g k ''context'' = FRef c"
    using wired_conforms [OF assms(1,2)] assms(3) by (auto simp: points_def points_back_def split: fval.splits)
  moreover obtain d where d: "own_field g m ''application'' = FRef app" "own_field g m ''definition'' = FRef d" "d < length g" "i_class (g ! d) = DefinitionC"
    using wired_conforms [OF assms(1) c(4)] c(7) by (auto simp: points_def split: fval.splits)
  moreover obtain e i where i: "own_field g s ''element'' = FElement e" "own_field g s ''identifier'' = FStr i" "own_field g s ''schema'' = FRef sch"
    using wired_conforms [OF assms(1) c(5)] c(8) by (auto simp: is_str_def is_element_def split: fval.splits)
  moreover have "own_field g d ''identifier'' = FStr i"
    using wired_conforms [OF assms(1,2)] assms(3) c(1,2) d(2) i(2) by (auto simp: same_identifier_def)
  ultimately show thesis using that by blast
qed

lemma application_fields:
  assumes "wired app sch el g"
  shows "app < length g" "own_field g app ''schema'' = FRef sch" "own_field g app ''element'' = FElement el" "own_field g app ''logger'' = FConsole"
    "is_str (own_field g sch ''actionAttribute'')"
  using wired_conforms [OF assms, of app] wired_conforms [OF assms, of sch] assms by (auto simp: wired_def)

lemma observer_start_eq:
  assumes "wired app sch el g" and "r < length g" and "i_class (g ! r) = BindingObserverC" and "own_field g r ''valueListObserver'' = FUndefined"
  shows "\<exists>e attr. BindingObserver_start_obj r g =
    Inr (put r ''valueListObserver'' (FRef (length g)) (g @ observer_objs (FElement e) (FStr attr) (FRef r) (length g)))"
proof -
  obtain c where c: "own_field g r ''context'' = FRef c" "c < length g" "i_class (g ! c) = ContextC"
    using binding_observer_context [OF assms(1-3)] .
  obtain attr where "own_field g sch ''actionAttribute'' = FStr attr"
    using application_fields(5) [OF assms(1)] by (auto simp: is_str_def split: fval.splits)
  with c show ?thesis
    using assms(4) application_fields [OF assms(1)]
    by (rule_tac context_fields [OF assms(1) c(2,3)])
      (auto simp: BindingObserver_start_obj_def accessor_defs new_ValueListObserver_obj_eq)
qed

lemma wired_start:
  assumes "wired app sch el g" and "r < length g" and "i_class (g ! r) = BindingObserverC"
  shows "\<exists>g'. BindingObserver_start_obj r g = Inr g' \<and> wired app sch el g'"
proof (cases "own_field g r ''valueListObserver'' = FUndefined")
  case True
  then obtain e attr where eq: "BindingObserver_start_obj r g =
      Inr (put r ''valueListObserver'' (FRef (length g)) (g @ observer_objs (FElement e) (FStr attr) (FRef r) (length g)))"
    using observer_start_eq [OF assms] by blast
  let ?g = "g @ observer_objs (FElement e) (FStr attr) (FRef r) (length g)"
  have "wired app sch el ?g"
    by (rule wired_extend [OF assms(1)]) (simp add: observer_objs_def new_object_simps)
  then have "wired app sch el (put r ''valueListObserver'' (FRef (length g)) ?g)"
  proof (rule wired_same [where r = r])
    show "i_class (?g ! r) = BindingObserverC" using assms(2,3) by (simp add: nth_append)
    have vlo: "own_field (put r ''valueListObserver'' (FRef (length g)) ?g) r ''valueListObserver'' = FRef (length g)"
      using assms(2) by (simp add: own_field_put)
    have "own_field (put r ''valueListObserver'' (FRef (length g)) ?g) (length g) ''delegate'' = FRef r"
      using assms(2) by (simp add: own_field_put) (simp add: observer_objs_def)
    moreover have "i_class (?g ! length g) = ValueListObserverC" "length g < length ?g"
      by (simp_all add: observer_objs_def)
    ultimately show "own_field (put r ''valueListObserver'' (FRef (length g)) ?g) r ''valueListObserver'' = FUndefined
      \<or> points (put r ''valueListObserver'' (FRef (length g)) ?g) r ''valueListObserver'' ValueListObserverC
        \<and> points_back (put r ''valueListObserver'' (FRef (length g)) ?g) r ''valueListObserver'' ''delegate''"
      using vlo by (simp add: points_def points_back_def)
  qed (use assms(2) in \<open>auto simp: own_field_put\<close>)
  with eq show ?thesis by blast
next
  case False
  with assms(1) show ?thesis by (simp add: BindingObserver_start_obj_def)
qed

lemma wired_stop:
  assumes "wired app sch el g" and "r < length g" and "i_class (g ! r) = BindingObserverC"
  shows "wired app sch el (BindingObserver_stop_obj r g)"
proof -
  have "wired app sch el (remove_field r ''valueListObserver'' g)"
    by (rule wired_same [OF assms(1) _ _ _ assms(3)]) (use assms(2) in \<open>auto simp: own_field_remove\<close>)
  with assms(1) show ?thesis by (simp add: BindingObserver_stop_obj_def)
qed

lemma wired_action:
  assumes "wired app sch el g" and "r < length g" and "i_class (g ! r) = BindingObserverC" and "connectAction_obj r act g = (b, g')"
  shows "wired app sch el g'"
proof -
  obtain c where "own_field g r ''context'' = FRef c" "c < length g" "i_class (g ! c) = ContextC"
    using binding_observer_context [OF assms(1-3)] .
  with assms(1,4) show ?thesis
    by (auto simp: connectAction_obj_def new_Binding_obj_def new_obj_def new_object_simps intro!: wired_extend)
qed

lemma built_wired: "built bl vs app sch el g \<Longrightarrow> wired app sch el g"
proof (induction rule: built.induct)
  case (app_made c a t g)
  then show ?case
    using wired_application [of "schema_obj c a t" el]
    by (auto simp: new_Application_obj_eq schema_obj_def is_str_def own_field_def)
next
  case (scope_made g r e i s g')
  then show ?case using wired_scope [of app sch el g r e i] by auto
next
  case (ctx_made g m s oc d c g')
  then show ?case using wired_context [of app sch el g m s] by blast
next
  case (bo_start g r g')
  then show ?case using wired_start [of app sch el g r] by auto
qed (auto dest: wired_module wired_action intro: wired_stop)

text \<open>The context of the other theories that a context object stands for.\<close>

definition abs_ctx :: "graph \<Rightarrow> nat \<Rightarrow> ctx" where
  "abs_ctx g c = \<lparr>ctx_module = (case own_field g c ''module'' of FRef m \<Rightarrow> m | _ \<Rightarrow> 0),
     ctx_scope = abs_scope g (case own_field g c ''scope'' of FRef s \<Rightarrow> s | _ \<Rightarrow> 0)\<rparr>"

lemma scope_parts:
  assumes "wired app sch el g" and "s < length g" and "i_class (g ! s) = ScopeC"
  obtains t c d where "own_field g s ''targets'' = FRef t" "own_field g t ''scope'' = FRef s" "own_field g s ''classes'' = FRef c"
    "own_field g c ''scope'' = FRef s" "own_field g s ''data'' = FRef d" "own_field g d ''scope'' = FRef s"
  using wired_conforms [OF assms(1,2)] assms(3) by (auto simp: points_back_def split: fval.splits)

lemma context_accessors:
  assumes w: "wired app sch el g" and c: "c < length g" "i_class (g ! c) = ContextC"
  shows "\<exists>k. own_field g c ''controller'' = FRef k \<and> own_field g k ''context'' = FRef c
    \<and> Controller_application g (FRef k) = Inr (FRef app) \<and> Context_schema g (FRef c) = Inr (FRef sch)
    \<and> Context_identifier g (FRef c) = Inr (FStr (scope_identifier (ctx_scope (abs_ctx g c))))
    \<and> Context_element g (FRef c) = Inr (FElement (scope_element (ctx_scope (abs_ctx g c))))
    \<and> Controller_element g (FRef k) = Context_element g (FRef c) \<and> Controller_identifier g (FRef k) = Context_identifier g (FRef c)
    \<and> bind_ok (Controller_targets g (FRef k)) (TargetSet_element g) = Context_element g (FRef c)
    \<and> bind_ok (Controller_targets g (FRef k)) (TargetSet_identifier g) = Context_identifier g (FRef c)
    \<and> bind_ok (Controller_targets g (FRef k)) (TargetSet_schema g) = Context_schema g (FRef c)
    \<and> bind_ok (Controller_data g (FRef k)) (DataMap_element g) = Context_element g (FRef c)
    \<and> bind_ok (Controller_data g (FRef k)) (DataMap_identifier g) = Context_identifier g (FRef c)
    \<and> bind_ok (Controller_classes g (FRef k)) (ClassMap_data g) = Controller_data g (FRef k)"
proof -
  obtain m s k d i e where f: "own_field g c ''module'' = FRef m" "own_field g c ''scope'' = FRef s" "own_field g c ''controller'' = FRef k"
    "m < length g" "s < length g" "k < length g" "i_class (g ! s) = ScopeC" "i_class (g ! k) = ControllerC"
    "own_field g k ''context'' = FRef c" "own_field g m ''application'' = FRef app" "own_field g m ''definition'' = FRef d"
    "own_field g d ''identifier'' = FStr i" "own_field g s ''element'' = FElement e" "own_field g s ''identifier'' = FStr i"
    "own_field g s ''schema'' = FRef sch"
    using context_fields [OF w c] .
  obtain t cl da where "own_field g s ''targets'' = FRef t" "own_field g t ''scope'' = FRef s" "own_field g s ''classes'' = FRef cl"
    "own_field g cl ''scope'' = FRef s" "own_field g s ''data'' = FRef da" "own_field g da ''scope'' = FRef s"
    using scope_parts [OF w f(5,7)] .
  with f show ?thesis
    using application_fields(2) [OF w] by (simp add: accessor_defs abs_ctx_def abs_scope_def)
qed

text \<open>The accessors of the observers and of the router lead to what their constructors were given.\<close>

lemma observer_accessors:
  assumes w: "wired app sch el g" and v: "v < length g" "i_class (g ! v) = ValueListObserverC"
  shows "\<exists>t a e attr. get g ''tokenListObserver'' (FRef v) = Inr (FRef t) \<and> get g ''attributeObserver'' (FRef t) = Inr (FRef a)
    \<and> ValueListObserver_element g (FRef v) = Inr (FElement e) \<and> TokenListObserver_element g (FRef t) = Inr (FElement e)
    \<and> ValueListObserver_attributeName g (FRef v) = Inr (FStr attr) \<and> AttributeObserver_selector g (FRef a) = Inr (FStr (''['' @ attr @ '']''))
    \<and> ValueListObserver_started g (FRef v) = AttributeObserver_started g (FRef a)"
proof -
  obtain t where t: "own_field g v ''tokenListObserver'' = FRef t" "t < length g" "i_class (g ! t) = TokenListObserverC"
    using wired_conforms [OF w v(1)] v(2) by (auto simp: points_def split: fval.splits)
  moreover obtain a where a: "own_field g t ''attributeObserver'' = FRef a" "a < length g" "i_class (g ! a) = AttributeObserverC"
    using wired_conforms [OF w t(2)] t(3) by (auto simp: points_def split: fval.splits)
  moreover obtain eo attr where eo: "own_field g a ''elementObserver'' = FRef eo" "eo < length g" "i_class (g ! eo) = ElementObserverC"
      "own_field g a ''attributeName'' = FStr attr"
    using wired_conforms [OF w a(2)] a(3) by (auto simp: points_def is_str_def split: fval.splits)
  moreover obtain e where "own_field g eo ''element'' = FElement e"
    using wired_conforms [OF w eo(2)] eo(3) by (auto simp: is_element_def split: fval.splits)
  ultimately show ?thesis by (simp add: accessor_defs)
qed

lemma router_accessors:
  assumes w: "wired app sch el g" and r: "r < length g" "i_class (g ! r) = RouterC"
  shows "Router_element g (FRef r) = Inr (FElement el)" and "Router_schema g (FRef r) = Inr (FRef sch)"
    and "Router_logger g (FRef r) = Inr FConsole"
    and "Router_controllerAttribute g (FRef r) = bind_ok (get g ''scopeObserver'' (FRef r)) (ScopeObserver_controllerAttribute g)"
proof -
  obtain so where so: "own_field g r ''application'' = FRef app" "own_field g r ''scopeObserver'' = FRef so" "so < length g" "i_class (g ! so) = ScopeObserverC"
    using wired_conforms [OF w r(1)] r(2) by (auto simp: points_def split: fval.splits)
  moreover have "own_field g so ''schema'' = FRef sch" using wired_conforms [OF w so(3)] so(4) by simp
  ultimately show "Router_element g (FRef r) = Inr (FElement el)" "Router_schema g (FRef r) = Inr (FRef sch)"
    "Router_logger g (FRef r) = Inr FConsole"
    "Router_controllerAttribute g (FRef r) = bind_ok (get g ''scopeObserver'' (FRef r)) (ScopeObserver_controllerAttribute g)"
    using application_fields [OF w] by (simp_all add: accessor_defs)
qed

lemma context_parent:
  "wired app sch el g \<Longrightarrow> c < length g \<Longrightarrow> i_class (g ! c) = ContextC \<Longrightarrow>
     Context_parentElement d g (FRef c) = Inr (parentElement d (scope_element (ctx_scope (abs_ctx g c))))"
  using context_accessors [of app sch el g c] by (auto simp: Context_parentElement_def)

section \<open>A small application\<close>

text \<open>An application on the element 0 with one definition, a scope on the element 5, its context and a binding.\<close>

definition sample_action :: action where
  "sample_action = \<lparr>act_id = 0, act_element = 6, act_index = 0, act_eventTarget = Element 6, act_eventName = ''click'',
     act_eventOptions = [], act_identifier = ''unicast'', act_methodName = ''send''\<rparr>"

definition sample_values :: "nat \<Rightarrow> (string \<times> type_constant) list" where
  "sample_values c = (if c = 3 then [(''addr'', StringC)] else [])"

definition sample_map :: "(string, value_descriptor) jsmap" where
  "sample_map = [(''data-unicast-addr-value'', \<lparr>vd_type = StringT, vd_key = ''addr-value'', vd_name = ''addrValue''\<rparr>)]"

text \<open>A controller whose methods return, and one whose method for the value throws.\<close>

definition calm_code :: own_code where
  "calm_code = \<lparr>oc_method = (\<lambda>_. MReturns), oc_initialize = Some ''no server''\<rparr>"

definition failing_code :: own_code where
  "failing_code = \<lparr>oc_method = (\<lambda>name. if name = ''addrValueChanged'' then MThrows ''no address'' else NoMethod), oc_initialize = None\<rparr>"

definition sample_doc :: dom where
  "sample_doc = [El 0 ''html'' [] [El 5 ''form'' [(''data-controller'', ''unicast'')] []]]"

definition sample_app :: graph where
  "sample_app = schema_obj ''data-controller'' ''data-action'' ''data-target'' # application_objs (FElement 0) 0 (FStr ''data-controller'') 1"

definition sample_scope :: graph where
  "sample_scope = sample_app @
     [\<lparr>i_class = ModuleC, i_fields = [(''application'', FRef 1), (''definition'', FRef 10)]\<rparr>,
      \<lparr>i_class = DefinitionC, i_fields = [(''identifier'', FStr ''unicast''), (''controllerConstructor'', FClass 3)]\<rparr>]
     @ scope_objs (FRef 0) (FElement 5) (FStr ''unicast'') FConsole 11"

definition sample_graph :: graph where
  "sample_graph = sample_scope @ context_objs 9 11 3 sample_map (FRef 2) (FElement 5) 16
     @ [\<lparr>i_class = BindingC, i_fields = [(''context'', FRef 16), (''action'', FAction sample_action)]\<rparr>]"

lemmas sample_objs = sample_app_def schema_obj_def application_objs_def router_objs_def observer_objs_def scope_objs_def context_objs_def

lemma sample_nth [simp]:
  "length sample_app = 9" "length sample_scope = 16" "length sample_graph = 22"
  "i_class (sample_graph ! 3) = RouterC" "i_class (sample_graph ! 9) = ModuleC" "i_class (sample_graph ! 11) = ScopeC"
  "i_class (sample_graph ! 17) = ControllerC" "i_class (sample_graph ! 21) = BindingC"
  by (simp_all add: sample_graph_def sample_scope_def sample_objs)

lemma sample_built: "built Inr sample_values 1 0 0 sample_graph"
proof -
  let ?m = "sample_app @ [\<lparr>i_class = ModuleC, i_fields = [(''application'', FRef 1), (''definition'', FRef 10)]\<rparr>,
      \<lparr>i_class = DefinitionC, i_fields = [(''identifier'', FStr ''unicast''), (''controllerConstructor'', FClass 3)]\<rparr>]"
  have "new_Application_obj (FElement 0) (FRef 0) [schema_obj ''data-controller'' ''data-action'' ''data-target''] = Inr (1, sample_app)"
    by (simp add: new_Application_obj_eq sample_app_def) (simp add: own_field_def schema_obj_def)
  then have "built Inr sample_values 1 0 0 sample_app" by (intro app_made) auto
  moreover have "new_Module_obj Inr (FRef 1) ''unicast'' 3 sample_app = Inr (9, ?m)"
    by (simp add: new_Module_obj_eq)
  ultimately have m: "built Inr sample_values 1 0 0 ?m" by (rule def_loaded)
  moreover have r: "3 < length ?m" "i_class (?m ! 3) = RouterC" by (simp_all add: sample_objs)
  moreover have "own_field ?m 3 ''application'' = FRef 1" "own_field ?m 1 ''schema'' = FRef 0" "own_field ?m 1 ''logger'' = FConsole"
    by (simp_all add: own_field_def sample_objs)
  then have "createScope_obj (FRef 3) 5 ''unicast'' ?m = Inr (11, sample_scope)"
    by (simp add: createScope_obj_def accessor_defs new_Scope_obj_eq sample_scope_def)
  ultimately have s: "built Inr sample_values 1 0 0 sample_scope" by (rule scope_made)
  have f: "own_field sample_scope 9 ''definition'' = FRef 10" "own_field sample_scope 10 ''controllerConstructor'' = FClass 3"
    "own_field sample_scope 9 ''application'' = FRef 1" "own_field sample_scope 1 ''dispatcher'' = FRef 2"
    "own_field sample_scope 11 ''element'' = FElement 5" "own_field sample_scope 10 ''identifier'' = FStr ''unicast''"
    "own_field sample_scope 11 ''identifier'' = FStr ''unicast''" "own_field sample_scope 1 ''logger'' = FConsole"
    "own_field sample_scope 11 ''data'' = FRef 14" "own_field sample_scope 14 ''scope'' = FRef 11"
    by (simp_all add: own_field_def sample_scope_def sample_objs)
  let ?sc = "\<lparr>scope_element = 5, scope_identifier = ''unicast''\<rparr>"
  have "valueDescriptorMap ?sc (sample_values 3) = Inr sample_map" by code_simp
  moreover have "default_throw calm_code [] ?sc (map snd sample_map) = None"
    by (simp add: sample_map_def calm_code_def)
  ultimately have "new_Context_obj sample_values calm_code [] (FRef 9) (FRef 11) sample_scope =
      Inr (16, sample_scope @ context_objs 9 11 3 sample_map (FRef 2) (FElement 5) 16)"
    using new_Context_obj_eq [of 9 sample_scope 11 10 3 1 14 ?sc] f by (simp add: is_str_def)
  moreover have "i_class (sample_scope ! 9) = ModuleC" "i_class (sample_scope ! 11) = ScopeC" by (simp_all add: sample_scope_def sample_objs)
  ultimately have c: "built Inr sample_values 1 0 0 (sample_scope @ context_objs 9 11 3 sample_map (FRef 2) (FElement 5) 16)"
    using f by (intro ctx_made [OF s, of 9 11 calm_code "[]" 16]) (simp_all add: Module_identifier_def)
  have "connectAction_obj 18 sample_action (sample_scope @ context_objs 9 11 3 sample_map (FRef 2) (FElement 5) 16) = (21, sample_graph)"
    by (simp add: connectAction_obj_def new_Binding_obj_def new_obj_def sample_graph_def context_objs_def put_def own_field_def
        nth_append list_update_append)
  then show ?thesis by (rule act_connected [OF c, rotated 2]) (simp_all add: context_objs_def nth_append)
qed

text \<open>
  C13: In every state of an application the accessors of a controller lead to the application, to the
  element and the identifier of its scope, and the targets, the data and the classes of the controller
  are those of the same element, identifier and schema; the controller of its context is itself.
\<close>

theorem controllers_are_wired:
  assumes "built bl vs app sch el g" and "k < length g" and "i_class (g ! k) = ControllerC"
  shows "\<exists>c. get g ''context'' (FRef k) = Inr (FRef c) \<and> get g ''controller'' (FRef c) = Inr (FRef k)
    \<and> Controller_application g (FRef k) = Inr (FRef app)
    \<and> Controller_element g (FRef k) = Inr (FElement (scope_element (ctx_scope (abs_ctx g c))))
    \<and> Controller_identifier g (FRef k) = Inr (FStr (scope_identifier (ctx_scope (abs_ctx g c))))
    \<and> bind_ok (Controller_targets g (FRef k)) (TargetSet_element g) = Controller_element g (FRef k)
    \<and> bind_ok (Controller_targets g (FRef k)) (TargetSet_identifier g) = Controller_identifier g (FRef k)
    \<and> bind_ok (Controller_targets g (FRef k)) (TargetSet_schema g) = Inr (FRef sch)
    \<and> bind_ok (Controller_data g (FRef k)) (DataMap_element g) = Controller_element g (FRef k)
    \<and> bind_ok (Controller_data g (FRef k)) (DataMap_identifier g) = Controller_identifier g (FRef k)
    \<and> bind_ok (Controller_classes g (FRef k)) (ClassMap_data g) = Controller_data g (FRef k)"
proof -
  have w: "wired app sch el g" by (rule built_wired [OF assms(1)])
  obtain c where c: "own_field g k ''context'' = FRef c" "c < length g" "i_class (g ! c) = ContextC" "own_field g c ''controller'' = FRef k"
    using wired_conforms [OF w assms(2)] assms(3) by (auto simp: points_def points_back_def split: fval.splits)
  with context_accessors [OF w c(2,3)] show ?thesis by (intro exI [of _ c]) auto
qed

theorem controllers_are_wired_witness:
  "\<exists>c. get sample_graph ''context'' (FRef 17) = Inr (FRef c) \<and> get sample_graph ''controller'' (FRef c) = Inr (FRef 17)
    \<and> Controller_application sample_graph (FRef 17) = Inr (FRef 1)
    \<and> Controller_element sample_graph (FRef 17) = Inr (FElement (scope_element (ctx_scope (abs_ctx sample_graph c))))"
proof -
  from controllers_are_wired [OF sample_built, of 17] show ?thesis by auto
qed

text \<open>
  The accessors of a binding are the fields of the record that stands for it at the dispatcher: the
  index, the event and the method of its action, the element and the identifier of its context; and
  the controller it calls is the one of its context.
\<close>

theorem bindings_match_the_model:
  assumes "built bl vs app sch el g" and "b < length g" and "i_class (g ! b) = BindingC"
  shows "\<exists>c a bd. own_field g b ''context'' = FRef c \<and> own_field g b ''action'' = FAction a
    \<and> bd = \<lparr>b_context = abs_ctx g c, b_action = a\<rparr>
    \<and> Binding_index g (FRef b) = Inr (FNat (act_index (b_action bd)))
    \<and> Binding_eventTarget g (FRef b) = Inr (FTarget (act_eventTarget (b_action bd)))
    \<and> Binding_eventName g (FRef b) = Inr (FStr (act_eventName (b_action bd)))
    \<and> Binding_eventOptions g (FRef b) = Inr (FOptions (act_eventOptions (b_action bd)))
    \<and> Binding_methodName g (FRef b) = Inr (FStr (act_methodName (b_action bd)))
    \<and> Binding_element g (FRef b) = Inr (FElement (scope_element (ctx_scope (b_context bd))))
    \<and> Binding_identifier g (FRef b) = Inr (FStr (scope_identifier (ctx_scope (b_context bd))))
    \<and> bind_ok (Binding_controller g (FRef b)) (get g ''context'') = Inr (FRef c)
    \<and> bind_ok (Binding_controller g (FRef b)) (Controller_element g) = Binding_element g (FRef b)"
proof -
  have w: "wired app sch el g" by (rule built_wired [OF assms(1)])
  obtain c a where c: "own_field g b ''context'' = FRef c" "c < length g" "i_class (g ! c) = ContextC" and a: "own_field g b ''action'' = FAction a"
    using wired_conforms [OF w assms(2)] assms(3) by (auto simp: points_def is_action_def split: fval.splits)
  have "Binding_element g (FRef b) = Context_element g (FRef c)" "Binding_identifier g (FRef b) = Context_identifier g (FRef c)"
    using c(1) by (simp_all add: Binding_element_def Binding_scope_def Context_element_def Binding_identifier_def)
  with context_accessors [OF w c(2,3)] c(1) a show ?thesis
    by (intro exI [of _ c] exI [of _ a] exI [of _ "\<lparr>b_context = abs_ctx g c, b_action = a\<rparr>"])
      (auto simp: Binding_controller_def Binding_index_def Binding_eventTarget_def Binding_eventName_def
        Binding_eventOptions_def Binding_methodName_def action_field_def)
qed

theorem bindings_match_the_model_witness:
  "\<exists>c a. own_field sample_graph 21 ''context'' = FRef c \<and> own_field sample_graph 21 ''action'' = FAction a
    \<and> Binding_methodName sample_graph (FRef 21) = Inr (FStr (act_methodName a))
    \<and> Binding_element sample_graph (FRef 21) = Inr (FElement (scope_element (ctx_scope (abs_ctx sample_graph c))))"
proof -
  from bindings_match_the_model [OF sample_built, of 21] show ?thesis by auto
qed

lemma unknown_type_cause:
  "valueDescriptorMap_from sc pairs acc = Inl e \<Longrightarrow> \<exists>p \<in> set pairs. parseValueDefinitionPair p = Inl e"
  by (induction pairs arbitrary: acc) (auto split: sum.splits)

lemma descriptor_cause:
  "valueDescriptorMap_from sc pairs acc = Inr vdm \<Longrightarrow> vd \<in> snd ` set vdm \<Longrightarrow>
     vd \<in> snd ` set acc \<or> (\<exists>p \<in> set pairs. parseValueDefinitionPair p = Inr vd)"
proof (induction pairs arbitrary: acc)
  case (Cons pair pairs)
  have upd: "snd ` set (AList.update k v xs) \<subseteq> insert v (snd ` set xs)" for k v and xs :: "(string, value_descriptor) jsmap"
    by (induction xs) auto
  from Cons.prems obtain v where v: "parseValueDefinitionPair pair = Inr v"
      "valueDescriptorMap_from sc pairs (AList.update (getAttributeNameForKey sc (vd_key v)) v acc) = Inr vdm"
    by (auto split: sum.splits)
  consider "vd \<in> snd ` set (AList.update (getAttributeNameForKey sc (vd_key v)) v acc)"
    | "\<exists>p \<in> set pairs. parseValueDefinitionPair p = Inr vd"
    using Cons.IH [OF v(2) Cons.prems(2)] by blast
  then show ?case
  proof cases
    case 1
    then have "vd = v \<or> vd \<in> snd ` set acc" using upd by blast
    with v(1) show ?thesis by auto
  qed auto
qed auto

lemma context_failure:
  assumes "wired app sch el g" and "m < length g" and "i_class (g ! m) = ModuleC" and "s < length g" and "i_class (g ! s) = ScopeC"
    and "new_Context_obj vs oc d (FRef m) (FRef s) g = Inl e"
  shows "\<exists>c msg. Module_controllerConstructor g (FRef m) = Inr (FClass c) \<and> e = Thrown msg
      \<and> ((\<exists>p \<in> set (vs c). parseValueDefinitionPair p = Inl msg)
        \<or> (\<exists>p \<in> set (vs c). \<exists>vd. parseValueDefinitionPair p = Inr vd \<and> \<not> DataMap_has d (abs_scope g s) (vd_key vd) \<and> oc_method oc (vd_name vd @ ''Changed'') = MThrows msg))"
proof -
  obtain c where c: "Module_controllerConstructor g (FRef m) = Inr (FClass c)"
    and o: "new_Context_obj vs oc d (FRef m) (FRef s) g =
    (case valueDescriptorMap (abs_scope g s) (vs c) of
       Inl e \<Rightarrow> Inl (Thrown e)
     | Inr vdm \<Rightarrow> (case default_throw oc d (abs_scope g s) (map snd vdm) of
         Some e \<Rightarrow> Inl (Thrown e)
       | None \<Rightarrow> Inr (length g, g @ context_objs m s c vdm (own_field g app ''dispatcher'') (own_field g s ''element'') (length g))))"
    by (rule context_outcome [OF assms(1-5)])
  show ?thesis
  proof (cases "valueDescriptorMap (abs_scope g s) (vs c)")
    case (Inl msg)
    with o assms(6) have "e = Thrown msg" by simp
    moreover from Inl have "\<exists>p \<in> set (vs c). parseValueDefinitionPair p = Inl msg"
      unfolding valueDescriptorMap_def by (rule unknown_type_cause)
    ultimately show ?thesis using c by blast
  next
    case (Inr vdm)
    with o assms(6) obtain msg where msg: "default_throw oc d (abs_scope g s) (map snd vdm) = Some msg" "e = Thrown msg"
      by (auto split: option.splits)
    from default_throw_cause [OF msg(1)] descriptor_cause [of "abs_scope g s" "vs c" "[]" vdm] Inr have "\<exists>p \<in> set (vs c). \<exists>vd. parseValueDefinitionPair p = Inr vd \<and> \<not> DataMap_has d (abs_scope g s) (vd_key vd)
        \<and> oc_method oc (vd_name vd @ ''Changed'') = MThrows msg"
      by (fastforce simp: valueDescriptorMap_def)
    with c msg(2) show ?thesis by (intro exI [of _ c] exI [of _ msg] conjI disjI2)
  qed
qed

text \<open>
  C37: No constructor of the framework reads a field that is not yet there: in every state of an
  application, scopes can be created and the observer of a context can be started; loading a
  definition fails only when its class cannot be blessed; and making a context of a module and a
  scope, with the getter of the value descriptors, the announcement of default values and
  \<open>initialize\<close>, fails only where the class declares a value of an unknown type or the method of the
  controller for a value without its attribute throws, and then with that exception.
\<close>

theorem constructors_do_not_throw:
  assumes "built bl vs app sch el g"
  shows "(\<forall>r element ident. r < length g \<and> i_class (g ! r) = RouterC \<longrightarrow> \<not> isl (createScope_obj (FRef r) element ident g))
    \<and> (\<forall>m s oc d e. m < length g \<and> i_class (g ! m) = ModuleC \<and> s < length g \<and> i_class (g ! s) = ScopeC
         \<and> new_Context_obj vs oc d (FRef m) (FRef s) g = Inl e \<longrightarrow>
         (\<exists>c msg. Module_controllerConstructor g (FRef m) = Inr (FClass c) \<and> e = Thrown msg
           \<and> ((\<exists>p \<in> set (vs c). parseValueDefinitionPair p = Inl msg)
             \<or> (\<exists>p \<in> set (vs c). \<exists>vd. parseValueDefinitionPair p = Inr vd \<and> \<not> DataMap_has d (abs_scope g s) (vd_key vd) \<and> oc_method oc (vd_name vd @ ''Changed'') = MThrows msg))))
    \<and> (\<forall>r. r < length g \<and> i_class (g ! r) = BindingObserverC \<longrightarrow> \<not> isl (BindingObserver_start_obj r g))
    \<and> (\<forall>ident ctor. isl (new_Module_obj bl (FRef app) ident ctor g) \<longleftrightarrow> isl (bl ctor))
    \<and> (\<forall>e. \<not> isl (new_Application_obj (FElement e) (FRef sch) g))"
proof -
  have w: "wired app sch el g" by (rule built_wired [OF assms])
  have "\<forall>r element ident. r < length g \<and> i_class (g ! r) = RouterC \<longrightarrow> \<not> isl (createScope_obj (FRef r) element ident g)"
    using wired_scope [OF w] by (metis sum.disc(2))
  moreover have "\<forall>m s oc d e. m < length g \<and> i_class (g ! m) = ModuleC \<and> s < length g \<and> i_class (g ! s) = ScopeC
      \<and> new_Context_obj vs oc d (FRef m) (FRef s) g = Inl e \<longrightarrow>
      (\<exists>c msg. Module_controllerConstructor g (FRef m) = Inr (FClass c) \<and> e = Thrown msg
        \<and> ((\<exists>p \<in> set (vs c). parseValueDefinitionPair p = Inl msg)
          \<or> (\<exists>p \<in> set (vs c). \<exists>vd. parseValueDefinitionPair p = Inr vd \<and> \<not> DataMap_has d (abs_scope g s) (vd_key vd) \<and> oc_method oc (vd_name vd @ ''Changed'') = MThrows msg)))"
    by (intro allI impI, elim conjE, rule context_failure [OF w])
  moreover have "\<forall>r. r < length g \<and> i_class (g ! r) = BindingObserverC \<longrightarrow> \<not> isl (BindingObserver_start_obj r g)"
    using wired_start [OF w] by (metis sum.disc(2))
  moreover have "\<forall>ident ctor. isl (new_Module_obj bl (FRef app) ident ctor g) \<longleftrightarrow> isl (bl ctor)"
    by (simp add: new_Module_obj_eq split: sum.split)
  moreover have "\<forall>e. \<not> isl (new_Application_obj (FElement e) (FRef sch) g)"
    using w by (simp add: wired_def new_Application_obj_eq)
  ultimately show ?thesis by (intro conjI)
qed

text \<open>In the small application, with a controller that throws nowhere, and with one whose method throws.\<close>

lemma failing_context: "isl (new_Context_obj sample_values failing_code sample_doc (FRef 9) (FRef 11) sample_graph)"
proof -
  let ?sc = "\<lparr>scope_element = 5, scope_identifier = ''unicast''\<rparr>"
  have f: "own_field sample_graph 9 ''definition'' = FRef 10" "own_field sample_graph 10 ''controllerConstructor'' = FClass 3"
    "own_field sample_graph 9 ''application'' = FRef 1" "own_field sample_graph 10 ''identifier'' = FStr ''unicast''"
    "own_field sample_graph 11 ''element'' = FElement 5" "own_field sample_graph 11 ''identifier'' = FStr ''unicast''"
    "own_field sample_graph 1 ''logger'' = FConsole" "own_field sample_graph 11 ''data'' = FRef 14" "own_field sample_graph 14 ''scope'' = FRef 11"
    by (simp_all add: own_field_def sample_graph_def sample_scope_def sample_objs)
  have "valueDescriptorMap ?sc (sample_values 3) = Inr sample_map" by code_simp
  moreover have "default_throw failing_code sample_doc ?sc (map snd sample_map) = Some ''no address''" by code_simp
  ultimately show ?thesis
    using new_Context_obj_eq [of 9 sample_graph 11 10 3 1 14 ?sc] f by (simp add: is_str_def)
qed

theorem constructors_do_not_throw_witness:
  "new_Context_obj sample_values failing_code sample_doc (FRef 9) (FRef 11) sample_graph = Inl (Thrown ''no address'')
    \<and> \<not> isl (new_Context_obj sample_values calm_code sample_doc (FRef 9) (FRef 11) sample_graph)
    \<and> \<not> isl (createScope_obj (FRef 3) 8 ''catalog'' sample_graph)"
proof -
  note t = constructors_do_not_throw [OF sample_built]
  have c: "Module_controllerConstructor sample_graph (FRef 9) = Inr (FClass 3)"
    by (simp add: Module_controllerConstructor_def own_field_def sample_graph_def sample_scope_def sample_objs)
  have p: "parseValueDefinitionPair p \<noteq> Inl msg" if "p \<in> set (sample_values 3)" for p msg
    using that by (simp add: sample_values_def parseValueDefinitionPair_def)
  have e: "\<exists>(vd :: value_descriptor) msg. e = Thrown msg \<and> oc_method oc (vd_name vd @ ''Changed'') = MThrows msg"
    if "new_Context_obj sample_values oc sample_doc (FRef 9) (FRef 11) sample_graph = Inl e" for oc e
    using t [THEN conjunct2, THEN conjunct1, rule_format, of 9 11 oc sample_doc e] that c p by auto
  have "\<not> isl (new_Context_obj sample_values calm_code sample_doc (FRef 9) (FRef 11) sample_graph)"
    using e [of calm_code] by (auto simp: isl_def calm_code_def)
  moreover obtain x where "new_Context_obj sample_values failing_code sample_doc (FRef 9) (FRef 11) sample_graph = Inl x"
    using failing_context by (auto simp: isl_def)
  moreover from e [OF this] have "x = Thrown ''no address''" by (auto simp: failing_code_def split: if_splits)
  moreover have "\<not> isl (createScope_obj (FRef 3) 8 ''catalog'' sample_graph)"
    using t [THEN conjunct1, rule_format, of 3] by simp
  ultimately show ?thesis by simp
qed

end
