(* ===== verification/Spec2Isabelle.thy ===== *)
theory Spec2Isabelle
  imports Multimap Gui_Props Gui_Liveness Context Viz_Image Page_Main Generator Follow Js_Classes Object_Graph
begin

text \<open>
  A model of the JavaScript client of MarketPeer, the page by which a user drives a node, with the
  theorems that make it correct. The scripts are under src/gui/web/assets/scripts: main.js is the
  page itself, stimulus.js (Stimulus 2.0.0) the framework that finds and runs its controllers, viz.js
  the front end of the renderer for graphs; node.html is the document they run in.

  \<^bold>\<open>How the parts interact.\<close> \<open>main\<close> (main.js) creates an \<open>Application\<close> of stimulus.js and registers a
  class for each identifier. When the document is ready the application observes the document: a
  \<open>MutationObserver\<close> feeds an \<open>ElementObserver\<close>, whose delegate is an \<open>AttributeObserver\<close>, then a
  \<open>TokenListObserver\<close>, a \<open>ValueListObserver\<close>, the \<open>ScopeObserver\<close> and the \<open>Router\<close>, which creates,
  connects and disconnects a \<open>Context\<close> for each element and identifier. A connected context observes
  the \<open>data-action\<close> attributes below its element in the same way (\<open>BindingObserver\<close>), hands
  bindings to the \<open>Dispatcher\<close>, which listens to events, and observes the attributes that hold the
  values of the controller (\<open>StringMapObserver\<close>, \<open>ValueObserver\<close>). An event runs methods of the
  controllers of main.js, which read forms, send requests to the node and write the answers into the
  page, as asynchronous functions that the browser interleaves.

  \<^bold>\<open>Foundations.\<close>
  \<^item> \<open>Js_Prelude\<close>: \<open>Map\<close> and \<open>Set\<close> in insertion order, loops that make calls (\<open>each\<close>), collections of
    rules. \<open>Js_String\<close>: the string operations of the language. \<open>Js_Number\<close>: integers in the binary format
    of the language, how they are rounded, divided and printed. \<open>Json\<close>, \<open>Json_Parse\<close>: \<open>JSON.stringify\<close>
    and \<open>JSON.parse\<close>, the latter as a scanner and a push-down automaton that ends on every text.
  \<^item> \<open>Dom\<close>, \<open>Mutation\<close>: documents as forests of elements, selectors, changes, and the records that
    an observer gets, the transient observers on removed subtrees included.

  \<^bold>\<open>stimulus.js.\<close>
  \<^item> \<open>Multimap\<close> (\<open>Multimap\<close>, \<open>IndexedMultimap\<close>): the contract of both is the locale
    \<open>multimap_contract\<close>; every run refines a relation, and the reverse index agrees with the scans.
  \<^item> \<open>Element_Observer\<close>, \<open>Element_Sync\<close>, \<open>Element_Calls\<close> (\<open>ElementObserver\<close>, \<open>AttributeObserver\<close>): the
    set of elements follows the document over any changes between two deliveries, as long as the
    observed element is not itself moved below a node that was removed from inside it (\<open>apart\<close>; the
    element of the document never is), and the calls to the delegate report exactly the changes of
    the set.
  \<^item> \<open>Token_List\<close>, \<open>Token_Sync\<close> (\<open>TokenListObserver\<close>): the tokens follow the attributes, and a change
    reports no more than it has to. \<open>Value_List\<close> (\<open>ValueListObserver\<close>): the locale \<open>counting_delegate\<close>
    states what its delegates promise; \<open>ScopeObserver\<close> and \<open>BindingObserver\<close> are its instances.
  \<^item> \<open>Router\<close> (\<open>Module\<close>, \<open>Router\<close>), \<open>Application\<close> (\<open>ScopeObserver\<close>, \<open>Application\<close>), \<open>Controllers\<close>: the
    controllers that exist are the ones the document asks for, each with its life in the right
    order, over runs in which the application is also stopped and started again (\<open>app_run\<close>, which
    keeps the elements whose attribute changed unseen in the meantime); \<open>Start_Order\<close>: they start in the order of the document. \<open>Observer_Chain\<close>: \<open>start\<close>, \<open>stop\<close> and
    \<open>refresh\<close> on their way through the observers; \<open>Follow\<close>: the locale \<open>following\<close> for observers that
    show the document after a delivery, with the element observer and the application as instances;
    when the browser delivers records makes no difference.
  \<^item> \<open>Object_Graph\<close>: the constructors of all these classes on one store of objects, each assignment in its
    order, and the accessors that forward from one object to another, with the getter of the value
    descriptors and the announcement of default values that the constructor of a context runs. No
    constructor reads a field that is not there yet, only the class and the methods of a controller
    can make one fail, and in every state the accessors of a controller, of its targets, data and
    classes and of its bindings lead to the same scope, which is what the records of the other
    theories stand for.
  \<^item> \<open>Action\<close>, \<open>Scope_Targets\<close> (\<open>Scope\<close>, \<open>TargetSet\<close>, \<open>DataMap\<close>, \<open>ClassMap\<close>, \<open>Guide\<close>), \<open>Dispatcher\<close>,
    \<open>Dispatch_Order\<close> (\<open>EventListener\<close>, \<open>Binding\<close>, \<open>Dispatcher\<close>), \<open>Binding_Observer\<close>, \<open>Context\<close>:
    descriptors round-trip, an event reaches exactly the bindings that are connected for it, in
    their order, bindings follow the document, and a disconnected context is silent.
  \<^item> \<open>Values\<close>, \<open>String_Map\<close>, \<open>Blessing\<close>: values survive the way through an attribute and have their
    declared types, each change is announced once, and the properties of a class are those that its
    hierarchy declares.
  \<^item> \<open>Js_Objects\<close>, \<open>Js_Classes\<close> (\<open>__extends\<close>, \<open>extend\<close>, \<open>createClass\<close>, \<open>classCallCheck\<close>): classes as objects with
    prototypes on a heap. Both ways of \<open>extend\<close> derive the class that \<open>Blessing\<close> works with, \<open>new\<close> on it
    makes a controller, and methods are found on instances without being listed.
  \<^item> \<open>Generator\<close> (\<open>__generator\<close>, \<open>__awaiter\<close>, \<open>__spreadArrays\<close>, the body of \<open>Application.start\<close>): the
    compiled form of an asynchronous function runs its segments as the language says.

  \<^bold>\<open>main.js.\<close>
  \<^item> \<open>Gui_Flash\<close> (\<open>Flash\<close>): every message has a timer and goes away.
  \<^item> \<open>Gui_Page\<close>, \<open>Gui_Handlers\<close>, \<open>Gui_Run\<close>: the state of the page, every handler cut at its awaits,
    and the steps of the page as a relation in which clicks, answers, failures, notifications and
    timers come in any order. \<open>Gui_Forms\<close>: the locale \<open>form_handler\<close> for the handlers that read a
    form, with one interpretation for each. \<open>Node_Api\<close>: what the node's mux lets through.
  \<^item> \<open>Gui_Safety\<close>, \<open>Gui_Props\<close>: what holds in every reachable state: requests go to registered paths,
    that of the \<open>EventSource\<close> included, a message is shown as sent only when the node acknowledged it
    or is its source, incomplete forms send nothing (but for \<open>Naming.resolve\<close>), and only a malformed
    address of the page and notifications of packets leave an exception. \<open>Gui_Liveness\<close>: handlers end; a potential bounds the
    settlements that the page can still wait for, six for a click.
  \<^item> \<open>Collapsible\<close>, \<open>Page_Main\<close>: \<open>main\<close>, the folding sections and node.html as a document. The page
    comes up with all its controllers, and targets and buttons fit the classes. \<open>Document_Walk\<close> has the
    lemmas by which look-ups are evaluated on the whole document.

  \<^bold>\<open>viz.js.\<close> \<open>Viz\<close>: the two wrappers of a renderer, \<open>renderString\<close> and the methods on top of it; a
  worker gives each caller what the renderer in the page gives, whatever the order of its answers.
  A rejection is known by its message. \<open>Viz_Image\<close>: the address of an SVG text, for every list of
  16-bit code units, and the sizes of its image.

  \<^bold>\<open>Conventions.\<close> State is a record, an operation a function to the new state; calls that an object
  makes to its delegate or to the browser are part of the result. Exceptions and failures are
  values. What is not in the repository is a parameter: the answers of the node, the times, sizes and
  files of the browser, the methods of controllers, the renderer. Loops need no fuel: recursion
  is on data, the look-up along prototypes is bounded by the size of the heap, which is enough because
  chains have no repetition, the depth of nested calls in a construction is bounded by a number that the
  theorems give (the classes of the hierarchy and two more), the loop of \<open>__generator\<close>, which a body can keep running, is a partial function that is
  shown to return, and where code can wait for ever (requests, the worker) a step is a relation.

  \<^bold>\<open>Limits of the model.\<close>
  \<^item> Strings have the 256 code units of HOL's \<open>char\<close>, except the texts of \<open>b64EncodeUnicode\<close>, which have
    all 16-bit code units; numbers are integers. Of a JSON text with other strings or numbers only the
    shape is kept (\<open>Unmodelled\<close>).
  \<^item> While observers process a delivery, controllers' methods do not change the document or call the
    application; a \<open>Changed\<close> method does not throw there (while a context is made it may,
    \<open>Object_Graph\<close>).
  \<^item> A tag named like a member of \<open>Object.prototype\<close>, quotes inside names that go into a selector, and
    keys that are array indices are left out.
  \<^item> A chat packet whose time stamp is not a number or whose source is not a string is left out.
  \<^item> A given scale of an image is positive.

  \<^bold>\<open>Not modelled.\<close> viz.lite.render.js is Graphviz compiled by emscripten, .eslintrc.js configures the
  linter. Of stimulus.js and viz.js the wrappers that export a module, \<open>_typeof\<close>, \<open>getOwnKeys\<close> (there are no
  symbols in the model) and the methods \<open>handleError\<close> of \<open>Dispatcher\<close> and \<open>Router\<close>, which only pass an error on, are left out. The Go code
  of the node is outside the client.

  \<^bold>\<open>What the theorems show beyond correctness.\<close> Some properties state what the code does against its
  intention: \<open>resolve\<close> of \<open>Naming\<close> ignores its form check, an attribute changed while an application is
  stopped is not read again, an observed element below its own removed child loses its elements, values of identifiers with a capital letter are not observed, and
  \<open>renderString\<close> fills the array of files of its caller.
\<close>

end
